(* ===== verification/Prelude.thy ===== *)
theory Prelude
  imports Main "HOL-Library.Word" "HOL-Library.AList"
begin

text \<open>
  Shared material of the development: the machine integers and Go strings of the model, results
  of fallible code, big-endian integers, association lists standing for Go maps whose iteration
  order matters, and the \<open>named_theorems\<close> collections the component proofs simplify with.
\<close>

unbundle bit_operations_syntax

named_theorems outcome_simps \<open>rewriting of sequenced fallible computations\<close>
named_theorems wire_simps \<open>lengths and round trips of wire encodings\<close>
named_theorems store_simps \<open>lookups after an update of a store\<close>
named_theorems inv_intros \<open>preservation of component invariants\<close>

section \<open>Machine integers, bytes and Go strings\<close>

type_synonym u8 = "8 word"
type_synonym u16 = "16 word"
type_synonym u32 = "32 word"
type_synonym u64 = "64 word"
type_synonym bytes = "u8 list"

text \<open>A Go string is a sequence of bytes; the model writes it as a HOL string, one character per byte.\<close>

definition byte_of_char :: "char \<Rightarrow> u8" where
  "byte_of_char c = word_of_nat (of_char c)"

definition char_of_byte :: "u8 \<Rightarrow> char" where
  "char_of_byte b = char_of (unat b)"

definition bytes_of_string :: "string \<Rightarrow> bytes" where
  "bytes_of_string s = map byte_of_char s"

definition string_of_bytes :: "bytes \<Rightarrow> string" where
  "string_of_bytes bs = map char_of_byte bs"

lemma of_char_less_256: "(of_char c :: nat) < 256"
  by (metis char_of_char mod_less_divisor of_char_of zero_less_numeral)

lemma char_of_byte_of_char [simp]: "char_of_byte (byte_of_char c) = c"
  by (simp add: char_of_byte_def byte_of_char_def unat_of_nat of_char_less_256)

lemma byte_of_char_of_byte [simp]: "byte_of_char (char_of_byte b) = b"
proof -
  have "unat b < 2 ^ LENGTH(8)" by (rule unsigned_less)
  then show ?thesis by (simp add: char_of_byte_def byte_of_char_def)
qed

lemma string_of_bytes_of_string [simp]: "string_of_bytes (bytes_of_string s) = s"
  by (simp add: string_of_bytes_def bytes_of_string_def comp_def)

lemma bytes_of_string_of_bytes [simp]: "bytes_of_string (string_of_bytes bs) = bs"
  by (simp add: string_of_bytes_def bytes_of_string_def comp_def)

lemma length_bytes_of_string [simp]: "length (bytes_of_string s) = length s"
  by (simp add: bytes_of_string_def)

lemma length_string_of_bytes [simp]: "length (string_of_bytes bs) = length bs"
  by (simp add: string_of_bytes_def)

section \<open>Fallible computations\<close>

text \<open>
  Go code that returns \<open>(value, error)\<close> or may panic is a sum: \<open>Inl\<close> the error, \<open>Inr\<close>
  the value. \<open>and_then\<close> is the early return on \<open>err != nil\<close>.
\<close>

definition and_then :: "'e + 'a \<Rightarrow> ('a \<Rightarrow> 'e + 'b) \<Rightarrow> 'e + 'b" where
  "and_then m f = (case m of Inl e \<Rightarrow> Inl e | Inr x \<Rightarrow> f x)"

lemma and_then_Inl [simp, outcome_simps]: "and_then (Inl e) f = Inl e"
  by (simp add: and_then_def)

lemma and_then_Inr [simp, outcome_simps]: "and_then (Inr x) f = f x"
  by (simp add: and_then_def)

lemma and_then_eq_Inr: "and_then m f = Inr y \<longleftrightarrow> (\<exists>x. m = Inr x \<and> f x = Inr y)"
  by (simp add: and_then_def split: sum.splits)

lemma and_then_eq_Inl: "and_then m f = Inl e \<longleftrightarrow> m = Inl e \<or> (\<exists>x. m = Inr x \<and> f x = Inl e)"
  by (simp add: and_then_def split: sum.splits)

lemma and_then_cong:
  "m = m' \<Longrightarrow> (\<And>x. m' = Inr x \<Longrightarrow> f x = g x) \<Longrightarrow> and_then m f = and_then m' g"
  by (simp add: and_then_def split: sum.splits)

section \<open>Big-endian integers\<close>

text \<open>
  \<open>binary.BigEndian.AppendUint16/32/64\<close> and \<open>Uint16/32/64\<close> of the Go library: \<open>be_bytes n w\<close> are
  the low \<open>n\<close> bytes of \<open>w\<close>, most significant first, and \<open>be_word\<close> reads them back.
\<close>

fun be_bytes :: "nat \<Rightarrow> 'a::len word \<Rightarrow> bytes" where
  "be_bytes 0 w = []"
| "be_bytes (Suc n) w = be_bytes n (drop_bit 8 w) @ [ucast w]"

definition be_word :: "bytes \<Rightarrow> 'a::len word" where
  "be_word bs = foldl (\<lambda>w b. push_bit 8 w OR ucast b) 0 bs"

lemma length_be_bytes [simp, wire_simps]: "length (be_bytes n w) = n"
  by (induction n arbitrary: w) simp_all

lemma be_word_snoc: "be_word (bs @ [b]) = push_bit 8 (be_word bs) OR ucast b"
  by (simp add: be_word_def)

lemma be_word_be_bytes_take_bit: "be_word (be_bytes n w) = take_bit (8 * n) w"
proof (induction n arbitrary: w)
  case 0
  show ?case by (simp add: be_word_def)
next
  case (Suc n)
  show ?case
    by (rule bit_word_eqI) (auto simp: be_word_snoc Suc.IH bit_simps)
qed

lemma be_word_be_bytes [simp, wire_simps]:
  "8 * n = LENGTH('a) \<Longrightarrow> be_word (be_bytes n w) = (w :: 'a::len word)"
  by (simp add: be_word_be_bytes_take_bit take_bit_word_eq_self)

section \<open>Go maps with an iteration order\<close>

text \<open>
  Where the order in which the code ranges over a map reaches its output, the map is a list of
  pairs with distinct keys; assignment replaces the value in place or appends a new key
  (\<open>AList.update\<close>), and the order of the list is the (arbitrary) iteration order.
\<close>

lemma alist_update_distinct: "distinct (map fst kvs) \<Longrightarrow> distinct (map fst (AList.update k v kvs))"
  by (rule distinct_update)

lemma alist_update_fresh: "k \<notin> set (map fst kvs) \<Longrightarrow> AList.update k v kvs = kvs @ [(k, v)]"
  by (induction kvs) auto

lemma alist_update_keys: "set (map fst (AList.update k v kvs)) = insert k (set (map fst kvs))"
  by (induction kvs) auto

section \<open>Lists\<close>

lemma take_drop_suffix: "n \<le> length bs \<Longrightarrow> \<exists>used. bs = used @ drop n bs \<and> length used = n"
  by (rule exI [of _ "take n bs"]) simp

end
