(* ===== verification/Amqp_Types.thy ===== *)
theory Amqp_Types
  imports Prelude
begin

text \<open>
  The AMQP 1.0 type system of \<open>internal/servers/sbserver/amqptypes.go\<close>: the constructor codes,
  the dynamic values (\<open>any\<close>) the encoder and decoder exchange, and which of them can be a Go map
  key. A value of interface type in the source is one constructor per dynamic type here.
\<close>

section \<open>Constructor codes\<close>

abbreviation typeNull :: u8 where "typeNull \<equiv> 0x40"
abbreviation typeBoolTrue :: u8 where "typeBoolTrue \<equiv> 0x41"
abbreviation typeBoolFalse :: u8 where "typeBoolFalse \<equiv> 0x42"
abbreviation typeBool :: u8 where "typeBool \<equiv> 0x56"
abbreviation typeUbyte :: u8 where "typeUbyte \<equiv> 0x50"
abbreviation typeUshort :: u8 where "typeUshort \<equiv> 0x60"
abbreviation typeUint :: u8 where "typeUint \<equiv> 0x70"
abbreviation typeSmallUint :: u8 where "typeSmallUint \<equiv> 0x52"
abbreviation typeUint0 :: u8 where "typeUint0 \<equiv> 0x43"
abbreviation typeUlong :: u8 where "typeUlong \<equiv> 0x80"
abbreviation typeSmallUlong :: u8 where "typeSmallUlong \<equiv> 0x53"
abbreviation typeUlong0 :: u8 where "typeUlong0 \<equiv> 0x44"
abbreviation typeByte :: u8 where "typeByte \<equiv> 0x51"
abbreviation typeShort :: u8 where "typeShort \<equiv> 0x61"
abbreviation typeInt :: u8 where "typeInt \<equiv> 0x71"
abbreviation typeSmallInt :: u8 where "typeSmallInt \<equiv> 0x54"
abbreviation typeLong :: u8 where "typeLong \<equiv> 0x81"
abbreviation typeSmallLong :: u8 where "typeSmallLong \<equiv> 0x55"
abbreviation typeFloat :: u8 where "typeFloat \<equiv> 0x72"
abbreviation typeDouble :: u8 where "typeDouble \<equiv> 0x82"
abbreviation typeTimestamp :: u8 where "typeTimestamp \<equiv> 0x83"
abbreviation typeUUID :: u8 where "typeUUID \<equiv> 0x98"
abbreviation typeVbin8 :: u8 where "typeVbin8 \<equiv> 0xa0"
abbreviation typeVbin32 :: u8 where "typeVbin32 \<equiv> 0xb0"
abbreviation typeStr8 :: u8 where "typeStr8 \<equiv> 0xa1"
abbreviation typeStr32 :: u8 where "typeStr32 \<equiv> 0xb1"
abbreviation typeSym8 :: u8 where "typeSym8 \<equiv> 0xa3"
abbreviation typeSym32 :: u8 where "typeSym32 \<equiv> 0xb3"
abbreviation typeList0 :: u8 where "typeList0 \<equiv> 0x45"
abbreviation typeList8 :: u8 where "typeList8 \<equiv> 0xc0"
abbreviation typeList32 :: u8 where "typeList32 \<equiv> 0xd0"
abbreviation typeMap8 :: u8 where "typeMap8 \<equiv> 0xc1"
abbreviation typeMap32 :: u8 where "typeMap32 \<equiv> 0xd1"
abbreviation typeDescribed :: u8 where "typeDescribed \<equiv> 0x00"

section \<open>Values\<close>

text \<open>
  One constructor per Go type: \<open>nil\<close>, \<open>bool\<close>, the unsigned and signed integers (two's complement
  words), \<open>string\<close>, \<open>symbol\<close>, \<open>[]byte\<close>, \<open>time.Time\<close> as its Unix milliseconds, \<open>[16]byte\<close>,
  \<open>described\<close>, \<open>[]any\<close> and \<open>map[any]any\<close> (entries in iteration order).
\<close>

datatype amqp =
    ANull
  | ABool bool
  | AUbyte u8 | AUshort u16 | AUint u32 | AUlong u64
  | AByte u8 | AShort u16 | AInt u32 | ALong u64
  | AString string
  | ASymbol string
  | ABinary bytes
  | ATime u64
  | AUuid bytes
  | ADescribed amqp amqp
  | AList "amqp list"
  | AMap "(amqp \<times> amqp) list"

text \<open>
  Using a slice or a map as a map key panics at run time in Go, also inside a struct with
  interface fields (\<open>described\<close>).
\<close>

fun hashable :: "amqp \<Rightarrow> bool" where
  "hashable (ABinary _) = False"
| "hashable (AList _) = False"
| "hashable (AMap _) = False"
| "hashable (ADescribed d v) = (hashable d \<and> hashable v)"
| "hashable _ = True"

fun normalizeKey :: "amqp \<Rightarrow> amqp" where
  "normalizeKey (ASymbol s) = AString s"
| "normalizeKey v = v"

text \<open>
  What can go wrong: an error value the code returns, a Go panic (which ends the whole process,
  since nothing recovers it), or the model's fuel running out (shown impossible).
\<close>

datatype amqp_error =
    UnexpectedEnd
  | UnsupportedCode u8
  | CollectionTooLarge
  | InvalidFrameSize u32
  | FrameTooLarge u32
  | InvalidDataOffset nat
  | OffsetPastBody
  | NotDescribed
  | BadProtocolHeader
  | ErrClose
  | WriteFailed

datatype fault = Err amqp_error | PanicUnhashable | PanicCannotEncode | PanicSliceBounds
  | PanicCloseClosed | OutOfFuel

end
