(* ===== verification/Amqp_Encode.thy ===== *)
theory Amqp_Encode
  imports Amqp_Types
begin

text \<open>
  The encoder of \<open>internal/servers/sbserver/encode.go\<close>. The Go encoder appends to a buffer; each
  function here returns the bytes it appends. \<open>writeValue\<close> panics on a dynamic type it has no case
  for, which among the decoder's values are \<open>int8\<close> and \<open>int16\<close>.
\<close>

definition sized :: "u8 \<Rightarrow> u8 \<Rightarrow> bytes \<Rightarrow> bytes" where
  "sized code8 code32 b =
     (if length b \<le> 255 then [code8, word_of_nat (length b)]
      else code32 # be_bytes 4 (word_of_nat (length b) :: u32)) @ b"

definition writeString :: "string \<Rightarrow> bytes" where
  "writeString s = sized typeStr8 typeStr32 (bytes_of_string s)"

definition writeSymbol :: "string \<Rightarrow> bytes" where
  "writeSymbol s = sized typeSym8 typeSym32 (bytes_of_string s)"

definition writeBinary :: "bytes \<Rightarrow> bytes" where
  "writeBinary b = sized typeVbin8 typeVbin32 b"

definition collection :: "u8 \<Rightarrow> u8 \<Rightarrow> nat \<Rightarrow> bytes \<Rightarrow> bytes" where
  "collection code8 code32 count body =
     (if count \<le> 255 \<and> length body + 1 \<le> 255
      then [code8, word_of_nat (length body + 1), word_of_nat count]
      else code32 # be_bytes 4 (word_of_nat (length body + 4) :: u32) @
             be_bytes 4 (word_of_nat count :: u32)) @ body"

function writeValue :: "amqp \<Rightarrow> fault + bytes"
  and writeItems :: "amqp list \<Rightarrow> fault + bytes"
  and writePairs :: "(amqp \<times> amqp) list \<Rightarrow> fault + bytes" where
  "writeValue ANull = Inr [typeNull]"
| "writeValue (ABool b) = Inr [if b then typeBoolTrue else typeBoolFalse]"
| "writeValue (AUbyte w) = Inr [typeUbyte, w]"
| "writeValue (AUshort w) = Inr (typeUshort # be_bytes 2 w)"
| "writeValue (AUint w) = Inr (typeUint # be_bytes 4 w)"
| "writeValue (AUlong w) = Inr (typeUlong # be_bytes 8 w)"
| "writeValue (AInt w) = Inr (typeInt # be_bytes 4 w)"
| "writeValue (ALong w) = Inr (typeLong # be_bytes 8 w)"
| "writeValue (AString s) = Inr (writeString s)"
| "writeValue (ASymbol s) = Inr (writeSymbol s)"
| "writeValue (ABinary b) = Inr (writeBinary b)"
| "writeValue (ATime ms) = Inr (typeTimestamp # be_bytes 8 ms)"
| "writeValue (AUuid u) = Inr (typeUUID # u)"
| "writeValue (ADescribed d v) =
     and_then (writeValue d) (\<lambda>bd. and_then (writeValue v) (\<lambda>bv. Inr (typeDescribed # bd @ bv)))"
| "writeValue (AList vs) =
     (if vs = [] then Inr [typeList0]
      else and_then (writeItems vs) (\<lambda>body. Inr (collection typeList8 typeList32 (length vs) body)))"
| "writeValue (AMap kvs) =
     and_then (writePairs kvs) (\<lambda>body. Inr (collection typeMap8 typeMap32 (2 * length kvs) body))"
| "writeValue (AByte w) = Inl PanicCannotEncode"
| "writeValue (AShort w) = Inl PanicCannotEncode"
| "writeItems [] = Inr []"
| "writeItems (v # vs) =
     and_then (writeValue v) (\<lambda>b. and_then (writeItems vs) (\<lambda>bs. Inr (b @ bs)))"
| "writePairs [] = Inr []"
| "writePairs ((k, v) # kvs) =
     and_then (writeValue k) (\<lambda>bk. and_then (writeValue v) (\<lambda>bv.
       and_then (writePairs kvs) (\<lambda>bs. Inr (bk @ bv @ bs))))"
  by pat_completeness auto
termination
  by (relation "measure (\<lambda>x. case x of Inl v \<Rightarrow> size v
      | Inr (Inl vs) \<Rightarrow> size_list size vs
      | Inr (Inr kvs) \<Rightarrow> size_list (size_prod size size) kvs)") auto

definition writeList :: "amqp list \<Rightarrow> fault + bytes" where
  "writeList items = writeValue (AList items)"

text \<open>\<open>encodeDescribedList\<close> drops trailing nil fields and keeps the low byte of the code.\<close>

definition trimNil :: "amqp list \<Rightarrow> amqp list" where
  "trimNil fields = rev (dropWhile (\<lambda>v. v = ANull) (rev fields))"

definition encodeDescribedList :: "u64 \<Rightarrow> amqp list \<Rightarrow> fault + bytes" where
  "encodeDescribedList code fields =
     and_then (writeList (trimNil fields))
       (\<lambda>body. Inr ([typeDescribed, typeSmallUlong, ucast code] @ body))"

section \<open>When the encoder panics\<close>

text \<open>The values that hold an \<open>int8\<close> or \<open>int16\<close> anywhere inside.\<close>

fun has_narrow_int :: "amqp \<Rightarrow> bool" where
  "has_narrow_int (AByte _) = True"
| "has_narrow_int (AShort _) = True"
| "has_narrow_int (ADescribed d v) = (has_narrow_int d \<or> has_narrow_int v)"
| "has_narrow_int (AList vs) = (\<exists>v \<in> set vs. has_narrow_int v)"
| "has_narrow_int (AMap kvs) = (\<exists>p \<in> set kvs. has_narrow_int (fst p) \<or> has_narrow_int (snd p))"
| "has_narrow_int _ = False"

lemma write_outcome:
  "writeValue v = (if has_narrow_int v then Inl PanicCannotEncode else writeValue v) \<and>
     (\<not> has_narrow_int v \<longrightarrow> (\<exists>bs. writeValue v = Inr bs))"
  "writeItems vs = (if \<exists>v \<in> set vs. has_narrow_int v then Inl PanicCannotEncode else writeItems vs) \<and>
     ((\<forall>v \<in> set vs. \<not> has_narrow_int v) \<longrightarrow> (\<exists>bs. writeItems vs = Inr bs))"
  "writePairs kvs = (if \<exists>p \<in> set kvs. has_narrow_int (fst p) \<or> has_narrow_int (snd p)
       then Inl PanicCannotEncode else writePairs kvs) \<and>
     ((\<forall>p \<in> set kvs. \<not> has_narrow_int (fst p) \<and> \<not> has_narrow_int (snd p)) \<longrightarrow>
       (\<exists>bs. writePairs kvs = Inr bs))"
  by (induction v and vs and kvs rule: writeValue_writeItems_writePairs.induct)
    (auto split: if_splits)

end
