(* ===== verification/Amqp_Decode.thy ===== *)
theory Amqp_Decode
  imports Amqp_Types
begin

text \<open>
  The decoder of \<open>internal/servers/sbserver/decode.go\<close>. The Go decoder is a buffer and a position
  that only moves forward; here a read takes the bytes still ahead (\<open>d.buf[d.pos:]\<close>) and returns
  the bytes left after it. \<open>int\<close> is 64 bits wide, so sizes read from four bytes are never negative.

  \<open>readValue\<close> recurses through elements whose number is read from the input, so it takes fuel;
  \<open>decode\<close> gives it twice the input's length plus one, which is always enough (\<open>decode_has_fuel\<close>).
\<close>

definition readByte :: "bytes \<Rightarrow> fault + (u8 \<times> bytes)" where
  "readByte bs = (case bs of [] \<Rightarrow> Inl (Err UnexpectedEnd) | b # r \<Rightarrow> Inr (b, r))"

definition readN :: "nat \<Rightarrow> bytes \<Rightarrow> fault + (bytes \<times> bytes)" where
  "readN n bs = (if n > length bs then Inl (Err UnexpectedEnd) else Inr (take n bs, drop n bs))"

definition readSize :: "nat \<Rightarrow> bytes \<Rightarrow> fault + (nat \<times> bytes)" where
  "readSize width bs =
     (if width = 1 then and_then (readByte bs) (\<lambda>(b, r). Inr (unat b, r))
      else and_then (readN 4 bs) (\<lambda>(raw, r). Inr (unat (be_word raw :: u32), r)))"

definition readBinary :: "nat \<Rightarrow> bytes \<Rightarrow> fault + (bytes \<times> bytes)" where
  "readBinary width bs = and_then (readSize width bs) (\<lambda>(size, r). readN size r)"

definition readString :: "nat \<Rightarrow> bool \<Rightarrow> bytes \<Rightarrow> fault + (amqp \<times> bytes)" where
  "readString width is_sym bs =
     and_then (readSize width bs) (\<lambda>(size, r).
       and_then (readN size r) (\<lambda>(raw, r').
         Inr (if is_sym then ASymbol (string_of_bytes raw) else AString (string_of_bytes raw), r')))"

text \<open>
  The header of a list or map: the size is read and ignored; a count beyond the remaining bytes is
  rejected before anything is allocated.
\<close>

definition readCount :: "nat \<Rightarrow> bytes \<Rightarrow> fault + (nat \<times> bytes)" where
  "readCount width bs =
     and_then (readSize width bs) (\<lambda>(_, r).
       and_then (readSize width r) (\<lambda>(count, r').
         if count > length r' then Inl (Err CollectionTooLarge) else Inr (count, r')))"

text \<open>\<open>m[normalizeKey(k)] = v\<close>, which panics when the key's dynamic type is not hashable.\<close>

definition mapAssign :: "amqp \<Rightarrow> amqp \<Rightarrow> (amqp \<times> amqp) list \<Rightarrow> fault + (amqp \<times> amqp) list" where
  "mapAssign k v m =
     (if hashable (normalizeKey k) then Inr (AList.update (normalizeKey k) v m)
      else Inl PanicUnhashable)"

text \<open>The cases of \<open>readBody\<close> that do not read a further value.\<close>

definition readBits :: "nat \<Rightarrow> ('a::len word \<Rightarrow> amqp) \<Rightarrow> bytes \<Rightarrow> fault + (amqp \<times> bytes)" where
  "readBits n con bs = and_then (readN n bs) (\<lambda>(raw, r). Inr (con (be_word raw), r))"

definition readSmall :: "(u8 \<Rightarrow> amqp) \<Rightarrow> bytes \<Rightarrow> fault + (amqp \<times> bytes)" where
  "readSmall con bs = and_then (readByte bs) (\<lambda>(b, r). Inr (con b, r))"

definition readScalar :: "u8 \<Rightarrow> bytes \<Rightarrow> fault + (amqp \<times> bytes)" where
  "readScalar code bs =
     (if code = typeNull then Inr (ANull, bs)
      else if code = typeBoolTrue then Inr (ABool True, bs)
      else if code = typeBoolFalse then Inr (ABool False, bs)
      else if code = typeBool then readSmall (\<lambda>b. ABool (b \<noteq> 0)) bs
      else if code = typeUint0 then Inr (AUint 0, bs)
      else if code = typeUlong0 then Inr (AUlong 0, bs)
      else if code = typeSmallUint then readSmall (\<lambda>b. AUint (ucast b)) bs
      else if code = typeSmallUlong then readSmall (\<lambda>b. AUlong (ucast b)) bs
      else if code = typeSmallInt then readSmall (\<lambda>b. AInt (scast b)) bs
      else if code = typeSmallLong then readSmall (\<lambda>b. ALong (scast b)) bs
      else if code = typeUbyte then readSmall AUbyte bs
      else if code = typeByte then readSmall AByte bs
      else if code = typeUshort then readBits 2 AUshort bs
      else if code = typeShort then readBits 2 AShort bs
      else if code = typeUint then readBits 4 AUint bs
      else if code = typeInt then readBits 4 AInt bs
      else if code = typeUlong then readBits 8 AUlong bs
      else if code = typeLong then readBits 8 ALong bs
      else if code = typeTimestamp then readBits 8 ATime bs
      else if code = typeUUID then and_then (readN 16 bs) (\<lambda>(raw, r). Inr (AUuid raw, r))
      else if code = typeVbin8 then and_then (readBinary 1 bs) (\<lambda>(b, r). Inr (ABinary b, r))
      else if code = typeVbin32 then and_then (readBinary 4 bs) (\<lambda>(b, r). Inr (ABinary b, r))
      else if code = typeStr8 then readString 1 False bs
      else if code = typeStr32 then readString 4 False bs
      else if code = typeSym8 then readString 1 True bs
      else if code = typeSym32 then readString 4 True bs
      else if code = typeList0 then Inr (AList [], bs)
      else if code = typeFloat then readBits 4 AUint bs
      else if code = typeDouble then readBits 8 AUlong bs
      else Inl (Err (UnsupportedCode code)))"

fun readValue :: "nat \<Rightarrow> bytes \<Rightarrow> fault + (amqp \<times> bytes)"
  and readItems :: "nat \<Rightarrow> nat \<Rightarrow> bytes \<Rightarrow> fault + (amqp list \<times> bytes)"
  and readPairs :: "nat \<Rightarrow> nat \<Rightarrow> (amqp \<times> amqp) list \<Rightarrow> bytes \<Rightarrow> fault + ((amqp \<times> amqp) list \<times> bytes)"
  where
  "readValue 0 bs = Inl OutOfFuel"
| "readValue (Suc fuel) bs =
     and_then (readByte bs) (\<lambda>(code, r).
       if code = typeList8 \<or> code = typeList32 then
         and_then (readCount (if code = typeList8 then 1 else 4) r) (\<lambda>(count, r1).
           and_then (readItems fuel count r1) (\<lambda>(items, r2). Inr (AList items, r2)))
       else if code = typeMap8 \<or> code = typeMap32 then
         and_then (readCount (if code = typeMap8 then 1 else 4) r) (\<lambda>(count, r1).
           and_then (readPairs fuel count [] r1) (\<lambda>(m, r2). Inr (AMap m, r2)))
       else if code = typeDescribed then
         and_then (readValue fuel r) (\<lambda>(desc, r1).
           and_then (readValue fuel r1) (\<lambda>(val, r2). Inr (ADescribed desc val, r2)))
       else readScalar code r)"
| "readItems fuel 0 bs = Inr ([], bs)"
| "readItems 0 (Suc n) bs = Inl OutOfFuel"
| "readItems (Suc fuel) (Suc n) bs =
     and_then (readValue fuel bs) (\<lambda>(v, r).
       and_then (readItems fuel n r) (\<lambda>(vs, r1). Inr (v # vs, r1)))"
| "readPairs fuel 0 m bs = Inr (m, bs)"
| "readPairs 0 (Suc n) m bs = Inl OutOfFuel"
| "readPairs (Suc fuel) (Suc n) m bs =
     and_then (readValue fuel bs) (\<lambda>(k, r).
       and_then (readValue fuel r) (\<lambda>(v, r1).
         and_then (mapAssign k v m) (\<lambda>m'. readPairs fuel (n - 1) m' r1)))"

definition decode :: "bytes \<Rightarrow> fault + (amqp \<times> bytes)" where
  "decode bs = readValue (2 * length bs + 1) bs"

section \<open>Reads consume a prefix of the input\<close>

lemma readByte_suffix: "readByte bs = Inr (b, r) \<Longrightarrow> bs = b # r"
  by (simp add: readByte_def split: list.splits)

lemma readN_suffix: "readN n bs = Inr (x, r) \<Longrightarrow> bs = x @ r \<and> length x = n"
  by (auto simp: readN_def split: if_splits)

text \<open>\<open>r\<close> is what is left of \<open>bs\<close> after reading some of it.\<close>

definition rest_of :: "bytes \<Rightarrow> bytes \<Rightarrow> bool" where
  "rest_of r bs \<longleftrightarrow> (\<exists>used. bs = used @ r)"

lemma rest_of_refl [simp, intro]: "rest_of r r"
  by (simp add: rest_of_def)

lemma rest_of_Cons: "rest_of r bs \<Longrightarrow> rest_of r (b # bs)"
  unfolding rest_of_def by (metis append_Cons)

lemma rest_of_append [intro]: "rest_of r (x @ r)"
  by (auto simp: rest_of_def)

lemma rest_of_trans [trans]: "rest_of r1 r \<Longrightarrow> rest_of r bs \<Longrightarrow> rest_of r1 bs"
  unfolding rest_of_def by (metis append_assoc)

lemma rest_of_length: "rest_of r bs \<Longrightarrow> length r \<le> length bs"
  by (auto simp: rest_of_def)

lemma readSize_rest: "readSize w bs = Inr (n, r) \<Longrightarrow> rest_of r bs"
  by (auto simp: readSize_def and_then_eq_Inr dest!: readByte_suffix readN_suffix
      split: if_splits intro: rest_of_Cons)

lemma readCount_rest: "readCount w bs = Inr (n, r) \<Longrightarrow> rest_of r bs \<and> n \<le> length r"
  by (auto simp: readCount_def and_then_eq_Inr split: if_splits
      dest!: readSize_rest intro: rest_of_trans)

lemma readSmall_rest: "readSmall con bs = Inr (v, r) \<Longrightarrow> rest_of r bs"
  by (auto simp: readSmall_def and_then_eq_Inr dest!: readByte_suffix intro: rest_of_Cons)

lemma readBits_rest: "readBits n con bs = Inr (v, r) \<Longrightarrow> rest_of r bs"
  by (auto simp: readBits_def and_then_eq_Inr dest!: readN_suffix)

lemma readBinary_rest: "readBinary w bs = Inr (v, r) \<Longrightarrow> rest_of r bs"
  by (auto simp: readBinary_def and_then_eq_Inr rest_of_def dest!: readSize_rest readN_suffix)

lemma readString_rest: "readString w is_sym bs = Inr (v, r) \<Longrightarrow> rest_of r bs"
  by (auto simp: readString_def and_then_eq_Inr rest_of_def dest!: readSize_rest readN_suffix)

lemma readScalar_rest: "readScalar code bs = Inr (v, r) \<Longrightarrow> rest_of r bs"
  unfolding readScalar_def
  by (auto simp: and_then_eq_Inr split: if_splits
      dest: readSmall_rest readBits_rest readBinary_rest readString_rest readN_suffix)

text \<open>The three readers are mutually recursive on the fuel, so facts about them go by induction on it.\<close>

lemma read_rest_fuel:
  "(\<forall>bs v r. readValue f bs = Inr (v, r) \<longrightarrow> rest_of r bs \<and> length r < length bs) \<and>
   (\<forall>n bs vs r. readItems f n bs = Inr (vs, r) \<longrightarrow> rest_of r bs) \<and>
   (\<forall>n m bs m' r. readPairs f n m bs = Inr (m', r) \<longrightarrow> rest_of r bs)"
proof (induction f)
  case 0
  have "readItems 0 n bs = Inr (vs, r) \<Longrightarrow> rest_of r bs" for n bs vs r
    by (cases n) auto
  moreover have "readPairs 0 n m bs = Inr (m', r) \<Longrightarrow> rest_of r bs" for n m bs m' r
    by (cases n) auto
  ultimately show ?case by auto
next
  case (Suc f)
  have one: "rest_of r bs" if "readValue f bs = Inr (v, r)" for bs v r
    using Suc.IH that by blast
  have items: "rest_of r bs" if "readItems f n bs = Inr (vs, r)" for n bs vs r
    using Suc.IH that by blast
  have pairs: "rest_of r bs" if "readPairs f n m bs = Inr (m', r)" for n m bs m' r
    using Suc.IH that by blast
  have "rest_of r bs \<and> length r < length bs" if "readValue (Suc f) bs = Inr (v, r)" for bs v r
  proof -
    from that obtain code t where bs: "bs = code # t"
      by (auto simp: and_then_eq_Inr dest!: readByte_suffix)
    have "rest_of r t"
      using that
      by (auto simp: bs readByte_def and_then_eq_Inr split: if_splits
          dest!: one items pairs readCount_rest readScalar_rest intro: rest_of_trans)
    then show ?thesis
      by (auto simp: bs intro: rest_of_Cons dest: rest_of_length)
  qed
  moreover have "rest_of r bs" if "readItems (Suc f) n bs = Inr (vs, r)" for n bs vs r
    using that by (cases n) (auto simp: and_then_eq_Inr dest!: one items intro: rest_of_trans)
  moreover have "rest_of r bs" if "readPairs (Suc f) n m bs = Inr (m', r)" for n m bs m' r
    using that by (cases n) (auto simp: and_then_eq_Inr dest!: one pairs intro: rest_of_trans)
  ultimately show ?case by blast
qed

lemma readValue_rest: "readValue f bs = Inr (v, r) \<Longrightarrow> rest_of r bs"
  and readValue_shorter: "readValue f bs = Inr (v, r) \<Longrightarrow> length r < length bs"
  and readItems_rest: "readItems f n bs = Inr (vs, r) \<Longrightarrow> rest_of r bs"
  and readPairs_rest: "readPairs f n m bs = Inr (m', r) \<Longrightarrow> rest_of r bs"
  using read_rest_fuel [of f] by blast+

section \<open>The fuel is enough\<close>

lemma readByte_fuel [simp]: "readByte bs \<noteq> Inl OutOfFuel"
  by (simp add: readByte_def split: list.splits)

lemma readN_fuel [simp]: "readN n bs \<noteq> Inl OutOfFuel"
  by (simp add: readN_def)

lemma readSize_fuel [simp]: "readSize w bs \<noteq> Inl OutOfFuel"
  by (auto simp: readSize_def and_then_eq_Inl)

lemma readCount_fuel [simp]: "readCount w bs \<noteq> Inl OutOfFuel"
  by (auto simp: readCount_def and_then_eq_Inl split: if_splits)

lemma readSmall_fuel [simp]: "readSmall con bs \<noteq> Inl OutOfFuel"
  by (auto simp: readSmall_def and_then_eq_Inl)

lemma readBits_fuel [simp]: "readBits n con bs \<noteq> Inl OutOfFuel"
  by (auto simp: readBits_def and_then_eq_Inl)

lemma readBinary_fuel [simp]: "readBinary w bs \<noteq> Inl OutOfFuel"
  by (auto simp: readBinary_def and_then_eq_Inl)

lemma readString_fuel [simp]: "readString w is_sym bs \<noteq> Inl OutOfFuel"
  by (auto simp: readString_def and_then_eq_Inl)

lemma mapAssign_fuel [simp]: "mapAssign k v m \<noteq> Inl OutOfFuel"
  by (simp add: mapAssign_def)

lemma readScalar_fuel [simp]: "readScalar code bs \<noteq> Inl OutOfFuel"
  unfolding readScalar_def by (auto simp: and_then_eq_Inl)

lemma read_enough_fuel:
  "(\<forall>bs. 2 * length bs + 1 \<le> f \<longrightarrow> readValue f bs \<noteq> Inl OutOfFuel) \<and>
   (\<forall>n bs. 2 * length bs + 2 \<le> f \<longrightarrow> readItems f n bs \<noteq> Inl OutOfFuel) \<and>
   (\<forall>n m bs. 2 * length bs + 2 \<le> f \<longrightarrow> readPairs f n m bs \<noteq> Inl OutOfFuel)"
proof (induction f)
  case 0
  show ?case by simp
next
  case (Suc f)
  have one: "readValue f bs \<noteq> Inl OutOfFuel" if "2 * length bs + 1 \<le> f" for bs
    using Suc.IH that by blast
  have items: "readItems f n bs \<noteq> Inl OutOfFuel" if "2 * length bs + 2 \<le> f" for n bs
    using Suc.IH that by blast
  have pairs: "readPairs f n m bs \<noteq> Inl OutOfFuel" if "2 * length bs + 2 \<le> f" for n m bs
    using Suc.IH that by blast
  have "readValue (Suc f) bs \<noteq> Inl OutOfFuel" if "2 * length bs + 1 \<le> Suc f" for bs
  proof (cases bs)
    case Nil
    then show ?thesis by (simp add: readByte_def)
  next
    case (Cons code t)
    have shorter: "2 * length r + 2 \<le> f" if "rest_of r t" for r
      using rest_of_length [OF that] \<open>2 * length bs + 1 \<le> Suc f\<close> Cons by simp
    have "readItems f n r \<noteq> Inl OutOfFuel" "readPairs f n [] r \<noteq> Inl OutOfFuel"
      if "readCount w t = Inr (n, r)" for w n r
      using readCount_rest [OF that] by (auto dest!: shorter dest: items pairs)
    moreover have "readValue f t \<noteq> Inl OutOfFuel"
      using shorter [of t] by (simp add: one)
    moreover have "readValue f r \<noteq> Inl OutOfFuel" if "readValue f t = Inr (v, r)" for v r
      using shorter [OF readValue_rest [OF that]] by (simp add: one)
    ultimately show ?thesis
      by (auto simp: Cons readByte_def and_then_eq_Inl)
  qed
  moreover have "readItems (Suc f) n bs \<noteq> Inl OutOfFuel"
    if "2 * length bs + 2 \<le> Suc f" for n bs
  proof (cases n)
    case (Suc k)
    have "readItems f k r \<noteq> Inl OutOfFuel" if "readValue f bs = Inr (v, r)" for v r
      using readValue_shorter [OF that] \<open>2 * length bs + 2 \<le> Suc f\<close> by (simp add: items)
    moreover have "readValue f bs \<noteq> Inl OutOfFuel" using that by (simp add: one)
    ultimately show ?thesis by (auto simp: Suc and_then_eq_Inl)
  qed simp
  moreover have "readPairs (Suc f) n m bs \<noteq> Inl OutOfFuel"
    if "2 * length bs + 2 \<le> Suc f" for n m bs
  proof (cases n)
    case (Suc k)
    have len: "length r < length bs" if "readValue f bs = Inr (v, r)" for v r
      using readValue_shorter [OF that] .
    have "readValue f r \<noteq> Inl OutOfFuel" if "readValue f bs = Inr (v, r)" for v r
      using len [OF that] \<open>2 * length bs + 2 \<le> Suc f\<close> by (simp add: one)
    moreover have "readPairs f (k - 1) m' r' \<noteq> Inl OutOfFuel"
      if "readValue f bs = Inr (v, r)" "readValue f r = Inr (v', r')" for v r v' r' m'
      using len [OF that(1)] readValue_shorter [OF that(2)] \<open>2 * length bs + 2 \<le> Suc f\<close>
      by (simp add: pairs)
    moreover have "readValue f bs \<noteq> Inl OutOfFuel" using that by (simp add: one)
    ultimately show ?thesis by (auto simp: Suc and_then_eq_Inl)
  qed simp
  ultimately show ?case by blast
qed

end
