(* ===== verification/Amqp_Codec.thy ===== *)
theory Amqp_Codec
  imports Amqp_Encode Amqp_Decode
begin

text \<open>
  The encoder and the decoder together: what the encoder writes the decoder reads back, whatever
  follows it; the decoder only produces well-formed values; and the consequences for relaying.
\<close>

section \<open>Well-formed values\<close>

definition map_key_ok :: "amqp \<Rightarrow> bool" where
  "map_key_ok k \<longleftrightarrow> hashable k \<and> normalizeKey k = k"

text \<open>The values that fit the wire format's four-byte sizes, with maps as the decoder builds them.\<close>

fun wf_amqp :: "amqp \<Rightarrow> bool" where
  "wf_amqp (AString s) = (length s < 2 ^ 32)"
| "wf_amqp (ASymbol s) = (length s < 2 ^ 32)"
| "wf_amqp (ABinary b) = (length b < 2 ^ 32)"
| "wf_amqp (AUuid u) = (length u = 16)"
| "wf_amqp (ADescribed d v) = (wf_amqp d \<and> wf_amqp v)"
| "wf_amqp (AList vs) = (length vs < 2 ^ 32 \<and> (\<forall>v \<in> set vs. wf_amqp v))"
| "wf_amqp (AMap kvs) = (2 * length kvs < 2 ^ 32 \<and> distinct (map fst kvs) \<and>
     (\<forall>p \<in> set kvs. map_key_ok (fst p) \<and> wf_amqp (fst p) \<and> wf_amqp (snd p)))"
| "wf_amqp _ = True"

section \<open>The encoder's output is long enough for the decoder's count check\<close>

lemma write_lengths:
  "writeValue v = Inr bs \<Longrightarrow> 1 \<le> length bs"
  "writeItems vs = Inr bs \<Longrightarrow> length vs \<le> length bs"
  "writePairs kvs = Inr bs \<Longrightarrow> 2 * length kvs \<le> length bs"
proof (induction v and vs and kvs arbitrary: bs and bs and bs
    rule: writeValue_writeItems_writePairs.induct)
  case (20 v vs)
  then show ?case by (fastforce simp: and_then_eq_Inr)
next
  case (22 k v kvs)
  then show ?case by (fastforce simp: and_then_eq_Inr)
qed (auto simp: writeString_def writeSymbol_def writeBinary_def sized_def collection_def
      and_then_eq_Inr split: if_splits)

section \<open>Reading back sizes and headers\<close>

lemma readN_append [simp, wire_simps]: "length x = n \<Longrightarrow> readN n (x @ r) = Inr (x, r)"
  by (simp add: readN_def)

lemma readBits_be_bytes [simp, wire_simps]:
  "8 * n = LENGTH('a) \<Longrightarrow> readBits n con (be_bytes n (w :: 'a::len word) @ r) = Inr (con w, r)"
  by (simp add: readBits_def)

lemma readSize_1 [simp, wire_simps]:
  "n \<le> 255 \<Longrightarrow> readSize (Suc 0) (word_of_nat n # r) = Inr (n, r)"
  by (simp add: readSize_def readByte_def unat_of_nat)

lemma readSize_4 [simp, wire_simps]:
  "n < 2 ^ 32 \<Longrightarrow> readSize 4 (be_bytes 4 (word_of_nat n :: u32) @ r) = Inr (n, r)"
  by (simp add: readSize_def unat_of_nat)

lemma readSize_4_any:
  "readSize 4 (be_bytes 4 (w :: u32) @ r) = Inr (unat w, r)"
  by (simp add: readSize_def)

lemma sized_string:
  assumes "length b < 2 ^ 32"
  shows "\<exists>code w t. sized c8 c32 b @ r = code # t \<and>
     (if length b \<le> 255 then code = c8 \<and> w = 1 else code = c32 \<and> w = 4) \<and>
     readSize w t = Inr (length b, b @ r)"
  using assms by (simp add: sized_def)

lemma collection_header:
  assumes "count < 2 ^ 32" and "count \<le> length body"
  shows "\<exists>code w t. collection c8 c32 count body @ r = code # t \<and>
     (code = c8 \<and> w = 1 \<or> code = c32 \<and> w = 4) \<and>
     readCount w t = Inr (count, body @ r)"
proof (cases "count \<le> 255 \<and> length body + 1 \<le> 255")
  case True
  then have "readCount 1 (word_of_nat (length body + 1) # word_of_nat count # body @ r)
      = Inr (count, body @ r)"
    using assms(2) by (simp add: readCount_def del: of_nat_add of_nat_Suc)
  with True show ?thesis by (auto simp: collection_def)
next
  case False
  have "readCount 4 (be_bytes 4 (word_of_nat (length body + 4) :: u32) @
      be_bytes 4 (word_of_nat count :: u32) @ body @ r) = Inr (count, body @ r)"
    using assms by (simp add: readCount_def readSize_4_any unat_of_nat)
  with False show ?thesis by (auto simp: collection_def)
qed

lemma collection_length: "length body + 3 \<le> length (collection c8 c32 n body)"
  by (simp add: collection_def)

section \<open>The round trip\<close>

lemma mapAssign_fresh:
  "map_key_ok k \<Longrightarrow> k \<notin> set (map fst m) \<Longrightarrow> mapAssign k v m = Inr (m @ [(k, v)])"
  by (simp add: mapAssign_def map_key_ok_def alist_update_fresh)

lemma readValue_step:
  "readValue (Suc f) (code # r) =
     (if code = typeList8 \<or> code = typeList32 then
        and_then (readCount (if code = typeList8 then 1 else 4) r) (\<lambda>(count, r1).
          and_then (readItems f count r1) (\<lambda>(items, r2). Inr (AList items, r2)))
      else if code = typeMap8 \<or> code = typeMap32 then
        and_then (readCount (if code = typeMap8 then 1 else 4) r) (\<lambda>(count, r1).
          and_then (readPairs f count [] r1) (\<lambda>(m, r2). Inr (AMap m, r2)))
      else if code = typeDescribed then
        and_then (readValue f r) (\<lambda>(desc, r1).
          and_then (readValue f r1) (\<lambda>(val, r2). Inr (ADescribed desc val, r2)))
      else readScalar code r)"
  by (simp add: readByte_def)

lemma read_back_scalar:
  assumes "0 < f"
  shows "readValue f (typeNull # r) = Inr (ANull, r)"
    and "readValue f (typeBoolTrue # r) = Inr (ABool True, r)"
    and "readValue f (typeBoolFalse # r) = Inr (ABool False, r)"
    and "readValue f (typeUbyte # w1 # r) = Inr (AUbyte w1, r)"
    and "readValue f (typeUshort # be_bytes 2 w2 @ r) = Inr (AUshort w2, r)"
    and "readValue f (typeUint # be_bytes 4 w4 @ r) = Inr (AUint w4, r)"
    and "readValue f (typeUlong # be_bytes 8 w8 @ r) = Inr (AUlong w8, r)"
    and "readValue f (typeInt # be_bytes 4 w4 @ r) = Inr (AInt w4, r)"
    and "readValue f (typeLong # be_bytes 8 w8 @ r) = Inr (ALong w8, r)"
    and "readValue f (typeTimestamp # be_bytes 8 w8 @ r) = Inr (ATime w8, r)"
    and "length u = 16 \<Longrightarrow> readValue f (typeUUID # u @ r) = Inr (AUuid u, r)"
    and "readValue f (typeList0 # r) = Inr (AList [], r)"
    and "readValue f (typeSmallUlong # w1 # r) = Inr (AUlong (ucast w1), r)"
  using assms
  by (cases f; simp add: readValue_step readScalar_def readSmall_def readByte_def
      del: readValue.simps)+

lemma sized_length: "2 \<le> length (sized c8 c32 b)"
  by (simp add: sized_def)

lemma read_back_sized:
  assumes "length b < 2 ^ 32" and "1 \<le> f"
  shows "readValue f (sized typeStr8 typeStr32 b @ r) = Inr (AString (string_of_bytes b), r)"
    and "readValue f (sized typeSym8 typeSym32 b @ r) = Inr (ASymbol (string_of_bytes b), r)"
    and "readValue f (sized typeVbin8 typeVbin32 b @ r) = Inr (ABinary b, r)"
  using assms
  by (cases f; cases "length b \<le> 255";
      simp add: sized_def readValue_step readScalar_def readString_def readBinary_def
      del: readValue.simps)+

lemma read_back:
  "wf_amqp v \<Longrightarrow> writeValue v = Inr bs \<Longrightarrow> 2 * length bs \<le> f \<Longrightarrow>
     readValue f (bs @ r) = Inr (v, r)"
  "\<forall>v \<in> set vs. wf_amqp v \<Longrightarrow> writeItems vs = Inr bs \<Longrightarrow> 2 * length bs + 1 \<le> f \<Longrightarrow>
     readItems f (length vs) (bs @ r) = Inr (vs, r)"
  "\<forall>p \<in> set kvs. map_key_ok (fst p) \<and> wf_amqp (fst p) \<and> wf_amqp (snd p) \<Longrightarrow>
     distinct (map fst (m @ kvs)) \<Longrightarrow> writePairs kvs = Inr bs \<Longrightarrow> 2 * length bs + 1 \<le> f \<Longrightarrow>
     readPairs f (2 * length kvs) m (bs @ r) = Inr (m @ kvs, r)"
proof (induction v and vs and kvs arbitrary: bs f r and bs f r and m bs f r
    rule: writeValue_writeItems_writePairs.induct)
  case (14 d v)
  from "14.prems"(2) obtain bd bv where w: "writeValue d = Inr bd" "writeValue v = Inr bv"
    and bs: "bs = typeDescribed # bd @ bv"
    by (auto simp: and_then_eq_Inr)
  from "14.prems"(3) obtain g where f: "f = Suc g" "2 * length bd \<le> g" "2 * length bv \<le> g"
    by (cases f) (auto simp: bs)
  have "readValue g (bd @ bv @ r) = Inr (d, bv @ r)" "readValue g (bv @ r) = Inr (v, r)"
    using "14.IH" "14.prems"(1) w f by simp_all
  then show ?case by (simp add: bs f readValue_step del: readValue.simps)
next
  case (15 vs)
  show ?case
  proof (cases "vs = []")
    case True
    with "15.prems"(2,3) show ?thesis by (auto simp: read_back_scalar)
  next
    case False
    with "15.prems"(2) obtain body where w: "writeItems vs = Inr body"
      and bs: "bs = collection typeList8 typeList32 (length vs) body"
      by (auto simp: and_then_eq_Inr)
    have n: "length vs < 2 ^ 32" "length vs \<le> length body"
      using "15.prems"(1) write_lengths(2) [OF w] by auto
    obtain code wd t where hd: "bs @ r = code # t"
      "code = typeList8 \<and> wd = 1 \<or> code = typeList32 \<and> wd = 4"
      "readCount wd t = Inr (length vs, body @ r)"
      using collection_header [OF n] bs by blast
    from "15.prems"(3) collection_length [of body typeList8 typeList32 "length vs"]
    obtain g where f: "f = Suc g" "2 * length body + 1 \<le> g"
      by (cases f) (auto simp: bs)
    have "readItems g (length vs) (body @ r) = Inr (vs, r)"
      using "15.IH" "15.prems"(1) w f False by simp
    with hd show ?thesis by (auto simp: f readValue_step simp del: readValue.simps)
  qed
next
  case (16 kvs)
  from "16.prems"(2) obtain body where w: "writePairs kvs = Inr body"
    and bs: "bs = collection typeMap8 typeMap32 (2 * length kvs) body"
    by (auto simp: and_then_eq_Inr)
  have n: "2 * length kvs < 2 ^ 32" "2 * length kvs \<le> length body"
    using "16.prems"(1) write_lengths(3) [OF w] by auto
  obtain code wd t where hd: "bs @ r = code # t"
    "code = typeMap8 \<and> wd = 1 \<or> code = typeMap32 \<and> wd = 4"
    "readCount wd t = Inr (2 * length kvs, body @ r)"
    using collection_header [OF n] bs by blast
  from "16.prems"(3) collection_length [of body typeMap8 typeMap32 "2 * length kvs"]
  obtain g where f: "f = Suc g" "2 * length body + 1 \<le> g"
    by (cases f) (auto simp: bs)
  have "readPairs g (2 * length kvs) [] (body @ r) = Inr (kvs, r)"
    using "16.IH" [of "[]"] "16.prems"(1) w f by simp
  with hd show ?case by (auto simp: f readValue_step simp del: readValue.simps)
next
  case (20 v vs)
  from "20.prems"(2) obtain b bs' where w: "writeValue v = Inr b" "writeItems vs = Inr bs'"
    and bs: "bs = b @ bs'"
    by (auto simp: and_then_eq_Inr)
  have "1 \<le> length b" using write_lengths(1) [OF w(1)] .
  with "20.prems"(3) obtain g where f: "f = Suc g" "2 * length b \<le> g" "2 * length bs' + 1 \<le> g"
    by (cases f) (auto simp: bs)
  have "readValue g (b @ bs' @ r) = Inr (v, bs' @ r)" "readItems g (length vs) (bs' @ r) = Inr (vs, r)"
    using "20.IH" "20.prems"(1) w f by simp_all
  then show ?case by (simp add: bs f)
next
  case (22 k v kvs)
  from "22.prems"(3) obtain bk bv bs' where
    w: "writeValue k = Inr bk" "writeValue v = Inr bv" "writePairs kvs = Inr bs'"
    and bs: "bs = bk @ bv @ bs'"
    by (auto simp: and_then_eq_Inr)
  have "1 \<le> length bk" "1 \<le> length bv" using write_lengths(1) w(1,2) by blast+
  with "22.prems"(4) obtain g where
    f: "f = Suc g" "2 * length bk \<le> g" "2 * length bv \<le> g" "2 * length bs' + 1 \<le> g"
    by (cases f) (auto simp: bs)
  have k: "map_key_ok k" "k \<notin> set (map fst m)" using "22.prems"(1,2) by auto
  have "readValue g (bk @ bv @ bs' @ r) = Inr (k, bv @ bs' @ r)"
    and "readValue g (bv @ bs' @ r) = Inr (v, bs' @ r)"
    using "22.IH"(1,2) "22.prems"(1) w f by simp_all
  moreover have "readPairs g (2 * length kvs) (m @ [(k, v)]) (bs' @ r) = Inr (m @ (k, v) # kvs, r)"
    using "22.IH"(3) [of "m @ [(k, v)]"] "22.prems"(1,2) w f by simp
  ultimately show ?case by (simp add: bs f mapAssign_fresh [OF k])
next
  case (9 s)
  then show ?case
    using read_back_sized(1) [of "bytes_of_string s" f r]
      sized_length [of typeStr8 typeStr32 "bytes_of_string s"]
    by (auto simp: writeString_def)
next
  case (10 s)
  then show ?case
    using read_back_sized(2) [of "bytes_of_string s" f r]
      sized_length [of typeSym8 typeSym32 "bytes_of_string s"]
    by (auto simp: writeSymbol_def)
next
  case (11 b)
  then show ?case
    using read_back_sized(3) [of b f r] sized_length [of typeVbin8 typeVbin32 b]
    by (auto simp: writeBinary_def)
qed (auto simp: read_back_scalar simp del: readValue.simps be_bytes.simps)

section \<open>Decoded values are well formed\<close>

lemma normalizeKey_idem [simp]: "normalizeKey (normalizeKey k) = normalizeKey k"
  by (cases k) simp_all

lemma wf_normalizeKey [simp]: "wf_amqp (normalizeKey k) = wf_amqp k"
  by (cases k) simp_all

definition wf_entries :: "(amqp \<times> amqp) list \<Rightarrow> bool" where
  "wf_entries m \<longleftrightarrow> distinct (map fst m) \<and>
     (\<forall>p \<in> set m. map_key_ok (fst p) \<and> wf_amqp (fst p) \<and> wf_amqp (snd p))"

lemma alist_update_length: "length (AList.update k v m) \<le> Suc (length m)"
  by (induction m) auto

lemma alist_update_entry: "p \<in> set (AList.update k v m) \<Longrightarrow> p = (k, v) \<or> p \<in> set m"
  by (induction m) (auto split: if_splits)

lemma mapAssign_wf:
  assumes "mapAssign k v m = Inr m'" and "wf_entries m" and "wf_amqp k" and "wf_amqp v"
  shows "wf_entries m' \<and> length m' \<le> Suc (length m)"
proof -
  from assms(1) have h: "hashable (normalizeKey k)" and m': "m' = AList.update (normalizeKey k) v m"
    by (auto simp: mapAssign_def split: if_splits)
  have "map_key_ok (fst p) \<and> wf_amqp (fst p) \<and> wf_amqp (snd p)" if "p \<in> set m'" for p
    using alist_update_entry [OF that [unfolded m']] assms(2-4) h
    by (auto simp: map_key_ok_def wf_entries_def)
  then show ?thesis
    using assms(2) by (auto simp: wf_entries_def m' distinct_update alist_update_length)
qed

lemma readScalar_wf:
  assumes "readScalar code bs = Inr (v, r)" and "length bs < 2 ^ 32"
  shows "wf_amqp v"
  using assms unfolding readScalar_def
  by (auto simp: readSmall_def readBits_def readString_def readBinary_def and_then_eq_Inr
      split: if_splits dest!: readN_suffix readSize_rest rest_of_length)

lemma read_wf_fuel:
  "(\<forall>bs v r. length bs < 2 ^ 32 \<longrightarrow> readValue f bs = Inr (v, r) \<longrightarrow> wf_amqp v) \<and>
   (\<forall>n bs vs r. length bs < 2 ^ 32 \<longrightarrow> readItems f n bs = Inr (vs, r) \<longrightarrow>
      length vs = n \<and> (\<forall>v \<in> set vs. wf_amqp v)) \<and>
   (\<forall>n m bs m' r. length bs < 2 ^ 32 \<longrightarrow> readPairs f n m bs = Inr (m', r) \<longrightarrow> wf_entries m \<longrightarrow>
      wf_entries m' \<and> 2 * length m' + length r \<le> 2 * length m + length bs)"
proof (induction f)
  case 0
  have "readItems 0 n bs = Inr (vs, r) \<Longrightarrow> length vs = n \<and> (\<forall>v \<in> set vs. wf_amqp v)" for n bs vs r
    by (cases n) auto
  moreover have "readPairs 0 n m bs = Inr (m', r) \<Longrightarrow> m' = m \<and> r = bs" for n m bs m' r
    by (cases n) auto
  ultimately show ?case by fastforce
next
  case (Suc f)
  have one: "wf_amqp v" if "length bs < 2 ^ 32" "readValue f bs = Inr (v, r)" for bs v r
    using Suc.IH that by blast
  have items: "length vs = n \<and> (\<forall>v \<in> set vs. wf_amqp v)"
    if "length bs < 2 ^ 32" "readItems f n bs = Inr (vs, r)" for n bs vs r
    using Suc.IH that by blast
  have pairs: "wf_entries m' \<and> 2 * length m' + length r \<le> 2 * length m + length bs"
    if "length bs < 2 ^ 32" "readPairs f n m bs = Inr (m', r)" "wf_entries m" for n m bs m' r
    using Suc.IH that by blast
  have "wf_amqp v" if len: "length bs < 2 ^ 32" and rd: "readValue (Suc f) bs = Inr (v, r)" for bs v r
  proof -
    from rd obtain code t where bs: "bs = code # t"
      by (auto simp: and_then_eq_Inr dest!: readByte_suffix)
    have le: "length t1 < 2 ^ 32" if "rest_of t1 t" for t1
      using rest_of_length [OF that] len bs by simp
    have "wf_amqp v" if "code = typeList8 \<or> code = typeList32"
    proof -
      from rd that obtain w n r1 vs where c: "readCount w t = Inr (n, r1)"
        and i: "readItems f n r1 = Inr (vs, r)" and v: "v = AList vs"
        by (auto simp: bs readByte_def and_then_eq_Inr)
      have l: "length r1 < 2 ^ 32" "n \<le> length r1" using readCount_rest [OF c] le by auto
      show ?thesis using items [OF l(1) i] l by (simp add: v)
    qed
    moreover have "wf_amqp v" if "code = typeMap8 \<or> code = typeMap32"
    proof -
      from rd that obtain w n r1 m where c: "readCount w t = Inr (n, r1)"
        and p: "readPairs f n [] r1 = Inr (m, r)" and v: "v = AMap m"
        by (auto simp: bs readByte_def and_then_eq_Inr)
      have l: "length r1 < 2 ^ 32" using readCount_rest [OF c] le by blast
      show ?thesis using pairs [OF l p] l by (simp add: v wf_entries_def)
    qed
    moreover have "wf_amqp v" if "code = typeDescribed"
    proof -
      from rd that obtain d r1 x where d: "readValue f t = Inr (d, r1)"
        and x: "readValue f r1 = Inr (x, r)" and v: "v = ADescribed d x"
        by (auto simp: bs readByte_def and_then_eq_Inr)
      show ?thesis
        using one [OF le [OF rest_of_refl] d] one [OF le [OF readValue_rest [OF d]] x] v by simp
    qed
    moreover have "wf_amqp v" if "readScalar code t = Inr (v, r)"
      using readScalar_wf [OF that] le by blast
    ultimately show ?thesis
      using rd by (simp add: bs readByte_def split: if_splits)
  qed
  moreover have "length vs = n \<and> (\<forall>v \<in> set vs. wf_amqp v)"
    if "length bs < 2 ^ 32" "readItems (Suc f) n bs = Inr (vs, r)" for n bs vs r
  proof (cases n)
    case (Suc k)
    from that(2) obtain v vs' r1 where v: "readValue f bs = Inr (v, r1)"
      and vs': "readItems f k r1 = Inr (vs', r)" and vs: "vs = v # vs'"
      by (auto simp: Suc and_then_eq_Inr)
    have "length r1 < 2 ^ 32" using readValue_shorter [OF v] that(1) by simp
    then show ?thesis using one [OF that(1) v] items [OF _ vs'] by (simp add: vs Suc)
  qed (use that in auto)
  moreover have "wf_entries m' \<and> 2 * length m' + length r \<le> 2 * length m + length bs"
    if "length bs < 2 ^ 32" "readPairs (Suc f) n m bs = Inr (m', r)" "wf_entries m" for n m bs m' r
  proof (cases n)
    case (Suc j)
    from that(2) obtain k v r1 r2 m1 where k: "readValue f bs = Inr (k, r1)"
      and v: "readValue f r1 = Inr (v, r2)" and a: "mapAssign k v m = Inr m1"
      and p: "readPairs f (j - 1) m1 r2 = Inr (m', r)"
      by (auto simp: Suc and_then_eq_Inr)
    have l: "length r1 < length bs" "length r2 < length r1"
      using readValue_shorter [OF k] readValue_shorter [OF v] .
    have m1: "wf_entries m1 \<and> length m1 \<le> Suc (length m)"
      using mapAssign_wf [OF a that(3)] one [OF that(1) k] one [OF _ v] l that(1) by simp
    have "wf_entries m' \<and> 2 * length m' + length r \<le> 2 * length m1 + length r2"
      using pairs [OF _ p] m1 l that(1) by simp
    with m1 l show ?thesis by simp
  qed (use that in auto)
  ultimately show ?case by blast
qed

section \<open>Properties of the codec\<close>

text \<open>C6: decoding what the encoder wrote yields the encoded value and leaves exactly what followed
  it, for every well-formed value without an \<open>int8\<close> or \<open>int16\<close> inside (the ones the encoder
  accepts); in particular for every iteration order of a map.\<close>

theorem amqp_roundtrip:
  assumes "wf_amqp v" and "writeValue v = Inr bs"
  shows "decode (bs @ rest) = Inr (v, rest)"
  unfolding decode_def using assms by (intro read_back(1)) simp_all

theorem amqp_roundtrip_witness:
  "decode ([0xc0, 4, 2, 0x50, 7, 0x41] @ [9]) = Inr (AList [AUbyte 7, ABool True], [9])"
  by (rule amqp_roundtrip) (simp_all add: collection_def)

text \<open>C7: a successful decode consumed a non-empty prefix of its input and nothing else (no read
  past the buffer), and the value it returns is well formed: sizes within bounds, map keys distinct,
  hashable and never symbols.\<close>

theorem decode_safe:
  assumes "decode bs = Inr (v, rest)" and "length bs < 2 ^ 32"
  shows "(\<exists>used. used \<noteq> [] \<and> bs = used @ rest) \<and> wf_amqp v"
proof -
  have rd: "readValue (2 * length bs + 1) bs = Inr (v, rest)"
    using assms(1) by (simp add: decode_def)
  obtain used where "bs = used @ rest" using readValue_rest [OF rd] by (auto simp: rest_of_def)
  moreover have "used \<noteq> []" using calculation readValue_shorter [OF rd] by auto
  moreover have "wf_amqp v" using read_wf_fuel [of "2 * length bs + 1"] rd assms(2) by blast
  ultimately show ?thesis by blast
qed

theorem decode_safe_witness:
  "(\<exists>used. used \<noteq> [] \<and> [0x50, 7, 9 :: u8] = used @ [9]) \<and> wf_amqp (AUbyte 7)"
proof (rule decode_safe)
  show "decode [0x50, 7, 9] = Inr (AUbyte 7, [9])" by code_simp
qed simp

text \<open>the decoder always returns a value, an error or a panic: the recursion it makes through
  counts read from the input ends within the fuel \<open>decode\<close> gives it, on every input.\<close>

lemma decode_has_fuel: "decode bs \<noteq> Inl OutOfFuel"
  unfolding decode_def using read_enough_fuel [of "2 * length bs + 1"] by simp

text \<open>relaying is faithful: a decoded value that the encoder accepts, encoded again (as the attach
  echo does with the peer's source and target), decodes to the same value.\<close>

lemma relay_faithful:
  assumes "decode bs = Inr (v, rest)" and "length bs < 2 ^ 32" and "writeValue v = Inr bs'"
  shows "decode (bs' @ rest') = Inr (v, rest')"
proof -
  have "readValue (2 * length bs + 1) bs = Inr (v, rest)" using assms(1) by (simp add: decode_def)
  then have "wf_amqp v" using read_wf_fuel [of "2 * length bs + 1"] assms(2) by blast
  then show ?thesis unfolding decode_def using assms(3) by (intro read_back(1)) simp_all
qed

lemma relay_faithful_witness:
  "decode ([0x70, 0, 0, 0, 5] @ [1]) = Inr (AUint 5, [1])"
proof (rule relay_faithful)
  show "decode [0x52, 5] = Inr (AUint 5, [])" by code_simp
  show "writeValue (AUint 5) = Inr [0x70, 0, 0, 0, 5]" by code_simp
qed simp

text \<open>C8: the encoder panics exactly on values with an \<open>int8\<close> or \<open>int16\<close> somewhere inside, which
  the decoder does produce: the type switch of \<open>writeValue\<close> has no case for them.\<close>

theorem encoder_panics_iff:
  "(writeValue v = Inl PanicCannotEncode) = has_narrow_int v \<and>
   ((\<exists>bs. writeValue v = Inr bs) = (\<not> has_narrow_int v)) \<and>
   decode [typeByte, 1] = Inr (AByte 1, []) \<and> has_narrow_int (AByte 1)"
proof -
  have "decode [typeByte, 1] = Inr (AByte 1, [])" by code_simp
  then show ?thesis
    using write_outcome(1) [of v] by (cases "has_narrow_int v") auto
qed

text \<open>a map whose key is not hashable (a binary, a list, a map, or a described value holding one)
  makes the decoder panic: two such entries of any kind on the wire end the process.\<close>

lemma decoder_panics_on_unhashable_key:
  assumes "wf_amqp k" and "\<not> hashable k" and "wf_amqp v"
    and "writeValue (AMap [(k, v)]) = Inr bs"
  shows "decode (bs @ rest) = Inl PanicUnhashable"
proof -
  from assms(4) obtain bk bv where w: "writeValue k = Inr bk" "writeValue v = Inr bv"
    and bs: "bs = collection typeMap8 typeMap32 2 (bk @ bv)"
    by (auto simp: and_then_eq_Inr numeral_2_eq_2)
  have n: "(2::nat) < 2 ^ 32" "2 \<le> length (bk @ bv)"
    using write_lengths(1) [OF w(1)] write_lengths(1) [OF w(2)] by auto
  obtain code wd t where hd: "bs @ rest = code # t"
    "code = typeMap8 \<and> wd = 1 \<or> code = typeMap32 \<and> wd = 4"
    "readCount wd t = Inr (2, (bk @ bv) @ rest)"
    using collection_header [OF n] bs by blast
  define g where "g = 2 * length (bs @ rest) - 1"
  have g: "2 * length (bs @ rest) + 1 = Suc (Suc g)" "2 * length bk \<le> g" "2 * length bv \<le> g"
    using collection_length [of "bk @ bv" typeMap8 typeMap32 2] by (simp_all add: g_def bs)
  have "readValue g (bk @ bv @ rest) = Inr (k, bv @ rest)" "readValue g (bv @ rest) = Inr (v, rest)"
    using read_back(1) assms(1,3) w g by blast+
  moreover have "mapAssign k v [] = Inl PanicUnhashable"
    using assms(2) by (cases k) (simp_all add: mapAssign_def)
  ultimately have "readPairs (Suc g) 2 [] ((bk @ bv) @ rest) = Inl PanicUnhashable"
    by (simp add: numeral_2_eq_2)
  with hd show ?thesis
    unfolding decode_def g(1) by (auto simp: readValue_step simp del: readValue.simps)
qed

lemma decoder_panics_on_unhashable_key_witness:
  "decode ([0xc1, 4, 2, 0xa0, 0, 0x40] @ []) = Inl PanicUnhashable"
  by (rule decoder_panics_on_unhashable_key [of "ABinary []" ANull])
    (simp_all add: writeBinary_def sized_def collection_def)

end
