(* ===== verification/Amqp_Frame.thy ===== *)
theory Amqp_Frame
  imports Amqp_Codec
begin

text \<open>
  Framing, \<open>internal/servers/sbserver/frame.go\<close>, and the field helpers of \<open>helpers.go\<close>. The
  connection's reader is the list of bytes still to come; its end is the end of the stream.
\<close>

section \<open>Performatives\<close>

abbreviation descOpen :: u64 where "descOpen \<equiv> 0x10"
abbreviation descBegin :: u64 where "descBegin \<equiv> 0x11"
abbreviation descAttach :: u64 where "descAttach \<equiv> 0x12"
abbreviation descFlow :: u64 where "descFlow \<equiv> 0x13"
abbreviation descTransfer :: u64 where "descTransfer \<equiv> 0x14"
abbreviation descDisposition :: u64 where "descDisposition \<equiv> 0x15"
abbreviation descDetach :: u64 where "descDetach \<equiv> 0x16"
abbreviation descEnd :: u64 where "descEnd \<equiv> 0x17"
abbreviation descClose :: u64 where "descClose \<equiv> 0x18"
abbreviation descSASLMechanisms :: u64 where "descSASLMechanisms \<equiv> 0x40"
abbreviation descSASLOutcome :: u64 where "descSASLOutcome \<equiv> 0x44"
abbreviation descAccepted :: u64 where "descAccepted \<equiv> 0x24"
abbreviation descProperties :: u64 where "descProperties \<equiv> 0x73"
abbreviation descAppProps :: u64 where "descAppProps \<equiv> 0x74"

abbreviation frameTypeAMQP :: u8 where "frameTypeAMQP \<equiv> 0x00"
abbreviation frameTypeSASL :: u8 where "frameTypeSASL \<equiv> 0x01"

abbreviation maxFrameSize :: u32 where "maxFrameSize \<equiv> 65536"

definition amqpHeader :: bytes where "amqpHeader = bytes_of_string ''AMQP'' @ [0, 1, 0, 0]"
definition saslHeader :: bytes where "saslHeader = bytes_of_string ''AMQP'' @ [3, 1, 0, 0]"

record frame =
  f_typ :: u8
  f_channel :: u16
  f_code :: u64
  f_fields :: "amqp list"
  f_payload :: bytes

section \<open>Reading frames\<close>

definition readProtocolHeader :: "bytes \<Rightarrow> fault + (bytes \<times> bytes)" where
  "readProtocolHeader bs =
     and_then (readN 8 bs) (\<lambda>(hdr, r).
       if take 4 hdr \<noteq> bytes_of_string ''AMQP'' then Inl (Err BadProtocolHeader) else Inr (hdr, r))"

fun descriptorCode :: "amqp \<Rightarrow> u64" where
  "descriptorCode (AUlong v) = v"
| "descriptorCode (AUint v) = ucast v"
| "descriptorCode (AUbyte v) = ucast v"
| "descriptorCode _ = 0"

fun asList :: "amqp \<Rightarrow> amqp list" where
  "asList (AList vs) = vs"
| "asList _ = []"

text \<open>The part of \<open>readFrame\<close> after the frame's bytes are in: decode the performative, if any.\<close>

definition frameOfBody :: "u8 \<Rightarrow> u16 \<Rightarrow> bytes \<Rightarrow> fault + frame" where
  "frameOfBody ty ch body =
     (if body = [] then
        Inr \<lparr>f_typ = ty, f_channel = ch, f_code = 0, f_fields = [], f_payload = []\<rparr>
      else and_then (decode body) (\<lambda>(v, after).
        case v of
          ADescribed d val \<Rightarrow>
            Inr \<lparr>f_typ = ty, f_channel = ch, f_code = descriptorCode d,
                 f_fields = asList val, f_payload = after\<rparr>
        | _ \<Rightarrow> Inl (Err NotDescribed)))"

definition readFrame :: "bytes \<Rightarrow> fault + (frame \<times> bytes)" where
  "readFrame bs =
     and_then (readN 8 bs) (\<lambda>(header, r).
       let size = (be_word (take 4 header) :: u32);
           doff = unat (header ! 4) * 4;
           ty = header ! 5;
           ch = (be_word (drop 6 header) :: u16)
       in if size < 8 then Inl (Err (InvalidFrameSize size))
          else if size > maxFrameSize then Inl (Err (FrameTooLarge size))
          else if doff < 8 then Inl (Err (InvalidDataOffset doff))
          else and_then (readN (unat size - 8) r) (\<lambda>(body, r').
            if doff > 8 \<and> doff - 8 > length body then Inl (Err OffsetPastBody)
            else and_then (frameOfBody ty ch (drop (doff - 8) body)) (\<lambda>f. Inr (f, r'))))"

section \<open>Writing frames\<close>

definition writeFrame ::
    "u8 \<Rightarrow> u16 \<Rightarrow> u64 \<Rightarrow> amqp list \<Rightarrow> bytes \<Rightarrow> fault + bytes" where
  "writeFrame ty ch code flds payload =
     and_then (encodeDescribedList code flds) (\<lambda>body.
       Inr (be_bytes 4 (word_of_nat (8 + length body + length payload) :: u32) @
            [2, ty] @ be_bytes 2 ch @ body @ payload))"

section \<open>Field access\<close>

definition field :: "frame \<Rightarrow> nat \<Rightarrow> amqp" where
  "field f i = (if i < length (f_fields f) then f_fields f ! i else ANull)"

fun asUint32 :: "amqp \<Rightarrow> u32" where
  "asUint32 (AUint n) = n"
| "asUint32 (AUlong n) = ucast n"
| "asUint32 (AUshort n) = ucast n"
| "asUint32 (AUbyte n) = ucast n"
| "asUint32 (AInt n) = n"
| "asUint32 (ALong n) = ucast n"
| "asUint32 _ = 0"

fun asBool :: "amqp \<Rightarrow> bool" where
  "asBool (ABool b) = b"
| "asBool _ = False"

fun asString :: "amqp \<Rightarrow> string" where
  "asString (AString s) = s"
| "asString _ = []"

fun addressOf :: "amqp \<Rightarrow> string" where
  "addressOf (ADescribed _ (AList (a # _))) = asString a"
| "addressOf _ = []"

section \<open>Facts about frames\<close>

lemma trimNil_prefix: "\<exists>n. fs = trimNil fs @ replicate n ANull"
proof -
  have "rev fs = takeWhile (\<lambda>v. v = ANull) (rev fs) @ dropWhile (\<lambda>v. v = ANull) (rev fs)"
    by simp
  then have "fs = trimNil fs @ rev (takeWhile (\<lambda>v. v = ANull) (rev fs))"
    unfolding trimNil_def by (metis rev_append rev_rev_ident)
  moreover have "rev (takeWhile (\<lambda>v. v = ANull) (rev fs)) =
      replicate (length (takeWhile (\<lambda>v. v = ANull) (rev fs))) ANull"
    by (rule replicate_eqI) (auto dest: set_takeWhileD)
  ultimately show ?thesis by metis
qed

lemma trimNil_set: "v \<in> set (trimNil fs) \<Longrightarrow> v \<in> set fs"
  unfolding trimNil_def by (auto dest: set_dropWhileD)

lemma trimNil_length: "length (trimNil fs) \<le> length fs"
  by (simp add: trimNil_def length_dropWhile_le [where xs = "rev fs", simplified])

lemma dropWhile_twice [simp]: "dropWhile P (dropWhile P xs) = dropWhile P xs"
  by (induction xs) auto

lemma trimNil_idem [simp]: "trimNil (trimNil fs) = trimNil fs"
  by (simp add: trimNil_def)

text \<open>Trimming trailing nils cannot be observed through \<open>field\<close>.\<close>

lemma field_trimNil:
  "field \<lparr>f_typ = t, f_channel = c, f_code = k, f_fields = trimNil fs, f_payload = p\<rparr> i =
   (if i < length fs then fs ! i else ANull)"
proof -
  obtain n where n: "fs = trimNil fs @ replicate n ANull" using trimNil_prefix by blast
  show ?thesis
    unfolding field_def frame.simps by (subst (3 4) n) (auto simp: nth_append)
qed

lemma decode_encodeDescribedList:
  assumes enc: "encodeDescribedList code flds = Inr body"
    and wf: "\<forall>v \<in> set flds. wf_amqp v" and len: "length flds < 2 ^ 32"
  shows "decode (body @ r) =
    Inr (ADescribed (AUlong (ucast (ucast code :: u8))) (AList (trimNil flds)), r)"
proof -
  from enc obtain b where b: "writeValue (AList (trimNil flds)) = Inr b"
    and body: "body = typeDescribed # typeSmallUlong # ucast code # b"
    by (auto simp: encodeDescribedList_def writeList_def and_then_eq_Inr
        simp del: writeValue.simps)
  have "wf_amqp (AList (trimNil flds))"
    using wf len trimNil_length [of flds] by (auto dest: trimNil_set)
  then have "readValue (2 * length (body @ r)) (b @ r) = Inr (AList (trimNil flds), r)"
    by (rule read_back(1) [OF _ b]) (simp add: body)
  then show ?thesis
    unfolding decode_def
    by (simp add: body readValue_step readScalar_def readSmall_def readByte_def
        del: readValue.simps)
qed

lemma writeItems_length: "writeItems vs = Inr b \<Longrightarrow> length vs \<le> length b"
  by (rule write_lengths(2))

lemma decode_trimmed:
  assumes enc: "encodeDescribedList code flds = Inr body"
    and wf: "\<forall>v \<in> set flds. wf_amqp v" and len: "length body < 2 ^ 32"
  shows "decode (body @ r) =
    Inr (ADescribed (AUlong (ucast (ucast code :: u8))) (AList (trimNil flds)), r)"
proof -
  have "encodeDescribedList code (trimNil flds) = Inr body"
    using enc by (simp add: encodeDescribedList_def)
  moreover have "length (trimNil flds) \<le> length body"
    using enc writeItems_length [of "trimNil flds"] 
    by (fastforce simp: encodeDescribedList_def writeList_def and_then_eq_Inr collection_def split: if_splits)
  ultimately show ?thesis
    using decode_encodeDescribedList [of code "trimNil flds" body r] wf len
    by (auto dest: trimNil_set)
qed

lemma header_fields:
  "readFrame ((be_bytes 4 (w :: u32) @ [d, ty] @ be_bytes 2 (ch :: u16)) @ r) =
     (if w < 8 then Inl (Err (InvalidFrameSize w))
      else if w > maxFrameSize then Inl (Err (FrameTooLarge w))
      else if unat d * 4 < 8 then Inl (Err (InvalidDataOffset (unat d * 4)))
      else and_then (readN (unat w - 8) r) (\<lambda>(body, r').
        if unat d * 4 > 8 \<and> unat d * 4 - 8 > length body then Inl (Err OffsetPastBody)
        else and_then (frameOfBody ty ch (drop (unat d * 4 - 8) body)) (\<lambda>f. Inr (f, r'))))"
proof -
  define h where "h = be_bytes 4 w @ [d, ty] @ be_bytes 2 ch"
  have "take 4 h = be_bytes 4 w" "h ! 4 = d" "h ! 5 = ty" "drop 6 h = be_bytes 2 ch" "length h = 8"
    by (simp_all add: h_def nth_append)
  then show ?thesis
    unfolding readFrame_def h_def [symmetric] by (simp add: Let_def cong: if_cong)
qed

lemma writeFrame_length:
  "writeFrame ty ch code flds payload = Inr bs \<Longrightarrow>
     \<exists>body. encodeDescribedList code flds = Inr body \<and> length bs = 8 + length body + length payload \<and>
       bs = (be_bytes 4 (word_of_nat (length bs) :: u32) @ [2, ty] @ be_bytes 2 ch) @ body @ payload"
  by (auto simp: writeFrame_def and_then_eq_Inr add.assoc)

lemma frame_of_value:
  "(case v of ADescribed d val \<Rightarrow> Inr (g d val) | _ \<Rightarrow> Inl e) = Inr f \<longleftrightarrow>
     (\<exists>d val. v = ADescribed d val \<and> f = g d val)"
  by (cases v) auto

section \<open>Properties of framing\<close>

text \<open>C9: a written frame within the size limit is read back as written, whatever follows it on the
  stream: its type, channel, performative code (of which one byte is sent) and payload, and its
  fields without the trailing nils, which \<open>field\<close> cannot tell from absent ones.\<close>

theorem frame_roundtrip:
  assumes "\<forall>v \<in> set flds. wf_amqp v"
    and "writeFrame ty ch code flds payload = Inr bs" and "length bs \<le> 65536"
  shows "readFrame (bs @ rest) =
    Inr (\<lparr>f_typ = ty, f_channel = ch, f_code = ucast (ucast code :: u8),
          f_fields = trimNil flds, f_payload = payload\<rparr>, rest)"
proof -
  obtain body where enc: "encodeDescribedList code flds = Inr body"
    and len: "length bs = 8 + length body + length payload"
    and bs: "bs = (be_bytes 4 (word_of_nat (length bs) :: u32) @ [2, ty] @ be_bytes 2 ch) @ body @ payload"
    using writeFrame_length [OF assms(2)] by blast
  define w where "w = (word_of_nat (length bs) :: u32)"
  have w: "unat w = length bs" using assms(3) by (simp add: w_def unat_of_nat)
  have "decode (body @ payload) =
      Inr (ADescribed (AUlong (ucast (ucast code :: u8))) (AList (trimNil flds)), payload)"
    by (rule decode_trimmed [OF enc assms(1)]) (use len assms(3) in simp)
  moreover have "body \<noteq> []"
    using enc by (auto simp: encodeDescribedList_def and_then_eq_Inr)
  ultimately have "frameOfBody ty ch (body @ payload) =
      Inr \<lparr>f_typ = ty, f_channel = ch, f_code = ucast (ucast code :: u8),
          f_fields = trimNil flds, f_payload = payload\<rparr>"
    by (simp add: frameOfBody_def)
  moreover have "\<not> w < 8" "\<not> w > 65536"
    using w len assms(3) by (simp_all add: word_less_nat_alt)
  moreover have "unat w - 8 = length (body @ payload)" using w len by simp
  moreover have "bs @ rest = (be_bytes 4 w @ [2, ty] @ be_bytes 2 ch) @ (body @ payload) @ rest"
    by (subst bs) (simp add: w_def)
  ultimately show ?thesis
    by (simp only: header_fields readN_append) simp
qed

theorem frame_roundtrip_witness:
  "readFrame ([0, 0, 0, 16, 2, 0, 0, 1, 0, 0x53, 0x17, 0xc0, 2, 1, 0x41, 9] @ [1]) =
    Inr (\<lparr>f_typ = 0, f_channel = 1, f_code = ucast (ucast (0x17 :: u64) :: u8),
          f_fields = trimNil [ABool True, ANull], f_payload = [9]\<rparr>, [1])"
proof (rule frame_roundtrip)
  show "writeFrame 0 1 0x17 [ABool True, ANull] [9] =
      Inr [0, 0, 0, 16, 2, 0, 0, 1, 0, 0x53, 0x17, 0xc0, 2, 1, 0x41, 9]"
    by code_simp
qed simp_all

text \<open>\<open>writeFrame\<close> never splits a message: as soon as performative and payload exceed the
  advertised \<open>max-frame-size\<close>, the frame it writes is one this server itself refuses to read.\<close>

lemma oversized_frame_refused:
  assumes "writeFrame ty ch code flds payload = Inr bs"
    and "65536 < length bs" and "length bs < 2 ^ 32"
  shows "readFrame (bs @ rest) = Inl (Err (FrameTooLarge (word_of_nat (length bs))))"
proof -
  obtain body where
    bs: "bs = (be_bytes 4 (word_of_nat (length bs) :: u32) @ [2, ty] @ be_bytes 2 ch) @ body @ payload"
    using writeFrame_length [OF assms(1)] by blast
  define w where "w = (word_of_nat (length bs) :: u32)"
  have w: "unat w = length bs" using assms(3) by (simp add: w_def unat_of_nat)
  then have "\<not> w < 8" "w > 65536" using assms(2) by (simp_all add: word_less_nat_alt)
  moreover have "bs @ rest = (be_bytes 4 w @ [2, ty] @ be_bytes 2 ch) @ body @ payload @ rest"
    by (subst bs) (simp add: w_def)
  ultimately show ?thesis by (simp only: header_fields w_def) simp
qed

lemma writeFrame_transfer_big:
  "writeFrame 0 1 descTransfer [] (replicate 65536 0) =
     Inr ([0, 1, 0, 12, 2, 0, 0, 1, 0, 0x53, 0x14, 0x45] @ replicate 65536 0)"
proof -
  have "be_bytes 4 (65548 :: u32) = [0, 1, 0, 12]" "be_bytes 2 (1 :: u16) = [0, 1]" by code_simp+
  then show ?thesis
    by (simp add: writeFrame_def encodeDescribedList_def writeList_def trimNil_def)
qed

lemma oversized_frame_refused_witness:
  "readFrame (([0, 1, 0, 12, 2, 0, 0, 1, 0, 0x53, 0x14, 0x45] @ replicate 65536 0) @ []) =
    Inl (Err (FrameTooLarge
      (word_of_nat (length ([0, 1, 0, 12, 2, 0, 0, 1, 0, 0x53, 0x14, 0x45 :: u8] @ replicate 65536 0)))))"
  by (rule oversized_frame_refused [OF writeFrame_transfer_big]) simp_all

text \<open>a frame read from the stream took between 8 and 65536 bytes of it, its body was never
  larger than \<open>max-frame-size\<close>, and its fields are well-formed values.\<close>

lemma readFrame_bounds:
  assumes "readFrame bs = Inr (f, rest)"
  shows "\<exists>used. bs = used @ rest \<and> 8 \<le> length used \<and> length used \<le> 65536 \<and>
    length (f_payload f) \<le> length used \<and> (\<forall>v \<in> set (f_fields f). wf_amqp v)"
proof -
  from assms obtain header r where h: "readN 8 bs = Inr (header, r)"
    by (auto simp: readFrame_def and_then_eq_Inr)
  define w where "w = (be_word (take 4 header) :: u32)"
  define doff where "doff = unat (header ! 4) * 4"
  from assms h obtain body where w: "\<not> w < 8" "\<not> w > 65536"
    and body: "readN (unat w - 8) r = Inr (body, rest)"
    and fr: "frameOfBody (header ! 5) (be_word (drop 6 header)) (drop (doff - 8) body) = Inr f"
    by (auto simp: readFrame_def and_then_eq_Inr Let_def w_def doff_def split: if_splits)
  let ?body = "drop (doff - 8) body"
  have bs: "bs = header @ body @ rest" "length header = 8" "length body = unat w - 8"
    using readN_suffix [OF h] readN_suffix [OF body] by auto
  have uw: "8 \<le> unat w" "unat w \<le> 65536" using w by (simp_all add: word_less_nat_alt)
  have "length (f_payload f) \<le> length ?body \<and> (\<forall>v \<in> set (f_fields f). wf_amqp v)"
  proof (cases "?body = []")
    case False
    with fr obtain d val after where dec: "decode ?body = Inr (ADescribed d val, after)"
      and f: "f_payload f = after" "f_fields f = asList val"
      by (auto simp: frameOfBody_def and_then_eq_Inr frame_of_value)
    have len: "length ?body < 2 ^ 32" using bs(3) uw by simp
    have rd: "readValue (2 * length ?body + 1) ?body = Inr (ADescribed d val, after)"
      using dec by (simp add: decode_def)
    have "wf_amqp (ADescribed d val)"
      using read_wf_fuel [of "2 * length ?body + 1"] rd len by blast
    moreover have "length after \<le> length ?body"
      using rest_of_length [OF readValue_rest [OF rd]] .
    ultimately show ?thesis using f by (cases val) auto
  qed (use fr in \<open>auto simp: frameOfBody_def\<close>)
  then show ?thesis
    using bs uw by (intro exI [of _ "header @ body"]) auto
qed

lemma readFrame_bounds_witness:
  "\<exists>used. [0, 0, 0, 8, 2, 0, 0, 1, 9 :: u8] = used @ [9] \<and> 8 \<le> length used \<and> length used \<le> 65536 \<and>
    length (f_payload \<lparr>f_typ = 0, f_channel = 1, f_code = 0, f_fields = [], f_payload = []\<rparr>)
      \<le> length used \<and>
    (\<forall>v \<in> set (f_fields \<lparr>f_typ = 0, f_channel = 1, f_code = 0, f_fields = [], f_payload = []\<rparr>).
       wf_amqp v)"
proof (rule readFrame_bounds)
  show "readFrame [0, 0, 0, 8, 2, 0, 0, 1, 9] =
      Inr (\<lparr>f_typ = 0, f_channel = 1, f_code = 0, f_fields = [], f_payload = []\<rparr>, [9])"
    by code_simp
qed

lemma readFrame_shorter: "readFrame bs = Inr (f, rest) \<Longrightarrow> length rest < length bs"
  by (auto simp: readFrame_def and_then_eq_Inr Let_def split: if_splits dest!: readN_suffix)

end
