(* ===== verification/Go_Strings.thy ===== *)
theory Go_Strings
  imports Prelude "HOL-Library.Char_ord" "HOL-Library.List_Lexorder"
begin

text \<open>
  What the source uses of Go's \<open>strings\<close>, \<open>unicode\<close>, \<open>unicode/utf8\<close> and \<open>sort\<close>: UTF-8 decoding,
  case mapping, trimming, searching, splitting, replacing, and the byte-wise order of strings
  (the order of \<open>List_Lexorder\<close> over \<open>Char_ord\<close>). None of it is code of the repository.

  Case mapping covers ASCII, Latin-1, Latin Extended-A, Greek and Cyrillic letters and the letters
  whose lower case has another UTF-8 length; other letters are left as they are.
\<close>

section \<open>UTF-8\<close>

abbreviation code_at :: "string \<Rightarrow> nat \<Rightarrow> nat" where
  "code_at s i \<equiv> (if i < length s then of_char (s ! i) else 256)"

definition continuation :: "nat \<Rightarrow> bool" where
  "continuation n \<longleftrightarrow> 0x80 \<le> n \<and> n \<le> 0xBF"

abbreviation runeError :: nat where "runeError \<equiv> 0xFFFD"

text \<open>\<open>utf8.DecodeRuneInString\<close>: the rune at the front and its width; an invalid byte is
  \<open>RuneError\<close> of width 1.\<close>

definition decodeRune :: "string \<Rightarrow> nat \<times> nat" where
  "decodeRune s =
     (let a = code_at s 0; b = code_at s 1; c = code_at s 2; d = code_at s 3 in
      if a < 0x80 then (a, 1)
      else if 0xC2 \<le> a \<and> a \<le> 0xDF \<and> continuation b then ((a - 0xC0) * 64 + (b - 0x80), 2)
      else if 0xE0 \<le> a \<and> a \<le> 0xEF \<and> continuation b \<and> continuation c \<and>
              (a = 0xE0 \<longrightarrow> 0xA0 \<le> b) \<and> (a = 0xED \<longrightarrow> b \<le> 0x9F)
        then ((a - 0xE0) * 4096 + (b - 0x80) * 64 + (c - 0x80), 3)
      else if 0xF0 \<le> a \<and> a \<le> 0xF4 \<and> continuation b \<and> continuation c \<and> continuation d \<and>
              (a = 0xF0 \<longrightarrow> 0x90 \<le> b) \<and> (a = 0xF4 \<longrightarrow> b \<le> 0x8F)
        then ((a - 0xF0) * 262144 + (b - 0x80) * 4096 + (c - 0x80) * 64 + (d - 0x80), 4)
      else (runeError, 1))"

definition encodeRune :: "nat \<Rightarrow> string" where
  "encodeRune r = map char_of
     (if r < 0x80 then [r]
      else if r < 0x800 then [0xC0 + r div 64, 0x80 + r mod 64]
      else if r < 0x10000 then [0xE0 + r div 4096, 0x80 + r div 64 mod 64, 0x80 + r mod 64]
      else [0xF0 + r div 262144, 0x80 + r div 4096 mod 64, 0x80 + r div 64 mod 64, 0x80 + r mod 64])"

function runes :: "string \<Rightarrow> nat list" where
  "runes s = (if s = [] then [] else fst (decodeRune s) # runes (drop (max 1 (snd (decodeRune s))) s))"
  by pat_completeness auto
termination
  by (relation "measure length") auto

declare runes.simps [simp del]

section \<open>Case mapping\<close>

definition lowerRune :: "nat \<Rightarrow> nat" where
  "lowerRune r =
     (if 65 \<le> r \<and> r \<le> 90 then r + 32
      else if r < 0xC0 then r
      else if r \<le> 0xDE \<and> r \<noteq> 0xD7 then r + 32
      else if r = 0x130 then 0x69
      else if r = 0x178 then 0xFF
      else if (0x100 \<le> r \<and> r \<le> 0x137 \<or> 0x14A \<le> r \<and> r \<le> 0x177) \<and> even r then r + 1
      else if (0x139 \<le> r \<and> r \<le> 0x148 \<or> 0x179 \<le> r \<and> r \<le> 0x17E) \<and> odd r then r + 1
      else if r = 0x23A then 0x2C65
      else if r = 0x23E then 0x2C66
      else if 0x391 \<le> r \<and> r \<le> 0x3AB \<and> r \<noteq> 0x3A2 then r + 32
      else if 0x400 \<le> r \<and> r \<le> 0x40F then r + 80
      else if 0x410 \<le> r \<and> r \<le> 0x42F then r + 32
      else if r = 0x1E9E then 0xDF
      else if r = 0x2126 then 0x3C9
      else if r = 0x212A then 0x6B
      else if r = 0x212B then 0xE5
      else r)"

definition isAscii :: "string \<Rightarrow> bool" where
  "isAscii s \<longleftrightarrow> (\<forall>c \<in> set s. of_char c < (128 :: nat))"

definition lowerChar :: "char \<Rightarrow> char" where
  "lowerChar c = (if 65 \<le> (of_char c :: nat) \<and> (of_char c :: nat) \<le> 90 then char_of (of_char c + 32 :: nat) else c)"

text \<open>\<open>strings.ToLower\<close>: invalid UTF-8 comes out as the three bytes of \<open>RuneError\<close>.\<close>

definition toLower :: "string \<Rightarrow> string" where
  "toLower s = (if isAscii s then map lowerChar s
                else concat (map (\<lambda>r. encodeRune (lowerRune r)) (runes s)))"

text \<open>\<open>strings.EqualFold\<close>: equality under simple case folding (the long s folds to s).\<close>

definition foldRune :: "nat \<Rightarrow> nat" where
  "foldRune r = (if r = 0x17F then 0x73 else lowerRune r)"

definition equalFold :: "string \<Rightarrow> string \<Rightarrow> bool" where
  "equalFold s t \<longleftrightarrow> map foldRune (runes s) = map foldRune (runes t)"

section \<open>Prefixes, searching, splitting\<close>

definition hasPrefix :: "string \<Rightarrow> string \<Rightarrow> bool" where
  "hasPrefix s p \<longleftrightarrow> take (length p) s = p"

definition trimPrefix :: "string \<Rightarrow> string \<Rightarrow> string" where
  "trimPrefix s p = (if hasPrefix s p then drop (length p) s else s)"

definition hasSuffix :: "string \<Rightarrow> string \<Rightarrow> bool" where
  "hasSuffix s p \<longleftrightarrow> length p \<le> length s \<and> drop (length s - length p) s = p"

definition trimSuffix :: "string \<Rightarrow> string \<Rightarrow> string" where
  "trimSuffix s p = (if hasSuffix s p then take (length s - length p) s else s)"

fun indexOf :: "string \<Rightarrow> string \<Rightarrow> nat option" where
  "indexOf [] p = (if p = [] then Some 0 else None)"
| "indexOf (c # s) p = (if hasPrefix (c # s) p then Some 0 else map_option Suc (indexOf s p))"

fun indexByte :: "string \<Rightarrow> char \<Rightarrow> nat option" where
  "indexByte [] c = None"
| "indexByte (d # s) c = (if d = c then Some 0 else map_option Suc (indexByte s c))"

definition lastIndexByte :: "string \<Rightarrow> char \<Rightarrow> nat option" where
  "lastIndexByte s c = map_option (\<lambda>i. length s - 1 - i) (indexByte (rev s) c)"

text \<open>\<open>strings.Trim(s, "/")\<close>.\<close>

definition trimSlashes :: "string \<Rightarrow> string" where
  "trimSlashes s = rev (dropWhile (\<lambda>c. c = CHR ''/'') (rev (dropWhile (\<lambda>c. c = CHR ''/'') s)))"

text \<open>\<open>strings.Split\<close> on a one-byte separator: always at least one part.\<close>

fun splitOn :: "char \<Rightarrow> string \<Rightarrow> string list" where
  "splitOn sep [] = [[]]"
| "splitOn sep (c # s) =
     (if c = sep then [] # splitOn sep s
      else (case splitOn sep s of [] \<Rightarrow> [[c]] | p # ps \<Rightarrow> (c # p) # ps))"

fun joinWith :: "string \<Rightarrow> string list \<Rightarrow> string" where
  "joinWith sep [] = []"
| "joinWith sep [p] = p"
| "joinWith sep (p # ps) = p @ sep @ joinWith sep ps"

section \<open>White space\<close>

definition spaceRunes :: "nat list" where
  "spaceRunes = [9, 10, 11, 12, 13, 32, 0x85, 0xA0, 0x1680, 0x2000, 0x2001, 0x2002, 0x2003, 0x2004,
     0x2005, 0x2006, 0x2007, 0x2008, 0x2009, 0x200A, 0x2028, 0x2029, 0x202F, 0x205F, 0x3000]"

definition spaceCodes :: "string list" where
  "spaceCodes = map encodeRune spaceRunes"

lemma find_code_shorter:
  assumes "find (\<lambda>e. e \<noteq> [] \<and> hasPrefix s e) codes = Some e"
  shows "length (drop (length e) s) < length s"
proof -
  have "e \<noteq> []" "take (length e) s = e"
    using assms by (auto simp: find_Some_iff hasPrefix_def)
  then have "s \<noteq> []" by (metis take_Nil)
  with \<open>e \<noteq> []\<close> show ?thesis by simp
qed

text \<open>Strip leading occurrences of any of the codes.\<close>

function stripCodes :: "string list \<Rightarrow> string \<Rightarrow> string" where
  "stripCodes codes s =
     (case find (\<lambda>e. e \<noteq> [] \<and> hasPrefix s e) codes of
        None \<Rightarrow> s
      | Some e \<Rightarrow> stripCodes codes (drop (length e) s))"
  by pat_completeness auto
termination
  by (relation "measure (\<lambda>(codes, s). length s)") (auto dest!: find_code_shorter)

declare stripCodes.simps [simp del]

definition trimSpace :: "string \<Rightarrow> string" where
  "trimSpace s = rev (stripCodes (map rev spaceCodes) (rev (stripCodes spaceCodes s)))"

section \<open>Facts\<close>

lemma hasPrefix_append [simp]: "hasPrefix (p @ s) p"
  by (simp add: hasPrefix_def)

lemma trimPrefix_append [simp]: "trimPrefix (p @ s) p = s"
  by (simp add: trimPrefix_def)

lemma hasPrefix_iff: "hasPrefix s p \<longleftrightarrow> (\<exists>t. s = p @ t)"
  by (metis append_take_drop_id hasPrefix_append hasPrefix_def)

lemma hasSuffix_iff: "hasSuffix s p \<longleftrightarrow> (\<exists>t. s = t @ p)"
  by (auto simp: hasSuffix_def) (metis append_take_drop_id)

lemma trimSuffix_append [simp]: "trimSuffix (s @ p) p = s"
  by (simp add: trimSuffix_def hasSuffix_def)

lemma indexByte_append:
  "c \<notin> set p \<Longrightarrow> indexByte (p @ c # s) c = Some (length p)"
  by (induction p) auto

lemma hasPrefix_length: "hasPrefix s p \<Longrightarrow> length p \<le> length s"
  by (auto simp: hasPrefix_iff)

lemma indexOf_bound: "indexOf s p = Some i \<Longrightarrow> i + length p \<le> length s"
  by (induction s arbitrary: i) (auto dest: hasPrefix_length split: if_splits)

lemma indexOf_prefix: "indexOf s p = Some i \<Longrightarrow> hasPrefix (drop i s) p"
  by (induction s arbitrary: i) (auto simp: hasPrefix_def split: if_splits)

lemma toLower_ascii_length: "isAscii s \<Longrightarrow> length (toLower s) = length s"
  by (simp add: toLower_def)

lemma indexByte_None: "indexByte s c = None \<longleftrightarrow> c \<notin> set s"
  by (induction s) auto

lemma lastIndexByte_append: "c \<notin> set s \<Longrightarrow> lastIndexByte (p @ c # s) c = Some (length p)"
  using indexByte_append [of c "rev s" "rev p"] by (simp add: lastIndexByte_def)

lemma splitOn_none: "sep \<notin> set s \<Longrightarrow> splitOn sep s = [s]"
  by (induction s) auto

lemma splitOn_not_Nil [simp]: "splitOn sep s \<noteq> []"
  by (induction s) (auto split: list.split)

lemma splitOn_append: "sep \<notin> set s \<Longrightarrow> splitOn sep (s @ sep # t) = s # splitOn sep t"
  by (induction s) auto

section \<open>Trimming\<close>

lemma joinWith_Cons: "ps \<noteq> [] \<Longrightarrow> joinWith sep (p # ps) = p @ sep @ joinWith sep ps"
  by (cases ps) simp_all

lemma join_split: "joinWith [sep] (splitOn sep s) = s"
proof (induction s)
  case (Cons c s)
  obtain p ps where "splitOn sep s = p # ps" using splitOn_not_Nil by (cases "splitOn sep s") auto
  then show ?case using Cons by (cases ps) (auto simp: joinWith_Cons)
qed simp

definition graphic :: "char \<Rightarrow> bool" where
  "graphic c \<longleftrightarrow> 33 \<le> (of_char c :: nat) \<and> (of_char c :: nat) < 128"

lemma spaceCodes_edges: "e \<in> set spaceCodes \<Longrightarrow> e \<noteq> [] \<and> \<not> graphic (hd e) \<and> \<not> graphic (last e)"
  by (auto simp: spaceCodes_def spaceRunes_def encodeRune_def graphic_def)

lemma stripCodes_none:
  assumes "s = [] \<or> (\<forall>e \<in> set codes. e \<noteq> [] \<and> hd e \<noteq> hd s)"
  shows "stripCodes codes s = s"
proof -
  have "find (\<lambda>e. e \<noteq> [] \<and> hasPrefix s e) codes = None"
    using assms by (auto simp: find_None_iff hasPrefix_iff)
  then show ?thesis by (simp add: stripCodes.simps)
qed

lemma trimSpace_graphic:
  assumes "s \<noteq> []" and "graphic (hd s)" and "graphic (last s)"
  shows "trimSpace s = s"
proof -
  have "stripCodes spaceCodes s = s" using spaceCodes_edges assms by (intro stripCodes_none) metis
  moreover have "stripCodes (map rev spaceCodes) (rev s) = rev s"
    using assms by (intro stripCodes_none) (auto simp: hd_rev dest: spaceCodes_edges)
  ultimately show ?thesis by (simp add: trimSpace_def)
qed

end
