(* ===== verification/Broker.thy ===== *)
theory Broker
  imports Amqp_Types Go_Strings
begin

text \<open>
  The Service Bus broker, \<open>internal/stores/sbstore/broker.go\<close>: queues of opaque messages, topic
  subscriptions, and the channels receivers wait on. Every method holds the broker's mutex for its
  whole body, so each is one step on the state. A missing Go map entry reads as empty, so the maps
  are total functions; a channel is a number, and the closed ones are recorded (closing a channel
  twice panics).
\<close>

section \<open>State and operations\<close>

record broker =
  b_queues :: "string \<Rightarrow> bytes list"
  b_topicSubs :: "string \<Rightarrow> string list"
  b_waiters :: "string \<Rightarrow> nat list"
  b_closed :: "nat list"
  b_nextChan :: nat

definition newBroker :: broker where
  "newBroker = \<lparr>b_queues = (\<lambda>_. []), b_topicSubs = (\<lambda>_. []), b_waiters = (\<lambda>_. []),
     b_closed = [], b_nextChan = 0\<rparr>"

definition subscriptionInfix :: string where
  "subscriptionInfix = ''/subscriptions/''"

text \<open>The index is found in the lower-cased address and used to slice the original one.\<close>

definition registerSubscription :: "string \<Rightarrow> broker \<Rightarrow> fault + broker" where
  "registerSubscription subAddress b =
     (case indexOf (toLower subAddress) subscriptionInfix of
        None \<Rightarrow> Inr b
      | Some idx \<Rightarrow>
          if idx > length subAddress then Inl PanicSliceBounds
          else let topic = take idx subAddress
               in Inr (b\<lparr>b_topicSubs := (b_topicSubs b)(topic :=
                    List.insert subAddress (b_topicSubs b topic))\<rparr>))"

fun closeChans :: "nat list \<Rightarrow> nat list \<Rightarrow> fault + nat list" where
  "closeChans [] closed = Inr closed"
| "closeChans (ch # chs) closed =
     (if ch \<in> set closed then Inl PanicCloseClosed else closeChans chs (ch # closed))"

definition notifyLocked :: "string \<Rightarrow> broker \<Rightarrow> fault + broker" where
  "notifyLocked address b =
     and_then (closeChans (b_waiters b address) (b_closed b)) (\<lambda>closed.
       Inr (b\<lparr>b_closed := closed, b_waiters := (b_waiters b)(address := [])\<rparr>))"

definition enqueueLocked :: "string \<Rightarrow> bytes \<Rightarrow> broker \<Rightarrow> fault + broker" where
  "enqueueLocked address msg b =
     notifyLocked address (b\<lparr>b_queues := (b_queues b)(address := b_queues b address @ [msg])\<rparr>)"

fun enqueueAll :: "string list \<Rightarrow> bytes \<Rightarrow> broker \<Rightarrow> fault + broker" where
  "enqueueAll [] msg b = Inr b"
| "enqueueAll (sub # subs) msg b = and_then (enqueueLocked sub msg b) (enqueueAll subs msg)"

definition send :: "string \<Rightarrow> bytes \<Rightarrow> broker \<Rightarrow> fault + broker" where
  "send address msg b =
     (let subs = b_topicSubs b address in
      if length subs > 0 then enqueueAll subs msg b else enqueueLocked address msg b)"

definition dequeue :: "string \<Rightarrow> broker \<Rightarrow> bytes option \<times> broker" where
  "dequeue address b =
     (case b_queues b address of
        [] \<Rightarrow> (None, b)
      | msg # q \<Rightarrow> (Some msg, b\<lparr>b_queues := (b_queues b)(address := q)\<rparr>))"

definition requeue :: "string \<Rightarrow> bytes \<Rightarrow> broker \<Rightarrow> fault + broker" where
  "requeue address msg b =
     notifyLocked address (b\<lparr>b_queues := (b_queues b)(address := msg # b_queues b address)\<rparr>)"

definition waitChan :: "string \<Rightarrow> broker \<Rightarrow> nat \<times> broker" where
  "waitChan address b =
     (let ch = b_nextChan b; b1 = b\<lparr>b_nextChan := Suc ch\<rparr> in
      if length (b_queues b address) > 0 then (ch, b1\<lparr>b_closed := ch # b_closed b\<rparr>)
      else (ch, b1\<lparr>b_waiters := (b_waiters b)(address := b_waiters b address @ [ch])\<rparr>))"

section \<open>The invariant\<close>

text \<open>
  Every waiting channel is open, registered once, and was made by \<open>waitChan\<close>; and nobody waits on
  an address that has messages (a wake-up is never lost).
\<close>

definition broker_inv :: "broker \<Rightarrow> bool" where
  "broker_inv b \<longleftrightarrow>
     (\<forall>a. distinct (b_waiters b a) \<and> (\<forall>ch \<in> set (b_waiters b a).
        ch < b_nextChan b \<and> ch \<notin> set (b_closed b) \<and> (\<forall>a'. ch \<in> set (b_waiters b a') \<longrightarrow> a' = a))) \<and>
     (\<forall>ch \<in> set (b_closed b). ch < b_nextChan b) \<and>
     (\<forall>a. b_waiters b a \<noteq> [] \<longrightarrow> b_queues b a = [])"

lemma closeChans_ok:
  "distinct chs \<Longrightarrow> set chs \<inter> set closed = {} \<Longrightarrow> closeChans chs closed = Inr (rev chs @ closed)"
  by (induction chs arbitrary: closed) auto

text \<open>Putting a queue in place and waking its waiters keeps the invariant and never panics.\<close>

lemma notify_put:
  assumes "broker_inv b"
  shows "\<exists>b'. notifyLocked a (b\<lparr>b_queues := (b_queues b)(a := q)\<rparr>) = Inr b' \<and> broker_inv b' \<and>
    b_queues b' = (b_queues b)(a := q) \<and> b_topicSubs b' = b_topicSubs b \<and>
    set (b_closed b') = set (b_waiters b a) \<union> set (b_closed b) \<and> b_waiters b' a = []"
proof -
  have "closeChans (b_waiters b a) (b_closed b) = Inr (rev (b_waiters b a) @ b_closed b)"
    using assms by (intro closeChans_ok) (auto simp: broker_inv_def)
  then show ?thesis
    using assms by (auto simp: notifyLocked_def broker_inv_def)
qed

lemma enqueueLocked_ok:
  assumes "broker_inv b"
  shows "\<exists>b'. enqueueLocked a m b = Inr b' \<and> broker_inv b' \<and>
    b_queues b' = (b_queues b)(a := b_queues b a @ [m]) \<and> b_topicSubs b' = b_topicSubs b"
  using notify_put [OF assms, of a "b_queues b a @ [m]"] by (auto simp: enqueueLocked_def)

lemma requeue_ok:
  assumes "broker_inv b"
  shows "\<exists>b'. requeue a m b = Inr b' \<and> broker_inv b' \<and>
    b_queues b' = (b_queues b)(a := m # b_queues b a) \<and> b_topicSubs b' = b_topicSubs b"
  using notify_put [OF assms, of a "m # b_queues b a"] by (auto simp: requeue_def)

lemma enqueueAll_ok:
  assumes "broker_inv b" and "distinct subs"
  shows "\<exists>b'. enqueueAll subs m b = Inr b' \<and> broker_inv b' \<and>
    b_queues b' = (\<lambda>a. if a \<in> set subs then b_queues b a @ [m] else b_queues b a) \<and>
    b_topicSubs b' = b_topicSubs b"
  using assms
proof (induction subs arbitrary: b)
  case Nil
  then show ?case by simp
next
  case (Cons sub subs)
  obtain b1 where b1: "enqueueLocked sub m b = Inr b1" "broker_inv b1"
    "b_queues b1 = (b_queues b)(sub := b_queues b sub @ [m])" "b_topicSubs b1 = b_topicSubs b"
    using enqueueLocked_ok [OF Cons.prems(1)] by blast
  obtain b2 where "enqueueAll subs m b1 = Inr b2" "broker_inv b2"
    "b_queues b2 = (\<lambda>a. if a \<in> set subs then b_queues b1 a @ [m] else b_queues b1 a)"
    "b_topicSubs b2 = b_topicSubs b1"
    using Cons.IH [OF b1(2)] Cons.prems(2) by auto
  then show ?case using b1 Cons.prems(2) by (auto simp: fun_eq_iff)
qed

definition subs_inv :: "broker \<Rightarrow> bool" where
  "subs_inv b \<longleftrightarrow> (\<forall>t. distinct (b_topicSubs b t))"

lemma send_ok:
  assumes "broker_inv b" and "subs_inv b"
  shows "\<exists>b'. send a m b = Inr b' \<and> broker_inv b' \<and> subs_inv b' \<and>
    b_queues b' = (\<lambda>x. if x \<in> set (b_topicSubs b a) \<or> b_topicSubs b a = [] \<and> x = a
                       then b_queues b x @ [m] else b_queues b x)"
proof (cases "b_topicSubs b a = []")
  case True
  then show ?thesis
    using enqueueLocked_ok [OF assms(1), of a m] assms(2)
    by (fastforce simp: send_def subs_inv_def)
next
  case False
  have "distinct (b_topicSubs b a)" using assms(2) by (simp add: subs_inv_def)
  from enqueueAll_ok [OF assms(1) this, of m] False show ?thesis
    using assms(2) by (fastforce simp: send_def subs_inv_def)
qed

lemma dequeue_inv: "broker_inv b \<Longrightarrow> broker_inv (snd (dequeue a b))"
  by (auto simp: dequeue_def broker_inv_def split: list.splits)

lemma waitChan_inv: "broker_inv b \<Longrightarrow> broker_inv (snd (waitChan a b))"
  by (fastforce simp: waitChan_def broker_inv_def Let_def less_Suc_eq)

lemma registerSubscription_inv:
  assumes "registerSubscription x b = Inr b'"
  shows "b_queues b' = b_queues b \<and> (broker_inv b \<longrightarrow> broker_inv b') \<and> (subs_inv b \<longrightarrow> subs_inv b')"
  using assms
  by (auto simp: registerSubscription_def broker_inv_def subs_inv_def Let_def split: option.splits if_splits)

section \<open>What a delivery loop relies on\<close>

text \<open>
  The interface \<open>deliverLoop\<close> uses of the broker, at one address: messages are put at the back, taken
  from the front, and a message in hand may be put back. The laws are the promise of a FIFO queue;
  \<open>view\<close> is the queue with the message in hand, and no operation of the client reorders it.
\<close>

locale fifo_source =
  fixes contents :: "'s \<Rightarrow> 'm list" and safe :: "'s \<Rightarrow> bool"
    and put :: "'m \<Rightarrow> 's \<Rightarrow> 'e + 's" and fetch :: "'s \<Rightarrow> 'm option \<times> 's"
    and putback :: "'m \<Rightarrow> 's \<Rightarrow> 'e + 's"
  assumes put_back_of_queue: "safe s \<Longrightarrow> \<exists>s'. put m s = Inr s' \<and> safe s' \<and> contents s' = contents s @ [m]"
    and putback_front: "safe s \<Longrightarrow> \<exists>s'. putback m s = Inr s' \<and> safe s' \<and> contents s' = m # contents s"
    and fetch_front: "safe s \<Longrightarrow> case fetch s of (None, s') \<Rightarrow> s' = s \<and> contents s = []
                       | (Some m, s') \<Rightarrow> safe s' \<and> contents s = m # contents s'"
begin

definition view :: "'m option \<Rightarrow> 's \<Rightarrow> 'm list" where
  "view hand s = (case hand of None \<Rightarrow> [] | Some m \<Rightarrow> [m]) @ contents s"

lemma fetch_view:
  "safe s \<Longrightarrow> fetch s = (r, s') \<Longrightarrow> safe s' \<and> view r s' = view None s"
  using fetch_front [of s] by (auto simp: view_def split: option.splits)

lemma fetch_None_iff: "safe s \<Longrightarrow> fst (fetch s) = None \<longleftrightarrow> contents s = []"
  using fetch_front [of s] by (auto split: prod.splits option.splits)

lemma putback_view: "safe s \<Longrightarrow> putback m s = Inr s' \<Longrightarrow> safe s' \<and> view None s' = view (Some m) s"
  using putback_front [of s m] by (auto simp: view_def)

lemma put_view: "safe s \<Longrightarrow> put m s = Inr s' \<Longrightarrow> safe s' \<and> view hand s' = view hand s @ [m]"
  using put_back_of_queue [of s m] by (auto simp: view_def)

lemma never_fails: "safe s \<Longrightarrow> put m s \<noteq> Inl e \<and> putback m s \<noteq> Inl e"
  using put_back_of_queue [of s m] putback_front [of s m] by auto

lemma fetch_putback:
  "safe s \<Longrightarrow> fetch s = (Some m, s1) \<Longrightarrow> putback m s1 = Inr s2 \<Longrightarrow> contents s2 = contents s"
  using fetch_view [of s "Some m" s1] putback_view [of s1 m s2] by (simp add: view_def)

end

interpretation fifo: fifo_source "\<lambda>b. b_queues b a" broker_inv "enqueueLocked a" "dequeue a" "requeue a"
  for a
proof (unfold_locales, goal_cases)
  case (1 b m)
  then show ?case using enqueueLocked_ok [of b a m] by auto
next
  case (2 b m)
  then show ?case using requeue_ok [of b a m] by auto
next
  case (3 b)
  then show ?case using dequeue_inv [of b a] by (auto simp: dequeue_def split: list.splits)
qed

lemma dequeue_other: "dequeue a b = (r, b') \<Longrightarrow> x \<noteq> a \<Longrightarrow> b_queues b' x = b_queues b x"
  by (auto simp: dequeue_def split: list.splits)

lemma dequeue_subs: "dequeue a b = (r, b') \<Longrightarrow> b_topicSubs b' = b_topicSubs b"
  by (auto simp: dequeue_def split: list.splits)

lemma dequeue_chans: "dequeue a b = (r, b') \<Longrightarrow> b_waiters b' = b_waiters b \<and>
    b_closed b' = b_closed b \<and> b_nextChan b' = b_nextChan b"
  by (auto simp: dequeue_def split: list.splits)

lemma requeue_other: "requeue a m b = Inr b' \<Longrightarrow> x \<noteq> a \<Longrightarrow> b_queues b' x = b_queues b x"
  by (auto simp: requeue_def notifyLocked_def and_then_eq_Inr)

lemma waitChan_queues: "waitChan a b = (ch, b') \<Longrightarrow> b_queues b' = b_queues b \<and> b_topicSubs b' = b_topicSubs b"
  by (auto simp: waitChan_def Let_def split: if_splits)

section \<open>Properties\<close>

text \<open>a topic send fans out: it appends the message once to the queue of every subscription
  registered for the address (to the address's own queue when there is none), changes no other
  queue, wakes every receiver waiting on a queue it appended to, and never panics.\<close>

lemma send_fans_out:
  assumes "broker_inv b" and "subs_inv b"
  shows "\<exists>b'. send a m b = Inr b' \<and> broker_inv b' \<and> subs_inv b' \<and>
    (\<forall>x. b_queues b' x =
      (if x \<in> set (if b_topicSubs b a = [] then [a] else b_topicSubs b a)
       then b_queues b x @ [m] else b_queues b x)) \<and>
    (\<forall>x \<in> set (if b_topicSubs b a = [] then [a] else b_topicSubs b a). b_waiters b' x = [])"
proof -
  obtain b' where b': "send a m b = Inr b'" "broker_inv b'" "subs_inv b'"
    "b_queues b' = (\<lambda>x. if x \<in> set (b_topicSubs b a) \<or> b_topicSubs b a = [] \<and> x = a
                       then b_queues b x @ [m] else b_queues b x)"
    using send_ok [OF assms] by blast
  then have "b_waiters b' x = []"
    if "x \<in> set (if b_topicSubs b a = [] then [a] else b_topicSubs b a)" for x
    using that unfolding broker_inv_def by (auto split: if_splits)
  with b' show ?thesis by auto
qed

lemma send_fans_out_witness:
  "\<exists>b'. send ''t'' [1] newBroker = Inr b' \<and> broker_inv b' \<and> subs_inv b' \<and>
    (\<forall>x. b_queues b' x =
      (if x \<in> set (if b_topicSubs newBroker ''t'' = [] then [''t''] else b_topicSubs newBroker ''t'')
       then b_queues newBroker x @ [[1]] else b_queues newBroker x)) \<and>
    (\<forall>x \<in> set (if b_topicSubs newBroker ''t'' = [] then [''t''] else b_topicSubs newBroker ''t'').
       b_waiters b' x = [])"
  by (rule send_fans_out) (simp_all add: broker_inv_def subs_inv_def newBroker_def)

text \<open>registering an ASCII subscription address never panics: when its lower-cased copy has the
  separator, the address is one of the subscriptions of the topic before the separator (once), what
  follows the topic is the separator in some case, and nothing else changes; otherwise nothing does.\<close>

lemma register_ascii_subscription:
  assumes "isAscii a" and "subs_inv b"
  shows "case indexOf (toLower a) subscriptionInfix of
      None \<Rightarrow> registerSubscription a b = Inr b
    | Some i \<Rightarrow> \<exists>b'. registerSubscription a b = Inr b' \<and> subs_inv b' \<and>
        set (b_topicSubs b' (take i a)) = insert a (set (b_topicSubs b (take i a))) \<and>
        hasPrefix (toLower (drop i a)) subscriptionInfix \<and>
        (\<forall>t. t \<noteq> take i a \<longrightarrow> b_topicSubs b' t = b_topicSubs b t) \<and> b_queues b' = b_queues b"
proof (cases "indexOf (toLower a) subscriptionInfix")
  case None
  then show ?thesis by (simp add: registerSubscription_def)
next
  case (Some i)
  have "i \<le> length a"
    using indexOf_bound [OF Some] toLower_ascii_length [OF assms(1)] by simp
  moreover have "toLower (drop i a) = drop i (toLower a)"
    using assms(1) in_set_dropD [of _ i a] by (auto simp: toLower_def isAscii_def drop_map)
  ultimately show ?thesis
    using Some assms(2) indexOf_prefix [OF Some]
    by (simp add: registerSubscription_def subs_inv_def Let_def)
qed

lemma register_ascii_subscription_witness:
  "case indexOf (toLower ''T/Subscriptions/s'') subscriptionInfix of
      None \<Rightarrow> registerSubscription ''T/Subscriptions/s'' newBroker = Inr newBroker
    | Some i \<Rightarrow> \<exists>b'. registerSubscription ''T/Subscriptions/s'' newBroker = Inr b' \<and> subs_inv b' \<and>
        set (b_topicSubs b' (take i ''T/Subscriptions/s'')) =
          insert ''T/Subscriptions/s'' (set (b_topicSubs newBroker (take i ''T/Subscriptions/s''))) \<and>
        hasPrefix (toLower (drop i ''T/Subscriptions/s'')) subscriptionInfix \<and>
        (\<forall>t. t \<noteq> take i ''T/Subscriptions/s'' \<longrightarrow> b_topicSubs b' t = b_topicSubs newBroker t) \<and>
        b_queues b' = b_queues newBroker"
  by (rule register_ascii_subscription)
     (simp_all add: isAscii_def subs_inv_def newBroker_def)

definition invalidAddress :: string where
  "invalidAddress =
     [CHR 0xFF, CHR 0xFF, CHR 0xFF, CHR 0xFF, CHR 0xFF, CHR 0xFF, CHR 0xFF, CHR 0xFF] @ subscriptionInfix"

definition kelvinAddress :: string where
  "kelvinAddress = [CHR 0xE2, CHR 0x84, CHR 0xAA] @ ''t/subscriptions/s''"

lemmas lowering_defs = subscriptionInfix_def toLower_def isAscii_def runes.simps decodeRune_def
  continuation_def encodeRune_def lowerRune_def char_of_eq_iff hasPrefix_def

lemma invalidAddress_index: "indexOf (toLower invalidAddress) subscriptionInfix = Some 24"
  by (simp add: invalidAddress_def lowering_defs)

lemma kelvinAddress_index: "indexOf (toLower kelvinAddress) subscriptionInfix = Some 2"
  by (simp add: kelvinAddress_def lowering_defs)

text \<open>the index comes from the lower-cased copy of the address and slices the address itself.
  On an address whose lower-casing grows (invalid bytes are replaced by three each) the slice leaves
  the string and the process panics; after a letter whose lower-casing shrinks (the Kelvin sign) the
  subscription is filed under a topic cut in the middle of that letter.\<close>

lemma register_slices_lowercased:
  "registerSubscription invalidAddress newBroker = Inl PanicSliceBounds \<and>
   (\<exists>b. registerSubscription kelvinAddress newBroker = Inr b \<and>
        b_topicSubs b (take 4 kelvinAddress) = [] \<and>
        b_topicSubs b [CHR 0xE2, CHR 0x84] = [kelvinAddress])"
proof -
  have "length invalidAddress < 24" "take 2 kelvinAddress = [CHR 0xE2, CHR 0x84]"
    "take 4 kelvinAddress \<noteq> [CHR 0xE2, CHR 0x84]" "2 \<le> length kelvinAddress"
    by (simp_all add: invalidAddress_def kelvinAddress_def subscriptionInfix_def)
  then show ?thesis
    by (simp add: registerSubscription_def invalidAddress_index kelvinAddress_index Let_def newBroker_def)
qed

end
