(* ===== verification/Link.thy ===== *)
theory Link
  imports Amqp_Types
begin

text \<open>
  An attached link, \<open>internal/servers/sbserver/link.go\<close>: its credit, the window it grants to a sending
  client, and the buffer that reassembles multi-frame messages. Each method holds the link's mutex,
  so each is one step. The \<open>done\<close> channel is closed exactly when \<open>closed\<close> is set.
\<close>

section \<open>State and operations\<close>

abbreviation senderInitialCredit :: u32 where "senderInitialCredit \<equiv> 5000"
abbreviation senderCreditReplenishThreshold :: u32 where "senderCreditReplenishThreshold \<equiv> 2500"

record link =
  l_handle :: u32
  l_channel :: u16
  l_name :: string
  l_address :: string
  l_clientIsSender :: bool
  l_isCBS :: bool
  l_credit :: u32
  l_deliveryCount :: u32
  l_closed :: bool
  l_received :: u32
  l_sinceFlow :: u32
  l_partial :: bytes

definition newLink :: link where
  "newLink = \<lparr>l_handle = 0, l_channel = 0, l_name = [], l_address = [], l_clientIsSender = False,
     l_isCBS = False, l_credit = 0, l_deliveryCount = 0, l_closed = False, l_received = 0,
     l_sinceFlow = 0, l_partial = []\<rparr>"

definition addCredit :: "u32 \<Rightarrow> link \<Rightarrow> link" where
  "addCredit delta l = l\<lparr>l_credit := l_credit l + delta\<rparr>"

definition drainCredit :: "link \<Rightarrow> u32 \<times> link" where
  "drainCredit l = (l_deliveryCount l, l\<lparr>l_credit := 0\<rparr>)"

text \<open>\<open>takeCredit\<close> blocks while there is no credit and the link is open: \<open>None\<close> is "still waiting".\<close>

definition takeCredit :: "link \<Rightarrow> (bool \<times> link) option" where
  "takeCredit l =
     (if l_credit l = 0 \<and> \<not> l_closed l then None
      else if l_closed l then Some (False, l)
      else Some (True, l\<lparr>l_credit := l_credit l - 1, l_deliveryCount := l_deliveryCount l + 1\<rparr>))"

definition appendPartial :: "bytes \<Rightarrow> link \<Rightarrow> link" where
  "appendPartial chunk l = l\<lparr>l_partial := l_partial l @ chunk\<rparr>"

definition takePartial :: "bytes \<Rightarrow> link \<Rightarrow> bytes \<times> link" where
  "takePartial final l =
     (if length (l_partial l) = 0 then (final, l)
      else (l_partial l @ final, l\<lparr>l_partial := []\<rparr>))"

definition recordReceived :: "link \<Rightarrow> (bool \<times> u32) \<times> link" where
  "recordReceived l =
     (let l1 = l\<lparr>l_received := l_received l + 1, l_sinceFlow := l_sinceFlow l + 1\<rparr> in
      if l_sinceFlow l1 \<ge> senderCreditReplenishThreshold
      then ((True, l_received l1), l1\<lparr>l_sinceFlow := 0\<rparr>)
      else ((False, l_received l1), l1))"

definition closeLink :: "link \<Rightarrow> link" where
  "closeLink l = l\<lparr>l_closed := True\<rparr>"

section \<open>Properties of a link\<close>

text \<open>reassembly: after any number of \<open>more\<close> transfers, the final one yields the concatenation
  of all chunks in order and leaves the buffer empty for the next message.\<close>

lemma partial_reassembly:
  "takePartial final (fold appendPartial chunks l) =
     (l_partial l @ concat chunks @ final, l\<lparr>l_partial := []\<rparr>)"
proof (induction chunks arbitrary: l)
  case Nil
  show ?case by (cases "l_partial l") (auto simp: takePartial_def)
next
  case (Cons chunk chunks)
  then show ?case by (simp add: appendPartial_def)
qed

text \<open>
  The client's view of its window: it may still send \<open>advertised + 5000 - sent\<close> transfers, where
  \<open>advertised\<close> is the delivery-count of the last flow it got (modulo \<open>2^32\<close>, as AMQP counts).
\<close>

definition received_step :: "link \<times> u32 \<Rightarrow> link \<times> u32" where
  "received_step s =
     (case recordReceived (fst s) of
        ((replenish, count), l') \<Rightarrow> (l', if replenish then count else snd s))"

definition client_window :: "link \<times> u32 \<Rightarrow> nat" where
  "client_window s = unat (snd s + senderInitialCredit - l_received (fst s))"

definition window_inv :: "link \<times> u32 \<Rightarrow> bool" where
  "window_inv s \<longleftrightarrow> l_received (fst s) - snd s = l_sinceFlow (fst s) \<and> l_sinceFlow (fst s) < 2500"

lemma window_inv_step: "window_inv s \<Longrightarrow> window_inv (received_step s)"
proof -
  assume inv: "window_inv s"
  obtain l adv where s: "s = (l, adv)" by (cases s)
  have "unat (l_sinceFlow l) < 2500"
    using inv by (simp add: s window_inv_def word_less_nat_alt)
  then have "unat (l_sinceFlow l + 1) = unat (l_sinceFlow l) + 1"
    by (simp add: unat_word_ariths)
  with inv show ?thesis
    by (auto simp: s window_inv_def received_step_def recordReceived_def Let_def
        word_le_nat_alt word_less_nat_alt algebra_simps)
qed

text \<open>a client-sender never stalls: after any number of completed transfers (the counters may
  wrap) its window is at least 2501 transfers wide, and never wider than the 5000 granted.\<close>

lemma sender_window_open:
  "2501 \<le> client_window ((received_step ^^ n) (newLink, 0)) \<and>
   client_window ((received_step ^^ n) (newLink, 0)) \<le> 5000"
proof -
  have "window_inv ((received_step ^^ n) (newLink, 0))"
  proof (induction n)
    case 0
    show ?case by (simp add: window_inv_def newLink_def)
  next
    case (Suc n)
    then show ?case by (simp add: window_inv_step)
  qed
  then obtain l adv where s: "(received_step ^^ n) (newLink, 0) = (l, adv)"
    and inv: "l_received l - adv = l_sinceFlow l" "l_sinceFlow l < 2500"
    by (cases "(received_step ^^ n) (newLink, 0)") (auto simp: window_inv_def)
  have "adv + 5000 - l_received l = 5000 - (l_received l - adv)"
    by (simp add: algebra_simps)
  then have eq: "adv + 5000 - l_received l = 5000 - l_sinceFlow l"
    unfolding inv(1) .
  have "unat (5000 - l_sinceFlow l) = 5000 - unat (l_sinceFlow l)"
    using inv(2) by (simp add: unat_sub word_less_nat_alt word_le_nat_alt)
  then show ?thesis
    using inv(2) unfolding s client_window_def fst_conv snd_conv eq
    by (simp add: word_less_nat_alt)
qed

text \<open>What a receiver link's credit goes through: the peer's flows, its drains, and our takes.\<close>

datatype credit_event = CreditFlow u32 | CreditDrain | CreditTake

fun credit_step :: "link \<Rightarrow> credit_event \<Rightarrow> bool \<times> link" where
  "credit_step l (CreditFlow n) = (False, addCredit n l)"
| "credit_step l CreditDrain = (False, snd (drainCredit l))"
| "credit_step l CreditTake = (case takeCredit l of None \<Rightarrow> (False, l) | Some r \<Rightarrow> r)"

fun credit_run :: "link \<Rightarrow> credit_event list \<Rightarrow> nat \<times> link" where
  "credit_run l [] = (0, l)"
| "credit_run l (e # es) =
     (case credit_step l e of (took, l') \<Rightarrow>
        case credit_run l' es of (n, l'') \<Rightarrow> ((if took then 1 else 0) + n, l''))"

fun granted :: "credit_event list \<Rightarrow> nat" where
  "granted [] = 0"
| "granted (CreditFlow n # es) = unat n + granted es"
| "granted (_ # es) = granted es"

lemma unat_plus_le: "unat (a + b :: 'a::len word) \<le> unat a + unat b"
  by (simp add: unat_word_ariths)

lemma credit_step_bound:
  assumes "credit_step l e = (took, l')"
  shows "(if took then 1 else 0) + unat (l_credit l') \<le> unat (l_credit l) + granted [e]"
proof (cases e)
  case (CreditFlow n)
  with assms show ?thesis using unat_plus_le [of "l_credit l" n] by (auto simp: addCredit_def)
next
  case CreditTake
  have "unat (l_credit l - 1) + 1 = unat (l_credit l)" if "l_credit l \<noteq> 0"
    using that by (metis Suc_eq_plus1 unat_minus_one Suc_pred' unat_gt_0)
  with CreditTake assms show ?thesis by (auto simp: takeCredit_def split: if_splits)
qed (use assms in \<open>auto simp: drainCredit_def\<close>)



end
