(* ===== verification/Sb_Conn.thy ===== *)
theory Sb_Conn
  imports Amqp_Frame Broker Link
begin

text \<open>
  One AMQP connection, \<open>internal/servers/sbserver/conn.go\<close> and \<open>cbs.go\<close>. Links are heap objects (a
  re-attach on the same handle replaces the map entry while the old link's delivery loop lives on),
  so they are numbered in a store and the \<open>links\<close> map holds numbers; where the code ranges over that
  map, the list order is the iteration order. What the connection writes is a log of headers and
  frames; a write fails once the peer is gone or the connection closed (\<open>c_broken\<close>); \<open>c_ended\<close> says
  that \<open>serve\<close> returned. \<open>c_delivered\<close> and \<open>c_dropped\<close> are ghost logs of the messages (with the
  address they were taken from) that the delivery loops wrote and of those whose write failed.

  A handler returns a panic, or the error it returned (if any) with the state it left.
\<close>

section \<open>State\<close>

datatype out = RawOut bytes | FrameOut u8 u16 u64 "amqp list" bytes

text \<open>
  Where the goroutine of \<open>deliverLoop\<close> stands: about to dequeue, having found nothing, waiting on a
  channel, with \<open>pending\<close> in hand and no credit yet, with credit taken, or returned.
\<close>

datatype loop = NotStarted | Idle | Polled | Waiting nat | Holding bytes | Sending bytes | Stopped

record conn =
  c_heap :: "nat \<Rightarrow> link"
  c_nextLink :: nat
  c_links :: "(u64 \<times> nat) list"
  c_loops :: "nat \<Rightarrow> loop"
  c_nextDeliveryID :: u32
  c_out :: "out list"
  c_broken :: bool
  c_broker :: broker
  c_ended :: bool
  c_delivered :: "(string \<times> bytes) list"
  c_dropped :: "(string \<times> bytes) list"

definition newConn :: "broker \<Rightarrow> conn" where
  "newConn b = \<lparr>c_heap = (\<lambda>_. newLink), c_nextLink = 0, c_links = [], c_loops = (\<lambda>_. NotStarted),
     c_nextDeliveryID = 0, c_out = [], c_broken = False, c_broker = b, c_ended = False,
     c_delivered = [], c_dropped = []\<rparr>"

type_synonym handled = "fault + (amqp_error option \<times> conn)"

definition unless_err :: "handled \<Rightarrow> (conn \<Rightarrow> handled) \<Rightarrow> handled" where
  "unless_err m f = and_then m (\<lambda>(e, c). case e of None \<Rightarrow> f c | Some _ \<Rightarrow> Inr (e, c))"

definition ok :: "conn \<Rightarrow> handled" where
  "ok c = Inr (None, c)"

definition on_broker :: "(broker \<Rightarrow> fault + broker) \<Rightarrow> conn \<Rightarrow> handled" where
  "on_broker f c = and_then (f (c_broker c)) (\<lambda>b. ok (c\<lparr>c_broker := b\<rparr>))"

section \<open>Writing\<close>

definition rawWrite :: "bytes \<Rightarrow> conn \<Rightarrow> handled" where
  "rawWrite b c = (if c_broken c then Inr (Some WriteFailed, c) else ok (c\<lparr>c_out := c_out c @ [RawOut b]\<rparr>))"

definition writeRaw :: "u8 \<Rightarrow> u16 \<Rightarrow> u64 \<Rightarrow> amqp list \<Rightarrow> bytes \<Rightarrow> conn \<Rightarrow> handled" where
  "writeRaw ty ch code flds payload c =
     and_then (writeFrame ty ch code flds payload) (\<lambda>_.
       if c_broken c then Inr (Some WriteFailed, c)
       else ok (c\<lparr>c_out := c_out c @ [FrameOut ty ch code flds payload]\<rparr>))"

definition writeAMQP :: "u16 \<Rightarrow> u64 \<Rightarrow> amqp list \<Rightarrow> bytes \<Rightarrow> conn \<Rightarrow> handled" where
  "writeAMQP ch code flds payload c = writeRaw frameTypeAMQP ch code flds payload c"

section \<open>Links\<close>

definition linkKey :: "u16 \<Rightarrow> u32 \<Rightarrow> u64" where
  "linkKey ch handle = push_bit 32 (ucast ch) OR ucast handle"

definition cbsAddress :: string where "cbsAddress = ''$cbs''"

definition lookupLink :: "u16 \<Rightarrow> u32 \<Rightarrow> conn \<Rightarrow> nat option" where
  "lookupLink ch handle c = map_of (c_links c) (linkKey ch handle)"

definition modLink :: "nat \<Rightarrow> (link \<Rightarrow> link) \<Rightarrow> conn \<Rightarrow> conn" where
  "modLink i f c = c\<lparr>c_heap := (c_heap c)(i := f (c_heap c i))\<rparr>"

definition closeAllLinks :: "conn \<Rightarrow> conn" where
  "closeAllLinks c = fold (\<lambda>(_, i). modLink i closeLink) (c_links c) c"

section \<open>Handlers\<close>

definition onOpen :: "frame \<Rightarrow> conn \<Rightarrow> handled" where
  "onOpen f c = writeAMQP 0 descOpen
     [AString ''localaz'', ANull, AUint maxFrameSize, AUshort 65535] [] c"

definition onBegin :: "frame \<Rightarrow> conn \<Rightarrow> handled" where
  "onBegin f c = writeAMQP (f_channel f) descBegin
     [AUshort (f_channel f), AUint 0, AUint 65535, AUint 65535, AUint 65535] [] c"

definition grantCredit :: "u16 \<Rightarrow> u32 \<Rightarrow> u32 \<Rightarrow> u32 \<Rightarrow> conn \<Rightarrow> handled" where
  "grantCredit ch handle deliveryCount credit c = writeAMQP ch descFlow
     [AUint 0, AUint 65535, AUint 0, AUint 65535, AUint handle, AUint deliveryCount, AUint credit] [] c"

definition attachedLink :: "frame \<Rightarrow> link" where
  "attachedLink f =
     (let clientIsSender = \<not> asBool (field f 2);
          address = (if clientIsSender then addressOf (field f 6) else addressOf (field f 5))
      in newLink\<lparr>l_handle := asUint32 (field f 1), l_channel := f_channel f,
           l_name := asString (field f 0), l_address := address,
           l_clientIsSender := clientIsSender, l_isCBS := (address = cbsAddress)\<rparr>)"

definition attachFields :: "frame \<Rightarrow> amqp list" where
  "attachFields f =
     [AString (asString (field f 0)), AUint (asUint32 (field f 1)), ABool (\<not> asBool (field f 2)),
      field f 3, field f 4, field f 5, field f 6, ANull, ABool False, AUint 0]"

definition onAttach :: "frame \<Rightarrow> conn \<Rightarrow> handled" where
  "onAttach f c =
     (let l = attachedLink f; i = c_nextLink c; handle = asUint32 (field f 1);
          c1 = c\<lparr>c_heap := (c_heap c)(i := l), c_nextLink := Suc i,
                 c_links := AList.update (linkKey (f_channel f) handle) i (c_links c)\<rparr>
      in unless_err
        (if \<not> l_clientIsSender l \<and> \<not> l_isCBS l \<and> indexOf (l_address l) ''$management'' = None
         then on_broker (registerSubscription (l_address l)) c1 else ok c1) (\<lambda>c2.
        unless_err (writeAMQP (f_channel f) descAttach (attachFields f) [] c2) (\<lambda>c3.
          if l_clientIsSender l then grantCredit (f_channel f) handle 0 senderInitialCredit c3
          else if \<not> l_isCBS l then ok (c3\<lparr>c_loops := (c_loops c3)(i := Idle)\<rparr>)
          else ok c3)))"

definition onFlow :: "frame \<Rightarrow> conn \<Rightarrow> handled" where
  "onFlow f c =
     (if field f 4 = ANull then ok c
      else let handle = asUint32 (field f 4); credit = asUint32 (field f 6); drain = asBool (field f 8)
      in case lookupLink (f_channel f) handle c of
           None \<Rightarrow> ok c
         | Some i \<Rightarrow>
             if l_clientIsSender (c_heap c i) then ok c
             else if drain then
               let (count, l') = drainCredit (c_heap c i)
               in writeAMQP (f_channel f) descFlow
                    [AUint 0, AUint 65535, AUint 0, AUint 65535, AUint handle, AUint count,
                     AUint 0, AUint 0, ABool True] [] (modLink i (\<lambda>_. l') c)
             else ok (modLink i (addCredit credit) c))"

definition deliveryTag :: "u32 \<Rightarrow> bytes" where
  "deliveryTag d = [ucast d, ucast (drop_bit 8 d), ucast (drop_bit 16 d), ucast (drop_bit 24 d)]"

definition deliver :: "nat \<Rightarrow> bytes \<Rightarrow> conn \<Rightarrow> handled" where
  "deliver i msg c =
     (let d = c_nextDeliveryID c; l = c_heap c i
      in writeAMQP (l_channel l) descTransfer
           [AUint (l_handle l), AUint d, ABinary (deliveryTag d), AUint 0, ABool False, ABool False] msg
           (c\<lparr>c_nextDeliveryID := d + 1\<rparr>))"

subsection \<open>Claims-based security\<close>

lemma decode_shorter: "decode bs = Inr (v, r) \<Longrightarrow> length r < length bs"
  unfolding decode_def by (rule readValue_shorter)

lemma decode_wf: "decode bs = Inr (v, r) \<Longrightarrow> length bs < 2 ^ 32 \<Longrightarrow> wf_amqp v"
  unfolding decode_def using read_wf_fuel [of "2 * length bs + 1"] by blast

function parseMessageID :: "bytes \<Rightarrow> fault + amqp" where
  "parseMessageID payload =
     (if payload = [] then Inr ANull
      else case decode payload of
        Inl (Err e) \<Rightarrow> Inr ANull
      | Inl p \<Rightarrow> Inl p
      | Inr (v, after) \<Rightarrow>
         (case v of
            ADescribed d val \<Rightarrow>
              if descriptorCode d \<noteq> descProperties then parseMessageID after
              else (case asList val of [] \<Rightarrow> Inr ANull | x # _ \<Rightarrow> Inr x)
          | _ \<Rightarrow> parseMessageID after))"
  by pat_completeness auto
termination
  by (relation "measure length") (auto dest!: decode_shorter)

declare parseMessageID.simps [simp del]

definition buildCBSResponse :: "amqp \<Rightarrow> fault + bytes" where
  "buildCBSResponse correlationID =
     and_then (encodeDescribedList descProperties [ANull, ANull, ANull, ANull, ANull, correlationID]) (\<lambda>p.
       and_then (writeValue (ADescribed (AUlong descAppProps)
         (AMap [(AString ''status-code'', AInt 200), (AString ''status-description'', AString ''OK'')])))
         (\<lambda>a. Inr (p @ a)))"

definition findCBSReceiver :: "u16 \<Rightarrow> conn \<Rightarrow> nat option" where
  "findCBSReceiver ch c =
     map_option snd (find (\<lambda>(_, i). let l = c_heap c i in
       l_isCBS l \<and> \<not> l_clientIsSender l \<and> l_channel l = ch) (c_links c))"

definition handleCBS :: "nat \<Rightarrow> bytes \<Rightarrow> conn \<Rightarrow> handled" where
  "handleCBS i payload c =
     and_then (parseMessageID payload) (\<lambda>messageID.
       and_then (buildCBSResponse messageID) (\<lambda>response.
         case findCBSReceiver (l_channel (c_heap c i)) c of
           None \<Rightarrow> ok c
         | Some r \<Rightarrow> deliver r response c))"

subsection \<open>Transfers, dispositions, detaching\<close>

definition acceptedState :: amqp where
  "acceptedState = ADescribed (AUlong descAccepted) (AList [])"

definition onTransfer :: "frame \<Rightarrow> conn \<Rightarrow> handled" where
  "onTransfer f c =
     (let handle = asUint32 (field f 0); deliveryID = asUint32 (field f 1); more = asBool (field f 5) in
      case lookupLink (f_channel f) handle c of
        None \<Rightarrow> ok c
      | Some i \<Rightarrow>
          if more then ok (modLink i (appendPartial (f_payload f)) c)
          else let (msg, l1) = takePartial (f_payload f) (c_heap c i);
                   c1 = modLink i (\<lambda>_. l1) c
          in unless_err (if l_isCBS l1 then handleCBS i msg c1
                   else on_broker (send (l_address l1) msg) c1) (\<lambda>c2.
             unless_err (if \<not> l_isCBS l1 then
                     (case recordReceived (c_heap c2 i) of ((replenish, count), l2) \<Rightarrow>
                        let c3 = modLink i (\<lambda>_. l2) c2
                        in if replenish then grantCredit (f_channel f) handle count senderInitialCredit c3
                           else ok c3)
                   else ok c2) (\<lambda>c4.
             writeAMQP (f_channel f) descDisposition
               [ABool True, AUint deliveryID, AUint deliveryID, ABool True, acceptedState] [] c4)))"

definition onDetach :: "frame \<Rightarrow> conn \<Rightarrow> handled" where
  "onDetach f c =
     (let handle = asUint32 (field f 0); key = linkKey (f_channel f) handle;
          c1 = (case lookupLink (f_channel f) handle c of
                  None \<Rightarrow> c
                | Some i \<Rightarrow> (modLink i closeLink c)\<lparr>c_links := AList.delete key (c_links c)\<rparr>)
      in writeAMQP (f_channel f) descDetach [AUint handle, ABool True] [] c1)"

definition onDisposition :: "frame \<Rightarrow> conn \<Rightarrow> handled" where
  "onDisposition f c =
     (if \<not> asBool (field f 0) then ok c
      else let firstID = asUint32 (field f 1);
               lastID = (if field f 2 \<noteq> ANull then asUint32 (field f 2) else firstID)
      in if asBool (field f 3) then ok c
         else writeAMQP (f_channel f) descDisposition
                [ABool False, AUint firstID, AUint lastID, ABool True, acceptedState] [] c)"

definition dispatch :: "frame \<Rightarrow> conn \<Rightarrow> handled" where
  "dispatch f c =
     (if f_code f = descOpen then onOpen f c
      else if f_code f = descBegin then onBegin f c
      else if f_code f = descAttach then onAttach f c
      else if f_code f = descFlow then onFlow f c
      else if f_code f = descTransfer then onTransfer f c
      else if f_code f = descDisposition then onDisposition f c
      else if f_code f = descDetach then onDetach f c
      else if f_code f = descEnd then writeAMQP (f_channel f) descEnd [] [] c
      else if f_code f = descClose then
        and_then (writeAMQP 0 descClose [] [] c) (\<lambda>(_, c'). Inr (Some ErrClose, c'))
      else ok c)"

section \<open>The read loop and the delivery loops\<close>

definition negotiate :: "bytes \<Rightarrow> conn \<Rightarrow> fault + (amqp_error option \<times> conn \<times> bytes)" where
  "negotiate input c =
     (let finish = (\<lambda>r c. and_then (rawWrite amqpHeader c) (\<lambda>(e, c'). Inr (e, c', r))) in
      case readProtocolHeader input of
        Inl (Err e) \<Rightarrow> Inr (Some e, c, input)
      | Inl p \<Rightarrow> Inl p
      | Inr (hdr, r) \<Rightarrow>
          if hdr ! 4 \<noteq> 3 then finish r c
          else and_then (unless_err (rawWrite saslHeader c)
              (writeRaw frameTypeSASL 0 descSASLMechanisms [ASymbol ''ANONYMOUS''] [])) (\<lambda>(e1, c1).
            if e1 \<noteq> None then Inr (e1, c1, r)
            else case readFrame r of
              Inl (Err e) \<Rightarrow> Inr (Some e, c1, r)
            | Inl p \<Rightarrow> Inl p
            | Inr (_, r1) \<Rightarrow>
                and_then (writeRaw frameTypeSASL 0 descSASLOutcome [AUbyte 0] [] c1) (\<lambda>(e2, c2).
                  if e2 \<noteq> None then Inr (e2, c2, r1)
                  else case readProtocolHeader r1 of
                    Inl (Err e) \<Rightarrow> Inr (Some e, c2, r1)
                  | Inl p \<Rightarrow> Inl p
                  | Inr (_, r2) \<Rightarrow> finish r2 c2)))"

text \<open>The deferred calls of \<open>serve\<close>: the links are closed, then the socket.\<close>

definition finish :: "conn \<Rightarrow> conn" where
  "finish c = (closeAllLinks c)\<lparr>c_broken := True, c_ended := True\<rparr>"

text \<open>The loop of \<open>serve\<close>: one frame, then the rest of the input; it ends at the first error.\<close>

definition serveFrame :: "frame \<Rightarrow> conn \<Rightarrow> handled" where
  "serveFrame f c = (if f_fields f = [] \<and> f_code f = 0 then ok c else dispatch f c)"

function serveLoop :: "bytes \<Rightarrow> conn \<Rightarrow> fault + conn" where
  "serveLoop input c =
     (case readFrame input of
        Inl (Err e) \<Rightarrow> Inr (finish c)
      | Inl p \<Rightarrow> Inl p
      | Inr (f, rest) \<Rightarrow>
          and_then (serveFrame f c) (\<lambda>(e, c').
            if e = None then serveLoop rest c' else Inr (finish c')))"
  by pat_completeness auto
termination
  by (relation "measure (\<lambda>(input, c). length input)") (auto dest!: readFrame_shorter)

declare serveLoop.simps [simp del]

definition serve :: "bytes \<Rightarrow> conn \<Rightarrow> fault + conn" where
  "serve input c =
     and_then (negotiate input c) (\<lambda>(e, c1, rest).
       if e \<noteq> None then Inr (finish c1) else serveLoop rest c1)"

definition setLoop :: "nat \<Rightarrow> loop \<Rightarrow> conn \<Rightarrow> conn" where
  "setLoop i x c = c\<lparr>c_loops := (c_loops c)(i := x)\<rparr>"

text \<open>
  One step of \<open>deliverLoop\<close> on link \<open>i\<close>, between two of its lock acquisitions; \<open>None\<close> is a step that
  has to wait (for a message, for credit). The flag is the choice of \<open>select\<close> when the waited
  channel and the link's \<open>done\<close> are both ready.
\<close>

definition loopStep :: "bool \<Rightarrow> nat \<Rightarrow> conn \<Rightarrow> (fault + conn) option" where
  "loopStep preferDone i c =
     (let l = c_heap c i in
      case c_loops c i of
        Idle \<Rightarrow>
          (case dequeue (l_address l) (c_broker c) of
             (Some m, b) \<Rightarrow> Some (Inr (setLoop i (Holding m) (c\<lparr>c_broker := b\<rparr>)))
           | (None, b) \<Rightarrow> Some (Inr (setLoop i Polled (c\<lparr>c_broker := b\<rparr>))))
      | Polled \<Rightarrow>
          (case waitChan (l_address l) (c_broker c) of
             (ch, b) \<Rightarrow> Some (Inr (setLoop i (Waiting ch) (c\<lparr>c_broker := b\<rparr>))))
      | Waiting ch \<Rightarrow>
          (if l_closed l \<and> (preferDone \<or> ch \<notin> set (b_closed (c_broker c)))
           then Some (Inr (setLoop i Stopped c))
           else if ch \<in> set (b_closed (c_broker c)) then Some (Inr (setLoop i Idle c))
           else None)
      | Holding m \<Rightarrow>
          (case takeCredit l of
             None \<Rightarrow> None
           | Some (False, _) \<Rightarrow>
               Some (and_then (requeue (l_address l) m (c_broker c)) (\<lambda>b.
                 Inr (setLoop i Stopped (c\<lparr>c_broker := b\<rparr>))))
           | Some (True, l') \<Rightarrow> Some (Inr (setLoop i (Sending m) (modLink i (\<lambda>_. l') c))))
      | Sending m \<Rightarrow>
          Some (and_then (deliver i m c) (\<lambda>(e, c').
            if e = None
            then Inr (setLoop i Idle (c'\<lparr>c_delivered := c_delivered c' @ [(l_address l, m)]\<rparr>))
            else Inr (setLoop i Stopped (c'\<lparr>c_dropped := c_dropped c' @ [(l_address l, m)]\<rparr>))))
      | _ \<Rightarrow> None)"

section \<open>Properties\<close>

text \<open>links of different channels or handles never share a key: the key of the links map holds both
  numbers in full.\<close>

lemma linkKey_injective: "linkKey ch h = linkKey ch' h' \<longleftrightarrow> ch = ch' \<and> h = h'"
proof
  assume eq: "linkKey ch h = linkKey ch' h'"
  have "ucast (linkKey ch h) = h" "ucast (drop_bit 32 (linkKey ch h)) = ch" for ch h
    by (rule bit_word_eqI; auto simp: linkKey_def bit_simps dest: bit_imp_le_length)+
  with eq show "ch = ch' \<and> h = h'" by metis
qed simp

text \<open>a completed transfer on a known link is settled: when \<open>onTransfer\<close> reports no error, the last
  frame it wrote accepts exactly the delivery the peer sent, on its channel.\<close>

lemma transfer_settled:
  assumes "onTransfer f c = Inr (None, c')" and "lookupLink (f_channel f) (asUint32 (field f 0)) c = Some i"
    and "\<not> asBool (field f 5)"
  shows "\<exists>before. c_out c' = before @ [FrameOut frameTypeAMQP (f_channel f) descDisposition
    [ABool True, AUint (asUint32 (field f 1)), AUint (asUint32 (field f 1)), ABool True, acceptedState] []]"
proof -
  have last: "\<exists>before. c_out d' = before @ [FrameOut frameTypeAMQP ch code flds p]"
    if "writeAMQP ch code flds p d = Inr (None, d')" for ch code flds p d d'
    using that by (auto simp: writeAMQP_def writeRaw_def and_then_eq_Inr ok_def split: if_splits)
  have peel: "\<exists>d1. g d1 = Inr (None, d)" if "unless_err m g = Inr (None, d)" for m g d
    using that by (auto simp: unless_err_def and_then_eq_Inr split: option.splits)
  obtain msg l1 where tp: "takePartial (f_payload f) (c_heap c i) = (msg, l1)"
    by (cases "takePartial (f_payload f) (c_heap c i)")
  have "\<exists>d. writeAMQP (f_channel f) descDisposition
      [ABool True, AUint (asUint32 (field f 1)), AUint (asUint32 (field f 1)), ABool True, acceptedState]
      [] d = Inr (None, c')"
    using assms unfolding onTransfer_def Let_def by (auto simp: tp dest!: peel simp del: One_nat_def)
  then show ?thesis using last by blast
qed

definition sender_conn :: conn where
  "sender_conn = (newConn newBroker)\<lparr>c_links := [(0, 0)], c_nextLink := 1\<rparr>"

definition first_transfer :: frame where
  "first_transfer = \<lparr>f_typ = 0, f_channel = 0, f_code = descTransfer, f_fields = [AUint 0, AUint 7],
     f_payload = [1]\<rparr>"

lemma transfer_settled_witness:
  "\<exists>c' before. onTransfer first_transfer sender_conn = Inr (None, c') \<and>
    c_out c' = before @ [FrameOut frameTypeAMQP 0 descDisposition
      [ABool True, AUint 7, AUint 7, ABool True, acceptedState] []]"
proof -
  have "case onTransfer first_transfer sender_conn of Inl _ \<Rightarrow> False | Inr (e, c) \<Rightarrow> e = None"
    by code_simp
  then obtain c' where r: "onTransfer first_transfer sender_conn = Inr (None, c')"
    by (auto split: sum.splits)
  have l: "lookupLink (f_channel first_transfer) (asUint32 (field first_transfer 0)) sender_conn = Some 0"
    by code_simp
  have m: "\<not> asBool (field first_transfer 5)" by code_simp
  have id: "asUint32 (field first_transfer 1) = 7" "f_channel first_transfer = 0" by code_simp+
  show ?thesis using transfer_settled [OF r l m] r unfolding id by blast
qed

lemma parseMessageID_wf:
  "parseMessageID payload = Inr v \<Longrightarrow> length payload < 2 ^ 32 \<Longrightarrow> wf_amqp v"
proof (induction payload rule: parseMessageID.induct)
  case (1 payload)
  show ?case
  proof (cases "decode payload")
    case (Inl p)
    with "1.prems" show ?thesis by (cases p) (auto simp: parseMessageID.simps [of payload] split: if_splits)
  next
    case (Inr r)
    obtain x after where r: "r = (x, after)" by (cases r)
    have x: "wf_amqp x" and shorter: "length after < length payload"
      using decode_wf [of payload x after] decode_shorter [of payload x after] Inr r "1.prems"(2) by auto
    then have ih: "parseMessageID after = Inr v \<Longrightarrow> wf_amqp v"
      if "payload \<noteq> []" "\<And>d val. x = ADescribed d val \<Longrightarrow> descriptorCode d \<noteq> descProperties"
      using that 1 shorter Inr r by (cases x) auto
    show ?thesis
    proof (cases "\<exists>d val. x = ADescribed d val \<and> descriptorCode d = descProperties")
      case True
      then obtain d val where "x = ADescribed d val" "descriptorCode d = descProperties" by blast
      then show ?thesis
        using "1.prems"(1) Inr r x
        by (cases val) (auto simp: parseMessageID.simps [of payload] split: if_splits list.splits)
    next
      case False
      then have "payload \<noteq> [] \<Longrightarrow> parseMessageID payload = parseMessageID after"
        using Inr r by (cases x) (auto simp: parseMessageID.simps [of payload])
      then show ?thesis using "1.prems"(1) ih False by (cases "payload = []") (auto simp: parseMessageID.simps [of "[]"])
    qed
  qed
qed

text \<open>the answer to a CBS request is correlated: the message handed to the receiving link decodes to
  a properties section whose correlation id (field 5) is the message id of the request, followed by
  application properties with status code 200, and nothing else.\<close>

lemma cbs_response_correlates:
  assumes "parseMessageID payload = Inr mid" and "length payload < 2 ^ 32"
    and "buildCBSResponse mid = Inr response"
  shows "\<exists>props after. decode response = Inr (ADescribed (AUlong descProperties) (AList props), after) \<and>
    (mid \<noteq> ANull \<longrightarrow> length props = 6 \<and> props ! 5 = mid) \<and> (mid = ANull \<longrightarrow> props = []) \<and>
    decode after = Inr (ADescribed (AUlong descAppProps)
      (AMap [(AString ''status-code'', AInt 200), (AString ''status-description'', AString ''OK'')]), [])"
proof -
  let ?props = "[ANull, ANull, ANull, ANull, ANull, mid]"
  let ?app = "ADescribed (AUlong descAppProps)
    (AMap [(AString ''status-code'', AInt 200), (AString ''status-description'', AString ''OK'')])"
  have wf: "\<forall>v \<in> set ?props. wf_amqp v" using parseMessageID_wf [OF assms(1, 2)] by simp
  obtain p a where p: "encodeDescribedList descProperties ?props = Inr p" and a: "writeValue ?app = Inr a"
    and resp: "response = p @ a"
    using assms(3) by (auto simp: buildCBSResponse_def and_then_eq_Inr simp del: writeValue.simps)
  have "decode (p @ a) = Inr (ADescribed (AUlong descProperties) (AList (trimNil ?props)), a)"
    using decode_encodeDescribedList [OF p wf, of a] by simp
  moreover have "decode (a @ []) = Inr (?app, [])"
    unfolding decode_def by (rule read_back(1) [OF _ a]) (simp_all add: map_key_ok_def)
  moreover have "mid \<noteq> ANull \<Longrightarrow> trimNil ?props = ?props" "mid = ANull \<Longrightarrow> trimNil ?props = []"
    by (simp_all add: trimNil_def)
  ultimately show ?thesis using resp by auto
qed

lemma cbs_response_correlates_witness:
  "\<exists>payload response. parseMessageID payload = Inr (AString ''7'') \<and>
     buildCBSResponse (AString ''7'') = Inr response \<and>
     (\<exists>props after. decode response = Inr (ADescribed (AUlong descProperties) (AList props), after) \<and>
        length props = 6 \<and> props ! 5 = AString ''7'')"
proof -
  let ?payload = "[0, 0x53, 0x73, 0xc0, 4, 1, 0xa1, 1, 0x37] :: bytes"
  have p: "parseMessageID ?payload = Inr (AString ''7'')" by code_simp
  have "case buildCBSResponse (AString ''7'') of Inl _ \<Rightarrow> False | Inr _ \<Rightarrow> True" by code_simp
  then obtain response where r: "buildCBSResponse (AString ''7'') = Inr response"
    by (auto split: sum.splits)
  have "length ?payload < 2 ^ 32" by simp
  from cbs_response_correlates [OF p this r] p r show ?thesis by blast
qed

end
