(* ===== verification/Sb_System.thy ===== *)
theory Sb_System
  imports Sb_Conn "HOL-Library.Multiset"
begin

text \<open>
  The Service Bus server as a whole, \<open>internal/servers/sbserver/server.go\<close> with \<open>conn.go\<close>: any number
  of connections over one broker, each with its read loop (\<open>serve\<close>) and one goroutine per receiver
  link (\<open>deliverLoop\<close>). A step is one frame handled, one step of a delivery loop, a connection
  accepted, lost or ended; steps of different connections and loops interleave freely. \<open>s_sent\<close> is a
  ghost log of every message the broker was asked to queue, with the address it was queued under.
\<close>

section \<open>Broker steps\<close>

text \<open>A channel someone waits on stays registered until it is closed, and a closed one stays closed.\<close>

definition keeps :: "broker \<Rightarrow> broker \<Rightarrow> bool" where
  "keeps b b' \<longleftrightarrow> set (b_closed b) \<subseteq> set (b_closed b') \<and>
     (\<forall>a ch. ch \<in> set (b_waiters b a) \<longrightarrow> ch \<in> set (b_waiters b' a) \<or> ch \<in> set (b_closed b'))"

lemma keeps_refl [simp]: "keeps b b"
  by (simp add: keeps_def)

lemma keeps_trans: "keeps a b \<Longrightarrow> keeps b c \<Longrightarrow> keeps a c"
  unfolding keeps_def by blast

lemma closeChans_sets: "closeChans chs closed = Inr r \<Longrightarrow> set r = set chs \<union> set closed"
  by (induction chs arbitrary: closed) (auto split: if_splits)

lemma notifyLocked_keeps: "notifyLocked a b = Inr b' \<Longrightarrow> keeps b b'"
  by (auto simp: notifyLocked_def and_then_eq_Inr keeps_def dest!: closeChans_sets)

lemma enqueueLocked_keeps: "enqueueLocked a m b = Inr b' \<Longrightarrow> keeps b b'"
  unfolding enqueueLocked_def by (drule notifyLocked_keeps) (simp add: keeps_def)

lemma requeue_keeps: "requeue a m b = Inr b' \<Longrightarrow> keeps b b'"
  unfolding requeue_def by (drule notifyLocked_keeps) (simp add: keeps_def)

lemma enqueueAll_keeps: "enqueueAll subs m b = Inr b' \<Longrightarrow> keeps b b'"
  by (induction subs arbitrary: b)
     (auto simp: and_then_eq_Inr intro: keeps_trans dest: enqueueLocked_keeps)

lemma send_keeps: "send a m b = Inr b' \<Longrightarrow> keeps b b'"
  by (auto simp: send_def Let_def split: if_splits dest: enqueueAll_keeps enqueueLocked_keeps)

lemma dequeue_keeps: "dequeue a b = (r, b') \<Longrightarrow> keeps b b'"
  by (auto dest!: dequeue_chans simp: keeps_def)

lemma waitChan_keeps: "waitChan a b = (ch, b') \<Longrightarrow> keeps b b'"
  by (auto simp: waitChan_def keeps_def Let_def split: if_splits)

lemma waitChan_registers:
  "waitChan a b = (ch, b') \<Longrightarrow> ch \<in> set (b_closed b') \<or> ch \<in> set (b_waiters b' a)"
  by (auto simp: waitChan_def Let_def split: if_splits)

lemma registerSubscription_keeps: "registerSubscription a b = Inr b' \<Longrightarrow> keeps b b'"
  by (auto simp: registerSubscription_def keeps_def Let_def split: option.splits if_splits)

lemmas broker_keeps = send_keeps dequeue_keeps waitChan_keeps requeue_keeps registerSubscription_keeps

text \<open>The addresses a send to \<open>a\<close> is queued under.\<close>

definition routes :: "broker \<Rightarrow> string \<Rightarrow> string list" where
  "routes b a = (if b_topicSubs b a = [] then [a] else b_topicSubs b a)"

lemma send_queues:
  assumes "send a m b = Inr b'" and "broker_inv b" and "subs_inv b"
  shows "broker_inv b'" and "subs_inv b'"
    and "b_queues b' x = (if x \<in> set (routes b a) then b_queues b x @ [m] else b_queues b x)"
  using send_ok [OF assms(2, 3), of a m] assms(1) by (auto simp: routes_def)

section \<open>What handlers leave alone\<close>

text \<open>Handlers other than attach and transfer only write frames and update links.\<close>

definition quiet :: "conn \<Rightarrow> conn \<Rightarrow> bool" where
  "quiet c c' \<longleftrightarrow> c_nextLink c' = c_nextLink c \<and> c_loops c' = c_loops c \<and> c_broker c' = c_broker c \<and>
     c_ended c' = c_ended c \<and> c_broken c' = c_broken c \<and>
     c_delivered c' = c_delivered c \<and> c_dropped c' = c_dropped c \<and>
     (\<forall>i. l_address (c_heap c' i) = l_address (c_heap c i))"

lemma quiet_refl [simp]: "quiet c c"
  by (simp add: quiet_def)

lemma quiet_trans: "quiet a b \<Longrightarrow> quiet b c \<Longrightarrow> quiet a c"
  by (simp add: quiet_def)

lemma unless_err_Inr:
  "unless_err m f = Inr (e, c') \<longleftrightarrow>
     (\<exists>e1 c1. m = Inr (e1, c1) \<and> (if e1 = None then f c1 = Inr (e, c') else e = e1 \<and> c' = c1))"
  by (auto simp: unless_err_def and_then_eq_Inr split: option.splits)

lemma unless_err_Inl:
  "unless_err m f = Inl p \<longleftrightarrow> m = Inl p \<or> (\<exists>c1. m = Inr (None, c1) \<and> f c1 = Inl p)"
  by (auto simp: unless_err_def and_then_eq_Inl split: option.splits)

lemma ok_Inr [simp]: "ok c = Inr (e, c') \<longleftrightarrow> e = None \<and> c' = c"
  by (auto simp: ok_def)

lemma ok_Inl [simp]: "ok c \<noteq> Inl p"
  by (simp add: ok_def)

lemma unless_err_ok [simp]: "unless_err (ok c) f = f c"
  by (simp add: unless_err_def ok_def)

lemma writeAMQP_quiet: "writeAMQP ch code flds payload c = Inr (e, c') \<Longrightarrow> quiet c c'"
  by (auto simp: writeAMQP_def writeRaw_def and_then_eq_Inr quiet_def split: if_splits)

lemma rawWrite_quiet: "rawWrite b c = Inr (e, c') \<Longrightarrow> quiet c c'"
  by (auto simp: rawWrite_def quiet_def split: if_splits)

lemma writeRaw_quiet: "writeRaw ty ch code flds payload c = Inr (e, c') \<Longrightarrow> quiet c c'"
  by (auto simp: writeRaw_def and_then_eq_Inr quiet_def split: if_splits)

lemma grantCredit_quiet: "grantCredit ch h n k c = Inr (e, c') \<Longrightarrow> quiet c c'"
  unfolding grantCredit_def by (rule writeAMQP_quiet)

lemma modLink_quiet:
  "(\<And>l. l = c_heap c i \<Longrightarrow> l_address (f l) = l_address l) \<Longrightarrow> quiet c (modLink i f c)"
  by (simp add: modLink_def quiet_def)

lemma closeLink_address [simp]: "l_address (closeLink l) = l_address l"
  by (simp add: closeLink_def)

lemma drainCredit_address: "drainCredit l = (n, l') \<Longrightarrow> l_address l' = l_address l"
  by (auto simp: drainCredit_def)

lemma addCredit_address [simp]: "l_address (addCredit n l) = l_address l"
  by (simp add: addCredit_def)

lemma takeCredit_address: "takeCredit l = Some (b, l') \<Longrightarrow> l_address l' = l_address l"
  by (auto simp: takeCredit_def split: if_splits)

lemma appendPartial_address [simp]: "l_address (appendPartial x l) = l_address l"
  by (simp add: appendPartial_def)

lemma takePartial_address: "takePartial x l = (m, l') \<Longrightarrow> l_address l' = l_address l"
  by (auto simp: takePartial_def Let_def split: if_splits)

lemma recordReceived_address: "recordReceived l = (r, l') \<Longrightarrow> l_address l' = l_address l"
  by (auto simp: recordReceived_def Let_def split: if_splits)

lemmas link_addresses = drainCredit_address takeCredit_address takePartial_address recordReceived_address

lemma deliver_quiet: "deliver i m c = Inr (e, c') \<Longrightarrow> quiet c c'"
  unfolding deliver_def Let_def by (drule writeAMQP_quiet) (simp add: quiet_def)

lemma handleCBS_quiet: "handleCBS i m c = Inr (e, c') \<Longrightarrow> quiet c c'"
  by (auto simp: handleCBS_def and_then_eq_Inr split: option.splits dest: deliver_quiet)

lemma onOpen_quiet: "onOpen f c = Inr (e, c') \<Longrightarrow> quiet c c'"
  unfolding onOpen_def by (rule writeAMQP_quiet)

lemma onBegin_quiet: "onBegin f c = Inr (e, c') \<Longrightarrow> quiet c c'"
  unfolding onBegin_def by (rule writeAMQP_quiet)

lemma onFlow_quiet:
  assumes "onFlow f c = Inr (e, c')"
  shows "quiet c c'"
proof (cases "lookupLink (f_channel f) (asUint32 (field f 4)) c")
  case None
  with assms show ?thesis by (auto simp: onFlow_def Let_def split: if_splits)
next
  case (Some i)
  obtain n l' where d: "drainCredit (c_heap c i) = (n, l')" by (cases "drainCredit (c_heap c i)")
  have drained: "quiet c (modLink i (\<lambda>_. l') c)"
    by (rule modLink_quiet) (simp add: drainCredit_address [OF d])
  have credited: "quiet c (modLink i (addCredit k) c)" for k
    by (rule modLink_quiet) simp
  show ?thesis
    using assms Some d drained credited
    by (auto simp: onFlow_def Let_def split: if_splits dest!: writeAMQP_quiet intro: quiet_trans)
qed

lemma onDetach_quiet:
  assumes "onDetach f c = Inr (e, c')"
  shows "quiet c c'"
proof -
  have links: "quiet c (d\<lparr>c_links := x\<rparr>)" if "quiet c d" for d x
    using that by (simp add: quiet_def)
  show ?thesis
    using assms unfolding onDetach_def Let_def
    by (auto dest!: writeAMQP_quiet split: option.splits intro!: links modLink_quiet elim!: quiet_trans [rotated])
qed

lemma onDisposition_quiet: "onDisposition f c = Inr (e, c') \<Longrightarrow> quiet c c'"
  by (auto simp: onDisposition_def Let_def split: if_splits dest: writeAMQP_quiet)

lemma closeAllLinks_quiet: "quiet c (closeAllLinks c)"
proof -
  have "quiet d (fold (\<lambda>(_, i). modLink i closeLink) ls d)" for ls d
  proof (induction ls arbitrary: d)
    case (Cons x ls)
    obtain k i where x: "x = (k, i)" by (cases x)
    have "quiet d (modLink i closeLink d)" by (rule modLink_quiet) simp
    then show ?case using Cons.IH [of "modLink i closeLink d"] by (simp add: x quiet_trans)
  qed simp
  then show ?thesis by (simp add: closeAllLinks_def)
qed

lemma quiet_write:
  "quiet c d \<Longrightarrow> writeRaw ty ch code flds p d = Inr (e, c') \<Longrightarrow> quiet c c'"
  "quiet c d \<Longrightarrow> rawWrite b d = Inr (e, c') \<Longrightarrow> quiet c c'"
  by (blast intro: quiet_trans writeRaw_quiet rawWrite_quiet)+

definition all_ok :: "('a \<Rightarrow> bool) \<Rightarrow> 'e + 'a \<Rightarrow> bool" where
  "all_ok P m \<longleftrightarrow> (\<forall>x. m = Inr x \<longrightarrow> P x)"

lemma all_ok_bind: "all_ok P m \<Longrightarrow> (\<And>x. P x \<Longrightarrow> all_ok Q (f x)) \<Longrightarrow> all_ok Q (and_then m f)"
  by (auto simp: all_ok_def and_then_eq_Inr)

lemma all_ok_read:
  "(\<And>e. P (e, c, r)) \<Longrightarrow> (\<And>x. all_ok P (f x)) \<Longrightarrow>
     all_ok P (case m of Inl (Err e) \<Rightarrow> Inr (Some e, c, r) | Inl p \<Rightarrow> Inl p | Inr x \<Rightarrow> f x)"
  by (auto simp: all_ok_def split: sum.splits fault.splits)

lemma negotiate_quiet: "negotiate input c = Inr (e, c', r) \<Longrightarrow> quiet c c'"
proof -
  let ?Q = "\<lambda>(e :: amqp_error option, d, r :: bytes). quiet c d"
  let ?R = "\<lambda>(e :: amqp_error option, d). quiet c d"
  have raw: "all_ok ?R (rawWrite b d)" if "quiet c d" for b d
    using that by (auto simp: all_ok_def intro: quiet_write)
  have wr: "all_ok ?R (writeRaw ty ch code flds p d)" if "quiet c d" for ty ch code flds p d
    using that by (auto simp: all_ok_def intro: quiet_write)
  have fin: "all_ok ?Q (and_then (rawWrite amqpHeader d) (\<lambda>(e, c'). Inr (e, c', r)))"
    if "quiet c d" for d r
    by (rule all_ok_bind [OF raw [OF that]]) (auto simp: all_ok_def)
  have seq: "all_ok ?R (unless_err m f)" if "all_ok ?R m" "\<And>d. quiet c d \<Longrightarrow> all_ok ?R (f d)" for m f
    unfolding unless_err_def using that
    by (intro all_ok_bind [OF that(1)]) (auto simp: all_ok_def split: option.splits)
  have "all_ok ?Q (negotiate input c)"
    unfolding negotiate_def Let_def
    apply (rule all_ok_read)
     apply simp
    apply (simp only: split: prod.split if_split)
    apply (intro allI impI conjI)
     apply (rule fin, simp)
    apply (rule all_ok_bind)
     apply (rule seq)
      apply (rule raw, simp)
     apply (rule wr, assumption)
    apply (simp only: split: prod.split if_split)
    apply (intro allI impI conjI)
     apply (simp add: all_ok_def)
    apply (rule all_ok_read)
     apply simp
    apply (simp only: split: prod.split if_split)
    apply (intro allI impI)
    apply (rule all_ok_bind)
     apply (rule wr, simp)
    apply (simp only: split: prod.split if_split)
    apply (intro allI impI conjI)
     apply (simp add: all_ok_def)
    apply (rule all_ok_read)
     apply simp
    apply (simp only: split: prod.split)
    apply (intro allI impI)
    apply (rule fin, simp)
    done
  then show "negotiate input c = Inr (e, c', r) \<Longrightarrow> quiet c c'" by (auto simp: all_ok_def)
qed

section \<open>What a frame does\<close>

text \<open>The messages a frame asks the broker to queue, with the addresses they are queued under.\<close>

definition transferred :: "frame \<Rightarrow> conn \<Rightarrow> (string \<times> bytes) list" where
  "transferred f c =
     (if (f_fields f = [] \<and> f_code f = 0) \<or> f_code f \<noteq> descTransfer then []
      else case lookupLink (f_channel f) (asUint32 (field f 0)) c of
        None \<Rightarrow> []
      | Some i \<Rightarrow>
          if asBool (field f 5) \<or> l_isCBS (c_heap c i) then []
          else map (\<lambda>a. (a, l_partial (c_heap c i) @ f_payload f))
                 (routes (c_broker c) (l_address (c_heap c i))))"

definition queued_for :: "string \<Rightarrow> (string \<times> bytes) list \<Rightarrow> bytes list" where
  "queued_for a log = map snd (filter (\<lambda>(x, _). x = a) log)"

lemma queued_for_append [simp]: "queued_for a (xs @ ys) = queued_for a xs @ queued_for a ys"
  by (simp add: queued_for_def)

lemma queued_for_Nil [simp]: "queued_for a [] = []"
  by (simp add: queued_for_def)

lemma queued_for_one [simp]: "queued_for a [(x, m)] = (if x = a then [m] else [])"
  by (simp add: queued_for_def)

lemma queued_for_routes:
  "distinct xs \<Longrightarrow> queued_for a (map (\<lambda>x. (x, m)) xs) = (if a \<in> set xs then [m] else [])"
  by (induction xs) (auto simp: queued_for_def)

text \<open>Only attach starts loops, on a fresh link; only transfers reach the broker's queues.\<close>

definition frame_effect :: "(string \<times> bytes) list \<Rightarrow> conn \<Rightarrow> conn \<Rightarrow> bool" where
  "frame_effect sent c c' \<longleftrightarrow>
     c_nextLink c \<le> c_nextLink c' \<and>
     (\<forall>i. i < c_nextLink c \<longrightarrow> l_address (c_heap c' i) = l_address (c_heap c i)) \<and>
     (\<forall>i. i < c_nextLink c \<longrightarrow> c_loops c' i = c_loops c i) \<and>
     (\<forall>i. c_nextLink c \<le> i \<longrightarrow> c_loops c' i = NotStarted \<or> i < c_nextLink c' \<and> c_loops c' i = Idle) \<and>
     c_delivered c' = c_delivered c \<and> c_dropped c' = c_dropped c \<and> c_ended c' = c_ended c \<and>
     broker_inv (c_broker c') \<and> subs_inv (c_broker c') \<and> keeps (c_broker c) (c_broker c') \<and>
     (\<forall>a. b_queues (c_broker c') a = b_queues (c_broker c) a @ queued_for a sent)"

definition conn_inv :: "conn \<Rightarrow> bool" where
  "conn_inv c \<longleftrightarrow> broker_inv (c_broker c) \<and> subs_inv (c_broker c) \<and>
     (\<forall>i. c_nextLink c \<le> i \<longrightarrow> c_loops c i = NotStarted) \<and>
     (\<forall>i ch. c_loops c i = Waiting ch \<longrightarrow>
        ch \<in> set (b_closed (c_broker c)) \<or> ch \<in> set (b_waiters (c_broker c) (l_address (c_heap c i))))"

lemma quiet_effect: "conn_inv c \<Longrightarrow> quiet c c' \<Longrightarrow> frame_effect [] c c'"
  by (simp add: quiet_def frame_effect_def conn_inv_def)

lemma effect_quiet: "frame_effect sent c c1 \<Longrightarrow> quiet c1 c2 \<Longrightarrow> frame_effect sent c c2"
  by (auto simp: quiet_def frame_effect_def)

lemma takePartial_eq: "takePartial x l = (l_partial l @ x, l\<lparr>l_partial := []\<rparr>)"
  by (auto simp: takePartial_def Let_def)

lemma broker_then:
  assumes "unless_err (on_broker g c) f = Inr (e, c')"
  shows "\<exists>b. g (c_broker c) = Inr b \<and> f (c\<lparr>c_broker := b\<rparr>) = Inr (e, c')"
  using assms by (auto simp: unless_err_Inr on_broker_def and_then_eq_Inr)

lemma transfer_effect:
  assumes inv: "conn_inv c" and code: "f_code f = descTransfer" and res: "onTransfer f c = Inr (e, c')"
  shows "frame_effect (transferred f c) c c'"
proof (cases "lookupLink (f_channel f) (asUint32 (field f 0)) c")
  case None
  with res code inv show ?thesis
    by (simp add: onTransfer_def transferred_def quiet_effect Let_def)
next
  case (Some i)
  let ?l = "c_heap c i"
  let ?c1 = "modLink i (\<lambda>_. ?l\<lparr>l_partial := []\<rparr>) c"
  have q1: "quiet c ?c1" by (rule modLink_quiet) simp
  have recorded: "quiet d (modLink i (\<lambda>_. l2) d)" if "recordReceived (c_heap d i) = (r, l2)" for d r l2
    by (rule modLink_quiet) (simp add: recordReceived_address [OF that])
  show ?thesis
  proof (cases "asBool (field f 5) \<or> l_isCBS ?l")
    case True
    have "quiet c (modLink i (appendPartial x) c)" for x by (rule modLink_quiet) simp
    then have "quiet c c'"
      using res Some True q1
      by (auto simp: onTransfer_def Let_def takePartial_eq unless_err_Inr split: if_splits
               dest!: handleCBS_quiet writeAMQP_quiet intro: quiet_trans)
    then show ?thesis using Some True code quiet_effect [OF inv] by (simp add: transferred_def)
  next
    case False
    let ?settle = "\<lambda>c2. unless_err
      (case recordReceived (c_heap c2 i) of ((replenish, n), l2) \<Rightarrow>
         let c3 = modLink i (\<lambda>_. l2) c2
         in if replenish
            then grantCredit (f_channel f) (asUint32 (field f 0)) n senderInitialCredit c3
            else ok c3)
      (\<lambda>c4. writeAMQP (f_channel f) descDisposition
         [ABool True, AUint (asUint32 (field f 1)), AUint (asUint32 (field f 1)), ABool True,
          acceptedState] [] c4)"
    have settle: "quiet d d'" if "?settle d = Inr (e, d')" for d d' e
    proof -
      obtain r n l2 where rr: "recordReceived (c_heap d i) = ((r, n), l2)"
        by (metis prod.exhaust)
      let ?d1 = "modLink i (\<lambda>_. l2) d"
      have "quiet d ?d1" by (rule recorded [OF rr])
      moreover have "quiet ?d1 d'"
        using that rr by (auto simp: unless_err_Inr Let_def split: if_splits
          dest: grantCredit_quiet writeAMQP_quiet intro: quiet_trans)
      ultimately show ?thesis by (rule quiet_trans)
    qed
    have "onTransfer f c =
      unless_err (on_broker (send (l_address ?l) (l_partial ?l @ f_payload f)) ?c1) ?settle"
      using Some False by (simp add: onTransfer_def Let_def takePartial_eq modLink_def)
    from trans [OF this [symmetric] res] obtain b where
      "send (l_address ?l) (l_partial ?l @ f_payload f) (c_broker ?c1) = Inr b"
      and settled: "?settle (?c1\<lparr>c_broker := b\<rparr>) = Inr (e, c')"
      using broker_then by blast
    then have b: "send (l_address ?l) (l_partial ?l @ f_payload f) (c_broker c) = Inr b"
      by (simp add: modLink_def)
    have rest: "quiet (?c1\<lparr>c_broker := b\<rparr>) c'" by (rule settle [OF settled])
    have "transferred f c = map (\<lambda>a. (a, l_partial ?l @ f_payload f)) (routes (c_broker c) (l_address ?l))"
      using Some False code by (simp add: transferred_def)
    moreover have "distinct (routes (c_broker c) (l_address ?l))"
      using inv by (simp add: routes_def conn_inv_def subs_inv_def)
    ultimately have "frame_effect (transferred f c) c (?c1\<lparr>c_broker := b\<rparr>)"
      using inv q1 send_queues [OF b] send_keeps [OF b]
      by (simp add: frame_effect_def queued_for_routes conn_inv_def quiet_def)
    then show ?thesis using rest by (rule effect_quiet)
  qed
qed

lemma attach_effect:
  assumes inv: "conn_inv c" and res: "onAttach f c = Inr (e, c')"
  shows "frame_effect [] c c'"
proof -
  let ?i = "c_nextLink c"
  let ?l = "attachedLink f"
  let ?c1 = "c\<lparr>c_heap := (c_heap c)(?i := ?l), c_nextLink := Suc ?i,
    c_links := AList.update (linkKey (f_channel f) (asUint32 (field f 1))) ?i (c_links c)\<rparr>"
  have effect1: "frame_effect [] c (?c1\<lparr>c_broker := b\<rparr>)"
    if "b = c_broker c \<or> registerSubscription (l_address ?l) (c_broker c) = Inr b" for b
    using that inv registerSubscription_inv [of "l_address ?l" "c_broker c" b]
      registerSubscription_keeps [of "l_address ?l" "c_broker c" b]
    by (auto simp: frame_effect_def conn_inv_def)
  have started: "frame_effect [] c (d\<lparr>c_loops := (c_loops d)(?i := Idle)\<rparr>)"
    if "frame_effect [] c d" "c_nextLink d = Suc ?i" for d
    using that by (auto simp: frame_effect_def less_Suc_eq)
  let ?finish = "\<lambda>d. unless_err (writeAMQP (f_channel f) descAttach (attachFields f) [] d) (\<lambda>c3.
      if l_clientIsSender ?l
      then grantCredit (f_channel f) (asUint32 (field f 1)) 0 senderInitialCredit c3
      else if \<not> l_isCBS ?l then ok (c3\<lparr>c_loops := (c_loops c3)(?i := Idle)\<rparr>) else ok c3) = Inr (e, c')"
  obtain c2 where c2: "frame_effect [] c c2" "c_nextLink c2 = Suc ?i"
    and rest: "?finish c2"
  proof (cases "\<not> l_clientIsSender ?l \<and> \<not> l_isCBS ?l \<and> indexOf (l_address ?l) ''$management'' = None")
    case True
    then obtain b where b: "registerSubscription (l_address ?l) (c_broker c) = Inr b"
      using res broker_then [of "registerSubscription (l_address ?l)" ?c1]
      unfolding onAttach_def Let_def by force
    with True res have "?finish (?c1\<lparr>c_broker := b\<rparr>)"
      by (simp add: onAttach_def Let_def on_broker_def del: One_nat_def)
    with that [of "?c1\<lparr>c_broker := b\<rparr>"] effect1 b show ?thesis by simp
  next
    case False
    with res have "?finish ?c1"
      by (auto simp add: onAttach_def Let_def simp del: One_nat_def)
    with that [of ?c1] effect1 [of "c_broker c"] show ?thesis by simp
  qed
  obtain e1 c3 where w: "writeAMQP (f_channel f) descAttach (attachFields f) [] c2 = Inr (e1, c3)"
    using rest by (auto simp: unless_err_Inr)
  have c3: "frame_effect [] c c3" "c_nextLink c3 = Suc ?i"
    using effect_quiet [OF c2(1) writeAMQP_quiet [OF w]] writeAMQP_quiet [OF w] c2(2)
    by (simp_all add: quiet_def)
  then show ?thesis
    using rest w started by (auto simp: unless_err_Inr split: if_splits
      dest!: grantCredit_quiet intro: effect_quiet)
qed

lemma serveFrame_effect:
  assumes inv: "conn_inv c" and res: "serveFrame f c = Inr (e, c')"
  shows "frame_effect (transferred f c) c c'"
proof (cases "f_fields f = [] \<and> f_code f = 0")
  case True
  with res show ?thesis
    using quiet_effect [OF inv] by (simp add: serveFrame_def transferred_def)
next
  case False
  with res have d: "dispatch f c = Inr (e, c')" by (simp add: serveFrame_def)
  show ?thesis
  proof (cases "f_code f = descTransfer")
    case True
    with d show ?thesis using transfer_effect [OF inv] by (simp add: dispatch_def)
  next
    case not_transfer: False
    show ?thesis
    proof (cases "f_code f = descAttach")
      case True
      with d show ?thesis using attach_effect [OF inv] by (simp add: dispatch_def transferred_def)
    next
      case False
      with d not_transfer have "quiet c c'"
        unfolding dispatch_def
        by (auto simp: and_then_eq_Inr split: if_splits
            dest: onOpen_quiet onBegin_quiet onFlow_quiet onDetach_quiet onDisposition_quiet writeAMQP_quiet)
      then show ?thesis using quiet_effect [OF inv] not_transfer by (simp add: transferred_def)
    qed
  qed
qed

lemma effect_inv:
  assumes inv: "conn_inv c" and eff: "frame_effect sent c c'"
  shows "conn_inv c'"
proof -
  have waits: "ch \<in> set (b_closed (c_broker c')) \<or>
      ch \<in> set (b_waiters (c_broker c') (l_address (c_heap c' i)))" if w: "c_loops c' i = Waiting ch" for i ch
  proof -
    have i: "i < c_nextLink c"
    proof (rule ccontr)
      assume "\<not> i < c_nextLink c"
      then have "c_loops c' i = NotStarted \<or> c_loops c' i = Idle"
        using eff unfolding frame_effect_def by (meson not_le)
      with w show False by auto
    qed
    then have "c_loops c i = Waiting ch" "l_address (c_heap c' i) = l_address (c_heap c i)"
      using eff w by (simp_all add: frame_effect_def)
    then show ?thesis
      using inv eff unfolding conn_inv_def frame_effect_def keeps_def by (metis subsetD)
  qed
  have "c_loops c' i = NotStarted" if "c_nextLink c' \<le> i" for i
    using eff that unfolding frame_effect_def by (meson le_trans not_le)
  with waits eff show ?thesis by (simp add: conn_inv_def frame_effect_def)
qed

section \<open>What a delivery loop does\<close>

fun in_hand :: "loop \<Rightarrow> bytes list" where
  "in_hand (Holding m) = [m]"
| "in_hand (Sending m) = [m]"
| "in_hand _ = []"

text \<open>The messages a connection has taken from \<open>a\<close>: in hand, written, or lost to a failed write.\<close>

definition held_at :: "string \<Rightarrow> conn \<Rightarrow> bytes multiset" where
  "held_at a c =
     (\<Sum>i<c_nextLink c. if l_address (c_heap c i) = a then mset (in_hand (c_loops c i)) else {#})"

definition taken_at :: "string \<Rightarrow> conn \<Rightarrow> bytes multiset" where
  "taken_at a c = held_at a c + mset (queued_for a (c_delivered c)) + mset (queued_for a (c_dropped c))"

lemma held_at_updates [simp]:
  "held_at a (c\<lparr>c_broker := b\<rparr>) = held_at a c"
  "held_at a (c\<lparr>c_delivered := d\<rparr>) = held_at a c"
  "held_at a (c\<lparr>c_dropped := d\<rparr>) = held_at a c"
  "held_at a (c\<lparr>c_broken := k\<rparr>) = held_at a c"
  "held_at a (c\<lparr>c_ended := k\<rparr>) = held_at a c"
  by (simp_all add: held_at_def cong: if_cong)

lemma held_at_setLoop:
  assumes "i < c_nextLink c" and "c_loops c i = x"
  shows "held_at a (setLoop i y c) + (if l_address (c_heap c i) = a then mset (in_hand x) else {#}) =
    held_at a c + (if l_address (c_heap c i) = a then mset (in_hand y) else {#})"
  using assms by (simp add: held_at_def setLoop_def sum.remove [of "{..<c_nextLink c}" i] ac_simps cong: if_cong sum.cong_simp)

lemma taken_at_quiet: "quiet c c' \<Longrightarrow> taken_at a c' = taken_at a c"
  by (simp add: quiet_def taken_at_def held_at_def cong: if_cong)

lemma held_at_effect:
  assumes "frame_effect sent c c'"
  shows "held_at a c' = held_at a c"
proof -
  have "held_at a c' = (\<Sum>i<c_nextLink c. if l_address (c_heap c' i) = a then mset (in_hand (c_loops c' i)) else {#})"
    unfolding held_at_def
  proof (rule sum.mono_neutral_right)
    show "\<forall>i \<in> {..<c_nextLink c'} - {..<c_nextLink c}.
        (if l_address (c_heap c' i) = a then mset (in_hand (c_loops c' i)) else {#}) = {#}"
      using assms unfolding frame_effect_def by (metis DiffE in_hand.simps(3,4) lessThan_iff mset.simps(1) not_le)
  qed (use assms in \<open>auto simp: frame_effect_def\<close>)
  also have "\<dots> = held_at a c"
    unfolding held_at_def using assms by (intro sum.cong) (auto simp: frame_effect_def)
  finally show ?thesis .
qed

lemma taken_at_effect: "frame_effect sent c c' \<Longrightarrow> taken_at a c' = taken_at a c"
  by (simp add: taken_at_def held_at_effect) (simp add: frame_effect_def)

text \<open>Queue and taken messages together: a loop's step only moves messages between them.\<close>

definition ledger :: "string \<Rightarrow> conn \<Rightarrow> bytes multiset" where
  "ledger a c = mset (b_queues (c_broker c) a) + taken_at a c"

definition loop_effect :: "conn \<Rightarrow> conn \<Rightarrow> bool" where
  "loop_effect c c' \<longleftrightarrow> conn_inv c' \<and> keeps (c_broker c) (c_broker c') \<and> c_ended c' = c_ended c \<and>
     c_nextLink c' = c_nextLink c \<and> (\<forall>i. l_address (c_heap c' i) = l_address (c_heap c i)) \<and>
     (\<forall>a. ledger a c' = ledger a c)"

lemma conn_inv_setLoop:
  assumes "conn_inv c" and "i < c_nextLink c"
    and "\<And>ch. x = Waiting ch \<Longrightarrow>
      ch \<in> set (b_closed (c_broker c)) \<or> ch \<in> set (b_waiters (c_broker c) (l_address (c_heap c i)))"
  shows "conn_inv (setLoop i x c)"
  using assms by (auto simp: conn_inv_def setLoop_def)

lemma conn_inv_broker:
  assumes "conn_inv c" and "broker_inv b" and "subs_inv b" and "keeps (c_broker c) b"
  shows "conn_inv (c\<lparr>c_broker := b\<rparr>)"
  using assms unfolding conn_inv_def keeps_def by simp (meson subsetD)

lemma conn_inv_quiet: "conn_inv c \<Longrightarrow> quiet c c' \<Longrightarrow> conn_inv c'"
  by (simp add: conn_inv_def quiet_def)

definition hand_at :: "string \<Rightarrow> nat \<Rightarrow> conn \<Rightarrow> loop \<Rightarrow> bytes multiset" where
  "hand_at a i c x = (if l_address (c_heap c i) = a then mset (in_hand x) else {#})"

lemma loop_effect_trans: "loop_effect a b \<Longrightarrow> loop_effect b c \<Longrightarrow> loop_effect a c"
  by (auto simp: loop_effect_def intro: keeps_trans)

lemma quiet_loop_effect: "conn_inv c \<Longrightarrow> quiet c c' \<Longrightarrow> loop_effect c c'"
  using taken_at_quiet [of c c'] conn_inv_quiet [of c c']
  by (simp add: loop_effect_def ledger_def quiet_def)

lemma move_between:
  fixes h :: "'a multiset"
  assumes "h' + x = h + y" and "q' + y = q + x"
  shows "q' + h' = q + h"
proof -
  have "(q' + h') + x = q' + (h' + x)" by (simp add: ac_simps)
  moreover have "q' + (h + y) = (q' + y) + h" by (simp add: ac_simps)
  ultimately have "(q' + h') + x = (q + h) + x" using assms by (simp add: ac_simps)
  then show ?thesis by simp
qed

text \<open>The loop changes state, moving messages between the queue and its hand.\<close>

lemma loop_move:
  assumes inv: "conn_inv c" and i: "i < c_nextLink c"
    and b: "broker_inv b" "subs_inv b" "keeps (c_broker c) b"
    and moved: "\<And>a. mset (b_queues b a) + hand_at a i c y =
      mset (b_queues (c_broker c) a) + hand_at a i c (c_loops c i)"
    and waits: "\<And>ch. y = Waiting ch \<Longrightarrow>
      ch \<in> set (b_closed b) \<or> ch \<in> set (b_waiters b (l_address (c_heap c i)))"
  shows "loop_effect c (setLoop i y (c\<lparr>c_broker := b\<rparr>))"
proof -
  let ?c1 = "c\<lparr>c_broker := b\<rparr>"
  have "conn_inv (setLoop i y ?c1)"
    using conn_inv_setLoop [of ?c1 i y] conn_inv_broker [OF inv b] i waits by simp
  moreover have "held_at a (setLoop i y ?c1) + hand_at a i c (c_loops c i) = held_at a c + hand_at a i c y" for a
  proof -
    show ?thesis
      using held_at_setLoop [of i ?c1 _ a y] i by (simp add: hand_at_def)
  qed
  then have "ledger a (setLoop i y ?c1) = ledger a c" for a
  proof -
    assume held: "\<And>a. held_at a (setLoop i y ?c1) + hand_at a i c (c_loops c i) = held_at a c + hand_at a i c y"
    have "mset (b_queues b a) + held_at a (setLoop i y ?c1) = mset (b_queues (c_broker c) a) + held_at a c"
      by (rule move_between [OF held moved])
    then show ?thesis by (simp add: ledger_def taken_at_def setLoop_def add.assoc [symmetric])
  qed
  ultimately show ?thesis using b by (simp add: loop_effect_def setLoop_def)
qed

lemma loop_move_same:
  assumes "conn_inv c" and "i < c_nextLink c" and "in_hand y = in_hand (c_loops c i)"
    and "\<And>ch. y \<noteq> Waiting ch"
  shows "loop_effect c (setLoop i y c)"
  using loop_move [of c i "c_broker c" y] assms by (simp add: conn_inv_def hand_at_def)

text \<open>A message in hand has been written, or its write failed.\<close>

lemma loop_log:
  assumes inv: "conn_inv c" and i: "i < c_nextLink c" and hand: "in_hand (c_loops c i) = [m]"
    and y: "in_hand y = []" "\<And>ch. y \<noteq> Waiting ch" and a: "a = l_address (c_heap c i)"
  shows "loop_effect c (setLoop i y (c\<lparr>c_delivered := c_delivered c @ [(a, m)]\<rparr>))"
    and "loop_effect c (setLoop i y (c\<lparr>c_dropped := c_dropped c @ [(a, m)]\<rparr>))"
proof -
  have logged: "loop_effect c (setLoop i y d)"
    if d: "d = c\<lparr>c_delivered := c_delivered c @ [(a, m)]\<rparr> \<or> d = c\<lparr>c_dropped := c_dropped c @ [(a, m)]\<rparr>" for d
  proof -
    have "conn_inv d"
      using d inv by (elim disjE) (simp_all add: conn_inv_def)
    moreover have "c_nextLink d = c_nextLink c" "c_loops d = c_loops c" "c_heap d = c_heap c"
      "held_at x d = held_at x c" "c_broker d = c_broker c" "c_ended d = c_ended c" for x
      using d by auto
    moreover have "ledger x (setLoop i y d) = ledger x c" for x
      using held_at_setLoop [of i d "c_loops c i" x y] i hand y(1) d a calculation
      by (auto simp: ledger_def taken_at_def setLoop_def)
    moreover have "conn_inv (setLoop i y d)"
      using conn_inv_setLoop [of d i y] i y(2) calculation by simp
    ultimately show ?thesis by (simp add: loop_effect_def setLoop_def)
  qed
  show "loop_effect c (setLoop i y (c\<lparr>c_delivered := c_delivered c @ [(a, m)]\<rparr>))"
    and "loop_effect c (setLoop i y (c\<lparr>c_dropped := c_dropped c @ [(a, m)]\<rparr>))"
    by (rule logged, simp)+
qed

lemma deliver_no_panic: "deliver i m c \<noteq> Inl p"
  by (auto simp: deliver_def writeAMQP_def writeRaw_def writeFrame_def encodeDescribedList_def Let_def
      and_then_eq_Inl writeList_def trimNil_def split: if_splits)

lemma loop_step_effect:
  assumes inv: "conn_inv c" and i: "i < c_nextLink c" and step: "loopStep preferDone i c = Some r"
  shows "\<exists>c'. r = Inr c' \<and> loop_effect c c'"
proof (cases "c_loops c i")
  case Idle
  let ?a = "l_address (c_heap c i)"
  obtain m b where d: "dequeue ?a (c_broker c) = (m, b)" by (cases "dequeue ?a (c_broker c)")
  let ?y = "case m of None \<Rightarrow> Polled | Some x \<Rightarrow> Holding x"
  have r: "r = Inr (setLoop i ?y (c\<lparr>c_broker := b\<rparr>))"
    using step Idle d by (simp add: loopStep_def Let_def split: option.splits)
  have safe: "broker_inv (c_broker c)" using inv by (simp add: conn_inv_def)
  have view: "broker_inv b" "fifo.view ?a m b = fifo.view ?a None (c_broker c)"
    using fifo.fetch_view [OF safe d] by simp_all
  have front: "b_queues (c_broker c) ?a = in_hand ?y @ b_queues b ?a"
    using view(2) by (simp add: fifo.view_def split: option.splits)
  have "loop_effect c (setLoop i ?y (c\<lparr>c_broker := b\<rparr>))"
  proof (rule loop_move [OF inv i])
    show "subs_inv b" using inv dequeue_subs [OF d] by (simp add: conn_inv_def subs_inv_def)
    show "mset (b_queues b a) + hand_at a i c ?y =
        mset (b_queues (c_broker c) a) + hand_at a i c (c_loops c i)" for a
      using front dequeue_other [OF d, of a] Idle by (cases "a = ?a") (simp_all add: hand_at_def)
  qed (use view(1) dequeue_keeps [OF d] in \<open>auto split: option.splits\<close>)
  with r show ?thesis by blast
next
  case Polled
  let ?a = "l_address (c_heap c i)"
  obtain ch b where w: "waitChan ?a (c_broker c) = (ch, b)" by (cases "waitChan ?a (c_broker c)")
  have r: "r = Inr (setLoop i (Waiting ch) (c\<lparr>c_broker := b\<rparr>))"
    using step Polled w by (simp add: loopStep_def Let_def)
  have "loop_effect c (setLoop i (Waiting ch) (c\<lparr>c_broker := b\<rparr>))"
  proof (rule loop_move [OF inv i])
    show "broker_inv b" using waitChan_inv [of "c_broker c" ?a] inv w by (simp add: conn_inv_def)
    show "subs_inv b" using waitChan_queues [OF w] inv by (simp add: conn_inv_def subs_inv_def)
  qed (use waitChan_queues [OF w] waitChan_keeps [OF w] waitChan_registers [OF w] Polled
       in \<open>auto simp: hand_at_def\<close>)
  with r show ?thesis by blast
next
  case (Waiting ch)
  then have "r = Inr (setLoop i Stopped c) \<or> r = Inr (setLoop i Idle c)"
    using step by (auto simp: loopStep_def Let_def split: if_splits)
  then show ?thesis
    using loop_move_same [OF inv i, of Stopped] loop_move_same [OF inv i, of Idle] Waiting by auto
next
  case (Holding m)
  let ?a = "l_address (c_heap c i)"
  obtain t l' where t: "takeCredit (c_heap c i) = Some (t, l')"
    using step Holding by (auto simp: loopStep_def Let_def split: option.splits)
  show ?thesis
  proof (cases t)
    case True
    let ?c1 = "modLink i (\<lambda>_. l') c"
    have r: "r = Inr (setLoop i (Sending m) ?c1)"
      using step Holding t True by (simp add: loopStep_def Let_def)
    have q: "quiet c ?c1" by (rule modLink_quiet) (simp add: takeCredit_address [OF t])
    have "loop_effect ?c1 (setLoop i (Sending m) ?c1)"
      using loop_move_same [OF conn_inv_quiet [OF inv q], of i "Sending m"] q i Holding
      by (simp add: quiet_def)
    with r show ?thesis using loop_effect_trans [OF quiet_loop_effect [OF inv q]] by blast
  next
    case False
    have safe: "broker_inv (c_broker c)" "subs_inv (c_broker c)" using inv by (simp_all add: conn_inv_def)
    obtain b where b: "requeue ?a m (c_broker c) = Inr b" "broker_inv b"
      "b_queues b = (b_queues (c_broker c))(?a := m # b_queues (c_broker c) ?a)"
      "b_topicSubs b = b_topicSubs (c_broker c)"
      using requeue_ok [OF safe(1), of ?a m] by blast
    have r: "r = Inr (setLoop i Stopped (c\<lparr>c_broker := b\<rparr>))"
      using step Holding t False b(1) by (simp add: loopStep_def Let_def)
    have "loop_effect c (setLoop i Stopped (c\<lparr>c_broker := b\<rparr>))"
    proof (rule loop_move [OF inv i b(2)])
      show "subs_inv b" using safe(2) b(4) by (simp add: subs_inv_def)
    qed (use requeue_keeps [OF b(1)] b(3) Holding in \<open>auto simp: hand_at_def\<close>)
    with r show ?thesis by blast
  qed
next
  case (Sending m)
  let ?a = "l_address (c_heap c i)"
  obtain e c1 where d: "deliver i m c = Inr (e, c1)"
    using deliver_no_panic [of i m c] by (cases "deliver i m c") auto
  have q: "quiet c c1" by (rule deliver_quiet [OF d])
  then have facts: "conn_inv c1" "i < c_nextLink c1" "in_hand (c_loops c1 i) = [m]"
      "?a = l_address (c_heap c1 i)"
    using conn_inv_quiet [OF inv q] i Sending by (simp_all add: quiet_def)
  have "r = Inr (setLoop i Idle (c1\<lparr>c_delivered := c_delivered c1 @ [(?a, m)]\<rparr>)) \<or>
        r = Inr (setLoop i Stopped (c1\<lparr>c_dropped := c_dropped c1 @ [(?a, m)]\<rparr>))"
    using step Sending d by (auto simp: loopStep_def Let_def)
  then show ?thesis
    using loop_log [OF facts(1-3) _ _ facts(4), of Idle] loop_log [OF facts(1-3) _ _ facts(4), of Stopped]
      loop_effect_trans [OF quiet_loop_effect [OF inv q]] by auto
qed (use step in \<open>simp_all add: loopStep_def Let_def\<close>)

section \<open>The server: connections over one broker\<close>

record sys =
  s_broker :: broker
  s_conns :: "conn list"
  s_sent :: "(string \<times> bytes) list"

definition newServer :: sys where
  "newServer = \<lparr>s_broker = newBroker, s_conns = [], s_sent = []\<rparr>"

text \<open>The broker is shared: a connection's step runs on the current broker and leaves its own.\<close>

definition conn_at :: "sys \<Rightarrow> nat \<Rightarrow> conn" where
  "conn_at s k = (s_conns s ! k)\<lparr>c_broker := s_broker s\<rparr>"

definition put_conn :: "nat \<Rightarrow> conn \<Rightarrow> sys \<Rightarrow> sys" where
  "put_conn k c s = s\<lparr>s_broker := c_broker c, s_conns := (s_conns s)[k := c]\<rparr>"

datatype event = Accept bytes | Frame nat frame | Turn nat nat bool | Lost nat | Eof nat

definition acceptConn :: "bytes \<Rightarrow> broker \<Rightarrow> fault + conn" where
  "acceptConn input b =
     and_then (negotiate input (newConn b)) (\<lambda>(e, c, r). Inr (if e = None then c else finish c))"

text \<open>
  \<open>Accept\<close>: a connection is accepted and its headers negotiated. \<open>Frame\<close>: its read loop handles a
  frame and ends on an error. \<open>Turn\<close>: one of its delivery loops takes a step. \<open>Lost\<close>: the peer is
  gone, so writes fail. \<open>Eof\<close>: the read loop ends on a read error.
\<close>

inductive sys_step :: "sys \<Rightarrow> event \<Rightarrow> sys \<Rightarrow> bool" where
  accept: "acceptConn input (s_broker s) = Inr c \<Longrightarrow>
    sys_step s (Accept input) (s\<lparr>s_conns := s_conns s @ [c]\<rparr>)"
| frame: "k < length (s_conns s) \<Longrightarrow> \<not> c_ended (conn_at s k) \<Longrightarrow>
    serveFrame f (conn_at s k) = Inr (e, c) \<Longrightarrow>
    sys_step s (Frame k f) ((put_conn k (if e = None then c else finish c) s)
      \<lparr>s_sent := s_sent s @ transferred f (conn_at s k)\<rparr>)"
| turn: "k < length (s_conns s) \<Longrightarrow> loopStep p i (conn_at s k) = Some (Inr c) \<Longrightarrow>
    sys_step s (Turn k i p) (put_conn k c s)"
| lost: "k < length (s_conns s) \<Longrightarrow>
    sys_step s (Lost k) (put_conn k ((conn_at s k)\<lparr>c_broken := True\<rparr>) s)"
| eof: "k < length (s_conns s) \<Longrightarrow> \<not> c_ended (conn_at s k) \<Longrightarrow>
    sys_step s (Eof k) (put_conn k (finish (conn_at s k)) s)"

text \<open>The same steps as a function: \<open>None\<close> is a step that cannot be taken, \<open>Inl\<close> a panic.\<close>

fun exec_step :: "event \<Rightarrow> sys \<Rightarrow> (fault + sys) option" where
  "exec_step (Accept input) s =
     Some (and_then (acceptConn input (s_broker s)) (\<lambda>c. Inr (s\<lparr>s_conns := s_conns s @ [c]\<rparr>)))"
| "exec_step (Frame k f) s =
     (if k < length (s_conns s) \<and> \<not> c_ended (conn_at s k)
      then Some (and_then (serveFrame f (conn_at s k)) (\<lambda>(e, c).
        Inr ((put_conn k (if e = None then c else finish c) s)
          \<lparr>s_sent := s_sent s @ transferred f (conn_at s k)\<rparr>)))
      else None)"
| "exec_step (Turn k i p) s =
     (if k < length (s_conns s)
      then map_option (\<lambda>r. and_then r (\<lambda>c. Inr (put_conn k c s))) (loopStep p i (conn_at s k))
      else None)"
| "exec_step (Lost k) s =
     (if k < length (s_conns s) then Some (Inr (put_conn k ((conn_at s k)\<lparr>c_broken := True\<rparr>) s)) else None)"
| "exec_step (Eof k) s =
     (if k < length (s_conns s) \<and> \<not> c_ended (conn_at s k)
      then Some (Inr (put_conn k (finish (conn_at s k)) s)) else None)"

lemma exec_step_sound: "exec_step e s = Some (Inr s') \<Longrightarrow> sys_step s e s'"
proof (cases e)
  case (Frame k f)
  assume r: "exec_step e s = Some (Inr s')"
  then obtain err c where "serveFrame f (conn_at s k) = Inr (err, c)"
    and "s' = (put_conn k (if err = None then c else finish c) s)
      \<lparr>s_sent := s_sent s @ transferred f (conn_at s k)\<rparr>"
    and "k < length (s_conns s) \<and> \<not> c_ended (conn_at s k)"
    unfolding Frame by (auto simp: and_then_eq_Inr split: if_split_asm)
  then show ?thesis using sys_step.frame [of k s f err c] Frame by blast
qed (auto simp: and_then_eq_Inr split: if_splits intro: sys_step.intros)

fun exec_run :: "event list \<Rightarrow> sys \<Rightarrow> sys option" where
  "exec_run [] s = Some s"
| "exec_run (e # es) s = (case exec_step e s of Some (Inr s') \<Rightarrow> exec_run es s' | _ \<Rightarrow> None)"

inductive reachable :: "sys \<Rightarrow> bool" where
  start: "reachable newServer"
| step: "reachable s \<Longrightarrow> sys_step s e s' \<Longrightarrow> reachable s'"

definition sys_inv :: "sys \<Rightarrow> bool" where
  "sys_inv s \<longleftrightarrow> broker_inv (s_broker s) \<and> subs_inv (s_broker s) \<and>
     (\<forall>k < length (s_conns s). conn_inv (conn_at s k)) \<and>
     (\<forall>a. mset (b_queues (s_broker s) a) + (\<Sum>c\<leftarrow>s_conns s. taken_at a c) = mset (queued_for a (s_sent s)))"

lemma taken_at_broker [simp]: "taken_at a (c\<lparr>c_broker := b\<rparr>) = taken_at a c"
  by (simp add: taken_at_def)

lemma sum_list_replace:
  fixes f :: "'c \<Rightarrow> 'a multiset"
  assumes "k < length xs"
  shows "(\<Sum>x\<leftarrow>xs[k := y]. f x) + f (xs ! k) = (\<Sum>x\<leftarrow>xs. f x) + f y"
  using assms by (induction xs arbitrary: k) (auto simp: ac_simps split: nat.splits)

text \<open>A step of one connection that keeps its own ledger keeps the server's invariant.\<close>

lemma put_conn_inv:
  assumes inv: "sys_inv s" and k: "k < length (s_conns s)" and c: "conn_inv c"
    and keeps: "keeps (s_broker s) (c_broker c)"
    and ledger: "\<And>a. ledger a c = ledger a (conn_at s k) + mset (queued_for a sent)"
  shows "sys_inv ((put_conn k c s)\<lparr>s_sent := s_sent s @ sent\<rparr>)"
proof -
  have others: "conn_inv (conn_at (put_conn k c s) j)" if j: "j < length (s_conns s)" for j
  proof (cases "j = k")
    case True
    then show ?thesis using c k by (simp add: conn_at_def put_conn_def)
  next
    case False
    then have "conn_at (put_conn k c s) j = (conn_at s j)\<lparr>c_broker := c_broker c\<rparr>"
      using j by (simp add: conn_at_def put_conn_def)
    moreover have "conn_inv (conn_at s j)" using inv j by (simp add: sys_inv_def)
    ultimately show ?thesis
      using conn_inv_broker [of "conn_at s j" "c_broker c"] c keeps
      by (simp add: conn_inv_def conn_at_def)
  qed
  have sums: "mset (b_queues (c_broker c) a) + (\<Sum>d\<leftarrow>(s_conns s)[k := c]. taken_at a d) =
      mset (queued_for a (s_sent s @ sent))" for a
  proof -
    have r: "(\<Sum>d\<leftarrow>(s_conns s)[k := c]. taken_at a d) + taken_at a (s_conns s ! k) =
        (\<Sum>d\<leftarrow>s_conns s. taken_at a d) + taken_at a c"
      by (rule sum_list_replace [OF k])
    moreover have "mset (b_queues (c_broker c) a) + taken_at a c =
        mset (b_queues (s_broker s) a) + mset (queued_for a sent) + taken_at a (s_conns s ! k)"
      using ledger [of a] by (simp add: ledger_def conn_at_def ac_simps)
    ultimately have "mset (b_queues (c_broker c) a) + (\<Sum>d\<leftarrow>(s_conns s)[k := c]. taken_at a d) =
        mset (b_queues (s_broker s) a) + mset (queued_for a sent) + (\<Sum>d\<leftarrow>s_conns s. taken_at a d)"
      by (rule move_between)
    then show ?thesis using inv by (simp add: sys_inv_def ac_simps)
  qed
  show ?thesis
    using others sums c by (simp add: sys_inv_def put_conn_def conn_inv_def conn_at_def)
qed

lemma finish_facts:
  "c_broker (finish c) = c_broker c" "taken_at a (finish c) = taken_at a c"
  "conn_inv c \<Longrightarrow> conn_inv (finish c)" "ledger a (finish c) = ledger a c"
proof -
  have q: "quiet c (closeAllLinks c)" by (rule closeAllLinks_quiet)
  have upd: "taken_at a (d\<lparr>c_broken := x, c_ended := y\<rparr>) = taken_at a d"
    "conn_inv (d\<lparr>c_broken := x, c_ended := y\<rparr>) = conn_inv d" for d x y
    by (simp_all add: taken_at_def conn_inv_def)
  show "c_broker (finish c) = c_broker c" using q by (simp add: finish_def quiet_def)
  then show "taken_at a (finish c) = taken_at a c" "ledger a (finish c) = ledger a c"
    using taken_at_quiet [OF q] upd by (simp_all add: finish_def ledger_def)
  show "conn_inv c \<Longrightarrow> conn_inv (finish c)"
    using conn_inv_quiet [OF _ q] upd by (simp add: finish_def)
qed

lemma newConn_inv: "broker_inv b \<Longrightarrow> subs_inv b \<Longrightarrow> conn_inv (newConn b)"
  by (simp add: conn_inv_def newConn_def)

lemma newConn_taken: "taken_at a (newConn b) = {#}"
  by (simp add: taken_at_def held_at_def newConn_def)

lemma accepted_inv:
  assumes "acceptConn input b = Inr c" and "broker_inv b" and "subs_inv b"
  shows "conn_inv c \<and> c_broker c = b \<and> taken_at a c = {#}"
proof -
  obtain e c' r where n: "negotiate input (newConn b) = Inr (e, c', r)"
    and c: "c = (if e = None then c' else finish c')"
    using assms(1) by (auto simp: acceptConn_def and_then_eq_Inr)
  have q: "quiet (newConn b) c'" by (rule negotiate_quiet [OF n])
  have "conn_inv c'" "taken_at a c' = {#}" "c_broker c' = b"
    using conn_inv_quiet [OF newConn_inv [OF assms(2, 3)] q] taken_at_quiet [OF q, of a] q
    by (simp_all add: newConn_taken quiet_def) (simp add: newConn_def)
  then show ?thesis using c finish_facts by simp
qed

lemma loopStep_started: "loopStep p i c = Some r \<Longrightarrow> conn_inv c \<Longrightarrow> i < c_nextLink c"
  by (rule ccontr) (auto simp: conn_inv_def loopStep_def Let_def not_less)

lemma conn_at_inv: "sys_inv s \<Longrightarrow> k < length (s_conns s) \<Longrightarrow> conn_inv (conn_at s k)"
  by (simp add: sys_inv_def)

lemma conn_at_broker [simp]: "c_broker (conn_at s k) = s_broker s"
  by (simp add: conn_at_def)

lemma sys_step_inv: "sys_step s e s' \<Longrightarrow> sys_inv s \<Longrightarrow> sys_inv s'"
proof (induction rule: sys_step.induct)
  case (accept input s c)
  then have "conn_inv c \<and> c_broker c = s_broker s \<and> taken_at a c = {#}" for a
    using accepted_inv by (simp add: sys_inv_def)
  then have c: "conn_inv c" "c_broker c = s_broker s" "\<And>a. taken_at a c = {#}" by blast+
  then have "conn_inv (c\<lparr>c_broker := s_broker s\<rparr>)" by (simp add: conn_inv_def)
  with accept(2) c show ?case
    by (auto simp: sys_inv_def conn_at_def nth_append less_Suc_eq)
next
  case (frame k s f e c)
  have eff: "frame_effect (transferred f (conn_at s k)) (conn_at s k) c"
    by (rule serveFrame_effect [OF conn_at_inv [OF frame.prems frame.hyps(1)] frame.hyps(3)])
  have inv: "conn_inv c" by (rule effect_inv [OF conn_at_inv [OF frame.prems frame.hyps(1)] eff])
  have "ledger a c = ledger a (conn_at s k) + mset (queued_for a (transferred f (conn_at s k)))" for a
    using eff taken_at_effect [OF eff, of a] by (simp add: ledger_def frame_effect_def)
  moreover have "keeps (s_broker s) (c_broker c)" using eff by (simp add: frame_effect_def)
  ultimately show ?case
    using put_conn_inv [OF frame.prems frame.hyps(1)] inv finish_facts by simp
next
  case (turn k s p i c)
  have inv: "conn_inv (conn_at s k)" by (rule conn_at_inv [OF turn.prems turn.hyps(1)])
  have "loop_effect (conn_at s k) c"
    using loop_step_effect [OF inv loopStep_started [OF turn.hyps(2) inv] turn.hyps(2)] by simp
  then show ?case
    using put_conn_inv [OF turn.prems turn.hyps(1), of c "[]"] by (simp add: loop_effect_def put_conn_def)
next
  case (lost k s)
  let ?c = "(conn_at s k)\<lparr>c_broken := True\<rparr>"
  have "conn_inv ?c" "ledger a ?c = ledger a (conn_at s k)" for a
    using conn_at_inv [OF lost.prems lost.hyps] by (simp_all add: conn_inv_def ledger_def taken_at_def)
  then show ?case
    using put_conn_inv [OF lost.prems lost.hyps, of ?c "[]"] by (simp add: put_conn_def)
next
  case (eof k s)
  then show ?case
    using put_conn_inv [OF eof.prems eof.hyps(1), of "finish (conn_at s k)" "[]"]
      finish_facts conn_at_inv by (simp add: put_conn_def)
qed

lemma newServer_inv: "sys_inv newServer"
  by (simp add: sys_inv_def newServer_def broker_inv_def subs_inv_def newBroker_def)

lemma reachable_inv: "reachable s \<Longrightarrow> sys_inv s"
  by (induction rule: reachable.induct) (auto intro: newServer_inv sys_step_inv)

inductive_cases turnE: "sys_step s (Turn k i p) s'"
inductive_cases frameE: "sys_step s (Frame k f) s'"

section \<open>Properties\<close>

text \<open>C1: no message is lost or duplicated. In every reachable state of the server, the messages
  queued under an address and the messages the connections took from it (in a loop's hand, written
  to a receiver, or lost to a write on a dead connection) are together exactly the messages ever
  sent to it, each as often as it was sent.\<close>

theorem message_conservation:
  assumes "reachable s"
  shows "mset (b_queues (s_broker s) a) + (\<Sum>c\<leftarrow>s_conns s. taken_at a c) = mset (queued_for a (s_sent s))"
  using reachable_inv [OF assms] by (simp add: sys_inv_def)

text \<open>A sender and a receiver on one connection: the message is handed over and delivered.\<close>

definition attach_frame :: "u32 \<Rightarrow> bool \<Rightarrow> frame" where
  "attach_frame h receiver = \<lparr>f_typ = 0, f_channel = 0, f_code = descAttach,
     f_fields = [AString ''l'', AUint h, ABool receiver, ANull, ANull,
       ADescribed (AUlong 0x28) (AList [AString ''q'']),
       ADescribed (AUlong 0x29) (AList [AString ''q''])],
     f_payload = []\<rparr>"

definition transfer_frame :: "u32 \<Rightarrow> bytes \<Rightarrow> frame" where
  "transfer_frame h m = \<lparr>f_typ = 0, f_channel = 0, f_code = descTransfer,
     f_fields = [AUint h, AUint 0], f_payload = m\<rparr>"

definition credit_frame :: "u32 \<Rightarrow> u32 \<Rightarrow> frame" where
  "credit_frame h n = \<lparr>f_typ = 0, f_channel = 0, f_code = descFlow,
     f_fields = [ANull, ANull, ANull, ANull, AUint h, ANull, AUint n], f_payload = []\<rparr>"

definition session_events :: "event list" where
  "session_events =
     [Accept amqpHeader, Frame 0 (attach_frame 0 False), Frame 0 (attach_frame 1 True),
      Turn 0 1 False, Turn 0 1 False, Frame 0 (transfer_frame 0 [42]), Frame 0 (transfer_frame 0 [43]),
      Turn 0 1 False, Turn 0 1 False, Frame 0 (credit_frame 1 1), Turn 0 1 False, Turn 0 1 False]"

lemma exec_run_reachable: "exec_run es s = Some s' \<Longrightarrow> reachable s \<Longrightarrow> reachable s'"
  by (induction es arbitrary: s)
     (auto split: option.splits sum.splits intro: reachable.step exec_step_sound)

lemma session_runs:
  "\<exists>s. exec_run session_events newServer = Some s \<and> b_queues (s_broker s) ''q'' = [[43]] \<and>
     map c_delivered (s_conns s) = [[(''q'', [42])]] \<and> s_sent s = [(''q'', [42]), (''q'', [43])]"
proof -
  have "case exec_run session_events newServer of None \<Rightarrow> False
    | Some s \<Rightarrow> b_queues (s_broker s) ''q'' = [[43]] \<and>
     map c_delivered (s_conns s) = [[(''q'', [42])]] \<and> s_sent s = [(''q'', [42]), (''q'', [43])]"
    by code_simp
  then show ?thesis by (auto split: option.splits)
qed

theorem message_conservation_witness:
  "\<exists>s. exec_run session_events newServer = Some s \<and> b_queues (s_broker s) ''q'' = [[43]] \<and>
     mset (b_queues (s_broker s) ''q'') + (\<Sum>c\<leftarrow>s_conns s. taken_at ''q'' c) = {#[42], [43]#}"
proof -
  obtain s where s: "exec_run session_events newServer = Some s" "b_queues (s_broker s) ''q'' = [[43]]"
    "s_sent s = [(''q'', [42]), (''q'', [43])]"
    using session_runs by blast
  then show ?thesis
    using message_conservation [OF exec_run_reachable [OF s(1) start], of "''q''"] by (simp add: queued_for_def)
qed

text \<open>C2: a delivery loop blocks only for want of a message or of credit. In every reachable state
  its step is enabled unless it has not started or has stopped, or the link is open and either its
  queue is empty (so no wake-up was lost between the dequeue and the wait) or its credit is zero;
  and an enabled step never panics.\<close>

theorem delivery_loop_progress:
  assumes "reachable s" and "k < length (s_conns s)"
  shows "case loopStep p i (conn_at s k) of
      Some r \<Rightarrow> \<exists>c. r = Inr c
    | None \<Rightarrow> (let c = conn_at s k; l = c_heap c i in
        case c_loops c i of
          NotStarted \<Rightarrow> True
        | Stopped \<Rightarrow> True
        | Waiting ch \<Rightarrow> \<not> l_closed l \<and> b_queues (s_broker s) (l_address l) = []
        | Holding m \<Rightarrow> \<not> l_closed l \<and> l_credit l = 0
        | _ \<Rightarrow> False)"
proof (cases "loopStep p i (conn_at s k)")
  case (Some r)
  have inv: "conn_inv (conn_at s k)" by (rule conn_at_inv [OF reachable_inv [OF assms(1)] assms(2)])
  show ?thesis
    using loop_step_effect [OF inv loopStep_started [OF Some inv] Some] Some by auto
next
  case None
  have inv: "conn_inv (conn_at s k)" by (rule conn_at_inv [OF reachable_inv [OF assms(1)] assms(2)])
  then have "ch \<notin> set (b_closed (s_broker s)) \<Longrightarrow> c_loops (conn_at s k) i = Waiting ch \<Longrightarrow>
      b_queues (s_broker s) (l_address (c_heap (conn_at s k) i)) = []" for ch
    unfolding conn_inv_def broker_inv_def conn_at_broker by (metis list.set(1) empty_iff)
  with None show ?thesis
    by (auto simp: loopStep_def takeCredit_def Let_def split: loop.splits option.splits prod.splits if_splits)
qed

theorem delivery_loop_progress_witness:
  "\<exists>s. exec_run [Accept amqpHeader] newServer = Some s \<and>
     (case loopStep False 0 (conn_at s 0) of
        Some r \<Rightarrow> \<exists>c. r = Inr c
      | None \<Rightarrow> (let c = conn_at s 0; l = c_heap c 0 in
          case c_loops c 0 of
            NotStarted \<Rightarrow> True
          | Stopped \<Rightarrow> True
          | Waiting ch \<Rightarrow> \<not> l_closed l \<and> b_queues (s_broker s) (l_address l) = []
          | Holding m \<Rightarrow> \<not> l_closed l \<and> l_credit l = 0
          | _ \<Rightarrow> False))"
proof -
  have "case exec_run [Accept amqpHeader] newServer of None \<Rightarrow> False | Some s \<Rightarrow> length (s_conns s) = 1"
    by code_simp
  then obtain s where s: "exec_run [Accept amqpHeader] newServer = Some s" "length (s_conns s) = 1"
    by (auto split: option.splits)
  then show ?thesis
    using delivery_loop_progress [OF exec_run_reachable [OF s(1) start], of 0 0 False] by auto
qed

end
