(* ===== verification/Sb_Panics.thy ===== *)
theory Sb_Panics
  imports Sb_System
begin

text \<open>
  Which panics the Service Bus server can be driven to (\<open>internal/servers/sbserver\<close> recovers none, so
  each ends the process): every reader, encoder and handler is shown to stay within a set of faults.
\<close>

section \<open>Panics\<close>

text \<open>The panics a peer can cause: a value the encoder does not know, an unhashable map key, and a
  subscription address whose lower-casing has another length.\<close>

definition peer_panics :: "fault set" where
  "peer_panics = {PanicCannotEncode, PanicUnhashable, PanicSliceBounds}"

definition within :: "fault set \<Rightarrow> fault + 'a \<Rightarrow> bool" where
  "within F m \<longleftrightarrow> (\<forall>p. m = Inl p \<longrightarrow> p \<in> F)"

lemma within_Inr [simp]: "within F (Inr x)"
  by (simp add: within_def)

lemma within_Inl [simp]: "within F (Inl p) \<longleftrightarrow> p \<in> F"
  by (simp add: within_def)

lemma within_ok [simp]: "within F (ok c)"
  by (simp add: within_def)

lemma within_bind:
  "within F m \<Longrightarrow> (\<And>x. m = Inr x \<Longrightarrow> within F (f x)) \<Longrightarrow> within F (and_then m f)"
  by (auto simp: within_def and_then_eq_Inl)

lemma within_unless:
  "within F m \<Longrightarrow> (\<And>c. m = Inr (None, c) \<Longrightarrow> within F (f c)) \<Longrightarrow> within F (unless_err m f)"
  by (auto simp: within_def unless_err_Inl)

lemma within_if: "(b \<Longrightarrow> within F x) \<Longrightarrow> (\<not> b \<Longrightarrow> within F y) \<Longrightarrow> within F (if b then x else y)"
  by simp

lemma within_prod: "(\<And>x y. z = (x, y) \<Longrightarrow> within F (f x y)) \<Longrightarrow> within F (case z of (x, y) \<Rightarrow> f x y)"
  by (cases z) simp

lemmas within_intros = within_bind within_unless within_if within_prod

text \<open>Reading fails with an error or with the panic of an unhashable key.\<close>

definition read_faults :: "fault set" where
  "read_faults = range Err \<union> {PanicUnhashable, OutOfFuel}"

lemma within_reads:
  "within read_faults (readByte bs)" "within read_faults (readN n bs)"
  "within read_faults (mapAssign k v m)"
  by (auto simp: readByte_def readN_def mapAssign_def read_faults_def split: list.splits)

lemma within_sizes: "within read_faults (readSize w bs)" "within read_faults (readCount w bs)"
proof -
  have s: "within read_faults (readSize w bs)" for w bs
    unfolding readSize_def by (intro within_intros within_reads) simp_all
  then show "within read_faults (readSize w bs)" .
  show "within read_faults (readCount w bs)"
    unfolding readCount_def by (intro within_intros s) (simp_all add: read_faults_def)
qed

lemma within_readScalar: "within read_faults (readScalar code bs)"
  unfolding readScalar_def readSmall_def readBits_def readBinary_def readString_def
  by (intro within_intros within_sizes within_reads) (simp_all add: read_faults_def)

lemma within_read_fuel:
  "(\<forall>bs. within read_faults (readValue f bs)) \<and> (\<forall>n bs. within read_faults (readItems f n bs)) \<and>
   (\<forall>n m bs. within read_faults (readPairs f n m bs))"
proof (induction f)
  case 0
  have "within read_faults (readItems 0 n bs)" "within read_faults (readPairs 0 n m bs)" for n m bs
    by (cases n; simp add: read_faults_def)+
  then show ?case by (simp add: read_faults_def)
next
  case (Suc f)
  then have ih: "within read_faults (readValue f bs)" "within read_faults (readItems f n bs)"
    "within read_faults (readPairs f n m bs)" for n m bs by blast+
  have "within read_faults (readValue (Suc f) bs)" for bs
    unfolding readValue.simps
    by (intro within_intros within_readScalar within_sizes within_reads ih) simp_all
  moreover have "within read_faults (readItems (Suc f) n bs)" "within read_faults (readPairs (Suc f) n m bs)"
    for n m bs
    by (cases n; simp; intro within_intros within_reads ih; simp)+
  ultimately show ?case by blast
qed

lemma within_decode: "within (range Err \<union> {PanicUnhashable}) (decode bs)"
  using within_read_fuel [of "2 * length bs + 1"] read_enough_fuel [of "2 * length bs + 1"]
  by (auto simp: within_def read_faults_def decode_def)

lemma within_readFrame: "within (range Err \<union> {PanicUnhashable}) (readFrame bs)"
proof -
  let ?F = "range Err \<union> {PanicUnhashable}"
  have n: "within ?F (readN k r)" for k r by (auto simp: readN_def)
  have body: "within ?F (frameOfBody ty ch b)" for ty ch b
    unfolding frameOfBody_def
    by (intro within_intros within_decode) (auto split: amqp.splits)
  show ?thesis
    unfolding readFrame_def Let_def
    by (intro within_intros n body) simp_all
qed

lemma within_writeValue: "within {PanicCannotEncode} (writeValue v)"
  using write_outcome(1) [of v] by (auto simp: within_def split: if_splits)

lemma within_describedList: "within {PanicCannotEncode} (encodeDescribedList code flds)"
  unfolding encodeDescribedList_def writeList_def by (intro within_intros within_writeValue) simp_all

lemma within_writeFrame: "within {PanicCannotEncode} (writeFrame ty ch code flds payload)"
  unfolding writeFrame_def by (intro within_intros within_describedList) simp_all

lemma within_write: "within {PanicCannotEncode} (writeRaw ty ch code flds payload c)"
    "within {PanicCannotEncode} (writeAMQP ch code flds payload c)" "within F (rawWrite b c)"
  unfolding writeRaw_def writeAMQP_def rawWrite_def by (intro within_intros within_writeFrame; simp)+

lemma within_mono: "within F m \<Longrightarrow> F \<subseteq> G \<Longrightarrow> within G m"
  by (auto simp: within_def)

lemma peer_write: "within peer_panics (writeRaw ty ch code flds payload c)"
    "within peer_panics (writeAMQP ch code flds payload c)"
  by (rule within_mono, rule within_write, simp add: peer_panics_def)+

lemma peer_readFrame:
  "(\<And>x. within peer_panics (f x)) \<Longrightarrow>
     within peer_panics (case readFrame bs of Inl (Err e) \<Rightarrow> Inr (y e) | Inl p \<Rightarrow> Inl p | Inr x \<Rightarrow> f x)"
  using within_readFrame [of bs]
  by (auto simp: within_def peer_panics_def split: sum.splits fault.splits)

lemma peer_header:
  "(\<And>x. within peer_panics (f x)) \<Longrightarrow>
     within peer_panics (case readProtocolHeader bs of Inl (Err e) \<Rightarrow> Inr (y e) | Inl p \<Rightarrow> Inl p | Inr x \<Rightarrow> f x)"
  by (auto simp: within_def readProtocolHeader_def readN_def and_then_eq_Inl
      split: sum.splits fault.splits if_splits)

lemma peer_negotiate: "within peer_panics (negotiate input c)"
  unfolding negotiate_def Let_def
  by (intro within_intros peer_header peer_readFrame peer_write within_write) simp_all

lemma peer_parseMessageID: "within peer_panics (parseMessageID payload)"
proof (induction payload rule: parseMessageID.induct)
  case (1 payload)
  then show ?case
    using within_decode [of payload]
    by (subst parseMessageID.simps)
       (auto simp: within_def peer_panics_def split: sum.splits fault.splits amqp.splits list.splits)
qed

lemma peer_handleCBS: "within peer_panics (handleCBS i m c)"
proof -
  have v: "within peer_panics (writeValue x)" "within peer_panics (encodeDescribedList k y)" for x k y
    by (rule within_mono, rule within_writeValue within_describedList, simp add: peer_panics_def)+
  show ?thesis
    unfolding handleCBS_def buildCBSResponse_def
    by (intro within_intros peer_parseMessageID v)
       (auto split: option.splits simp: within_def deliver_no_panic)
qed

lemma send_no_panic: "broker_inv b \<Longrightarrow> subs_inv b \<Longrightarrow> within F (send a m b)"
  using send_ok [of b a m] by auto

lemma peer_broker: "within peer_panics (f (c_broker c)) \<Longrightarrow> within peer_panics (on_broker f c)"
  unfolding on_broker_def by (intro within_intros) simp_all

lemma peer_onTransfer: "conn_inv c \<Longrightarrow> within peer_panics (onTransfer f c)"
  unfolding onTransfer_def Let_def grantCredit_def
  by (auto split: option.split simp: conn_inv_def modLink_def
      intro!: within_intros peer_handleCBS peer_write peer_broker send_no_panic)

lemma peer_register: "within peer_panics (registerSubscription a b)"
  by (auto simp: registerSubscription_def within_def peer_panics_def Let_def split: option.splits if_splits)

lemma peer_onAttach: "within peer_panics (onAttach f c)"
  unfolding onAttach_def Let_def grantCredit_def
  by (intro within_intros peer_write peer_broker peer_register) simp_all

lemma peer_serveFrame: "conn_inv c \<Longrightarrow> within peer_panics (serveFrame f c)"
  unfolding serveFrame_def dispatch_def onOpen_def onBegin_def onFlow_def onDetach_def onDisposition_def Let_def
  by (intro within_intros peer_write peer_onTransfer peer_onAttach)
     (auto split: option.split prod.split intro!: peer_write)



end
