(* ===== verification/Sb_Delivery.thy ===== *)
theory Sb_Delivery
  imports Sb_System
begin

text \<open>
  What receivers get from \<open>deliverLoop\<close> of \<open>internal/servers/sbserver/conn.go\<close>: order with a single
  receiver, the end of the loops of closed links, and the messages lost by dead connections.
\<close>

section \<open>A single receiver\<close>

text \<open>
  What happens at one address served by one loop: messages are sent, the loop takes steps, and the
  peer grants and drains credit or detaches.
\<close>

datatype solo = SoloTurn bool | SoloSend bytes | SoloCredit u32 | SoloDrain | SoloClose

fun solo_step :: "nat \<Rightarrow> solo \<Rightarrow> conn \<Rightarrow> fault + conn" where
  "solo_step i (SoloTurn p) c = (case loopStep p i c of None \<Rightarrow> Inr c | Some r \<Rightarrow> r)"
| "solo_step i (SoloSend m) c =
     and_then (enqueueLocked (l_address (c_heap c i)) m (c_broker c)) (\<lambda>b. Inr (c\<lparr>c_broker := b\<rparr>))"
| "solo_step i (SoloCredit n) c = Inr (modLink i (addCredit n) c)"
| "solo_step i SoloDrain c = Inr (modLink i (\<lambda>l. snd (drainCredit l)) c)"
| "solo_step i SoloClose c = Inr (modLink i closeLink c)"

fun solo_run :: "nat \<Rightarrow> solo list \<Rightarrow> conn \<Rightarrow> fault + conn" where
  "solo_run i [] c = Inr c"
| "solo_run i (e # es) c = and_then (solo_step i e c) (solo_run i es)"

fun solo_sent :: "solo list \<Rightarrow> bytes list" where
  "solo_sent [] = []"
| "solo_sent (SoloSend m # es) = m # solo_sent es"
| "solo_sent (_ # es) = solo_sent es"

text \<open>What the receiver got, what its loop has in hand, what is still queued.\<close>

definition pipeline :: "nat \<Rightarrow> conn \<Rightarrow> bytes list" where
  "pipeline i c = (let a = l_address (c_heap c i) in
     queued_for a (c_delivered c) @ in_hand (c_loops c i) @ b_queues (c_broker c) a)"

definition solo_inv :: "nat \<Rightarrow> conn \<Rightarrow> bool" where
  "solo_inv i c \<longleftrightarrow> conn_inv c \<and> i < c_nextLink c \<and> \<not> c_broken c"

lemma pipeline_quiet: "quiet c c' \<Longrightarrow> pipeline i c' = pipeline i c"
  by (simp add: quiet_def pipeline_def)

lemma solo_inv_quiet: "quiet c c' \<Longrightarrow> solo_inv i c \<Longrightarrow> solo_inv i c'"
  using conn_inv_quiet [of c c'] by (simp add: solo_inv_def quiet_def)

lemma deliver_alive:
  assumes "\<not> c_broken c"
  shows "\<exists>c'. deliver i m c = Inr (None, c')"
proof (cases "deliver i m c")
  case (Inl p)
  then show ?thesis using deliver_no_panic by blast
next
  case (Inr r)
  then show ?thesis
    using assms by (auto simp: deliver_def Let_def writeAMQP_def writeRaw_def and_then_eq_Inr ok_def)
qed

text \<open>A step of the loop keeps the order: it moves the front of the queue to its hand, its hand to
  the end of what was delivered, or its hand back to the front of the queue.\<close>

lemma turn_pipeline:
  assumes inv: "solo_inv i c" and step: "loopStep p i c = Some (Inr c')"
  shows "pipeline i c' = pipeline i c \<and> \<not> c_broken c'"
proof -
  let ?a = "l_address (c_heap c i)"
  have safe: "broker_inv (c_broker c)" "\<not> c_broken c"
    using inv by (simp_all add: solo_inv_def conn_inv_def)
  show ?thesis
  proof (cases "c_loops c i")
    case Idle
    obtain m b where d: "dequeue ?a (c_broker c) = (m, b)" by (cases "dequeue ?a (c_broker c)")
    have "fifo.view ?a m b = fifo.view ?a None (c_broker c)"
      using fifo.fetch_view [OF safe(1) d] by simp
    then show ?thesis
      using step Idle d safe(2)
      by (auto simp: loopStep_def Let_def pipeline_def setLoop_def fifo.view_def split: option.splits)
  next
    case (Holding m)
    then obtain t l' where t: "takeCredit (c_heap c i) = Some (t, l')"
      using step by (auto simp: loopStep_def Let_def split: option.splits)
    show ?thesis
    proof (cases t)
      case True
      then show ?thesis
        using step Holding t safe(2) takeCredit_address [OF t]
        by (auto simp: loopStep_def Let_def pipeline_def setLoop_def modLink_def)
    next
      case False
      then obtain b where b: "requeue ?a m (c_broker c) = Inr b" and c': "c' = setLoop i Stopped (c\<lparr>c_broker := b\<rparr>)"
        using step Holding t by (auto simp: loopStep_def Let_def and_then_eq_Inr)
      then show ?thesis
        using fifo.putback_view [OF safe(1) b] Holding safe(2)
        by (simp add: pipeline_def setLoop_def fifo.view_def)
    qed
  next
    case (Sending m)
    obtain c1 where d: "deliver i m c = Inr (None, c1)" using deliver_alive [OF safe(2)] by blast
    have "quiet c c1" by (rule deliver_quiet [OF d])
    then show ?thesis
      using step Sending d safe(2)
      by (auto simp: loopStep_def Let_def pipeline_def setLoop_def quiet_def)
  qed (use step safe(2) in \<open>auto simp: loopStep_def Let_def pipeline_def setLoop_def
        split: if_splits prod.splits dest: waitChan_queues\<close>)
qed

lemma solo_step_ok:
  assumes inv: "solo_inv i c"
  shows "\<exists>c'. solo_step i e c = Inr c' \<and> solo_inv i c' \<and> pipeline i c' = pipeline i c @ solo_sent [e]"
proof (cases e)
  case (SoloTurn p)
  have c: "conn_inv c" "i < c_nextLink c" using inv by (simp_all add: solo_inv_def)
  show ?thesis
  proof (cases "loopStep p i c")
    case None
    then show ?thesis using SoloTurn inv by simp
  next
    case (Some r)
    then obtain c' where c': "r = Inr c'" "loop_effect c c'" using loop_step_effect [OF c] by blast
    then show ?thesis
      using turn_pipeline [OF inv] Some SoloTurn c by (auto simp: solo_inv_def loop_effect_def)
  qed
next
  case (SoloSend m)
  let ?a = "l_address (c_heap c i)"
  have safe: "broker_inv (c_broker c)" "subs_inv (c_broker c)"
    using inv by (simp_all add: solo_inv_def conn_inv_def)
  obtain b where b: "enqueueLocked ?a m (c_broker c) = Inr b" "broker_inv b"
    "b_queues b = (b_queues (c_broker c))(?a := b_queues (c_broker c) ?a @ [m])"
    "b_topicSubs b = b_topicSubs (c_broker c)"
    using enqueueLocked_ok [OF safe(1), of ?a m] by blast
  have "conn_inv (c\<lparr>c_broker := b\<rparr>)"
    using conn_inv_broker [of c b] inv b safe(2) enqueueLocked_keeps [OF b(1)]
    by (simp add: solo_inv_def subs_inv_def)
  then show ?thesis using SoloSend b inv by (simp add: solo_inv_def pipeline_def Let_def)
next
  case (SoloCredit n)
  have "quiet c (modLink i (addCredit n) c)" by (rule modLink_quiet) simp
  then show ?thesis using SoloCredit inv solo_inv_quiet pipeline_quiet by simp
next
  case SoloDrain
  have "quiet c (modLink i (\<lambda>l. snd (drainCredit l)) c)"
    by (rule modLink_quiet) (simp add: drainCredit_def)
  then show ?thesis using SoloDrain inv solo_inv_quiet pipeline_quiet by simp
next
  case SoloClose
  have "quiet c (modLink i closeLink c)" by (rule modLink_quiet) simp
  then show ?thesis using SoloClose inv solo_inv_quiet pipeline_quiet by simp
qed

text \<open>C3: delivery is in order. When one loop serves an address on a live connection, then through any
  interleaving of sends, loop steps, credit grants, drains and the closing of the link, what was
  delivered followed by the message in hand and the queue is what was there before followed by the
  messages sent, in order; no step fails.\<close>

theorem in_order_delivery:
  assumes "conn_inv c" and "i < c_nextLink c" and "\<not> c_broken c"
  shows "\<exists>c'. solo_run i es c = Inr c' \<and> pipeline i c' = pipeline i c @ solo_sent es"
proof -
  have "\<exists>c'. solo_run i es c = Inr c' \<and> pipeline i c' = pipeline i c @ solo_sent es"
    if "solo_inv i c" for c
    using that
  proof (induction es arbitrary: c)
    case (Cons e es)
    obtain c1 where c1: "solo_step i e c = Inr c1" "solo_inv i c1"
      "pipeline i c1 = pipeline i c @ solo_sent [e]"
      using solo_step_ok [OF Cons.prems] by blast
    moreover have "solo_sent (e # es) = solo_sent [e] @ solo_sent es" by (cases e) simp_all
    ultimately show ?case using Cons.IH [OF c1(2)] by auto
  qed simp
  then show ?thesis using assms by (simp add: solo_inv_def)
qed

definition receiver_conn :: conn where
  "receiver_conn = (newConn newBroker)
     \<lparr>c_nextLink := 1, c_heap := (\<lambda>_. newLink\<lparr>l_address := ''q''\<rparr>), c_loops := (\<lambda>_. NotStarted)(0 := Idle)\<rparr>"

lemma receiver_conn_inv: "conn_inv receiver_conn"
  by (simp add: conn_inv_def receiver_conn_def newConn_def broker_inv_def subs_inv_def newBroker_def)

theorem in_order_delivery_witness:
  "\<exists>c'. solo_run 0 [SoloSend [1], SoloTurn False, SoloSend [2], SoloCredit 1, SoloTurn False, SoloTurn False] receiver_conn = Inr c' \<and>
     pipeline 0 c' = pipeline 0 receiver_conn @
       solo_sent [SoloSend [1], SoloTurn False, SoloSend [2], SoloCredit 1, SoloTurn False, SoloTurn False]"
  by (rule in_order_delivery) (simp_all add: receiver_conn_inv, simp_all add: receiver_conn_def newConn_def)

section \<open>Closed links\<close>

text \<open>How many steps a closed link's loop has left.\<close>

definition steps_left :: "nat \<Rightarrow> conn \<Rightarrow> nat" where
  "steps_left i c =
     (let b = c_broker c; empty = (b_queues b (l_address (c_heap c i)) = []) in
      case c_loops c i of
        NotStarted \<Rightarrow> 0
      | Stopped \<Rightarrow> 0
      | Holding m \<Rightarrow> 1
      | Idle \<Rightarrow> if empty then 3 else 2
      | Polled \<Rightarrow> if empty then 2 else 4
      | Waiting ch \<Rightarrow> if ch \<notin> set (b_closed b) then 1 else if empty then 4 else 3
      | Sending m \<Rightarrow> if empty then 4 else 3)"

lemma closed_step:
  assumes inv: "conn_inv c" and i: "i < c_nextLink c" and closed: "l_closed (c_heap c i)"
    and running: "c_loops c i \<noteq> NotStarted" "c_loops c i \<noteq> Stopped"
  shows "\<exists>c'. loopStep p i c = Some (Inr c') \<and> conn_inv c' \<and> i < c_nextLink c' \<and>
    l_closed (c_heap c' i) \<and> c_loops c' i \<noteq> NotStarted \<and> steps_left i c' < steps_left i c"
proof -
  let ?a = "l_address (c_heap c i)"
  have b: "broker_inv (c_broker c)" using inv by (simp add: conn_inv_def)
  have enabled: "loopStep p i c \<noteq> None"
    using running closed
    by (auto simp: loopStep_def takeCredit_def Let_def split: loop.splits option.splits prod.splits)
  then obtain c' where c': "loopStep p i c = Some (Inr c')" "loop_effect c c'"
    using loop_step_effect [OF inv i] by blast
  have next_state: "l_closed (c_heap c' i) \<and> c_loops c' i \<noteq> NotStarted \<and> steps_left i c' < steps_left i c"
  proof (cases "c_loops c i")
    case Idle
    then show ?thesis
      using c'(1) closed
      by (cases "b_queues (c_broker c) ?a")
         (auto simp: loopStep_def Let_def setLoop_def steps_left_def dequeue_def)
  next
    case Polled
    have "b_nextChan (c_broker c) \<notin> set (b_closed (c_broker c))"
      using b less_irrefl unfolding broker_inv_def by blast
    with Polled show ?thesis
      using c'(1) closed
      by (auto simp: loopStep_def Let_def setLoop_def steps_left_def waitChan_def)
  next
    case (Waiting ch)
    then show ?thesis
      using c'(1) closed
      by (auto simp: loopStep_def Let_def setLoop_def steps_left_def split: if_splits)
  next
    case (Holding m)
    obtain b where "requeue ?a m (c_broker c) = Inr b" using requeue_ok [OF b, of ?a m] by blast
    with Holding show ?thesis
      using c'(1) closed
      by (auto simp: loopStep_def Let_def setLoop_def steps_left_def takeCredit_def)
  next
    case (Sending m)
    obtain e c1 where d: "deliver i m c = Inr (e, c1)"
      using deliver_no_panic [of i m c] by (cases "deliver i m c") auto
    then have same: "c_heap c1 = c_heap c" "c_broker c1 = c_broker c"
      by (auto simp: deliver_def Let_def writeAMQP_def writeRaw_def and_then_eq_Inr split: if_splits)
    show ?thesis
      using c'(1) closed Sending d same
      by (auto simp: loopStep_def Let_def setLoop_def steps_left_def split: if_splits)
  qed (use running in auto)
  then show ?thesis using c' i by (auto simp: loop_effect_def)
qed



section \<open>Lost messages\<close>

text \<open>a message is lost when the write of its transfer fails: the loop returns without putting it
  back, as it does when the link closes. Here a receiver with credit disappears before a message
  arrives; its loop takes the message and drops it, and a second receiver gets nothing.\<close>

lemma dead_receiver_drops_message:
  "case exec_run
      [Accept amqpHeader, Frame 0 (attach_frame 1 True), Frame 0 (credit_frame 1 1), Lost 0,
       Accept amqpHeader, Frame 1 (attach_frame 0 False), Frame 1 (transfer_frame 0 [42]),
       Turn 0 0 False, Turn 0 0 False, Turn 0 0 False] newServer of
     None \<Rightarrow> False
   | Some s \<Rightarrow> s_sent s = [(''q'', [42])] \<and> b_queues (s_broker s) ''q'' = [] \<and>
       map c_delivered (s_conns s) = [[], []] \<and> map c_dropped (s_conns s) = [[(''q'', [42])], []]"
  by code_simp

text \<open>attaching again on a handle replaces the link in the map but leaves the old one open, so
  nothing ever closes it: after its connection has ended, the old loop still takes a message sent
  later by another client, and loses it.\<close>

lemma reattach_leaks_loop:
  "case exec_run
      [Accept amqpHeader, Frame 0 (attach_frame 1 True), Frame 0 (credit_frame 1 1),
       Frame 0 (attach_frame 1 True), Eof 0,
       Turn 0 1 True, Turn 0 1 True, Turn 0 1 True, Turn 0 0 True, Turn 0 0 True,
       Accept amqpHeader, Frame 1 (attach_frame 0 False), Frame 1 (transfer_frame 0 [42]),
       Turn 0 0 True, Turn 0 0 True, Turn 0 0 True, Turn 0 0 True] newServer of
     None \<Rightarrow> False
   | Some s \<Rightarrow> map c_ended (s_conns s) = [True, False] \<and>
       c_loops (s_conns s ! 0) 1 = Stopped \<and> l_closed (c_heap (s_conns s ! 0) 1) \<and>
       \<not> l_closed (c_heap (s_conns s ! 0) 0) \<and> b_queues (s_broker s) ''q'' = [] \<and>
       map c_dropped (s_conns s) = [[(''q'', [42])], []]"
  by code_simp

end
