(* ===== verification/Go_Maps.thy ===== *)
theory Go_Maps
  imports Prelude "HOL-Library.List_Lexorder" "HOL-Library.Char_ord"
begin

text \<open>
  The Go maps the stores keep their state in, and the contract the stores rely on. A map whose keys
  are listed is an association list with distinct keys (the order is the iteration order, which the
  stores erase by sorting); the stores nest two of them: account (or vault host) and name. The locale
  \<open>keyed_store\<close> is what a component expects of such a state: what a lookup returns after a put and
  after a removal. It is interpreted here on one map and on the nested maps, and by the components on
  their own stores.
\<close>

section \<open>The contract of a keyed store\<close>

datatype ('k, 'v) change = Put 'k 'v | Remove 'k

fun changed :: "('k, 'v) change \<Rightarrow> ('k \<Rightarrow> 'v option) \<Rightarrow> 'k \<Rightarrow> 'v option" where
  "changed (Put k v) m = m(k \<mapsto> v)"
| "changed (Remove k) m = m(k := None)"

text \<open>\<open>fits k v\<close> holds of the values that may be stored under \<open>k\<close> (rows carry their own keys).\<close>

locale keyed_store =
  fixes seek :: "'s \<Rightarrow> 'k \<Rightarrow> 'v option" and put :: "'k \<Rightarrow> 'v \<Rightarrow> 's \<Rightarrow> 's"
    and drop_key :: "'k \<Rightarrow> 's \<Rightarrow> 's" and sound :: "'s \<Rightarrow> bool" and fits :: "'k \<Rightarrow> 'v \<Rightarrow> bool"
  assumes seek_put: "sound s \<Longrightarrow> fits k v \<Longrightarrow> seek (put k v s) = (seek s)(k \<mapsto> v)"
    and seek_drop: "sound s \<Longrightarrow> seek (drop_key k s) = (seek s)(k := None)"
    and sound_put: "sound s \<Longrightarrow> fits k v \<Longrightarrow> sound (put k v s)"
    and sound_drop: "sound s \<Longrightarrow> sound (drop_key k s)"
begin

definition apply_change :: "('k, 'v) change \<Rightarrow> 's \<Rightarrow> 's" where
  "apply_change c s = (case c of Put k v \<Rightarrow> put k v s | Remove k \<Rightarrow> drop_key k s)"

definition allowed :: "('k, 'v) change \<Rightarrow> bool" where
  "allowed c = (case c of Put k v \<Rightarrow> fits k v | Remove k \<Rightarrow> True)"

lemma apply_change:
  "sound s \<Longrightarrow> allowed c \<Longrightarrow> sound (apply_change c s) \<and> seek (apply_change c s) = changed c (seek s)"
  by (cases c) (simp_all add: apply_change_def allowed_def seek_put seek_drop sound_put sound_drop)

lemma apply_changes:
  "sound s \<Longrightarrow> (\<forall>c \<in> set cs. allowed c) \<Longrightarrow>
     sound (fold apply_change cs s) \<and> seek (fold apply_change cs s) = fold changed cs (seek s)"
  by (induction cs arbitrary: s) (simp_all add: apply_change)

lemma put_other: "sound s \<Longrightarrow> fits k v \<Longrightarrow> k' \<noteq> k \<Longrightarrow> seek (put k v s) k' = seek s k'"
  by (simp add: seek_put)

lemma put_same: "sound s \<Longrightarrow> fits k v \<Longrightarrow> seek (put k v s) k = Some v"
  by (simp add: seek_put)

lemma drop_other: "sound s \<Longrightarrow> k' \<noteq> k \<Longrightarrow> seek (drop_key k s) k' = seek s k'"
  by (simp add: seek_drop)

lemma put_put: "sound s \<Longrightarrow> fits k v \<Longrightarrow> fits k v' \<Longrightarrow> seek (put k v (put k v' s)) = seek (put k v s)"
  by (simp add: seek_put sound_put)

lemma put_commute:
  "sound s \<Longrightarrow> fits k v \<Longrightarrow> fits k' v' \<Longrightarrow> k \<noteq> k' \<Longrightarrow>
     seek (put k v (put k' v' s)) = seek (put k' v' (put k v s))"
  by (simp add: seek_put sound_put fun_upd_twist)

lemma drop_put: "sound s \<Longrightarrow> fits k v \<Longrightarrow> seek s k = None \<Longrightarrow> seek (drop_key k (put k v s)) = seek s"
  by (simp add: seek_put seek_drop sound_put fun_upd_idem)

lemma drop_absent: "sound s \<Longrightarrow> seek s k = None \<Longrightarrow> seek (drop_key k s) = seek s"
  by (simp add: seek_drop fun_upd_idem)

end

section \<open>One map\<close>

definition distinct_keys :: "('k \<times> 'v) list \<Rightarrow> bool" where
  "distinct_keys m \<longleftrightarrow> distinct (map fst m)"

lemma distinct_keys_Nil [simp, inv_intros]: "distinct_keys []"
  by (simp add: distinct_keys_def)

lemma distinct_keys_update [simp, inv_intros]: "distinct_keys m \<Longrightarrow> distinct_keys (AList.update k v m)"
  by (simp add: distinct_keys_def distinct_update)

lemma distinct_keys_delete [simp, inv_intros]: "distinct_keys m \<Longrightarrow> distinct_keys (AList.delete k m)"
  by (simp add: distinct_keys_def distinct_delete)

interpretation one_map: keyed_store map_of AList.update AList.delete distinct_keys "\<lambda>_ _. True"
  by unfold_locales (auto simp: update_conv' delete_conv')

lemma map_of_update [store_simps]: "map_of (AList.update k v m) = (map_of m)(k \<mapsto> v)"
  by (simp add: update_conv')

lemma map_of_delete [store_simps]: "map_of (AList.delete k m) = (map_of m)(k := None)"
  by (simp add: delete_conv')

lemma map_of_in_set: "distinct_keys m \<Longrightarrow> map_of m k = Some v \<longleftrightarrow> (k, v) \<in> set m"
  by (simp add: distinct_keys_def)

lemma set_update_subset: "set (AList.update k v m) \<subseteq> insert (k, v) (set m)"
  by (induction m) auto

lemma set_delete_subset: "set (AList.delete k m) \<subseteq> set m"
  by (auto simp: AList.delete_eq)

lemma map_of_map_values [store_simps]:
  "map_of (map (\<lambda>(k, v). (k, f k v)) m) k = map_option (f k) (map_of m k)"
  by (induction m) auto

section \<open>Nested maps\<close>

type_synonym ('k, 'v) go_map = "('k \<times> 'v) list"
type_synonym ('a, 'k, 'v) nested = "('a, ('k, 'v) go_map) go_map"

text \<open>Reading a missing outer entry reads as an empty map; writing creates it.\<close>

definition inner :: "'a \<Rightarrow> ('a, 'k, 'v) nested \<Rightarrow> ('k, 'v) go_map" where
  "inner a s = (case map_of s a of None \<Rightarrow> [] | Some m \<Rightarrow> m)"

definition lookup2 :: "('a, 'k, 'v) nested \<Rightarrow> 'a \<times> 'k \<Rightarrow> 'v option" where
  "lookup2 s = (\<lambda>(a, k). map_of (inner a s) k)"

definition update2 :: "'a \<times> 'k \<Rightarrow> 'v \<Rightarrow> ('a, 'k, 'v) nested \<Rightarrow> ('a, 'k, 'v) nested" where
  "update2 = (\<lambda>(a, k) v s. AList.update a (AList.update k v (inner a s)) s)"

definition delete2 :: "'a \<times> 'k \<Rightarrow> ('a, 'k, 'v) nested \<Rightarrow> ('a, 'k, 'v) nested" where
  "delete2 = (\<lambda>(a, k) s. if a \<in> set (map fst s) then AList.update a (AList.delete k (inner a s)) s else s)"

definition nested_ok :: "('a, 'k, 'v) nested \<Rightarrow> bool" where
  "nested_ok s \<longleftrightarrow> distinct_keys s \<and> (\<forall>a. distinct_keys (inner a s))"

lemma inner_Nil [simp]: "inner a [] = []"
  by (simp add: inner_def)

lemma inner_update [store_simps]: "inner a (AList.update b m s) = (if a = b then m else inner a s)"
  by (simp add: inner_def map_of_update)

lemma inner_missing: "a \<notin> set (map fst s) \<Longrightarrow> inner a s = []"
  using map_of_eq_None_iff [of s a] by (simp add: inner_def)

lemma lookup2_update2 [store_simps]: "lookup2 (update2 k v s) = (lookup2 s)(k \<mapsto> v)"
  by (cases k) (auto simp: lookup2_def update2_def store_simps fun_eq_iff)

lemma lookup2_delete2 [store_simps]: "lookup2 (delete2 k s) = (lookup2 s)(k := None)"
  by (cases k) (auto simp: lookup2_def delete2_def store_simps fun_eq_iff inner_missing)

lemma nested_ok_update2 [inv_intros]: "nested_ok s \<Longrightarrow> nested_ok (update2 k v s)"
  by (cases k) (auto simp: nested_ok_def update2_def store_simps)

lemma nested_ok_delete2 [inv_intros]: "nested_ok s \<Longrightarrow> nested_ok (delete2 k s)"
  by (cases k) (auto simp: nested_ok_def delete2_def store_simps)

lemma nested_ok_Nil [simp, inv_intros]: "nested_ok []"
  by (simp add: nested_ok_def)

interpretation two_maps: keyed_store lookup2 update2 delete2 nested_ok "\<lambda>_ _. True"
  by unfold_locales (simp_all add: store_simps inv_intros)

section \<open>Sorted listings\<close>

lemma sorted_keys:
  assumes "distinct_keys m"
  shows "sorted (sort (map fst m)) \<and> distinct (sort (map fst m)) \<and>
    set (sort (map fst m)) = {k. map_of m k \<noteq> None}"
  using assms by (auto simp: distinct_keys_def domIff [symmetric] dom_map_of_conv_image_fst) force

lemma distinct_map_sort_key [simp]: "distinct (map f (sort_key g xs)) \<longleftrightarrow> distinct (map f xs)"
  by (simp add: distinct_map)

text \<open>A list sorted by distinct keys is determined by its elements: any stable or unstable sort of a
  listing gives the same list.\<close>

lemma keyed_list_unique:
  assumes "sorted (map f xs)" and "distinct (map f xs)" and "sorted (map f ys)" and "distinct (map f ys)"
    and "set xs = set ys"
  shows "xs = ys"
proof -
  have "map f xs = map f ys" using assms by (intro sorted_distinct_set_unique) simp_all
  then show ?thesis
    using assms by (intro map_inj_on [of f]) (simp_all add: distinct_map)
qed

end
