(* ===== verification/Go_Time.thy ===== *)
theory Go_Time
  imports Go_Strings
begin

text \<open>
  What the source uses of Go's \<open>time\<close>: instants are integers, nanoseconds since 1970 in UTC (the
  clock itself is an argument of the operations that read it), durations are nanoseconds, and the
  layout with seven fractional digits that timestamps and entity tags are printed in.
\<close>

type_synonym time = int
type_synonym duration = int

definition second :: duration where "second = 1000000000"
definition hour :: duration where "hour = 3600 * second"

text \<open>\<open>time.Time{}\<close>: the first of January of year 1, \<open>IsZero\<close> and \<open>After\<close>.\<close>

definition zeroTime :: time where "zeroTime = - 62135596800 * second"

definition isZero :: "time \<Rightarrow> bool" where "isZero t \<longleftrightarrow> t = zeroTime"

section \<open>Decimal numbers\<close>

definition digitChar :: "nat \<Rightarrow> char" where
  "digitChar d = char_of (48 + d)"

fun decimal :: "nat \<Rightarrow> string" where
  "decimal n = (if n < 10 then [digitChar n] else decimal (n div 10) @ [digitChar (n mod 10)])"

declare decimal.simps [simp del]

text \<open>The low \<open>w\<close> digits of \<open>n\<close>, most significant first.\<close>

fun digits :: "nat \<Rightarrow> nat \<Rightarrow> string" where
  "digits 0 n = []"
| "digits (Suc w) n = digits w (n div 10) @ [digitChar (n mod 10)]"

definition padded :: "nat \<Rightarrow> nat \<Rightarrow> string" where
  "padded w n = (if n < 10 ^ w then digits w n else decimal n)"

lemma length_digits [simp]: "length (digits w n) = w"
  by (induction w arbitrary: n) simp_all

lemma digitChar_inject: "d < 10 \<Longrightarrow> e < 10 \<Longrightarrow> digitChar d = digitChar e \<longleftrightarrow> d = e"
  by (auto simp: digitChar_def char_of_eq_iff take_bit_eq_mod)

lemma digits_inject: "m < 10 ^ w \<Longrightarrow> n < 10 ^ w \<Longrightarrow> digits w m = digits w n \<longleftrightarrow> m = n"
proof (induction w arbitrary: m n)
  case (Suc w)
  have "m div 10 < 10 ^ w" "n div 10 < 10 ^ w" using Suc.prems by (auto simp: less_mult_imp_div_less)
  then have "digits (Suc w) m = digits (Suc w) n \<longleftrightarrow> m div 10 = n div 10 \<and> m mod 10 = n mod 10"
    using Suc.IH by (simp add: digitChar_inject)
  then show ?case by (metis mod_div_decomp)
qed simp

section \<open>Dates\<close>

text \<open>Year, month and day of a day count since 1970 (the proleptic Gregorian calendar).\<close>

definition civil :: "int \<Rightarrow> int \<times> nat \<times> nat" where
  "civil days =
     (let z = days + 719468;
          era = z div 146097;
          doe = z mod 146097;
          yoe = (doe - doe div 1460 + doe div 36524 - doe div 146096) div 365;
          doy = doe - (365 * yoe + yoe div 4 - yoe div 100);
          mp = (5 * doy + 2) div 153;
          d = doy - (153 * mp + 2) div 5 + 1;
          m = (if mp < 10 then mp + 3 else mp - 9);
          y = yoe + era * 400 + (if m \<le> 2 then 1 else 0)
      in (y, nat m, nat d))"

text \<open>\<open>Format\<close> with the layout \<open>2006-01-02T15:04:05.0000000Z\<close>, for years from 0 on.\<close>

definition formatTime7 :: "time \<Rightarrow> string" where
  "formatTime7 t =
     (let secs = t div second; day = secs div 86400; s = nat (secs mod 86400);
          frac = nat (t mod second div 100)
      in case civil day of (y, m, d) \<Rightarrow>
        padded 4 (nat y) @ ''-'' @ digits 2 m @ ''-'' @ digits 2 d @ ''T'' @
        digits 2 (s div 3600) @ '':'' @ digits 2 (s div 60 mod 60) @ '':'' @ digits 2 (s mod 60) @
        ''.'' @ digits 7 frac @ ''Z'')"

lemma formatTime7_fraction:
  "drop (length (formatTime7 t) - 9) (formatTime7 t) = ''.'' @ digits 7 (nat (t mod second div 100)) @ ''Z''"
  by (simp add: formatTime7_def Let_def split: prod.split)

lemma formatTime7_fraction_eq:
  assumes "formatTime7 t = formatTime7 t'"
  shows "t mod second div 100 = t' mod second div 100"
proof -
  have bound: "0 \<le> u mod second div 100" "nat (u mod second div 100) < 10 ^ 7" for u
    using pos_mod_bound [of second u] by (simp_all add: second_def nat_less_iff)
  have "digits 7 (nat (t mod second div 100)) = digits 7 (nat (t' mod second div 100))"
    using formatTime7_fraction [of t] formatTime7_fraction [of t'] assms by simp
  then have "nat (t mod second div 100) = nat (t' mod second div 100)"
    using digits_inject bound by blast
  then show ?thesis using bound by (metis nat_0_le)
qed

end
