(* ===== verification/Go_Encoding.thy ===== *)
theory Go_Encoding
  imports Go_Strings
begin

text \<open>
  What the source uses of \<open>encoding/hex\<close>, \<open>encoding/base64\<close> and \<open>fmt\<close>'s \<open>%x\<close>: the printing of
  random bytes as identifiers and of names as file names and continuation tokens. The random bytes
  (\<open>crypto/rand\<close>) are arguments of the operations that draw them. Shown here: the encodings are
  injective and decoding undoes encoding.
\<close>

section \<open>Hexadecimal\<close>

definition hexChar :: "nat \<Rightarrow> char" where
  "hexChar n = ''0123456789abcdef'' ! n"

definition hexByte :: "u8 \<Rightarrow> string" where
  "hexByte b = [hexChar (unat b div 16), hexChar (unat b mod 16)]"

definition hexString :: "bytes \<Rightarrow> string" where
  "hexString bs = concat (map hexByte bs)"

text \<open>The 16 random bytes of an identifier, with the version and variant bits of a v4 UUID.\<close>

definition uuidBytes :: "bytes \<Rightarrow> bytes" where
  "uuidBytes b = b[6 := (b ! 6 AND 0x0F) OR 0x40, 8 := (b ! 8 AND 0x3F) OR 0x80]"

definition uuidString :: "bytes \<Rightarrow> string" where
  "uuidString bs =
     (let b = uuidBytes bs; part = (\<lambda>i j. hexString (drop i (take j b))) in
      part 0 4 @ ''-'' @ part 4 6 @ ''-'' @ part 6 8 @ ''-'' @ part 8 10 @ ''-'' @ part 10 16)"

lemma hexChar_inject: "m < 16 \<Longrightarrow> n < 16 \<Longrightarrow> hexChar m = hexChar n \<longleftrightarrow> m = n"
  unfolding hexChar_def by (subst nth_eq_iff_index_eq) simp_all

lemma hexByte_inject: "hexByte a = hexByte b \<longleftrightarrow> a = b"
proof
  have bound: "unat c div 16 < 16" "unat c mod 16 < 16" for c :: u8
    using unsigned_less [of c, where ?'a = nat] by (simp_all add: less_mult_imp_div_less)
  assume "hexByte a = hexByte b"
  then have "unat a div 16 = unat b div 16 \<and> unat a mod 16 = unat b mod 16"
    by (simp add: hexByte_def hexChar_inject bound)
  then have "unat a = unat b" by (metis div_mult_mod_eq)
  then show "a = b" by (simp add: word_unat_eq_iff)
qed simp

lemma hexString_Cons: "hexString (b # bs) = hexByte b @ hexString bs"
  by (simp add: hexString_def)

lemma length_hexByte [simp]: "length (hexByte b) = 2"
  by (simp add: hexByte_def)

lemma length_hexString [simp]: "length (hexString bs) = 2 * length bs"
  by (induction bs) (simp_all add: hexString_def)

lemma hexString_inject: "hexString as = hexString bs \<longleftrightarrow> as = bs"
proof (induction as arbitrary: bs)
  case Nil
  have "length (hexString []) = length (hexString bs) \<longleftrightarrow> bs = []" by auto
  then show ?case by (metis)
next
  case (Cons a as)
  show ?case
  proof (cases bs)
    case Nil
    then show ?thesis using length_hexString [of "a # as"] by (metis length_hexString list.size(3) list.distinct(1) length_0_conv mult_is_0 zero_neq_numeral)
  next
    case [simp]: (Cons b bs')
    show ?thesis by (simp add: hexString_Cons append_eq_append_conv hexByte_inject Cons.IH)
  qed
qed

lemma hexString_not_Nil: "bs \<noteq> [] \<Longrightarrow> hexString bs \<noteq> []"
  by (cases bs) (simp_all add: hexString_Cons hexByte_def)

section \<open>Base 64\<close>

definition stdAlphabet :: string where
  "stdAlphabet = ''ABCDEFGHIJKLMNOPQRSTUVWXYZabcdefghijklmnopqrstuvwxyz0123456789+/''"

definition urlAlphabet :: string where
  "urlAlphabet = ''ABCDEFGHIJKLMNOPQRSTUVWXYZabcdefghijklmnopqrstuvwxyz0123456789-_''"

text \<open>Groups of three bytes become four characters; \<open>pad\<close> is \<open>''=''\<close> or empty.\<close>

fun base64 :: "string \<Rightarrow> string \<Rightarrow> nat list \<Rightarrow> string" where
  "base64 alphabet pad [] = []"
| "base64 alphabet pad [a] = [alphabet ! (a div 4), alphabet ! (a mod 4 * 16)] @ pad @ pad"
| "base64 alphabet pad [a, b] =
     [alphabet ! (a div 4), alphabet ! (a mod 4 * 16 + b div 16), alphabet ! (b mod 16 * 4)] @ pad"
| "base64 alphabet pad (a # b # c # rest) =
     [alphabet ! (a div 4), alphabet ! (a mod 4 * 16 + b div 16), alphabet ! (b mod 16 * 4 + c div 64),
      alphabet ! (c mod 64)] @ base64 alphabet pad rest"

definition stdEncode :: "bytes \<Rightarrow> string" where
  "stdEncode bs = base64 stdAlphabet ''='' (map unat bs)"

text \<open>\<open>base64.RawURLEncoding\<close> of the bytes of a string.\<close>

definition rawURLEncode :: "string \<Rightarrow> string" where
  "rawURLEncode s = base64 urlAlphabet [] (map of_char s)"

text \<open>Decoding skips line breaks, refuses other characters and a single left-over character, and
  ignores the unused bits of the last group.\<close>

fun unbase64 :: "nat list \<Rightarrow> nat list option" where
  "unbase64 [] = Some []"
| "unbase64 [w] = None"
| "unbase64 [w, x] = Some [w * 4 + x div 16]"
| "unbase64 [w, x, y] = Some [w * 4 + x div 16, (x mod 16) * 16 + y div 4]"
| "unbase64 (w # x # y # z # rest) =
     map_option ((@) [w * 4 + x div 16, (x mod 16) * 16 + y div 4, (y mod 4) * 64 + z]) (unbase64 rest)"

fun sextets :: "string \<Rightarrow> string \<Rightarrow> nat list option" where
  "sextets alphabet [] = Some []"
| "sextets alphabet (c # s) =
     (if c = CHR 0x0A \<or> c = CHR 0x0D then sextets alphabet s
      else case indexByte alphabet c of
             None \<Rightarrow> None
           | Some i \<Rightarrow> map_option ((#) i) (sextets alphabet s))"

definition rawURLDecode :: "string \<Rightarrow> string option" where
  "rawURLDecode s =
     (case sextets urlAlphabet s of
        None \<Rightarrow> None
      | Some ns \<Rightarrow> map_option (map char_of) (unbase64 ns))"

lemma indexByte_nth: "distinct s \<Longrightarrow> i < length s \<Longrightarrow> indexByte s (s ! i) = Some i"
proof (induction s arbitrary: i)
  case (Cons c s)
  then show ?case by (cases i) auto
qed simp

lemma urlAlphabet_props:
  "length urlAlphabet = 64" "distinct urlAlphabet" "CHR 0x0A \<notin> set urlAlphabet" "CHR 0x0D \<notin> set urlAlphabet"
  by (simp_all add: urlAlphabet_def)

lemma stdAlphabet_props: "length stdAlphabet = 64" "distinct stdAlphabet" "CHR ''='' \<notin> set stdAlphabet"
  by (simp_all add: stdAlphabet_def)

lemma sextets_url:
  assumes "i < 64"
  shows "sextets urlAlphabet (urlAlphabet ! i # s) = map_option ((#) i) (sextets urlAlphabet s)"
proof -
  have "urlAlphabet ! i \<in> set urlAlphabet" using assms by (simp add: urlAlphabet_props)
  then have "urlAlphabet ! i \<noteq> CHR 0x0A" "urlAlphabet ! i \<noteq> CHR 0x0D"
    using urlAlphabet_props by metis+
  then show ?thesis using assms by (simp add: indexByte_nth urlAlphabet_props)
qed

lemma byte_parts:
  assumes "b < (256 :: nat)"
  shows "b div 4 < 64" and "b div 16 < 16" and "b div 64 < 4"
  using assms by (simp_all add: less_mult_imp_div_less)

lemma sextet_bounds:
  assumes "a < (256 :: nat)"
  shows "b mod 4 * 16 + a div 16 < 64" and "b mod 4 * 16 < (64 :: nat)" and "b mod 16 * 4 < (64 :: nat)"
    and "b mod 16 * 4 + a div 64 < 64"
proof -
  have "b mod 4 < 4" "b mod 16 < 16" by simp_all
  then show "b mod 4 * 16 + a div 16 < 64" "b mod 4 * 16 < 64" "b mod 16 * 4 < 64"
    "b mod 16 * 4 + a div 64 < 64"
    using byte_parts [OF assms] by linarith+
qed

text \<open>What a group of characters stands for.\<close>

fun sextetsOf :: "nat list \<Rightarrow> nat list" where
  "sextetsOf [] = []"
| "sextetsOf [a] = [a div 4, a mod 4 * 16]"
| "sextetsOf [a, b] = [a div 4, a mod 4 * 16 + b div 16, b mod 16 * 4]"
| "sextetsOf (a # b # c # rest) =
     [a div 4, a mod 4 * 16 + b div 16, b mod 16 * 4 + c div 64, c mod 64] @ sextetsOf rest"

lemma base64_sextets:
  "\<forall>n \<in> set ns. n < 256 \<Longrightarrow> sextets urlAlphabet (base64 urlAlphabet [] ns) = Some (sextetsOf ns)"
  by (induction urlAlphabet "[] :: string" ns rule: base64.induct) (simp_all del: sextets.simps(2) add: sextets_url sextet_bounds byte_parts)

lemma unbase64_sextetsOf: "\<forall>n \<in> set ns. n < 256 \<Longrightarrow> unbase64 (sextetsOf ns) = Some ns"
  by (induction ns rule: sextetsOf.induct) (simp_all add: byte_parts)

text \<open>Decoding undoes encoding, so names never share a file name or a token.\<close>

lemma rawURL_roundtrip: "rawURLDecode (rawURLEncode s) = Some s"
proof -
  have "\<forall>n \<in> set (map of_char s). n < (256 :: nat)" by (simp add: of_char_less_256)
  then show ?thesis
    by (simp add: rawURLDecode_def rawURLEncode_def base64_sextets unbase64_sextetsOf comp_def)
qed

lemma rawURLEncode_inject: "rawURLEncode s = rawURLEncode t \<longleftrightarrow> s = t"
  using rawURL_roundtrip by (metis option.inject)

lemma rawURLEncode_Nil: "rawURLEncode s = [] \<longleftrightarrow> s = []"
  using rawURLEncode_inject [of s "[]"] by (simp add: rawURLEncode_def)

text \<open>Encodings of byte sequences of one length are injective, padded or not (pop receipts).\<close>

lemma base64_eq:
  "base64 al pad ns = map ((!) al) (sextetsOf ns) @
     (if length ns mod 3 = 1 then pad @ pad else if length ns mod 3 = 2 then pad else [])"
proof (induction al pad ns rule: base64.induct)
  case (4 al pad a b c rest)
  have "length (a # b # c # rest) mod 3 = length rest mod 3" by (simp only: list.size) presburger
  then show ?case using 4 by (simp only: base64.simps sextetsOf.simps list.map append_Cons append_Nil)
qed simp_all

lemma sextetsOf_bound: "\<forall>n \<in> set ns. n < 256 \<Longrightarrow> \<forall>n \<in> set (sextetsOf ns). n < 64"
  by (induction ns rule: sextetsOf.induct) (simp_all add: sextet_bounds byte_parts)

lemma sextetsOf_inject:
  "\<forall>n \<in> set ms. n < 256 \<Longrightarrow> \<forall>n \<in> set ns. n < 256 \<Longrightarrow> sextetsOf ms = sextetsOf ns \<longleftrightarrow> ms = ns"
  using unbase64_sextetsOf by (metis option.inject)

lemma stdEncode_inject:
  assumes "length as = length bs"
  shows "stdEncode as = stdEncode bs \<longleftrightarrow> as = bs"
proof
  let ?m = "map unat as" and ?n = "map unat bs"
  have small: "\<forall>n \<in> set (map unat cs). n < (256 :: nat)" for cs :: bytes
  proof
    fix n assume "n \<in> set (map unat cs)"
    then obtain c where "c \<in> set cs" "n = unat c" by auto
    then show "n < 256" using unsigned_less [of c, where ?'a = nat] by simp
  qed
  assume "stdEncode as = stdEncode bs"
  then have eq: "map ((!) stdAlphabet) (sextetsOf ?m) = map ((!) stdAlphabet) (sextetsOf ?n)"
    using assms by (simp add: stdEncode_def base64_eq)
  have "inj_on ((!) stdAlphabet) (set (sextetsOf ?m) \<union> set (sextetsOf ?n))"
    using sextetsOf_bound [OF small [of as]] sextetsOf_bound [OF small [of bs]] stdAlphabet_props
    by (auto simp: inj_on_def nth_eq_iff_index_eq)
  then have "sextetsOf ?m = sextetsOf ?n" using eq map_inj_on by blast
  then have "?m = ?n" using sextetsOf_inject small by blast
  then show "as = bs" by (simp add: inj_map_eq_map inj_def word_unat_eq_iff)
qed simp

lemma stdEncode_Nil: "stdEncode bs = [] \<longleftrightarrow> bs = []"
proof -
  have "base64 al pad ns = [] \<longleftrightarrow> ns = []" for al pad ns by (cases ns rule: sextetsOf.cases) simp_all
  then show ?thesis by (simp add: stdEncode_def)
qed

end
