(* ===== verification/Queue_Store.thy ===== *)
theory Queue_Store
  imports Go_Maps Go_Time Go_Encoding
begin

text \<open>
  The Queue service's state, \<open>internal/stores/queuestore\<close>: accounts hold queues by name, a queue its
  messages in order of arrival with their visibility and pop receipts. The mutex is held through
  every operation, so each is one step. An operation reads the clock once in \<open>lookupLocked\<close> (\<open>t0\<close>) and
  possibly again (\<open>now\<close>); the random bytes it draws are an argument as well. Operations return copies.
  The file the state is written to is in \<open>Queue_Snapshot\<close>.
\<close>

section \<open>Types\<close>

datatype queue_error = ErrQueueNotFound | ErrQueueExists | ErrMessageNotFound | ErrPopReceipt

type_synonym metadata = "(string, string) go_map"

record queueInfo =
  qi_name :: string
  qi_metadata :: metadata
  qi_approximateCount :: nat

record message =
  m_id :: string
  m_text :: string
  m_insertionTime :: time
  m_expirationTime :: time
  m_nextVisible :: time
  m_popReceipt :: string
  m_dequeueCount :: int

definition visible :: "time \<Rightarrow> message \<Rightarrow> bool" where
  "visible now m \<longleftrightarrow> \<not> now < m_nextVisible m"

definition expired :: "time \<Rightarrow> message \<Rightarrow> bool" where
  "expired now m \<longleftrightarrow> \<not> isZero (m_expirationTime m) \<and> m_expirationTime m < now"

record queue =
  q_name :: string
  q_metadata :: metadata
  q_messages :: "message list"

type_synonym queue_store = "(string, string, queue) nested"

definition evictExpired :: "time \<Rightarrow> queue \<Rightarrow> queue" where
  "evictExpired now q = q\<lparr>q_messages := filter (\<lambda>m. \<not> expired now m) (q_messages q)\<rparr>"

definition setQueue :: "string \<Rightarrow> string \<Rightarrow> queue \<Rightarrow> queue_store \<Rightarrow> queue_store" where
  "setQueue account name q s = update2 (account, name) q s"

text \<open>Looking a queue up drops its expired messages.\<close>

definition lookupLocked :: "time \<Rightarrow> string \<Rightarrow> string \<Rightarrow> queue_store \<Rightarrow> (queue_error + queue) \<times> queue_store" where
  "lookupLocked t0 account name s =
     (case map_of s account of
        None \<Rightarrow> (Inl ErrQueueNotFound, s)
      | Some qs \<Rightarrow>
          (case map_of qs name of
             None \<Rightarrow> (Inl ErrQueueNotFound, s)
           | Some q \<Rightarrow> let q' = evictExpired t0 q in (Inr q', setQueue account name q' s)))"

definition newID :: "bytes \<Rightarrow> string" where "newID b = uuidString b"

definition newPopReceipt :: "bytes \<Rightarrow> string" where "newPopReceipt b = stdEncode b"

section \<open>Queues\<close>

text \<open>A missing key reads as the empty string.\<close>

definition sameMetadata :: "metadata \<Rightarrow> metadata \<Rightarrow> bool" where
  "sameMetadata a b \<longleftrightarrow> length a = length b \<and>
     (\<forall>(k, v) \<in> set a. (case map_of b k of None \<Rightarrow> [] | Some w \<Rightarrow> w) = v)"

definition createQueue ::
    "string \<Rightarrow> string \<Rightarrow> metadata \<Rightarrow> queue_store \<Rightarrow> (queue_error + bool) \<times> queue_store" where
  "createQueue account name metadata s =
     (let s1 = (if map_of s account = None then AList.update account [] s else s) in
      case map_of (inner account s1) name of
        Some existing \<Rightarrow>
          if \<not> sameMetadata (q_metadata existing) metadata then (Inl ErrQueueExists, s1) else (Inr False, s1)
      | None \<Rightarrow>
          (Inr True, setQueue account name \<lparr>q_name = name, q_metadata = metadata, q_messages = []\<rparr> s1))"

definition deleteQueue :: "string \<Rightarrow> string \<Rightarrow> queue_store \<Rightarrow> queue_error option \<times> queue_store" where
  "deleteQueue account name s =
     (case map_of s account of
        None \<Rightarrow> (Some ErrQueueNotFound, s)
      | Some qs \<Rightarrow>
          if map_of qs name = None then (Some ErrQueueNotFound, s)
          else (None, AList.update account (AList.delete name qs) s))"

text \<open>Listing evicts from the queues it lists.\<close>

definition listQueues :: "time \<Rightarrow> string \<Rightarrow> string \<Rightarrow> queue_store \<Rightarrow> queueInfo list \<times> queue_store" where
  "listQueues now account prefix s =
     (let listed = (\<lambda>name. prefix = [] \<or> hasPrefix name prefix);
          qs = map (\<lambda>(name, q). (name, if listed name then evictExpired now q else q)) (inner account s);
          out = map (\<lambda>(name, q). \<lparr>qi_name = name, qi_metadata = q_metadata q,
                       qi_approximateCount = length (q_messages q)\<rparr>)
                  (filter (\<lambda>(name, q). listed name) qs)
      in (sort_key qi_name out, if map_of s account = None then s else AList.update account qs s))"

definition getMetadata ::
    "time \<Rightarrow> string \<Rightarrow> string \<Rightarrow> queue_store \<Rightarrow> (queue_error + queueInfo) \<times> queue_store" where
  "getMetadata t0 account name s =
     (case lookupLocked t0 account name s of
        (Inl e, s1) \<Rightarrow> (Inl e, s1)
      | (Inr q, s1) \<Rightarrow>
          (Inr \<lparr>qi_name = name, qi_metadata = q_metadata q, qi_approximateCount = length (q_messages q)\<rparr>, s1))"

definition setMetadata ::
    "time \<Rightarrow> string \<Rightarrow> string \<Rightarrow> metadata \<Rightarrow> queue_store \<Rightarrow> queue_error option \<times> queue_store" where
  "setMetadata t0 account name metadata s =
     (case lookupLocked t0 account name s of
        (Inl e, s1) \<Rightarrow> (Some e, s1)
      | (Inr q, s1) \<Rightarrow> (None, setQueue account name (q\<lparr>q_metadata := metadata\<rparr>) s1))"

section \<open>Messages\<close>

definition defaultTTL :: duration where "defaultTTL = 7 * 24 * hour"

definition enqueue ::
    "time \<Rightarrow> time \<Rightarrow> bytes \<Rightarrow> string \<Rightarrow> string \<Rightarrow> string \<Rightarrow> duration \<Rightarrow> duration \<Rightarrow> queue_store
     \<Rightarrow> (queue_error + message) \<times> queue_store" where
  "enqueue t0 now rand account name text visibilityTimeout ttl s =
     (case lookupLocked t0 account name s of
        (Inl e, s1) \<Rightarrow> (Inl e, s1)
      | (Inr q, s1) \<Rightarrow>
          let m = \<lparr>m_id = newID rand, m_text = text, m_insertionTime = now,
                   m_expirationTime = (if ttl < 0 then zeroTime
                                       else if ttl = 0 then now + defaultTTL else now + ttl),
                   m_nextVisible = now + visibilityTimeout, m_popReceipt = [], m_dequeueCount = 0\<rparr>
          in (Inr m, setQueue account name (q\<lparr>q_messages := q_messages q @ [m]\<rparr>) s1))"

text \<open>One delivery: the message is counted, gets a new receipt and is hidden.\<close>

definition lease :: "time \<Rightarrow> duration \<Rightarrow> bytes \<Rightarrow> message \<Rightarrow> message" where
  "lease now visibilityTimeout rand m =
     m\<lparr>m_dequeueCount := m_dequeueCount m + 1, m_popReceipt := newPopReceipt rand,
       m_nextVisible := now + visibilityTimeout\<rparr>"

text \<open>The loop over the messages: what is handed out, and the messages afterwards. The \<open>n\<close>-th receipt
  of the call is drawn from \<open>rand n\<close>.\<close>

fun dequeueLoop :: "time \<Rightarrow> duration \<Rightarrow> int \<Rightarrow> (nat \<Rightarrow> bytes) \<Rightarrow> message list \<Rightarrow> message list
    \<Rightarrow> message list \<times> message list" where
  "dequeueLoop now vt num rand out [] = (out, [])"
| "dequeueLoop now vt num rand out (m # ms) =
     (if num \<le> int (length out) then (out, m # ms)
      else if \<not> visible now m then (case dequeueLoop now vt num rand out ms of (o', ms') \<Rightarrow> (o', m # ms'))
      else let m' = lease now vt (rand (length out)) m in
           case dequeueLoop now vt num rand (out @ [m']) ms of (o', ms') \<Rightarrow> (o', m' # ms'))"

definition dequeue ::
    "time \<Rightarrow> time \<Rightarrow> (nat \<Rightarrow> bytes) \<Rightarrow> string \<Rightarrow> string \<Rightarrow> int \<Rightarrow> duration \<Rightarrow> queue_store
     \<Rightarrow> (queue_error + message list) \<times> queue_store" where
  "dequeue t0 now rand account name num visibilityTimeout s =
     (case lookupLocked t0 account name s of
        (Inl e, s1) \<Rightarrow> (Inl e, s1)
      | (Inr q, s1) \<Rightarrow>
          (case dequeueLoop now visibilityTimeout num rand [] (q_messages q) of
             (out, ms) \<Rightarrow> (Inr out, setQueue account name (q\<lparr>q_messages := ms\<rparr>) s1)))"

fun peekLoop :: "time \<Rightarrow> int \<Rightarrow> message list \<Rightarrow> message list \<Rightarrow> message list" where
  "peekLoop now num out [] = out"
| "peekLoop now num out (m # ms) =
     (if num \<le> int (length out) then out
      else if \<not> visible now m then peekLoop now num out ms
      else peekLoop now num (out @ [m]) ms)"

definition peek ::
    "time \<Rightarrow> time \<Rightarrow> string \<Rightarrow> string \<Rightarrow> int \<Rightarrow> queue_store \<Rightarrow> (queue_error + message list) \<times> queue_store" where
  "peek t0 now account name num s =
     (case lookupLocked t0 account name s of
        (Inl e, s1) \<Rightarrow> (Inl e, s1)
      | (Inr q, s1) \<Rightarrow> (Inr (peekLoop now num [] (q_messages q)), s1))"

fun deleteLoop :: "string \<Rightarrow> string \<Rightarrow> message list \<Rightarrow> queue_error + message list" where
  "deleteLoop i receipt [] = Inl ErrMessageNotFound"
| "deleteLoop i receipt (m # ms) =
     (if m_id m \<noteq> i then (case deleteLoop i receipt ms of Inl e \<Rightarrow> Inl e | Inr ms' \<Rightarrow> Inr (m # ms'))
      else if m_popReceipt m \<noteq> receipt then Inl ErrPopReceipt
      else Inr ms)"

definition deleteMessage ::
    "time \<Rightarrow> string \<Rightarrow> string \<Rightarrow> string \<Rightarrow> string \<Rightarrow> queue_store \<Rightarrow> queue_error option \<times> queue_store" where
  "deleteMessage t0 account name i receipt s =
     (case lookupLocked t0 account name s of
        (Inl e, s1) \<Rightarrow> (Some e, s1)
      | (Inr q, s1) \<Rightarrow>
          (case deleteLoop i receipt (q_messages q) of
             Inl e \<Rightarrow> (Some e, s1)
           | Inr ms \<Rightarrow> (None, setQueue account name (q\<lparr>q_messages := ms\<rparr>) s1)))"

definition renew :: "time \<Rightarrow> duration \<Rightarrow> bytes \<Rightarrow> string \<Rightarrow> message \<Rightarrow> message" where
  "renew now visibilityTimeout rand text m =
     m\<lparr>m_text := (if text \<noteq> [] then text else m_text m), m_popReceipt := newPopReceipt rand,
       m_nextVisible := now + visibilityTimeout\<rparr>"

fun updateLoop :: "time \<Rightarrow> duration \<Rightarrow> bytes \<Rightarrow> string \<Rightarrow> string \<Rightarrow> string \<Rightarrow> message list
    \<Rightarrow> queue_error + (message \<times> message list)" where
  "updateLoop now vt rand text i receipt [] = Inl ErrMessageNotFound"
| "updateLoop now vt rand text i receipt (m # ms) =
     (if m_id m \<noteq> i
      then (case updateLoop now vt rand text i receipt ms of
              Inl e \<Rightarrow> Inl e | Inr (m', ms') \<Rightarrow> Inr (m', m # ms'))
      else if m_popReceipt m \<noteq> receipt then Inl ErrPopReceipt
      else let m' = renew now vt rand text m in Inr (m', m' # ms))"

definition updateMessage ::
    "time \<Rightarrow> time \<Rightarrow> bytes \<Rightarrow> string \<Rightarrow> string \<Rightarrow> string \<Rightarrow> string \<Rightarrow> string \<Rightarrow> duration \<Rightarrow> queue_store
     \<Rightarrow> (queue_error + (string \<times> time)) \<times> queue_store" where
  "updateMessage t0 now rand account name i receipt text visibilityTimeout s =
     (case lookupLocked t0 account name s of
        (Inl e, s1) \<Rightarrow> (Inl e, s1)
      | (Inr q, s1) \<Rightarrow>
          (case updateLoop now visibilityTimeout rand text i receipt (q_messages q) of
             Inl e \<Rightarrow> (Inl e, s1)
           | Inr (m, ms) \<Rightarrow>
               (Inr (m_popReceipt m, m_nextVisible m), setQueue account name (q\<lparr>q_messages := ms\<rparr>) s1)))"

definition clearMessages ::
    "time \<Rightarrow> string \<Rightarrow> string \<Rightarrow> queue_store \<Rightarrow> queue_error option \<times> queue_store" where
  "clearMessages t0 account name s =
     (case lookupLocked t0 account name s of
        (Inl e, s1) \<Rightarrow> (Some e, s1)
      | (Inr q, s1) \<Rightarrow> (None, setQueue account name (q\<lparr>q_messages := []\<rparr>) s1))"

end
