(* ===== verification/Queue_Spec.thy ===== *)
theory Queue_Spec
  imports Queue_Store
begin

text \<open>
  What the queue store promises. The contract keeps every message until it is deleted and says when it
  can be seen; the store instead drops expired messages whenever it touches a queue. The refinement
  shows that no caller can tell the difference, and that each operation does on the list of messages
  what the contract says: hand out the first visible ones, delete or renew the message with the id
  given its receipt. Then: a message that was handed out stays hidden until its deadline from everyone
  who does not hold its receipt.
\<close>

section \<open>Operations and their results\<close>

datatype queue_op = CreateQueue string string metadata | DeleteQueue string string
  | ListQueues string string | GetMetadata string string | SetMetadata string string metadata
  | Enqueue string string string duration duration
  | Dequeue string string int duration | Peek string string int
  | DeleteMessage string string string string
  | UpdateMessage string string string string string duration
  | ClearMessages string string

datatype queue_result = QOk | QError queue_error | QCreated bool | QInfo queueInfo | QInfos "queueInfo list"
  | QMessage message | QMessages "message list" | QReceipt string time

text \<open>The two clock readings of an operation and the random bytes it draws.\<close>

record moment =
  at_lookup :: time
  at_work :: time
  randomness :: "nat \<Rightarrow> bytes"

definition q_error :: "queue_error option \<times> 's \<Rightarrow> queue_result \<times> 's" where
  "q_error = (\<lambda>(e, s). (case e of None \<Rightarrow> QOk | Some x \<Rightarrow> QError x, s))"

definition q_value :: "('v \<Rightarrow> queue_result) \<Rightarrow> (queue_error + 'v) \<times> 's \<Rightarrow> queue_result \<times> 's" where
  "q_value f = (\<lambda>(r, s). (case r of Inl e \<Rightarrow> QError e | Inr x \<Rightarrow> f x, s))"

fun queue_exec :: "moment \<Rightarrow> queue_op \<Rightarrow> queue_store \<Rightarrow> queue_result \<times> queue_store" where
  "queue_exec c (CreateQueue a n md) s = q_value QCreated (createQueue a n md s)"
| "queue_exec c (DeleteQueue a n) s = q_error (deleteQueue a n s)"
| "queue_exec c (ListQueues a p) s = apfst QInfos (listQueues (at_lookup c) a p s)"
| "queue_exec c (GetMetadata a n) s = q_value QInfo (getMetadata (at_lookup c) a n s)"
| "queue_exec c (SetMetadata a n md) s = q_error (setMetadata (at_lookup c) a n md s)"
| "queue_exec c (Enqueue a n text vt ttl) s =
     q_value QMessage (enqueue (at_lookup c) (at_work c) (randomness c 0) a n text vt ttl s)"
| "queue_exec c (Dequeue a n num vt) s =
     q_value QMessages (dequeue (at_lookup c) (at_work c) (randomness c) a n num vt s)"
| "queue_exec c (Peek a n num) s = q_value QMessages (peek (at_lookup c) (at_work c) a n num s)"
| "queue_exec c (DeleteMessage a n i r) s = q_error (deleteMessage (at_lookup c) a n i r s)"
| "queue_exec c (UpdateMessage a n i r text vt) s =
     q_value (\<lambda>(r', t). QReceipt r' t)
       (updateMessage (at_lookup c) (at_work c) (randomness c 0) a n i r text vt s)"
| "queue_exec c (ClearMessages a n) s = q_error (clearMessages (at_lookup c) a n s)"

section \<open>The contract\<close>

type_synonym queue_spec = "string \<times> string \<Rightarrow> (metadata \<times> message list) option"

definition live :: "time \<Rightarrow> message list \<Rightarrow> message list" where
  "live t ms = filter (\<lambda>m. \<not> expired t m) ms"

text \<open>The new versions take the places of the first messages that satisfy \<open>P\<close>.\<close>

fun overwrite :: "('m \<Rightarrow> bool) \<Rightarrow> 'm list \<Rightarrow> 'm list \<Rightarrow> 'm list" where
  "overwrite P [] ms = ms"
| "overwrite P new [] = []"
| "overwrite P (x # xs) (m # ms) = (if P m then x # overwrite P xs ms else m # overwrite P (x # xs) ms)"

text \<open>What an operation on one queue does to the messages it holds.\<close>

fun spec_queue :: "moment \<Rightarrow> queue_op \<Rightarrow> metadata \<Rightarrow> message list \<Rightarrow> queue_result \<times> metadata \<times> message list" where
  "spec_queue c (GetMetadata a n) md ms =
     (QInfo \<lparr>qi_name = n, qi_metadata = md, qi_approximateCount = length (live (at_lookup c) ms)\<rparr>, md, ms)"
| "spec_queue c (SetMetadata a n md') md ms = (QOk, md', ms)"
| "spec_queue c (Enqueue a n text vt ttl) md ms =
     (let m = \<lparr>m_id = newID (randomness c 0), m_text = text, m_insertionTime = at_work c,
               m_expirationTime = (if ttl < 0 then zeroTime
                                   else if ttl = 0 then at_work c + defaultTTL else at_work c + ttl),
               m_nextVisible = at_work c + vt, m_popReceipt = [], m_dequeueCount = 0\<rparr>
      in (QMessage m, md, ms @ [m]))"
| "spec_queue c (Dequeue a n num vt) md ms =
     (let free = (\<lambda>m. \<not> expired (at_lookup c) m \<and> visible (at_work c) m);
          given = map2 (\<lambda>k. lease (at_work c) vt (randomness c k)) [0..<nat num] (filter free ms)
      in (QMessages given, md, overwrite free given ms))"
| "spec_queue c (Peek a n num) md ms =
     (QMessages (take (nat num) (filter (visible (at_work c)) (live (at_lookup c) ms))), md, ms)"
| "spec_queue c (DeleteMessage a n i r) md ms =
     (case find (\<lambda>m. m_id m = i) (live (at_lookup c) ms) of
        None \<Rightarrow> (QError ErrMessageNotFound, md, ms)
      | Some m \<Rightarrow> if m_popReceipt m \<noteq> r then (QError ErrPopReceipt, md, ms)
                  else (QOk, md, remove1 m ms))"
| "spec_queue c (UpdateMessage a n i r text vt) md ms =
     (case find (\<lambda>m. m_id m = i) (live (at_lookup c) ms) of
        None \<Rightarrow> (QError ErrMessageNotFound, md, ms)
      | Some m \<Rightarrow>
          if m_popReceipt m \<noteq> r then (QError ErrPopReceipt, md, ms)
          else let m' = renew (at_work c) vt (randomness c 0) text m
               in (QReceipt (m_popReceipt m') (m_nextVisible m'), md,
                   overwrite (\<lambda>x. \<not> expired (at_lookup c) x \<and> m_id x = i) [m'] ms))"
| "spec_queue c (ClearMessages a n) md ms = (QOk, md, [])"
| "spec_queue c _ md ms = (QOk, md, ms)"

fun queue_of :: "queue_op \<Rightarrow> string \<times> string" where
  "queue_of (CreateQueue a n _) = (a, n)"
| "queue_of (DeleteQueue a n) = (a, n)"
| "queue_of (ListQueues a _) = (a, [])"
| "queue_of (GetMetadata a n) = (a, n)"
| "queue_of (SetMetadata a n _) = (a, n)"
| "queue_of (Enqueue a n _ _ _) = (a, n)"
| "queue_of (Dequeue a n _ _) = (a, n)"
| "queue_of (Peek a n _) = (a, n)"
| "queue_of (DeleteMessage a n _ _) = (a, n)"
| "queue_of (UpdateMessage a n _ _ _ _) = (a, n)"
| "queue_of (ClearMessages a n) = (a, n)"

definition spec_listing :: "time \<Rightarrow> string \<Rightarrow> string \<Rightarrow> queue_spec \<Rightarrow> queueInfo list" where
  "spec_listing t a p m =
     map (\<lambda>n. case m (a, n) of Some (md, ms) \<Rightarrow>
            \<lparr>qi_name = n, qi_metadata = md, qi_approximateCount = length (live t ms)\<rparr>)
       (sorted_list_of_set {n. m (a, n) \<noteq> None \<and> (p = [] \<or> hasPrefix n p)})"

definition spec_exec :: "moment \<Rightarrow> queue_op \<Rightarrow> queue_spec \<Rightarrow> queue_result \<times> queue_spec" where
  "spec_exec c op m =
     (case op of
        CreateQueue a n md \<Rightarrow>
          (case m (a, n) of
             None \<Rightarrow> (QCreated True, m((a, n) \<mapsto> (md, [])))
           | Some (md', _) \<Rightarrow> (if sameMetadata md' md then QCreated False else QError ErrQueueExists, m))
      | ListQueues a p \<Rightarrow> (QInfos (spec_listing (at_lookup c) a p m), m)
      | DeleteQueue a n \<Rightarrow>
          (case m (a, n) of None \<Rightarrow> (QError ErrQueueNotFound, m) | Some _ \<Rightarrow> (QOk, m((a, n) := None)))
      | _ \<Rightarrow>
          (case m (queue_of op) of
             None \<Rightarrow> (QError ErrQueueNotFound, m)
           | Some (md, ms) \<Rightarrow>
               (case spec_queue c op md ms of (r, md', ms') \<Rightarrow> (r, m(queue_of op \<mapsto> (md', ms'))))))"

fun run_results :: "(moment \<Rightarrow> queue_op \<Rightarrow> 's \<Rightarrow> queue_result \<times> 's) \<Rightarrow> (moment \<times> queue_op) list \<Rightarrow> 's
    \<Rightarrow> queue_result list" where
  "run_results exec [] s = []"
| "run_results exec ((c, op) # rest) s = (case exec c op s of (r, s') \<Rightarrow> r # run_results exec rest s')"

section \<open>The loops of the code and the contract's lists\<close>

lemma filter_overwrite:
  "\<forall>x \<in> set new. P x \<Longrightarrow>
     filter P (overwrite (\<lambda>m. P m \<and> V m) new ms) = overwrite V new (filter P ms)"
  by (induction "\<lambda>m. P m \<and> V m" new ms rule: overwrite.induct) auto

lemma find_filter: "find Q (filter P ms) = find (\<lambda>m. P m \<and> Q m) ms"
  by (induction ms) auto

lemma overwrite_skip [simp]: "\<not> P m \<Longrightarrow> overwrite P new (m # ms) = m # overwrite P new ms"
  by (cases new) auto

lemma find_holds: "find P ms = Some m \<Longrightarrow> P m"
  by (auto simp: find_Some_iff)

lemma dequeueLoop_eq:
  "dequeueLoop now vt num rand out ms =
     (let given = map2 (\<lambda>k. lease now vt (rand k)) [length out..<nat num] (filter (visible now) ms)
      in (out @ given, overwrite (visible now) given ms))"
proof (induction ms arbitrary: out)
  case (Cons m ms)
  show ?case
  proof (cases "num \<le> int (length out)")
    case True
    then have none: "[length out..<nat num] = []" by simp
    show ?thesis unfolding none by (simp add: True)
  next
    case False
    then have more: "[length out..<nat num] = length out # [Suc (length out)..<nat num]"
      by (simp add: upt_conv_Cons)
    show ?thesis unfolding dequeueLoop.simps Cons.IH
      by (cases "visible now m") (simp_all add: more False Let_def)
  qed
qed simp

lemma peekLoop_eq:
  "peekLoop now num out ms = out @ take (nat num - length out) (filter (visible now) ms)"
  by (induction ms arbitrary: out) (auto simp: take_Cons' nat_diff_distrib)

lemma deleteLoop_eq:
  "deleteLoop i r ms =
     (case find (\<lambda>m. m_id m = i) ms of
        None \<Rightarrow> Inl ErrMessageNotFound
      | Some m \<Rightarrow> if m_popReceipt m \<noteq> r then Inl ErrPopReceipt else Inr (remove1 m ms))"
  by (induction ms) (auto split: option.splits dest: find_holds)

lemma updateLoop_eq:
  "updateLoop now vt rand text i r ms =
     (case find (\<lambda>m. m_id m = i) ms of
        None \<Rightarrow> Inl ErrMessageNotFound
      | Some m \<Rightarrow> if m_popReceipt m \<noteq> r then Inl ErrPopReceipt
                  else let m' = renew now vt rand text m in Inr (m', overwrite (\<lambda>x. m_id x = i) [m'] ms))"
  by (induction ms) (auto simp: Let_def split: option.splits)

section \<open>The store meets the contract\<close>

lemma expired_mono: "expired t m \<Longrightarrow> t \<le> t' \<Longrightarrow> expired t' m"
  by (auto simp: expired_def)

lemma live_live: "t \<le> t' \<Longrightarrow> live t' (live t ms) = live t' ms"
  by (auto simp: live_def intro!: filter_cong dest: expired_mono)

lemma live_idem [simp]: "live t (live t ms) = live t ms"
  by (simp add: live_live)

lemma live_append: "live t (ms @ ms') = live t ms @ live t ms'"
  by (simp add: live_def)

definition holds :: "time \<Rightarrow> queue \<Rightarrow> metadata \<times> message list \<Rightarrow> bool" where
  "holds t q = (\<lambda>(md, ms). md = q_metadata q \<and> live t (q_messages q) = live t ms)"

definition sim :: "time \<Rightarrow> queue_store \<Rightarrow> queue_spec \<Rightarrow> bool" where
  "sim t s m \<longleftrightarrow> nested_ok s \<and> (\<forall>k. rel_option (holds t) (lookup2 s k) (m k))"

definition agrees :: "time \<Rightarrow> 'r \<times> queue_store \<Rightarrow> 'r \<times> queue_spec \<Rightarrow> bool" where
  "agrees t = (\<lambda>(r, s) (r', m). r = r' \<and> sim t s m)"

lemma sim_empty: "sim t [] Map.empty"
  by (simp add: sim_def lookup2_def)

lemma holds_mono: "holds t q v \<Longrightarrow> t \<le> t' \<Longrightarrow> holds t' q v"
  unfolding holds_def by (clarsimp split: prod.splits) (metis live_live)

lemma sim_mono: "sim t s m \<Longrightarrow> t \<le> t' \<Longrightarrow> sim t' s m"
  unfolding sim_def by (blast intro: option.rel_mono_strong holds_mono)

lemma sim_put:
  "sim t s m \<Longrightarrow> q_metadata q = md \<Longrightarrow> live t (q_messages q) = live t ms \<Longrightarrow>
     sim t (setQueue a n q s) (m((a, n) \<mapsto> (md, ms)))"
  by (simp add: sim_def setQueue_def store_simps inv_intros holds_def)

lemma sim_found:
  "sim t s m \<Longrightarrow> lookup2 s k = Some q \<Longrightarrow>
     \<exists>ms. m k = Some (q_metadata q, ms) \<and> live t (q_messages q) = live t ms"
  unfolding sim_def by (elim conjE allE [where x = k]) (auto simp: option_rel_Some1 holds_def)

lemma sim_missing: "sim t s m \<Longrightarrow> lookup2 s k = None \<longleftrightarrow> m k = None"
  unfolding sim_def by (metis rel_option_None1 rel_option_None2)

lemma sim_there:
  "sim t s m \<Longrightarrow> m k = Some (md, ms) \<Longrightarrow>
     \<exists>q. lookup2 s k = Some q \<and> q_metadata q = md \<and> live t (q_messages q) = live t ms"
  using sim_found [of t s m k] sim_missing [of t s m k] by (cases "lookup2 s k") auto

lemma queue_lookup_eq:
  "lookupLocked t0 a n s =
     (case lookup2 s (a, n) of
        None \<Rightarrow> (Inl ErrQueueNotFound, s)
      | Some q \<Rightarrow> (Inr (evictExpired t0 q), setQueue a n (evictExpired t0 q) s))"
  by (simp add: lookupLocked_def lookup2_def inner_def Let_def split: option.splits)

lemma evict_facts [simp]:
  "q_metadata (evictExpired t q) = q_metadata q" "q_messages (evictExpired t q) = live t (q_messages q)"
  by (simp_all add: evictExpired_def live_def)

text \<open>The two cases of an operation that starts by looking its queue up: the queue is missing on both
  sides, or it is there and its unexpired messages are those of the contract.\<close>

lemma lookup_cases:
  assumes sim: "sim t s m"
  obtains (missing) "lookupLocked t a n s = (Inl ErrQueueNotFound, s)" "m (a, n) = None"
  | (found) q s1 ms where "lookupLocked t a n s = (Inr q, s1)" "m (a, n) = Some (q_metadata q, ms)"
      "sim t s1 m" "q_messages q = live t ms"
proof (cases "lookup2 s (a, n)")
  case None
  then show ?thesis using missing sim_missing [OF sim, of "(a, n)"] by (simp add: queue_lookup_eq)
next
  case (Some q)
  then obtain ms where ms: "m (a, n) = Some (q_metadata q, ms)" "live t (q_messages q) = live t ms"
    using sim_found [OF sim] by blast
  let ?q = "evictExpired t q"
  have "sim t (setQueue a n ?q s) (m((a, n) \<mapsto> (q_metadata q, ms)))"
    using sim by (rule sim_put) (simp_all add: ms)
  then have "sim t (setQueue a n ?q s) m" using ms(1) by (simp add: fun_upd_idem)
  then show ?thesis
    using found [of ?q "setQueue a n ?q s" ms] ms by (simp add: queue_lookup_eq Some)
qed

lemma set_overwrite: "set (overwrite P new ms) \<subseteq> set new \<union> set ms"
  by (induction P new ms rule: overwrite.induct) auto

lemma live_all: "\<forall>m \<in> set ms. \<not> expired t m \<Longrightarrow> live t ms = ms"
  by (auto simp: live_def intro: filter_True)

lemma live_not_expired: "m \<in> set (live t ms) \<Longrightarrow> \<not> expired t m"
  by (simp add: live_def)

text \<open>Replacing messages in what is left after eviction, or in everything.\<close>

lemma live_overwrite:
  assumes "\<forall>x \<in> set new. \<not> expired t x"
  shows "live t (overwrite V new (live t ms)) = live t (overwrite (\<lambda>m. \<not> expired t m \<and> V m) new ms)"
proof -
  have "live t (overwrite V new (live t ms)) = overwrite V new (live t ms)"
    using assms set_overwrite [of V new "live t ms"] live_not_expired by (intro live_all) blast
  then show ?thesis using filter_overwrite [of new "\<lambda>m. \<not> expired t m" V ms] assms by (simp add: live_def)
qed

lemma expired_lease [simp]: "expired t (lease now vt b m) = expired t m"
  by (simp add: expired_def lease_def)

lemma expired_renew [simp]: "expired t (renew now vt b text m) = expired t m"
  by (simp add: expired_def renew_def)

lemma given_live:
  "x \<in> set (map2 (\<lambda>k. lease now vt (rand k)) ks (filter P (live t ms))) \<Longrightarrow> \<not> expired t x"
  by (auto dest!: set_zip_rightD simp: live_def)

lemma agrees_same: "sim t s m \<Longrightarrow> agrees t (r, s) (r, m)"
  by (simp add: agrees_def)

lemma agrees_unchanged: "sim t s m \<Longrightarrow> m k = Some v \<Longrightarrow> agrees t (r, s) (r, m(k \<mapsto> v))"
  by (simp add: agrees_def fun_upd_idem)

lemma agrees_put:
  "sim t s m \<Longrightarrow> q_metadata q = md \<Longrightarrow> live t (q_messages q) = live t ms \<Longrightarrow>
     agrees t (r, setQueue a n q s) (r, m((a, n) \<mapsto> (md, ms)))"
  by (simp add: agrees_def sim_put)

lemmas agrees_intros = agrees_same agrees_unchanged agrees_put

lemmas op_simps = q_value_def q_error_def spec_exec_def Let_def getMetadata_def setMetadata_def
  clearMessages_def enqueue_def live_append peek_def peekLoop_eq

lemma getMetadata_agrees:
  assumes sim: "sim (at_lookup c) s m"
  shows "agrees (at_lookup c) (queue_exec c (GetMetadata a n) s) (spec_exec c (GetMetadata a n) m)"
  by (cases rule: lookup_cases [OF sim, of a n]) (simp_all add: op_simps sim agrees_intros)

lemma setMetadata_agrees:
  assumes sim: "sim (at_lookup c) s m"
  shows "agrees (at_lookup c) (queue_exec c (SetMetadata a n md) s) (spec_exec c (SetMetadata a n md) m)"
  by (cases rule: lookup_cases [OF sim, of a n]) (simp_all add: op_simps sim agrees_intros)

lemma clearMessages_agrees:
  assumes sim: "sim (at_lookup c) s m"
  shows "agrees (at_lookup c) (queue_exec c (ClearMessages a n) s) (spec_exec c (ClearMessages a n) m)"
  by (cases rule: lookup_cases [OF sim, of a n]) (simp_all add: op_simps sim agrees_intros)

lemma enqueue_agrees:
  assumes sim: "sim (at_lookup c) s m"
  shows "agrees (at_lookup c) (queue_exec c (Enqueue a n text vt ttl) s) (spec_exec c (Enqueue a n text vt ttl) m)"
  by (cases rule: lookup_cases [OF sim, of a n]) (simp_all add: op_simps sim agrees_intros)

lemma peek_agrees:
  assumes sim: "sim (at_lookup c) s m"
  shows "agrees (at_lookup c) (queue_exec c (Peek a n num) s) (spec_exec c (Peek a n num) m)"
  by (cases rule: lookup_cases [OF sim, of a n]) (simp_all add: op_simps sim agrees_intros)

lemma dequeue_agrees:
  assumes sim: "sim (at_lookup c) s m"
  shows "agrees (at_lookup c) (queue_exec c (Dequeue a n num vt) s) (spec_exec c (Dequeue a n num vt) m)"
proof (rule lookup_cases [OF sim, of a n], goal_cases)
  case 1
  then show ?thesis by (simp add: op_simps dequeue_def sim agrees_intros)
next
  case found: (2 q s1 ms)
  let ?free = "\<lambda>m. \<not> expired (at_lookup c) m \<and> visible (at_work c) m"
  have free: "filter (visible (at_work c)) (live (at_lookup c) ms) = filter ?free ms"
    by (simp add: live_def conj_commute)
  let ?given = "map2 (\<lambda>k. lease (at_work c) vt (randomness c k)) [0..<nat num] (filter ?free ms)"
  have "\<forall>x \<in> set ?given. \<not> expired (at_lookup c) x"
    using given_live [of _ "at_work c" vt "randomness c" _ "visible (at_work c)"] unfolding free [symmetric] by blast
  note same = live_overwrite [OF this, of "visible (at_work c)" ms]
  show ?thesis
    using found same by (simp add: op_simps dequeue_def dequeueLoop_eq free agrees_put)
qed

lemma deleteMessage_agrees:
  assumes sim: "sim (at_lookup c) s m"
  shows "agrees (at_lookup c) (queue_exec c (DeleteMessage a n i r) s) (spec_exec c (DeleteMessage a n i r) m)"
proof (rule lookup_cases [OF sim, of a n], goal_cases)
  case 1
  then show ?thesis by (simp add: op_simps deleteMessage_def sim agrees_intros)
next
  case (2 q s1 ms)
  have "live (at_lookup c) (remove1 x (live (at_lookup c) ms)) = live (at_lookup c) (remove1 x ms)" for x
    by (simp add: live_def filter_remove1)
  with 2 show ?thesis
    by (cases "find (\<lambda>m. m_id m = i) (live (at_lookup c) ms)")
       (simp_all add: op_simps deleteMessage_def deleteLoop_eq agrees_unchanged agrees_put)
qed

lemma updateMessage_agrees:
  assumes sim: "sim (at_lookup c) s m"
  shows "agrees (at_lookup c) (queue_exec c (UpdateMessage a n i r text vt) s)
     (spec_exec c (UpdateMessage a n i r text vt) m)"
proof (rule lookup_cases [OF sim, of a n], goal_cases)
  case 1
  then show ?thesis by (simp add: op_simps updateMessage_def sim agrees_intros)
next
  case found: (2 q s1 ms)
  show ?thesis
  proof (cases "find (\<lambda>m. m_id m = i) (live (at_lookup c) ms)")
    case None
    with found show ?thesis by (simp add: op_simps updateMessage_def updateLoop_eq agrees_unchanged)
  next
    case (Some x)
    then have "x \<in> set (live (at_lookup c) ms)" by (auto simp: find_Some_iff)
    then have "\<forall>y \<in> set [renew (at_work c) vt (randomness c 0) text x]. \<not> expired (at_lookup c) y"
      by (simp add: live_not_expired)
    from live_overwrite [OF this, of "\<lambda>m. m_id m = i" ms] found Some show ?thesis
      by (simp add: op_simps updateMessage_def updateLoop_eq agrees_unchanged agrees_put)
  qed
qed

lemma createQueue_agrees:
  assumes sim: "sim (at_lookup c) s m"
  shows "agrees (at_lookup c) (queue_exec c (CreateQueue a n md) s) (spec_exec c (CreateQueue a n md) m)"
proof -
  let ?s1 = "if map_of s a = None then AList.update a [] s else s"
  have inner: "inner x ?s1 = inner x s" for x by (auto simp: inner_def store_simps)
  have look: "lookup2 ?s1 = lookup2 s" by (auto simp: lookup2_def inner fun_eq_iff)
  have sim1: "sim (at_lookup c) ?s1 m"
    using sim by (auto simp: sim_def nested_ok_def look inner)
  have seek: "map_of (inner a ?s1) n = lookup2 s (a, n)" by (simp add: lookup2_def inner)
  show ?thesis
  proof (cases "lookup2 s (a, n)")
    case None
    then show ?thesis
      using sim_missing [OF sim, of "(a, n)"] sim1
      by (simp add: op_simps createQueue_def seek agrees_put)
  next
    case (Some q)
    then obtain ms where "m (a, n) = Some (q_metadata q, ms)" using sim_found [OF sim] by blast
    then show ?thesis
      using Some sim1 by (simp add: op_simps createQueue_def seek agrees_same)
  qed
qed

lemma deleteQueue_agrees:
  assumes sim: "sim (at_lookup c) s m"
  shows "agrees (at_lookup c) (queue_exec c (DeleteQueue a n) s) (spec_exec c (DeleteQueue a n) m)"
proof (cases "lookup2 s (a, n)")
  case None
  then have "deleteQueue a n s = (Some ErrQueueNotFound, s)"
    by (auto simp: deleteQueue_def lookup2_def inner_def split: option.splits)
  then show ?thesis using None sim sim_missing [OF sim, of "(a, n)"] by (simp add: op_simps agrees_same)
next
  case (Some q)
  then obtain ms where ms: "m (a, n) = Some (q_metadata q, ms)" using sim_found [OF sim] by blast
  from Some obtain qs where qs: "map_of s a = Some qs" "map_of qs n = Some q"
    by (auto simp: lookup2_def inner_def split: option.splits)
  then have "a \<in> set (map fst s)" using map_of_eq_None_iff [of s a] by (simp add: image_image)
  then have "deleteQueue a n s = (None, delete2 (a, n) s)"
    using qs by (simp add: deleteQueue_def delete2_def inner_def)
  moreover have "sim (at_lookup c) (delete2 (a, n) s) (m((a, n) := None))"
    using sim by (simp add: sim_def store_simps inv_intros)
  ultimately show ?thesis using ms by (simp add: op_simps agrees_same)
qed

text \<open>A listing evicts from the queues it lists, which changes nothing that can be seen.\<close>

lemma listing_state:
  assumes sim: "sim (at_lookup c) s m"
  shows "sim (at_lookup c) (snd (listQueues (at_lookup c) a p s)) m"
proof (cases "map_of s a")
  case None
  then show ?thesis using sim by (simp add: listQueues_def Let_def)
next
  case (Some qs)
  let ?t = "at_lookup c"
  let ?e = "\<lambda>n q. if p = [] \<or> hasPrefix n p then evictExpired ?t q else q"
  let ?qs = "map (\<lambda>(n, q). (n, ?e n q)) (inner a s)"
  have keys: "distinct_keys ?qs"
    using sim by (simp add: sim_def nested_ok_def distinct_keys_def comp_def case_prod_beta)
  have look: "map_of ?qs n = map_option (?e n) (map_of (inner a s) n)" for n
    by (rule map_of_map_values)
  have "rel_option (holds ?t) (lookup2 (AList.update a ?qs s) k) (m k)" for k
  proof (cases "lookup2 s k")
    case None
    then show ?thesis using sim_missing [OF sim, of k]
      by (cases k) (auto simp: lookup2_def store_simps look)
  next
    case (Some q)
    then obtain ms where "m k = Some (q_metadata q, ms)" "live ?t (q_messages q) = live ?t ms"
      using sim_found [OF sim] by blast
    then show ?thesis using Some
      by (cases k) (auto simp: lookup2_def store_simps look holds_def)
  qed
  then show ?thesis
    using Some sim keys by (auto simp: listQueues_def Let_def sim_def nested_ok_def store_simps)
qed

lemma listing_result:
  assumes sim: "sim (at_lookup c) s m"
  shows "fst (listQueues (at_lookup c) a p s) = spec_listing (at_lookup c) a p m"
proof -
  let ?t = "at_lookup c"
  let ?in = "\<lambda>n. p = [] \<or> hasPrefix n p"
  let ?info = "\<lambda>n md ms. \<lparr>qi_name = n, qi_metadata = md, qi_approximateCount = length (live ?t ms)\<rparr>"
  let ?out = "map (\<lambda>(n, q). ?info n (q_metadata q) (q_messages q)) (filter (\<lambda>(n, q). ?in n) (inner a s))"
  let ?S = "{n. m (a, n) \<noteq> None \<and> ?in n}"
  have keys: "distinct_keys (inner a s)" using sim by (simp add: sim_def nested_ok_def)
  have seek: "(n, q) \<in> set (inner a s) \<longleftrightarrow> lookup2 s (a, n) = Some q" for n q
    by (simp add: lookup2_def map_of_in_set [OF keys])
  have names: "m (a, n) \<noteq> None \<longleftrightarrow> n \<in> fst ` set (inner a s)" for n
    using sim_missing [OF sim, of "(a, n)"] seek [of n] by force
  then have fin: "finite ?S" by (auto intro: finite_subset [of _ "fst ` set (inner a s)"])
  have code: "fst (listQueues ?t a p s) = sort_key qi_name ?out"
    by (auto simp: listQueues_def Let_def filter_map comp_def case_prod_beta live_def evictExpired_def
        intro!: arg_cong [of _ _ "sort_key qi_name"] map_cong filter_cong)
  have spec_names: "map qi_name (spec_listing ?t a p m) = sorted_list_of_set ?S"
    using fin by (auto simp: spec_listing_def comp_def split: option.splits intro!: map_idI)
  have "set (spec_listing ?t a p m) = {x. \<exists>n md ms. m (a, n) = Some (md, ms) \<and> ?in n \<and> x = ?info n md ms}"
    using fin by (auto simp: spec_listing_def image_iff split: option.splits) force+
  also have "\<dots> = {x. \<exists>n q. lookup2 s (a, n) = Some q \<and> ?in n \<and> x = ?info n (q_metadata q) (q_messages q)}"
    using sim_there [OF sim] sim_found [OF sim] by (intro set_eqI iffI; clarsimp; metis)
  also have "\<dots> = set ?out" by (auto simp: seek [symmetric] image_iff)
  finally have "set (spec_listing ?t a p m) = set ?out" .
  moreover have "distinct (map qi_name ?out)"
    using keys by (simp add: distinct_keys_def comp_def case_prod_beta distinct_map_filter)
  ultimately show ?thesis
    unfolding code using fin
    by (intro keyed_list_unique [of qi_name]) (simp_all add: spec_names del: map_map)
qed

lemma queue_step:
  assumes sim: "sim (at_lookup c) s m"
  shows "agrees (at_lookup c) (queue_exec c op s) (spec_exec c op m)"
proof (cases op)
  case (ListQueues a p)
  then show ?thesis
    using listing_state [OF assms, of a p] listing_result [OF assms, of a p]
    by (cases "listQueues (at_lookup c) a p s") (simp add: spec_exec_def agrees_def)
qed (simp_all only: getMetadata_agrees [OF assms] setMetadata_agrees [OF assms]
    clearMessages_agrees [OF assms]
    enqueue_agrees [OF assms] peek_agrees [OF assms] dequeue_agrees [OF assms]
    deleteMessage_agrees [OF assms] updateMessage_agrees [OF assms]
    createQueue_agrees [OF assms] deleteQueue_agrees [OF assms])

text \<open>Clock readings never go back: every operation looks its queue up no earlier than the one before.\<close>

fun clock_from :: "time \<Rightarrow> (moment \<times> queue_op) list \<Rightarrow> bool" where
  "clock_from t [] = True"
| "clock_from t ((c, op) # rest) = (t \<le> at_lookup c \<and> clock_from (at_lookup c) rest)"

lemma queue_run:
  "sim t s m \<Longrightarrow> clock_from t ops \<Longrightarrow> run_results queue_exec ops s = run_results spec_exec ops m"
proof (induction ops arbitrary: t s m)
  case (Cons x ops)
  obtain c op where [simp]: "x = (c, op)" by (cases x)
  obtain r s' where exec: "queue_exec c op s = (r, s')" by fastforce
  obtain r' m' where spec: "spec_exec c op m = (r', m')" by fastforce
  have "sim (at_lookup c) s m" using Cons.prems sim_mono by auto
  from queue_step [OF this, of op] have "r = r'" "sim (at_lookup c) s' m'"
    by (simp_all add: agrees_def exec spec)
  then show ?case using Cons.IH [of "at_lookup c" s' m'] Cons.prems by (simp add: exec spec)
qed simp

text \<open>C24: The queue store implements its contract: whatever sequence of operations clients run, with any
  clock that does not go back and any random bytes, every result, on every branch, is that of the
  contract, in which queues hold their messages until they are deleted, expired ones are merely not
  seen, a dequeue hands out the first visible messages and only a message whose receipt is presented is
  deleted or renewed. That the store drops expired messages as it goes cannot be observed.\<close>

theorem queue_store_refines:
  assumes "clock_from t ops"
  shows "run_results queue_exec ops [] = run_results spec_exec ops Map.empty"
  using queue_run [OF sim_empty assms] .

theorem queue_store_refines_witness:
  "\<exists>t ops. ops \<noteq> [] \<and> clock_from t ops \<and> run_results queue_exec ops [] = run_results spec_exec ops Map.empty"
proof -
  let ?c = "\<lambda>t. \<lparr>at_lookup = t, at_work = t, randomness = \<lambda>_. replicate 24 0\<rparr>"
  let ?ops = "[(?c 0, CreateQueue ''a'' ''q'' []), (?c 1, Enqueue ''a'' ''q'' ''hello'' 0 5),
               (?c 2, Dequeue ''a'' ''q'' 1 30), (?c 9, Peek ''a'' ''q'' 1)]"
  have "clock_from 0 ?ops" by simp
  from queue_store_refines [OF this] show ?thesis using \<open>clock_from 0 ?ops\<close> by blast
qed

end
