(* ===== verification/Queue_Lease.thy ===== *)
theory Queue_Lease
  imports Queue_Spec
begin

text \<open>
  Leases: a message handed out by \<open>Dequeue\<close> is hidden until its visibility deadline, for every
  interleaving of other clients' operations that do not present its receipt. The proof tracks where the
  messages of a queue can come from in one operation.
\<close>

section \<open>Where messages come from\<close>

text \<open>How one operation may change a message of queue \<open>k\<close>, and which messages it may add.\<close>

fun changes :: "moment \<Rightarrow> queue_op \<Rightarrow> string \<times> string \<Rightarrow> message \<Rightarrow> message \<Rightarrow> bool" where
  "changes c (Dequeue a n num vt) k m m' \<longleftrightarrow>
     k = (a, n) \<and> visible (at_work c) m \<and> (\<exists>b. m' = lease (at_work c) vt b m)"
| "changes c (UpdateMessage a n i r text vt) k m m' \<longleftrightarrow>
     k = (a, n) \<and> m_id m = i \<and> m_popReceipt m = r \<and> m' = renew (at_work c) vt (randomness c 0) text m"
| "changes c _ k m m' \<longleftrightarrow> False"

fun adds :: "moment \<Rightarrow> queue_op \<Rightarrow> string \<times> string \<Rightarrow> message \<Rightarrow> bool" where
  "adds c (Enqueue a n _ _ _) k m \<longleftrightarrow> k = (a, n) \<and> m_id m = newID (randomness c 0)"
| "adds c _ k m \<longleftrightarrow> False"

definition messages_at :: "queue_store \<Rightarrow> string \<times> string \<Rightarrow> message list" where
  "messages_at s k = (case lookup2 s k of None \<Rightarrow> [] | Some q \<Rightarrow> q_messages q)"

lemma messages_at_setQueue [store_simps]:
  "messages_at (setQueue a n q s) k = (if k = (a, n) then q_messages q else messages_at s k)"
  by (simp add: messages_at_def setQueue_def store_simps)

lemma after_lookup:
  obtains (missing) "lookupLocked t a n s = (Inl ErrQueueNotFound, s)"
  | (found) q s1 where "lookupLocked t a n s = (Inr q, s1)" "set (q_messages q) \<subseteq> set (messages_at s (a, n))"
      "\<And>k. set (messages_at s1 k) \<subseteq> set (messages_at s k)"
proof (cases "lookup2 s (a, n)")
  case None
  then show ?thesis using missing by (simp add: queue_lookup_eq)
next
  case (Some q)
  have "set (live t (q_messages q)) \<subseteq> set (messages_at s (a, n))"
    using Some by (auto simp: live_def messages_at_def)
  then show ?thesis
    using found [of "evictExpired t q" "setQueue a n (evictExpired t q) s"] Some
    by (simp add: queue_lookup_eq store_simps)
qed

definition traced :: "moment \<Rightarrow> queue_op \<Rightarrow> queue_store \<Rightarrow> queue_store \<Rightarrow> bool" where
  "traced c op s s' \<longleftrightarrow>
     (\<forall>k. \<forall>m' \<in> set (messages_at s' k).
        m' \<in> set (messages_at s k) \<or> (\<exists>m \<in> set (messages_at s k). changes c op k m m') \<or> adds c op k m')"

lemma traced_subset: "(\<And>k. set (messages_at s' k) \<subseteq> set (messages_at s k)) \<Longrightarrow> traced c op s s'"
  by (auto simp: traced_def)

lemma overwrite_one:
  "find P ms = Some m \<Longrightarrow> set (overwrite P [x] ms) \<subseteq> insert x (set ms)"
  using set_overwrite [of P "[x]" ms] by simp

lemma in_set_remove1D: "x \<in> set (remove1 y xs) \<Longrightarrow> x \<in> set xs"
  using set_remove1_subset by fast

lemma createQueue_messages:
  "set (messages_at (snd (createQueue a n md s)) k) \<subseteq> set (messages_at s k)"
proof -
  let ?s1 = "if map_of s a = None then AList.update a [] s else s"
  have inner: "inner x ?s1 = inner x s" for x by (auto simp: inner_def store_simps)
  then have "messages_at ?s1 k = messages_at s k" by (simp add: messages_at_def lookup2_def)
  then show ?thesis by (auto simp: createQueue_def Let_def store_simps split: option.splits)
qed

lemma deleteQueue_messages:
  "set (messages_at (snd (deleteQueue a n s)) k) \<subseteq> set (messages_at s k)"
  by (cases k) (auto simp: deleteQueue_def messages_at_def lookup2_def store_simps inner_def
      split: option.splits if_splits)

lemma listQueues_messages:
  "set (messages_at (snd (listQueues t a p s)) k) \<subseteq> set (messages_at s k)"
  by (cases k) (auto simp: listQueues_def messages_at_def lookup2_def store_simps evictExpired_def Let_def
      map_option_eq_Some split: option.splits if_splits dest!: sym [where s = "Some _"])

lemma op_traced: "traced c op s (snd (queue_exec c op s))"
proof (cases op)
  case (CreateQueue a n md)
  then show ?thesis
    using createQueue_messages by (intro traced_subset) (simp add: q_value_def case_prod_beta)
next
  case (DeleteQueue a n)
  then show ?thesis
    using deleteQueue_messages by (intro traced_subset) (simp add: q_error_def case_prod_beta)
next
  case (ListQueues a p)
  then show ?thesis using listQueues_messages by (intro traced_subset) simp
next
  case (GetMetadata a n)
  then show ?thesis
    by (cases rule: after_lookup [of "at_lookup c" a n s])
       (auto simp: getMetadata_def q_value_def traced_def)
next
  case (SetMetadata a n md)
  then show ?thesis
    by (cases rule: after_lookup [of "at_lookup c" a n s])
       (auto simp: setMetadata_def q_error_def traced_def store_simps)
next
  case (Enqueue a n body vt ttl)
  then show ?thesis
    by (cases rule: after_lookup [of "at_lookup c" a n s])
       (auto simp: enqueue_def q_value_def traced_def store_simps Let_def)
next
  case (Peek a n num)
  then show ?thesis
    by (cases rule: after_lookup [of "at_lookup c" a n s])
       (auto simp: peek_def q_value_def traced_def)
next
  case (ClearMessages a n)
  then show ?thesis
    by (cases rule: after_lookup [of "at_lookup c" a n s])
       (auto simp: clearMessages_def q_error_def traced_def store_simps)
next
  case (DeleteMessage a n i r)
  then show ?thesis
    by (cases rule: after_lookup [of "at_lookup c" a n s])
       (auto simp: deleteMessage_def deleteLoop_eq q_error_def traced_def store_simps
         split: option.splits dest: in_set_remove1D)
next
  case [simp]: (UpdateMessage a n i r body vt)
  show ?thesis
  proof (cases rule: after_lookup [of "at_lookup c" a n s])
    case missing
    then show ?thesis by (auto simp: updateMessage_def q_value_def traced_def)
  next
    case 2: (found q s1)
    show ?thesis
    proof (cases "find (\<lambda>m. m_id m = i) (q_messages q)")
      case None
      then show ?thesis using 2 by (auto simp: updateMessage_def updateLoop_eq q_value_def traced_def
          dest: subsetD [OF 2(3)])
    next
      case (Some m)
      let ?new = "renew (at_work c) vt (randomness c 0) body m"
      have m: "m \<in> set (messages_at s (a, n))" "m_id m = i"
        using Some 2(2) by (auto simp: find_Some_iff)
      have "set (overwrite (\<lambda>x. m_id x = i) [?new] (q_messages q)) \<subseteq> insert ?new (set (messages_at s (a, n)))"
        using overwrite_one [OF Some] 2(2) by blast
      then show ?thesis
        using 2 m Some by (auto simp: updateMessage_def updateLoop_eq Let_def q_value_def traced_def store_simps) blast+
    qed
  qed
next
  case [simp]: (Dequeue a n num vt)
  show ?thesis
  proof (cases rule: after_lookup [of "at_lookup c" a n s])
    case missing
    then show ?thesis by (auto simp: dequeue_def q_value_def traced_def)
  next
    case 2: (found q s1)
    let ?V = "visible (at_work c)"
    let ?given = "map2 (\<lambda>k. lease (at_work c) vt (randomness c k)) [0..<nat num] (filter ?V (q_messages q))"
    have "\<exists>m \<in> set (messages_at s (a, n)). ?V m \<and> (\<exists>b. x = lease (at_work c) vt b m)" if "x \<in> set ?given" for x
      using that by (auto dest!: set_zip_rightD subsetD [OF 2(2)])
    then have "x \<in> set (messages_at s (a, n)) \<or> (\<exists>m \<in> set (messages_at s (a, n)). ?V m \<and> (\<exists>b. x = lease (at_work c) vt b m))"
      if "x \<in> set (overwrite ?V ?given (q_messages q))" for x
      using that set_overwrite [of ?V ?given "q_messages q"] 2(2) by blast
    then show ?thesis
      using 2 by (auto simp: dequeue_def dequeueLoop_eq Let_def q_value_def traced_def store_simps) blast+
  qed
qed

section \<open>Leases\<close>

text \<open>What a client learns of the messages of a queue from one operation.\<close>

fun shown :: "queue_op \<Rightarrow> queue_result \<Rightarrow> string \<times> string \<Rightarrow> string set" where
  "shown (Dequeue a n _ _) (QMessages ms) k = (if k = (a, n) then set (map m_id ms) else {})"
| "shown (Peek a n _) (QMessages ms) k = (if k = (a, n) then set (map m_id ms) else {})"
| "shown _ _ _ = {}"

lemma dequeue_shows:
  assumes "i \<in> shown (Dequeue a n num vt) (fst (queue_exec c (Dequeue a n num vt) s)) k"
  shows "\<exists>m \<in> set (messages_at s k). m_id m = i \<and> visible (at_work c) m"
proof (cases rule: after_lookup [of "at_lookup c" a n s])
  case missing
  then show ?thesis using assms by (simp add: dequeue_def q_value_def)
next
  case (found q s1)
  have "m_id x \<in> m_id ` {m \<in> set (q_messages q). visible (at_work c) m}"
    if "x \<in> set (map2 (\<lambda>k. lease (at_work c) vt (randomness c k)) ks (filter (visible (at_work c)) (q_messages q)))"
    for x ks
    using that by (auto dest!: set_zip_rightD simp: lease_def)
  then show ?thesis
    using assms found by (fastforce simp: dequeue_def dequeueLoop_eq q_value_def Let_def split: if_splits)
qed

lemma peek_shows:
  assumes "i \<in> shown (Peek a n num) (fst (queue_exec c (Peek a n num) s)) k"
  shows "\<exists>m \<in> set (messages_at s k). m_id m = i \<and> visible (at_work c) m"
proof (cases rule: after_lookup [of "at_lookup c" a n s])
  case missing
  then show ?thesis using assms by (simp add: peek_def q_value_def)
next
  case (found q s1)
  then have "\<exists>m \<in> set (q_messages q). m_id m = i \<and> visible (at_work c) m \<and> k = (a, n)"
    using assms by (auto simp: peek_def peekLoop_eq q_value_def split: if_splits dest!: in_set_takeD)
  then show ?thesis using found(2) by blast
qed

lemma shown_visible:
  assumes "i \<in> shown op (fst (queue_exec c op s)) k"
  shows "\<exists>m \<in> set (messages_at s k). m_id m = i \<and> visible (at_work c) m"
proof (cases op)
  case (Dequeue a n num vt)
  then show ?thesis using assms dequeue_shows by blast
next
  case (Peek a n num)
  then show ?thesis using assms peek_shows by blast
qed (use assms in auto)

definition leased :: "string \<times> string \<Rightarrow> string \<Rightarrow> string \<Rightarrow> time \<Rightarrow> queue_store \<Rightarrow> bool" where
  "leased k i r deadline s \<longleftrightarrow>
     (\<forall>m \<in> set (messages_at s k). m_id m = i \<longrightarrow> m_popReceipt m = r \<and> deadline \<le> m_nextVisible m)"

text \<open>The operations of other clients: before the deadline, not presenting the receipt, not drawing the
  same identifier.\<close>

fun bystander :: "string \<times> string \<Rightarrow> string \<Rightarrow> string \<Rightarrow> time \<Rightarrow> moment \<times> queue_op \<Rightarrow> bool" where
  "bystander k i r deadline (c, op) =
     (at_work c < deadline \<and>
      (case op of
         UpdateMessage a n j r' _ _ \<Rightarrow> \<not> ((a, n) = k \<and> j = i \<and> r' = r)
       | Enqueue a n _ _ _ \<Rightarrow> \<not> ((a, n) = k \<and> newID (randomness c 0) = i)
       | _ \<Rightarrow> True))"

lemma leased_step:
  assumes leased: "leased k i r d s" and other: "bystander k i r d (c, op)"
  shows "leased k i r d (snd (queue_exec c op s))" and "i \<notin> shown op (fst (queue_exec c op s)) k"
proof -
  have early: "at_work c < d" using other by simp
  have hidden: "\<not> visible (at_work c) m" if "m \<in> set (messages_at s k)" "m_id m = i" for m
    using leased that early by (auto simp: leased_def visible_def)
  show "i \<notin> shown op (fst (queue_exec c op s)) k" using shown_visible hidden by blast
  have "m_popReceipt m' = r \<and> d \<le> m_nextVisible m'"
    if m': "m' \<in> set (messages_at (snd (queue_exec c op s)) k)" "m_id m' = i" for m'
  proof -
    from op_traced [of c op s] m'(1) consider (old) "m' \<in> set (messages_at s k)"
      | (changed) m where "m \<in> set (messages_at s k)" "changes c op k m m'" | (added) "adds c op k m'"
      unfolding traced_def by blast
    then show ?thesis
    proof cases
      case old
      then show ?thesis using leased m'(2) by (simp add: leased_def)
    next
      case changed
      then have "m_id m = i" using m'(2) by (cases op) (auto simp: lease_def renew_def)
      then show ?thesis
        using changed hidden leased other by (cases op) (auto simp: leased_def)
    next
      case added
      then show ?thesis using other m'(2) by (cases op) auto
    qed
  qed
  then show "leased k i r d (snd (queue_exec c op s))" by (simp add: leased_def)
qed

fun queue_state :: "(moment \<times> queue_op) list \<Rightarrow> queue_store \<Rightarrow> queue_store" where
  "queue_state [] s = s"
| "queue_state ((c, op) # rest) s = queue_state rest (snd (queue_exec c op s))"

lemma leased_run:
  "leased k i r d s \<Longrightarrow> \<forall>x \<in> set ops. bystander k i r d x \<Longrightarrow> leased k i r d (queue_state ops s)"
  by (induction ops arbitrary: s) (auto simp: leased_step simp del: bystander.simps)

text \<open>Handing out: the identifiers of a queue are distinct, so the message a client got is the only one
  with its identifier.\<close>

lemma map_overwrite_same:
  "\<forall>(x, y) \<in> set (zip new (filter P ms)). f x = f y \<Longrightarrow> length new \<le> length (filter P ms) \<Longrightarrow>
     map f (overwrite P new ms) = map f ms \<and> set new \<subseteq> set (overwrite P new ms)"
  by (induction P new ms rule: overwrite.induct) (auto split: if_splits)

lemma dequeue_leases:
  assumes out: "fst (queue_exec c (Dequeue a n num vt) s) = QMessages out" and x: "x \<in> set out"
    and distinct: "distinct (map m_id (messages_at s (a, n)))"
  shows "leased (a, n) (m_id x) (m_popReceipt x) (at_work c + vt) (snd (queue_exec c (Dequeue a n num vt) s))"
proof (cases "lookup2 s (a, n)")
  case None
  then show ?thesis using out by (simp add: dequeue_def q_value_def queue_lookup_eq)
next
  case (Some q)
  let ?V = "visible (at_work c)" and ?L = "live (at_lookup c) (q_messages q)"
  let ?lease = "\<lambda>k. lease (at_work c) vt (randomness c k)"
  let ?given = "map2 ?lease [0..<nat num] (filter ?V ?L)"
  have result: "out = ?given" "messages_at (snd (queue_exec c (Dequeue a n num vt) s)) (a, n) = overwrite ?V ?given ?L"
    using out by (simp_all add: dequeue_def q_value_def queue_lookup_eq Some dequeueLoop_eq Let_def store_simps)
  have pairs: "\<forall>(y, m) \<in> set (zip ?given (filter ?V ?L)). m_id y = m_id m"
    by (auto simp: set_zip lease_def)
  have same: "map m_id (overwrite ?V ?given ?L) = map m_id ?L" "set ?given \<subseteq> set (overwrite ?V ?given ?L)"
    using map_overwrite_same [OF pairs] by simp_all
  have "distinct (map m_id ?L)"
    using distinct Some by (simp add: live_def messages_at_def distinct_map_filter)
  then have one: "distinct (map m_id (overwrite ?V ?given ?L))" by (simp only: same(1))
  have hid: "m_nextVisible x = at_work c + vt"
    using x unfolding result(1) by (auto simp: lease_def)
  have "m = x" if "m \<in> set (overwrite ?V ?given ?L)" "m_id m = m_id x" for m
    using one that x same(2) unfolding result(1) distinct_map inj_on_def by blast
  then show ?thesis unfolding leased_def result(2) using hid by (metis order_refl)
qed

text \<open>C25: A lease is exclusive: once a dequeue has handed a message out, no later dequeue or peek of the
  queue returns a message with its identifier before the visibility timeout is over, for any number of
  operations of other clients in between, as long as nobody presents its receipt.\<close>

theorem lease_exclusive:
  assumes "distinct (map m_id (messages_at s (a, n)))"
    and "queue_exec c (Dequeue a n num vt) s = (QMessages out, s1)" and "x \<in> set out"
    and "\<forall>y \<in> set (ops @ [(c', op)]). bystander (a, n) (m_id x) (m_popReceipt x) (at_work c + vt) y"
  shows "m_id x \<notin> shown op (fst (queue_exec c' op (queue_state ops s1))) (a, n)"
proof -
  have "leased (a, n) (m_id x) (m_popReceipt x) (at_work c + vt) s1"
    using dequeue_leases [of c a n num vt s out x] assms(1-3) by simp
  then have "leased (a, n) (m_id x) (m_popReceipt x) (at_work c + vt) (queue_state ops s1)"
    using assms(4) by (intro leased_run) auto
  moreover have "bystander (a, n) (m_id x) (m_popReceipt x) (at_work c + vt) (c', op)"
    using assms(4) by (meson in_set_conv_decomp)
  ultimately show ?thesis by (rule leased_step(2))
qed

definition one_message :: message where
  "one_message = \<lparr>m_id = ''m1'', m_text = ''hello'', m_insertionTime = 0, m_expirationTime = zeroTime,
     m_nextVisible = 0, m_popReceipt = [], m_dequeueCount = 0\<rparr>"

definition one_queue :: "message list \<Rightarrow> queue_store" where
  "one_queue ms = [(''acct'', [(''q'', \<lparr>q_name = ''q'', q_metadata = [], q_messages = ms\<rparr>)])]"

lemmas one_queue_simps = one_queue_def one_message_def messages_at_def lookup2_def inner_def q_value_def
  q_error_def lookupLocked_def setQueue_def update2_def evictExpired_def expired_def isZero_def visible_def

theorem lease_exclusive_witness:
  "\<exists>c c' out s1. queue_exec c (Dequeue ''acct'' ''q'' 1 30) (one_queue [one_message]) = (QMessages out, s1) \<and>
     length out = 1 \<and>
     ''m1'' \<notin> shown (Peek ''acct'' ''q'' 5) (fst (queue_exec c' (Peek ''acct'' ''q'' 5) s1)) (''acct'', ''q'')"
proof -
  let ?c = "\<lambda>t. \<lparr>at_lookup = t, at_work = t, randomness = \<lambda>_. [1, 2, 3]\<rparr>"
  let ?x = "lease 1 30 [1, 2, 3] one_message"
  have run: "queue_exec (?c 1) (Dequeue ''acct'' ''q'' 1 30) (one_queue [one_message]) =
      (QMessages [?x], one_queue [?x])"
    by (simp add: one_queue_simps dequeue_def lease_def Let_def)
  have "distinct (map m_id (messages_at (one_queue [one_message]) (''acct'', ''q'')))"
    by (simp add: one_queue_simps)
  from lease_exclusive [OF this run, of ?x "[]" "?c 7" "Peek ''acct'' ''q'' 5"]
  have "''m1'' \<notin> shown (Peek ''acct'' ''q'' 5)
      (fst (queue_exec (?c 7) (Peek ''acct'' ''q'' 5) (one_queue [?x]))) (''acct'', ''q'')"
    by (simp add: lease_def one_message_def)
  then show ?thesis using run by (metis length_Cons list.size(3) One_nat_def)
qed

section \<open>Edges\<close>

lemma find_last: "f m \<notin> f ` set ms \<Longrightarrow> find (\<lambda>x. f x = f m) (ms @ [m]) = Some m"
  by (induction ms) auto

text \<open>A message that was never handed out is not protected by a receipt: after Enqueue, which sets
  none, whoever presents the empty receipt deletes the message.\<close>

lemma undelivered_needs_no_receipt:
  assumes "enqueue t0 now rand a n text vt ttl s = (Inr m, s1)" and "\<not> expired t1 m"
    and "newID rand \<notin> m_id ` set (messages_at s (a, n))"
  shows "m_popReceipt m = [] \<and> fst (deleteMessage t1 a n (m_id m) [] s1) = None"
proof (cases "lookup2 s (a, n)")
  case None
  then show ?thesis using assms(1) by (simp add: enqueue_def queue_lookup_eq)
next
  case (Some q)
  let ?ms = "live t1 (live t0 (q_messages q))"
  from Some assms(1) have m: "m_id m = newID rand" "m_popReceipt m = []"
    and s1: "s1 = setQueue a n ((evictExpired t0 q)\<lparr>q_messages := live t0 (q_messages q) @ [m]\<rparr>)
        (setQueue a n (evictExpired t0 q) s)"
    by (auto simp: enqueue_def queue_lookup_eq Let_def)
  have "live t1 (live t0 (q_messages q) @ [m]) = ?ms @ [m]"
    using assms(2) by (simp add: live_def)
  moreover have "m_id m \<notin> m_id ` set ?ms"
    using assms(3) m(1) Some by (auto simp: messages_at_def live_def)
  then have "find (\<lambda>x. m_id x = m_id m) (?ms @ [m]) = Some m"
    using find_last [of m_id m ?ms] by simp
  ultimately show ?thesis
    using m by (simp add: s1 deleteMessage_def queue_lookup_eq setQueue_def store_simps deleteLoop_eq)
qed

lemma undelivered_needs_no_receipt_witness:
  "\<exists>m s1. enqueue 1 1 (replicate 16 0) ''acct'' ''q'' ''hi'' 0 0 (one_queue []) = (Inr m, s1) \<and>
     m_popReceipt m = [] \<and> fst (deleteMessage 2 ''acct'' ''q'' (m_id m) [] s1) = None"
proof -
  let ?m = "\<lparr>m_id = newID (replicate 16 0), m_text = ''hi'', m_insertionTime = 1,
    m_expirationTime = 1 + defaultTTL, m_nextVisible = 1, m_popReceipt = [], m_dequeueCount = 0\<rparr>"
  have run: "enqueue 1 1 (replicate 16 0) ''acct'' ''q'' ''hi'' 0 0 (one_queue []) = (Inr ?m, one_queue [?m])"
    by (simp add: one_queue_simps enqueue_def Let_def)
  have "\<not> expired 2 ?m" by (simp add: expired_def defaultTTL_def hour_def second_def)
  moreover have "newID (replicate 16 0) \<notin> m_id ` set (messages_at (one_queue []) (''acct'', ''q''))"
    by (simp add: one_queue_simps)
  ultimately show ?thesis using undelivered_needs_no_receipt [OF run] run by blast
qed

text \<open>Creating a queue that is there succeeds exactly when every metadata entry reads the same in
  the metadata given, where a missing entry reads as empty, and there are as many; for entries with
  non-empty values this is equality, but two queues whose only entry is empty never conflict.\<close>

lemma create_queue_conflict:
  assumes "lookup2 s (a, n) = Some q" and "distinct_keys (q_metadata q)" and "distinct_keys md"
    and "\<forall>(k, v) \<in> set (q_metadata q). v \<noteq> []"
  shows "fst (createQueue a n md s) =
      (if map_of (q_metadata q) = map_of md then Inr False else Inl ErrQueueExists) \<and>
    sameMetadata [(k, [])] [(k', [])]"
proof -
  let ?m = "q_metadata q"
  have found: "fst (createQueue a n md s) = (if sameMetadata ?m md then Inr False else Inl ErrQueueExists)"
    using assms(1) by (auto simp: createQueue_def lookup2_def inner_def Let_def split: option.splits)
  have "(case map_of md k of None \<Rightarrow> [] | Some w \<Rightarrow> w) = v \<longleftrightarrow> (k, v) \<in> set md" if "(k, v) \<in> set ?m" for k v
    using that assms(4) map_of_in_set [OF assms(3), of k v] by (cases "map_of md k") auto
  then have "(\<forall>x \<in> set ?m. case x of (k, v) \<Rightarrow> (case map_of md k of None \<Rightarrow> [] | Some w \<Rightarrow> w) = v) \<longleftrightarrow>
      (\<forall>x \<in> set ?m. x \<in> set md)"
    by (intro ball_cong refl) (auto split: prod.splits)
  then have "sameMetadata ?m md \<longleftrightarrow> length ?m = length md \<and> set ?m \<subseteq> set md"
    by (simp add: sameMetadata_def subset_eq)
  also have "\<dots> \<longleftrightarrow> set ?m = set md"
  proof -
    have "distinct ?m" "distinct md"
      using assms(2, 3) by (simp_all add: distinct_keys_def distinct_map)
    then have "card (set ?m) = length ?m" "card (set md) = length md" by (simp_all add: distinct_card)
    then show ?thesis by (metis card_subset_eq finite_set order_refl)
  qed
  also have "\<dots> \<longleftrightarrow> map_of ?m = map_of md"
    using assms(2, 3) map_of_inject_set [of ?m md] by (simp add: distinct_keys_def)
  finally show ?thesis using found by (simp add: sameMetadata_def)
qed

lemma create_queue_conflict_witness:
  "fst (createQueue ''acct'' ''q'' [] (one_queue [])) = Inr False \<and> sameMetadata [(''x'', [])] [(''y'', [])]"
  using create_queue_conflict [of "one_queue []" "''acct''" "''q''" _ "[]" "''x''" "''y''"]
  by (simp add: one_queue_simps)

end
