(* ===== verification/Go_Json.thy ===== *)
theory Go_Json
  imports Go_Strings
begin

text \<open>
  JSON as the source meets it through \<open>encoding/json\<close>. A document (also a \<open>json.RawMessage\<close>) is what it
  denotes, a number its text. Decoding into a struct visits the members of the object in order, matches
  names up to case, leaves a field alone on \<open>null\<close>, lets a later member overwrite an earlier one, and
  fails when some member has the wrong type. The text of a document is not modelled: a body that does
  not parse is its own case where bodies are read.
\<close>

datatype json = JNull | JBool bool | JNumber string | JString string | JArray "json list"
  | JObject "(string \<times> json) list"

section \<open>Decoding\<close>

text \<open>Decode a list of values over a field, one after the other.\<close>

fun eachValue :: "(json \<Rightarrow> 'a \<Rightarrow> 'a option) \<Rightarrow> json list \<Rightarrow> 'a \<Rightarrow> 'a option" where
  "eachValue f [] a = Some a"
| "eachValue f (v # vs) a = (case f v a of None \<Rightarrow> None | Some a' \<Rightarrow> eachValue f vs a')"

definition structField :: "string \<Rightarrow> (json \<Rightarrow> 'a \<Rightarrow> 'a option) \<Rightarrow> json \<Rightarrow> 'a \<Rightarrow> 'a option" where
  "structField name f j a =
     (case j of
        JObject kvs \<Rightarrow> eachValue f (map snd (filter (\<lambda>(k, _). equalFold k name) kvs)) a
      | JNull \<Rightarrow> Some a
      | _ \<Rightarrow> None)"

definition intoString :: "json \<Rightarrow> string \<Rightarrow> string option" where
  "intoString j a = (case j of JString s \<Rightarrow> Some s | JNull \<Rightarrow> Some a | _ \<Rightarrow> None)"

definition intoBool :: "json \<Rightarrow> bool \<Rightarrow> bool option" where
  "intoBool j a = (case j of JBool b \<Rightarrow> Some b | JNull \<Rightarrow> Some a | _ \<Rightarrow> None)"

text \<open>A pointer field: \<open>null\<close> makes it nil, a value allocates.\<close>

definition intoPointer :: "(json \<Rightarrow> 'a \<Rightarrow> 'a option) \<Rightarrow> 'a \<Rightarrow> json \<Rightarrow> 'a option \<Rightarrow> 'a option option" where
  "intoPointer f zero j a =
     (case j of
        JNull \<Rightarrow> Some None
      | _ \<Rightarrow> map_option Some (f j (case a of None \<Rightarrow> zero | Some x \<Rightarrow> x)))"

text \<open>A slice field; an array starts it afresh.\<close>

definition intoSlice :: "(json \<Rightarrow> 'a \<Rightarrow> 'a option) \<Rightarrow> 'a \<Rightarrow> json \<Rightarrow> 'a list \<Rightarrow> 'a list option" where
  "intoSlice f zero j a =
     (case j of
        JNull \<Rightarrow> Some []
      | JArray vs \<Rightarrow> those (map (\<lambda>v. f v zero) vs)
      | _ \<Rightarrow> None)"

text \<open>A \<open>map[string]T\<close> field, nil or an association list; an object adds to it.\<close>

fun intoEntries :: "(json \<Rightarrow> 'a \<Rightarrow> 'a option) \<Rightarrow> 'a \<Rightarrow> (string \<times> json) list \<Rightarrow> (string \<times> 'a) list
    \<Rightarrow> (string \<times> 'a) list option" where
  "intoEntries f zero [] m = Some m"
| "intoEntries f zero ((k, v) # kvs) m =
     (case f v zero of None \<Rightarrow> None | Some x \<Rightarrow> intoEntries f zero kvs (AList.update k x m))"

definition intoMap :: "(json \<Rightarrow> 'a \<Rightarrow> 'a option) \<Rightarrow> 'a \<Rightarrow> json \<Rightarrow> (string \<times> 'a) list option
    \<Rightarrow> (string \<times> 'a) list option option" where
  "intoMap f zero j m =
     (case j of
        JNull \<Rightarrow> Some None
      | JObject kvs \<Rightarrow> map_option Some (intoEntries f zero kvs (case m of None \<Rightarrow> [] | Some x \<Rightarrow> x))
      | _ \<Rightarrow> None)"

text \<open>\<open>json.RawMessage\<close>: any value, \<open>null\<close> included.\<close>

definition intoRaw :: "json \<Rightarrow> json \<Rightarrow> json option" where
  "intoRaw j a = Some j"

text \<open>Decoding whose error is ignored: a member of the wrong type leaves its field as it was.\<close>

definition stringOr :: "json \<Rightarrow> string \<Rightarrow> string" where
  "stringOr j a = (case j of JString t \<Rightarrow> t | _ \<Rightarrow> a)"

definition membersNamed :: "string \<Rightarrow> json \<Rightarrow> json list" where
  "membersNamed name j = (case j of JObject kvs \<Rightarrow> map snd (filter (\<lambda>(k, _). equalFold k name) kvs) | _ \<Rightarrow> [])"

section \<open>Decimal integers\<close>

definition isDigit :: "char \<Rightarrow> bool" where
  "isDigit c \<longleftrightarrow> 48 \<le> (of_char c :: nat) \<and> (of_char c :: nat) \<le> 57"

definition digitsValue :: "string \<Rightarrow> int" where
  "digitsValue s = foldl (\<lambda>n c. n * 10 + (of_char c - 48)) 0 s"

definition minInt :: int where "minInt = - (2 ^ 63)"
definition maxInt :: int where "maxInt = 2 ^ 63 - 1"

text \<open>\<open>strconv.Atoi\<close> on a 64-bit machine: an optional sign and digits, in range.\<close>

definition atoi :: "string \<Rightarrow> int option" where
  "atoi s =
     (let (neg, ds) = (case s of
            [] \<Rightarrow> (False, [])
          | c # cs \<Rightarrow> if c = CHR ''-'' then (True, cs) else if c = CHR ''+'' then (False, cs) else (False, s));
          n = (if neg then - digitsValue ds else digitsValue ds)
      in if ds \<noteq> [] \<and> list_all isDigit ds \<and> minInt \<le> n \<and> n \<le> maxInt then Some n else None)"

text \<open>\<open>int64\<close> fields: a number without fraction or exponent, in range.\<close>

definition intoInt64 :: "json \<Rightarrow> int \<Rightarrow> int option" where
  "intoInt64 j a = (case j of JNumber t \<Rightarrow> atoi t | JNull \<Rightarrow> Some a | _ \<Rightarrow> None)"

text \<open>A 64-bit integer after wrap-around.\<close>

definition wrap64 :: "int \<Rightarrow> int" where
  "wrap64 n = (n + 2 ^ 63) mod 2 ^ 64 - 2 ^ 63"

lemma wrap64_range: "minInt \<le> wrap64 n \<and> wrap64 n \<le> maxInt"
  using pos_mod_bound [of "2 ^ 64" "n + 2 ^ 63"] pos_mod_sign [of "2 ^ 64" "n + 2 ^ 63"]
  by (simp add: wrap64_def minInt_def maxInt_def)

lemma wrap64_id: "minInt \<le> n \<Longrightarrow> n \<le> maxInt \<Longrightarrow> wrap64 n = n"
  by (simp add: wrap64_def minInt_def maxInt_def mod_pos_pos_trivial)

lemma atoi_range: "atoi s = Some n \<Longrightarrow> minInt \<le> n \<and> n \<le> maxInt"
  by (simp add: atoi_def Let_def case_prod_beta split: if_splits)

end
