(* ===== verification/Http.thy ===== *)
theory Http
  imports Go_Json Go_Time Go_Encoding
begin

text \<open>
  HTTP as the service handlers see it (\<open>net/http\<close>, \<open>internal/utils/httpx\<close>, \<open>internal/utils/azerr\<close>,
  \<open>internal/utils/azwire\<close>): a request with its path, query, headers and body, the response that is
  written, and the errors of the Azure services. A body that has been read and parsed is a value of
  \<open>'b\<close>; that reading or parsing it may fail is a case of its own. What a request draws from its
  surroundings (clock, random bytes) is an argument of the handlers.
\<close>

section \<open>Requests\<close>

text \<open>Reading a body, bounded in size, and parsing it.\<close>

datatype 'b body = BodyError string | BodyTooLarge | BodyMalformed | BodyEmpty | Body 'b

record 'b request =
  rq_method :: string
  rq_path :: string
  rq_query :: "(string \<times> string) list"
  rq_headers :: "(string \<times> string list) list"
  rq_host :: string
  rq_tls :: bool
  rq_body :: "'b body"

text \<open>\<open>url.Values.Get\<close> and \<open>http.Header.Get\<close>: the first value or the empty string. Header names are in
  canonical form.\<close>

definition queryGet :: "'b request \<Rightarrow> string \<Rightarrow> string" where
  "queryGet r k = (case map_of (rq_query r) k of None \<Rightarrow> [] | Some v \<Rightarrow> v)"

definition headerGet :: "'b request \<Rightarrow> string \<Rightarrow> string" where
  "headerGet r k = (case map_of (rq_headers r) k of Some (v # _) \<Rightarrow> v | _ \<Rightarrow> [])"

definition scheme :: "'b request \<Rightarrow> string" where
  "scheme r = (if rq_tls r then ''https'' else ''http'')"

section \<open>Responses\<close>

record 'c response =
  rs_status :: int
  rs_headers :: "(string \<times> string) list"
  rs_body :: "'c option"

type_synonym header_list = "(string \<times> string) list"

text \<open>\<open>Header().Set\<close> replaces the value of a header.\<close>

definition setHeader :: "string \<Rightarrow> string \<Rightarrow> (string \<times> string) list \<Rightarrow> (string \<times> string) list" where
  "setHeader k v hs = AList.update k v hs"

section \<open>JSON responses\<close>

text \<open>\<open>httpx.WriteJSON\<close> and \<open>httpx.WriteError\<close>.\<close>

definition writeJSON :: "int \<Rightarrow> json \<Rightarrow> (string \<times> string) list \<Rightarrow> json response" where
  "writeJSON status body hs =
     \<lparr>rs_status = status, rs_headers = setHeader ''Content-Type'' ''application/json'' hs, rs_body = Some body\<rparr>"

definition errorEnvelope :: "string \<Rightarrow> string \<Rightarrow> json" where
  "errorEnvelope code message = JObject [(''error'', JObject [(''code'', JString code), (''message'', JString message)])]"

definition writeError :: "int \<Rightarrow> string \<Rightarrow> string \<Rightarrow> (string \<times> string) list \<Rightarrow> json response" where
  "writeError status code message hs = writeJSON status (errorEnvelope code message) hs"

text \<open>\<open>omitempty\<close>: a member is left out when its value is empty.\<close>

definition omitString :: "string \<Rightarrow> string \<Rightarrow> (string \<times> json) list" where
  "omitString k v = (if v = [] then [] else [(k, JString v)])"

text \<open>An integer in decimal.\<close>

definition itoa :: "int \<Rightarrow> string" where
  "itoa n = (if n < 0 then ''-'' @ decimal (nat (- n)) else decimal (nat n))"

lemma isDigit_digitChar: "d < 10 \<Longrightarrow> isDigit (digitChar d)"
  by (simp add: isDigit_def digitChar_def take_bit_eq_mod)

lemma decimal_digits: "list_all isDigit (decimal n) \<and> decimal n \<noteq> []"
proof (induction n rule: decimal.induct)
  case (1 n)
  show ?case
    using 1 isDigit_digitChar [of n] isDigit_digitChar [of "n mod 10"] by (subst (1 2) decimal.simps) auto
qed

lemma digitsValue_snoc: "digitsValue (s @ [c]) = digitsValue s * 10 + (of_char c - 48)"
  by (simp add: digitsValue_def)

lemma digitsValue_decimal: "digitsValue (decimal n) = int n"
proof (induction n rule: decimal.induct)
  case (1 n)
  have digit: "of_char (digitChar d) - 48 = int d" if "d < 10" for d
  proof -
    have "of_char (digitChar d) = (48 + d :: nat)" using that by (simp add: digitChar_def take_bit_eq_mod)
    moreover have "(of_char (digitChar d) :: int) = of_nat (of_char (digitChar d))" by (simp only: of_nat_of_char)
    ultimately show ?thesis by simp
  qed
  show ?case
  proof (cases "n < 10")
    case True
    then show ?thesis using digit [of n] by (subst decimal.simps) (simp add: digitsValue_def)
  next
    case False
    then have "digitsValue (decimal n) = int (n div 10) * 10 + int (n mod 10)"
      using 1 digit [of "n mod 10"] by (subst decimal.simps) (simp add: digitsValue_snoc)
    also have "\<dots> = int n" by presburger
    finally show ?thesis .
  qed
qed

lemma isDigit_special: "isDigit c \<Longrightarrow> c \<noteq> CHR ''-'' \<and> c \<noteq> CHR ''+'' \<and> c \<noteq> CHR '','' \<and> graphic c"
  by (auto simp: isDigit_def graphic_def)

lemma decimal_chars: "c \<in> set (decimal n) \<Longrightarrow> isDigit c"
  using decimal_digits [of n] by (simp add: list_all_iff)

lemma atoi_decimal:
  assumes "int n \<le> maxInt"
  shows "atoi (decimal n) = Some (int n)"
proof -
  obtain c cs where ds: "decimal n = c # cs" using decimal_digits [of n] by (cases "decimal n") auto
  have "isDigit c" using decimal_chars [of c n] by (simp add: ds)
  from isDigit_special [OF this] show ?thesis
    using assms decimal_digits [of n] digitsValue_decimal [of n] by (simp add: atoi_def ds minInt_def)
qed

lemma itoa_int: "itoa (int n) = decimal n"
  by (simp add: itoa_def)

section \<open>Azure errors\<close>

record azure_error =
  ae_status :: int
  ae_code :: string
  ae_message :: string

definition azError :: "int \<Rightarrow> string \<Rightarrow> string \<Rightarrow> azure_error" where
  "azError status code message = \<lparr>ae_status = status, ae_code = code, ae_message = message\<rparr>"

definition codeInvalidInput :: string where "codeInvalidInput = ''InvalidInput''"
definition codeInvalidQueryParameter :: string where "codeInvalidQueryParameter = ''InvalidQueryParameterValue''"
definition codeOutOfRangeQueryParam :: string where "codeOutOfRangeQueryParam = ''OutOfRangeQueryParameterValue''"
definition codeUnsupportedHeader :: string where "codeUnsupportedHeader = ''UnsupportedHeader''"

definition containerNotFound :: azure_error where
  "containerNotFound = azError 404 ''ContainerNotFound'' ''The specified container does not exist.''"
definition containerAlreadyExists :: azure_error where
  "containerAlreadyExists = azError 409 ''ContainerAlreadyExists'' ''The specified container already exists.''"
definition blobNotFound :: azure_error where
  "blobNotFound = azError 404 ''BlobNotFound'' ''The specified blob does not exist.''"
definition invalidResourceName :: azure_error where
  "invalidResourceName = azError 400 ''InvalidResourceName'' ''The specified resource name contains invalid characters.''"
definition invalidBlockList :: azure_error where
  "invalidBlockList = azError 400 ''InvalidBlockList'' ''The specified block list is invalid.''"

definition internalError :: "string \<Rightarrow> azure_error" where
  "internalError message =
     azError 500 ''InternalError''
       (if message = [] then ''The server encountered an internal error. Please retry the request.'' else message)"

definition queueNotFound :: azure_error where
  "queueNotFound = azError 404 ''QueueNotFound'' ''The specified queue does not exist.''"
definition queueAlreadyExists :: azure_error where
  "queueAlreadyExists = azError 409 ''QueueAlreadyExists'' ''The specified queue already exists.''"
definition messageNotFound :: azure_error where
  "messageNotFound = azError 404 ''MessageNotFound'' ''The specified message does not exist.''"
definition popReceiptMismatch :: azure_error where
  "popReceiptMismatch = azError 400 ''PopReceiptMismatch''
     ''The specified pop receipt did not match the pop receipt for a dequeued message.''"

definition tableNotFound :: azure_error where
  "tableNotFound = azError 404 ''TableNotFound'' ''The table specified does not exist.''"
definition tableAlreadyExists :: azure_error where
  "tableAlreadyExists = azError 409 ''TableAlreadyExists'' ''The table specified already exists.''"
definition entityNotFound :: azure_error where
  "entityNotFound = azError 404 ''ResourceNotFound'' ''The specified resource does not exist.''"
definition entityAlreadyExists :: azure_error where
  "entityAlreadyExists = azError 409 ''EntityAlreadyExists'' ''The specified entity already exists.''"
definition updateConditionNotMet :: azure_error where
  "updateConditionNotMet = azError 412 ''UpdateConditionNotSatisfied''
     ''The update condition specified in the request was not satisfied.''"

text \<open>\<open>Error.JSON\<close>, the body of a Table service error.\<close>

definition azErrorJSON :: "azure_error \<Rightarrow> json" where
  "azErrorJSON e = JObject [(''odata.error'', JObject [(''code'', JString (ae_code e)),
     (''message'', JObject [(''lang'', JString ''en-US''), (''value'', JString (ae_message e))])])]"

section \<open>XML responses\<close>

text \<open>An XML document: an element with attributes, children and character data.\<close>

datatype xml = Element string "(string \<times> string) list" "xml list" | Text string

text \<open>An element that holds text, and one that is left out when the text is empty (\<open>omitempty\<close>).\<close>

definition leaf :: "string \<Rightarrow> string \<Rightarrow> xml" where
  "leaf tag t = Element tag [] [Text t]"

definition optionalLeaf :: "string \<Rightarrow> string \<Rightarrow> xml list" where
  "optionalLeaf tag t = (if t = [] then [] else [leaf tag t])"

text \<open>\<open>Error.XML\<close>, the body of a Blob or Queue service error.\<close>

definition azErrorXML :: "azure_error \<Rightarrow> xml" where
  "azErrorXML e = Element ''Error'' []
     [Element ''Code'' [] [Text (ae_code e)], Element ''Message'' [] [Text (ae_message e)]]"

section \<open>Dates\<close>

definition dayName :: "int \<Rightarrow> string" where
  "dayName days = [''Thu'', ''Fri'', ''Sat'', ''Sun'', ''Mon'', ''Tue'', ''Wed''] ! nat (days mod 7)"

definition monthName :: "nat \<Rightarrow> string" where
  "monthName m = [''Jan'', ''Feb'', ''Mar'', ''Apr'', ''May'', ''Jun'', ''Jul'', ''Aug'', ''Sep'', ''Oct'',
     ''Nov'', ''Dec''] ! (m - 1)"

text \<open>\<open>azwire.FormatHTTP\<close>: the layout \<open>Mon, 02 Jan 2006 15:04:05 GMT\<close>.\<close>

definition formatHTTP :: "time \<Rightarrow> string" where
  "formatHTTP t =
     (let secs = t div second; day = secs div 86400; s = nat (secs mod 86400)
      in case civil day of (y, m, d) \<Rightarrow>
        dayName day @ '', '' @ digits 2 d @ '' '' @ monthName m @ '' '' @ padded 4 (nat y) @ '' '' @
        digits 2 (s div 3600) @ '':'' @ digits 2 (s div 60 mod 60) @ '':'' @ digits 2 (s mod 60) @ '' GMT'')"

text \<open>The random identifier of a response: all services print it alike.\<close>

definition newRequestID :: "bytes \<Rightarrow> string" where "newRequestID b = uuidString b"

text \<open>What a request draws: the clock of its headers and the bytes of its identifier.\<close>

record surroundings =
  now_http :: time
  request_id :: bytes

end
