(* ===== verification/Queue_Server.thy ===== *)
theory Queue_Server
  imports Queue_Lease Http
begin

text \<open>
  The HTTP surface of the Queue service, \<open>internal/servers/queueserver\<close>: routing, queue names and
  metadata headers, message handlers with their query parameters, the XML of the responses. A request
  body is the message text it carries once parsed. \<open>env\<close> is what a request draws: the two clock readings
  and random bytes of the store's operation, and the clock and identifier of the response headers.
\<close>

record queue_env = surroundings +
  qe_moment :: moment

type_synonym queue_reply = "xml response \<times> queue_store"

definition apiVersion :: string where "apiVersion = ''2021-08-06''"

definition commonHeaders :: "queue_env \<Rightarrow> header_list" where
  "commonHeaders env =
     setHeader ''Date'' (formatHTTP (now_http env))
       (setHeader ''x-ms-request-id'' (newRequestID (request_id env))
         (setHeader ''x-ms-version'' apiVersion (setHeader ''Server'' ''localaz'' [])))"

definition respond :: "queue_env \<Rightarrow> int \<Rightarrow> header_list \<Rightarrow> xml option \<Rightarrow> xml response" where
  "respond env status hs b = \<lparr>rs_status = status, rs_headers = fold (\<lambda>(k, v). setHeader k v) hs (commonHeaders env),
     rs_body = b\<rparr>"

text \<open>A response to HEAD has no body.\<close>

definition azureError :: "queue_env \<Rightarrow> string request \<Rightarrow> azure_error \<Rightarrow> xml response" where
  "azureError env r e =
     respond env (ae_status e) [(''x-ms-error-code'', ae_code e), (''Content-Type'', ''application/xml'')]
       (if rq_method r \<noteq> ''HEAD'' then Some (azErrorXML e) else None)"

definition storeError :: "queue_error \<Rightarrow> azure_error" where
  "storeError e = (case e of
       ErrQueueNotFound \<Rightarrow> queueNotFound
     | ErrQueueExists \<Rightarrow> queueAlreadyExists
     | ErrMessageNotFound \<Rightarrow> messageNotFound
     | ErrPopReceipt \<Rightarrow> popReceiptMismatch)"

definition methodNotAllowed :: azure_error where
  "methodNotAllowed = azError 405 codeUnsupportedHeader ''The HTTP method is not supported for this resource.''"

definition serviceEndpoint :: "string request \<Rightarrow> string \<Rightarrow> string" where
  "serviceEndpoint r account = scheme r @ ''://'' @ rq_host r @ ''/'' @ account"

section \<open>XML\<close>

definition marshalQueues :: "string \<Rightarrow> string \<Rightarrow> queueInfo list \<Rightarrow> xml" where
  "marshalQueues endpoint prefix items =
     Element ''EnumerationResults'' [(''ServiceEndpoint'', endpoint)]
       (optionalLeaf ''Prefix'' prefix @
        [Element ''Queues'' [] (map (\<lambda>q. Element ''Queue'' [] [leaf ''Name'' (qi_name q)]) items),
         leaf ''NextMarker'' []])"

record messageView =
  mv_messageID :: string
  mv_insertionTime :: string
  mv_expirationTime :: string
  mv_popReceipt :: string
  mv_timeNextVisible :: string
  mv_dequeueCount :: "int option"
  mv_messageText :: string

definition xmlQueueMessage :: "messageView \<Rightarrow> xml" where
  "xmlQueueMessage v = Element ''QueueMessage'' []
     ([leaf ''MessageId'' (mv_messageID v), leaf ''InsertionTime'' (mv_insertionTime v),
       leaf ''ExpirationTime'' (mv_expirationTime v)] @
      optionalLeaf ''PopReceipt'' (mv_popReceipt v) @ optionalLeaf ''TimeNextVisible'' (mv_timeNextVisible v) @
      (case mv_dequeueCount v of None \<Rightarrow> [] | Some n \<Rightarrow> [leaf ''DequeueCount'' (itoa n)]) @
      optionalLeaf ''MessageText'' (mv_messageText v))"

definition marshalMessages :: "messageView list \<Rightarrow> xml" where
  "marshalMessages views = Element ''QueueMessagesList'' [] (map xmlQueueMessage views)"

definition expiration :: "message \<Rightarrow> string" where
  "expiration m = (if isZero (m_expirationTime m) then [] else formatHTTP (m_expirationTime m))"

definition enqueuedView :: "message \<Rightarrow> messageView" where
  "enqueuedView m = \<lparr>mv_messageID = m_id m, mv_insertionTime = formatHTTP (m_insertionTime m),
     mv_expirationTime = expiration m, mv_popReceipt = m_popReceipt m,
     mv_timeNextVisible = formatHTTP (m_nextVisible m), mv_dequeueCount = None, mv_messageText = []\<rparr>"

definition dequeuedView :: "message \<Rightarrow> messageView" where
  "dequeuedView m = \<lparr>mv_messageID = m_id m, mv_insertionTime = formatHTTP (m_insertionTime m),
     mv_expirationTime = expiration m, mv_popReceipt = m_popReceipt m,
     mv_timeNextVisible = formatHTTP (m_nextVisible m), mv_dequeueCount = Some (m_dequeueCount m),
     mv_messageText = m_text m\<rparr>"

definition peekView :: "message \<Rightarrow> messageView" where
  "peekView m = \<lparr>mv_messageID = m_id m, mv_insertionTime = formatHTTP (m_insertionTime m),
     mv_expirationTime = expiration m, mv_popReceipt = [], mv_timeNextVisible = [],
     mv_dequeueCount = Some (m_dequeueCount m), mv_messageText = m_text m\<rparr>"

section \<open>Parameters\<close>

definition parseInt :: "string \<Rightarrow> int \<Rightarrow> int" where
  "parseInt s fallback = (if s = [] then fallback else case atoi s of Some v \<Rightarrow> v | None \<Rightarrow> fallback)"

text \<open>\<open>time.Duration(v) * time.Second\<close> is a product of 64-bit integers.\<close>

definition parseSeconds :: "string \<Rightarrow> duration \<Rightarrow> duration" where
  "parseSeconds s fallback =
     (if s = [] then fallback else case atoi s of Some v \<Rightarrow> wrap64 (v * second) | None \<Rightarrow> fallback)"

definition parseTTL :: "string \<Rightarrow> duration" where
  "parseTTL s =
     (if s = [] then 0
      else case atoi s of
             None \<Rightarrow> 0
           | Some v \<Rightarrow> if v = 0 then 0 else if v < 0 then - 1 else wrap64 (v * second))"

definition metaPrefix :: string where "metaPrefix = ''X-Ms-Meta-''"

definition readMetadata :: "(string \<times> string list) list \<Rightarrow> metadata" where
  "readMetadata hs =
     fold (\<lambda>(k, vals) meta.
        if length metaPrefix < length k \<and> equalFold (take (length metaPrefix) k) metaPrefix
        then AList.update (toLower (drop (length metaPrefix) k)) (joinWith '','' vals) meta else meta) hs []"

definition writeMetadata :: "metadata \<Rightarrow> header_list" where
  "writeMetadata meta = map (\<lambda>(k, v). (''x-ms-meta-'' @ k, v)) meta"

text \<open>The loop of \<open>validQueueName\<close>: \<open>prev\<close> says whether the character before was a hyphen.\<close>

fun queueNameChars :: "bool \<Rightarrow> string \<Rightarrow> bool" where
  "queueNameChars prev [] = True"
| "queueNameChars prev (c # s) =
     (let n = (of_char c :: nat) in
      if 97 \<le> n \<and> n \<le> 122 \<or> 48 \<le> n \<and> n \<le> 57 then queueNameChars False s
      else if c = CHR ''-'' then \<not> prev \<and> queueNameChars True s
      else False)"

definition validQueueName :: "string \<Rightarrow> bool" where
  "validQueueName name =
     (\<not> (length name < 3 \<or> 63 < length name) \<and>
      \<not> (name ! 0 = CHR ''-'' \<or> name ! (length name - 1) = CHR ''-'') \<and> queueNameChars False name)"

section \<open>Handlers\<close>

definition handleCreateQueue :: "queue_env \<Rightarrow> string request \<Rightarrow> string \<Rightarrow> string \<Rightarrow> queue_store \<Rightarrow> queue_reply" where
  "handleCreateQueue env r account name s =
     (if \<not> validQueueName name then (azureError env r invalidResourceName, s)
      else case createQueue account name (readMetadata (rq_headers r)) s of
             (Inl e, s1) \<Rightarrow> (azureError env r (storeError e), s1)
           | (Inr created, s1) \<Rightarrow> (respond env (if created then 201 else 204) [] None, s1))"

definition handleDeleteQueue :: "queue_env \<Rightarrow> string request \<Rightarrow> string \<Rightarrow> string \<Rightarrow> queue_store \<Rightarrow> queue_reply" where
  "handleDeleteQueue env r account name s =
     (case deleteQueue account name s of
        (Some e, s1) \<Rightarrow> (azureError env r (storeError e), s1)
      | (None, s1) \<Rightarrow> (respond env 204 [] None, s1))"

definition handleGetMetadata :: "queue_env \<Rightarrow> string request \<Rightarrow> string \<Rightarrow> string \<Rightarrow> queue_store \<Rightarrow> queue_reply" where
  "handleGetMetadata env r account name s =
     (case getMetadata (at_lookup (qe_moment env)) account name s of
        (Inl e, s1) \<Rightarrow> (azureError env r (storeError e), s1)
      | (Inr info, s1) \<Rightarrow>
          (respond env 200 ((''x-ms-approximate-messages-count'', itoa (int (qi_approximateCount info))) #
             writeMetadata (qi_metadata info)) None, s1))"

definition handleSetMetadata :: "queue_env \<Rightarrow> string request \<Rightarrow> string \<Rightarrow> string \<Rightarrow> queue_store \<Rightarrow> queue_reply" where
  "handleSetMetadata env r account name s =
     (case setMetadata (at_lookup (qe_moment env)) account name (readMetadata (rq_headers r)) s of
        (Some e, s1) \<Rightarrow> (azureError env r (storeError e), s1)
      | (None, s1) \<Rightarrow> (respond env 204 [] None, s1))"

definition handleListQueues :: "queue_env \<Rightarrow> string request \<Rightarrow> string \<Rightarrow> queue_store \<Rightarrow> queue_reply" where
  "handleListQueues env r account s =
     (let prefix = queryGet r ''prefix'' in
      case listQueues (at_lookup (qe_moment env)) account prefix s of
        (items, s1) \<Rightarrow>
          (respond env 200 [(''Content-Type'', ''application/xml'')]
             (Some (marshalQueues (serviceEndpoint r account) prefix items)), s1))"

definition malformedMessage :: azure_error where
  "malformedMessage = azError 400 codeInvalidInput ''Malformed message body.''"

text \<open>The text of the message in the body; an empty body has none.\<close>

definition messageText :: "string body \<Rightarrow> azure_error + string" where
  "messageText b = (case b of
       BodyError e \<Rightarrow> Inl (internalError e)
     | BodyTooLarge \<Rightarrow> Inl (internalError ''http: request body too large'')
     | BodyMalformed \<Rightarrow> Inl malformedMessage
     | BodyEmpty \<Rightarrow> Inr []
     | Body t \<Rightarrow> Inr t)"

definition putMessage :: "queue_env \<Rightarrow> string request \<Rightarrow> string \<Rightarrow> string \<Rightarrow> queue_store \<Rightarrow> queue_reply" where
  "putMessage env r account name s =
     (case messageText (rq_body r) of
        Inl e \<Rightarrow> (azureError env r e, s)
      | Inr t \<Rightarrow>
          let c = qe_moment env in
          (case enqueue (at_lookup c) (at_work c) (randomness c 0) account name t
                  (parseSeconds (queryGet r ''visibilitytimeout'') 0) (parseTTL (queryGet r ''messagettl'')) s of
             (Inl e, s1) \<Rightarrow> (azureError env r (storeError e), s1)
           | (Inr m, s1) \<Rightarrow>
               (respond env 201 [(''Content-Type'', ''application/xml'')] (Some (marshalMessages [enqueuedView m])), s1)))"

definition defaultVisibilityTimeout :: duration where "defaultVisibilityTimeout = 30 * second"

definition maxNumOfMessages :: int where "maxNumOfMessages = 32"

definition getMessages :: "queue_env \<Rightarrow> string request \<Rightarrow> string \<Rightarrow> string \<Rightarrow> queue_store \<Rightarrow> queue_reply" where
  "getMessages env r account name s =
     (let n = parseInt (queryGet r ''numofmessages'') 1; num = (if n < 1 then 1 else n); c = qe_moment env in
      if maxNumOfMessages < num
      then (azureError env r (azError 400 codeOutOfRangeQueryParam
              ''One of the query parameters specified in the request URI is outside the permissible range.''), s)
      else
        let (result, s1) =
          (if queryGet r ''peekonly'' = ''true''
           then map_prod (map_sum id (map peekView)) id (peek (at_lookup c) (at_work c) account name num s)
           else map_prod (map_sum id (map dequeuedView)) id
                  (dequeue (at_lookup c) (at_work c) (randomness c) account name num
                     (parseSeconds (queryGet r ''visibilitytimeout'') defaultVisibilityTimeout) s))
        in case result of
             Inl e \<Rightarrow> (azureError env r (storeError e), s1)
           | Inr views \<Rightarrow>
               (respond env 200 [(''Content-Type'', ''application/xml'')] (Some (marshalMessages views)), s1))"

definition handleDeleteMessage ::
    "queue_env \<Rightarrow> string request \<Rightarrow> string \<Rightarrow> string \<Rightarrow> string \<Rightarrow> queue_store \<Rightarrow> queue_reply" where
  "handleDeleteMessage env r account name i s =
     (case deleteMessage (at_lookup (qe_moment env)) account name i (queryGet r ''popreceipt'') s of
        (Some e, s1) \<Rightarrow> (azureError env r (storeError e), s1)
      | (None, s1) \<Rightarrow> (respond env 204 [] None, s1))"

definition handleUpdateMessage ::
    "queue_env \<Rightarrow> string request \<Rightarrow> string \<Rightarrow> string \<Rightarrow> string \<Rightarrow> queue_store \<Rightarrow> queue_reply" where
  "handleUpdateMessage env r account name i s =
     (case messageText (rq_body r) of
        Inl e \<Rightarrow> (azureError env r e, s)
      | Inr t \<Rightarrow>
          let c = qe_moment env in
          (case updateMessage (at_lookup c) (at_work c) (randomness c 0) account name i
                  (queryGet r ''popreceipt'') t (parseSeconds (queryGet r ''visibilitytimeout'') 0) s of
             (Inl e, s1) \<Rightarrow> (azureError env r (storeError e), s1)
           | (Inr (receipt, next), s1) \<Rightarrow>
               (respond env 204 [(''x-ms-popreceipt'', receipt), (''x-ms-time-next-visible'', formatHTTP next)] None, s1)))"

definition handleClearMessages :: "queue_env \<Rightarrow> string request \<Rightarrow> string \<Rightarrow> string \<Rightarrow> queue_store \<Rightarrow> queue_reply" where
  "handleClearMessages env r account name s =
     (case clearMessages (at_lookup (qe_moment env)) account name s of
        (Some e, s1) \<Rightarrow> (azureError env r (storeError e), s1)
      | (None, s1) \<Rightarrow> (respond env 204 [] None, s1))"

section \<open>Routing\<close>

definition handleAccount :: "queue_env \<Rightarrow> string request \<Rightarrow> string \<Rightarrow> queue_store \<Rightarrow> queue_reply" where
  "handleAccount env r account s =
     (if queryGet r ''comp'' = ''list'' then handleListQueues env r account s
      else (azureError env r (azError 400 codeInvalidQueryParameter
              ''The requested account-level operation is not supported.''), s))"

definition handleQueue :: "queue_env \<Rightarrow> string request \<Rightarrow> string \<Rightarrow> string \<Rightarrow> queue_store \<Rightarrow> queue_reply" where
  "handleQueue env r account name s =
     (let meth = rq_method r in
      if meth = ''PUT'' then
        (if queryGet r ''comp'' = ''metadata'' then handleSetMetadata env r account name s
         else handleCreateQueue env r account name s)
      else if meth = ''DELETE'' then handleDeleteQueue env r account name s
      else if meth = ''GET'' \<or> meth = ''HEAD'' then handleGetMetadata env r account name s
      else (azureError env r methodNotAllowed, s))"

definition handleMessages ::
    "queue_env \<Rightarrow> string request \<Rightarrow> string \<Rightarrow> string \<Rightarrow> string \<Rightarrow> queue_store \<Rightarrow> queue_reply" where
  "handleMessages env r account name i s =
     (let meth = rq_method r in
      if i \<noteq> [] then
        (if meth = ''DELETE'' then handleDeleteMessage env r account name i s
         else if meth = ''PUT'' then handleUpdateMessage env r account name i s
         else (azureError env r methodNotAllowed, s))
      else if meth = ''POST'' then putMessage env r account name s
      else if meth = ''GET'' then getMessages env r account name s
      else if meth = ''DELETE'' then handleClearMessages env r account name s
      else (azureError env r methodNotAllowed, s))"

definition serveQueues :: "queue_env \<Rightarrow> string request \<Rightarrow> queue_store \<Rightarrow> queue_reply" where
  "serveQueues env r s =
     (let segments = splitOn (CHR ''/'') (trimPrefix (rq_path r) ''/'');
          account = segments ! 0;
          name = (if 2 \<le> length segments then segments ! 1 else []);
          messages = (3 \<le> length segments \<and> segments ! 2 = ''messages'');
          i = (if 4 \<le> length segments \<and> segments ! 2 = ''messages'' then segments ! 3 else [])
      in if account = []
         then (azureError env r (azError 400 codeInvalidInput ''Missing account in request URL.''), s)
         else if name = [] then handleAccount env r account s
         else if messages then handleMessages env r account name i s
         else handleQueue env r account name s)"

section \<open>Queue names\<close>

definition double_hyphen :: "string \<Rightarrow> bool" where
  "double_hyphen s \<longleftrightarrow> (\<exists>p q. s = p @ ''--'' @ q)"

definition queueChar :: "char \<Rightarrow> bool" where
  "queueChar c \<longleftrightarrow> CHR ''a'' \<le> c \<and> c \<le> CHR ''z'' \<or> CHR ''0'' \<le> c \<and> c \<le> CHR ''9'' \<or> c = CHR ''-''"

lemma queueChar_eq:
  "queueChar c \<longleftrightarrow> (let n = (of_char c :: nat) in 97 \<le> n \<and> n \<le> 122 \<or> 48 \<le> n \<and> n \<le> 57) \<or> c = CHR ''-''"
  by (simp add: queueChar_def less_eq_char_def Let_def)

lemma double_hyphen_Nil [simp]: "\<not> double_hyphen []"
  by (simp add: double_hyphen_def)

lemma double_hyphen_Cons:
  "double_hyphen (c # s) \<longleftrightarrow> c = CHR ''-'' \<and> s \<noteq> [] \<and> hd s = CHR ''-'' \<or> double_hyphen s"
proof
  assume "double_hyphen (c # s)"
  then obtain p q where "c # s = p @ ''--'' @ q" by (auto simp: double_hyphen_def)
  then show "c = CHR ''-'' \<and> s \<noteq> [] \<and> hd s = CHR ''-'' \<or> double_hyphen s"
    by (cases p) (auto simp: double_hyphen_def)
next
  assume "c = CHR ''-'' \<and> s \<noteq> [] \<and> hd s = CHR ''-'' \<or> double_hyphen s"
  then show "double_hyphen (c # s)"
  proof
    assume "c = CHR ''-'' \<and> s \<noteq> [] \<and> hd s = CHR ''-''"
    then have "c # s = [] @ ''--'' @ tl s" by (cases s) auto
    then show ?thesis unfolding double_hyphen_def by blast
  next
    assume "double_hyphen s"
    then obtain p q where "s = p @ ''--'' @ q" by (auto simp: double_hyphen_def)
    then have "c # s = (c # p) @ ''--'' @ q" by simp
    then show ?thesis unfolding double_hyphen_def by blast
  qed
qed

lemma queueNameChars_eq:
  "queueNameChars prev s \<longleftrightarrow> (\<forall>c \<in> set s. queueChar c) \<and>
     (prev \<longrightarrow> s = [] \<or> hd s \<noteq> CHR ''-'') \<and> \<not> double_hyphen s"
proof (induction prev s rule: queueNameChars.induct)
  case (2 prev c s)
  have "c = CHR ''-'' \<Longrightarrow> \<not> (97 \<le> (of_char c :: nat) \<and> (of_char c :: nat) \<le> 122 \<or> 48 \<le> (of_char c :: nat) \<and> (of_char c :: nat) \<le> 57)"
    by simp
  then show ?case using 2 by (auto simp: queueChar_eq double_hyphen_Cons Let_def)
qed simp

text \<open>Queue names are checked against the service's rules: a name is accepted exactly when it has 3
  to 63 characters, all lower-case letters, digits or hyphens, neither begins nor ends with a hyphen,
  and has no two hyphens in a row.\<close>

lemma validQueueName_iff:
  "validQueueName name \<longleftrightarrow> 3 \<le> length name \<and> length name \<le> 63 \<and> (\<forall>c \<in> set name. queueChar c) \<and>
     hd name \<noteq> CHR ''-'' \<and> last name \<noteq> CHR ''-'' \<and> \<not> double_hyphen name"
proof (cases "name = []")
  case False
  then show ?thesis
    by (auto simp: validQueueName_def queueNameChars_eq hd_conv_nth last_conv_nth)
qed (simp add: validQueueName_def)

lemma validQueueName_iff_witness: "validQueueName ''a-1'' \<and> \<not> validQueueName ''a--b''"
  using validQueueName_iff [of "''a-1''"] validQueueName_iff [of "''a--b''"]
  by (simp add: queueChar_def double_hyphen_Cons)

section \<open>Times to live\<close>


text \<open>The time to live of a message is what the request says only up to 9223372036 seconds; from one
  second more, up to 18446744073, the product wraps around to a negative duration, and a message put
  with it never expires.\<close>

lemma message_ttl_wraps:
  assumes "atoi q = Some v" and "0 < v"
  shows "(parseTTL q = v * second \<longleftrightarrow> v \<le> 9223372036) \<and>
    (9223372036 < v \<and> v \<le> 18446744073 \<longrightarrow> parseTTL q < 0) \<and>
    (parseTTL q < 0 \<and> enqueue t0 now rand a n x vt (parseTTL q) s = (Inr m, s') \<longrightarrow> \<not> expired t m)"
proof -
  have q: "q \<noteq> []" using assms(1) by (cases q) (simp_all add: atoi_def)
  have parse: "parseTTL q = wrap64 (v * second)" using assms q by (simp add: parseTTL_def)
  have max: "v \<le> maxInt" using atoi_range [OF assms(1)] by simp
  have "wrap64 (v * second) = v * second \<longleftrightarrow> v \<le> 9223372036"
  proof
    assume "wrap64 (v * second) = v * second"
    then have "v * second \<le> maxInt" using wrap64_range [of "v * second"] by simp
    then show "v \<le> 9223372036" by (simp add: second_def maxInt_def)
  next
    assume "v \<le> 9223372036"
    then show "wrap64 (v * second) = v * second"
      using assms(2) by (intro wrap64_id) (simp_all add: second_def minInt_def maxInt_def)
  qed
  moreover have "wrap64 (v * second) < 0" if "9223372036 < v" "v \<le> 18446744073"
  proof -
    have "wrap64 (v * second) = v * second - 2 ^ 64"
      using that minus_mod_self2 [of "v * second + 2 ^ 63" "2 ^ 64 :: int"]
        mod_pos_pos_trivial [of "v * second + 2 ^ 63 - 2 ^ 64" "2 ^ 64"]
      by (simp add: wrap64_def second_def)
    then show ?thesis using that by (simp add: second_def)
  qed
  moreover have "\<not> expired t m"
    if "parseTTL q < 0" "enqueue t0 now rand a n x vt (parseTTL q) s = (Inr m, s')"
    using that by (auto simp: enqueue_def Let_def expired_def isZero_def split: prod.splits sum.splits)
  ultimately show ?thesis by (simp add: parse)
qed

lemma message_ttl_wraps_witness:
  "parseTTL ''9223372037'' < 0"
proof -
  have "atoi ''9223372037'' = Some 9223372037"
    by (simp add: atoi_def isDigit_def digitsValue_def minInt_def maxInt_def)
  from message_ttl_wraps [OF this] show ?thesis by simp
qed

section \<open>Refused requests\<close>

lemma spec_error_unchanged: "fst (spec_exec c op m) = QError e \<Longrightarrow> snd (spec_exec c op m) = m"
  by (cases op) (auto simp: spec_exec_def Let_def fun_upd_idem split: option.splits if_splits)

lemma refused_operation:
  assumes "sim t s m" and "t \<le> at_lookup c" and "fst (queue_exec c op s) = QError e"
  shows "sim (at_lookup c) (snd (queue_exec c op s)) m"
proof -
  have "agrees (at_lookup c) (queue_exec c op s) (spec_exec c op m)"
    using queue_step sim_mono [OF assms(1, 2)] by blast
  then have "fst (spec_exec c op m) = QError e" "sim (at_lookup c) (snd (queue_exec c op s)) (snd (spec_exec c op m))"
    using assms(3) by (auto simp: agrees_def case_prod_beta)
  then show ?thesis using spec_error_unchanged by metis
qed

definition harmless :: "queue_env \<Rightarrow> queue_spec \<Rightarrow> queue_reply \<Rightarrow> bool" where
  "harmless env m = (\<lambda>(resp, s'). 400 \<le> rs_status resp \<longrightarrow> sim (at_lookup (qe_moment env)) s' m)"

lemma respond_harmless [simp]: "n < 400 \<Longrightarrow> harmless env m (respond env n hs b, s)"
  by (simp add: harmless_def respond_def)

lemma unchanged_harmless:
  assumes sim: "sim t s m" and clock: "t \<le> at_lookup (qe_moment env)"
  shows "harmless env m (resp, s)"
  using sim_mono [OF sim clock] by (simp add: harmless_def)

lemma value_harmless:
  assumes sim: "sim t s m" and clock: "t \<le> at_lookup (qe_moment env)"
    and exec: "queue_exec (qe_moment env) op s = q_value f x" "x = (Inl e, s1)"
  shows "harmless env m (resp, s1)"
  using refused_operation [OF sim clock, of op e] exec by (simp add: q_value_def harmless_def)

lemma error_harmless:
  assumes sim: "sim t s m" and clock: "t \<le> at_lookup (qe_moment env)"
    and exec: "queue_exec (qe_moment env) op s = q_error x" "x = (Some e, s1)"
  shows "harmless env m (resp, s1)"
  using refused_operation [OF sim clock, of op e] exec by (simp add: q_error_def harmless_def)

lemmas op_harmless = value_harmless [OF _ _ queue_exec.simps(1)] value_harmless [OF _ _ queue_exec.simps(4)]
  value_harmless [OF _ _ queue_exec.simps(6)] value_harmless [OF _ _ queue_exec.simps(7)]
  value_harmless [OF _ _ queue_exec.simps(8)] value_harmless [OF _ _ queue_exec.simps(10)]
  error_harmless [OF _ _ queue_exec.simps(2)] error_harmless [OF _ _ queue_exec.simps(5)]
  error_harmless [OF _ _ queue_exec.simps(9)] error_harmless [OF _ _ queue_exec.simps(11)]

lemma handlers_harmless:
  assumes sim: "sim t s m" and clock: "t \<le> at_lookup (qe_moment env)"
  shows
  "harmless env m (handleCreateQueue env r a n s)" "harmless env m (handleDeleteQueue env r a n s)"
  "harmless env m (handleGetMetadata env r a n s)" "harmless env m (handleSetMetadata env r a n s)"
  "harmless env m (handleListQueues env r a s)" "harmless env m (putMessage env r a n s)"
  "harmless env m (handleDeleteMessage env r a n i s)" "harmless env m (handleUpdateMessage env r a n i s)"
  "harmless env m (handleClearMessages env r a n s)"
  by (auto simp: handleCreateQueue_def handleDeleteQueue_def handleGetMetadata_def handleSetMetadata_def
      handleListQueues_def putMessage_def handleDeleteMessage_def handleUpdateMessage_def
      handleClearMessages_def Let_def split: prod.split sum.split option.split simp: unchanged_harmless [OF assms] dest: op_harmless [OF assms])

lemma getMessages_harmless:
  assumes sim: "sim t s m" and clock: "t \<le> at_lookup (qe_moment env)"
  shows "harmless env m (getMessages env r a n s)"
  by (auto simp: getMessages_def Let_def map_prod_def map_sum_def split: prod.splits sum.splits if_splits
      simp: unchanged_harmless [OF assms] dest: op_harmless [OF assms])

lemma serve_harmless:
  assumes sim: "sim t s m" and clock: "t \<le> at_lookup (qe_moment env)"
  shows "harmless env m (serveQueues env r s)"
  unfolding serveQueues_def handleAccount_def handleQueue_def handleMessages_def Let_def
  by (simp add: handlers_harmless [OF assms] getMessages_harmless [OF assms] unchanged_harmless [OF assms])

text \<open>A request to the Queue service that is answered with an error has changed nothing that a client
  can see: the store still stands for the same queues and messages.\<close>

lemma refused_queue_request:
  assumes "sim t s m" and "t \<le> at_lookup (qe_moment env)"
    and "serveQueues env r s = (resp, s')" and "400 \<le> rs_status resp"
  shows "sim (at_lookup (qe_moment env)) s' m"
  using serve_harmless [OF assms(1, 2), of r] assms(3, 4) by (simp add: harmless_def)

definition queue_request :: "string \<Rightarrow> string \<Rightarrow> (string \<times> string) list \<Rightarrow> string body \<Rightarrow> string request" where
  "queue_request meth path q b = \<lparr>rq_method = meth, rq_path = path, rq_query = q, rq_headers = [],
     rq_host = ''h'', rq_tls = False, rq_body = b\<rparr>"

definition queue_env_at :: "time \<Rightarrow> queue_env" where
  "queue_env_at t = \<lparr>now_http = t, request_id = replicate 16 0,
     qe_moment = \<lparr>at_lookup = t, at_work = t, randomness = \<lambda>_. replicate 24 0\<rparr>\<rparr>"

lemma refused_queue_request_witness:
  "\<exists>resp s'. serveQueues (queue_env_at 5) (queue_request ''DELETE'' ''/acct/nope'' [] BodyEmpty) [] = (resp, s') \<and>
     rs_status resp = 404 \<and> sim 5 s' Map.empty"
proof -
  let ?r = "queue_request ''DELETE'' ''/acct/nope'' [] BodyEmpty"
  have run: "serveQueues (queue_env_at 5) ?r [] = (azureError (queue_env_at 5) ?r queueNotFound, [])"
    by (simp add: serveQueues_def queue_request_def trimPrefix_def hasPrefix_def Let_def handleQueue_def
        handleDeleteQueue_def deleteQueue_def storeError_def)
  have "rs_status (azureError (queue_env_at 5) ?r queueNotFound) = 404"
    by (simp add: azureError_def respond_def queueNotFound_def azError_def)
  with refused_queue_request [OF sim_empty, of 0 "queue_env_at 5", OF _ run] run show ?thesis
    by (simp add: queue_env_at_def)
qed

end
