(* ===== verification/Event_Grid.thy ===== *)
theory Event_Grid
  imports Go_Maps Go_Time Go_Encoding Go_Json "HOL-Library.Multiset"
begin

text \<open>
  The Event Grid namespace, \<open>internal/stores/egstore\<close>: topics keep every event published and hand
  each subscription its own copy, to be received under a lock token and then acknowledged, released,
  rejected or renewed. The mutex is held through every operation. The clock (\<open>now\<close>), the random bytes of
  the tokens and the order in which a map is ranged over (\<open>order\<close>, of which only that it visits every
  entry once is assumed) are arguments.
\<close>

section \<open>Types\<close>

record delivery =
  d_event :: json
  d_deliveryCount :: int
  d_lockDeadline :: time

record subscription =
  s_available :: "delivery list"
  s_locked :: "(string, delivery) go_map"

record topic =
  t_backlog :: "json list"
  t_subs :: "(string, subscription) go_map"

record event_store =
  es_topics :: "(string, topic) go_map"
  es_lockDuration :: duration

record received =
  r_lockToken :: string
  r_deliveryCount :: int
  r_event :: json

record lockResult =
  l_succeeded :: "string list"
  l_failed :: "string list"

definition defaultLockDuration :: duration where "defaultLockDuration = 300 * second"

definition newEventStore :: event_store where
  "newEventStore = \<lparr>es_topics = [], es_lockDuration = defaultLockDuration\<rparr>"

definition newLockToken :: "bytes \<Rightarrow> string" where "newLockToken b = hexString b"

text \<open>A new delivery, not received yet.\<close>

definition newDelivery :: "json \<Rightarrow> delivery" where
  "newDelivery e = \<lparr>d_event = e, d_deliveryCount = 0, d_lockDeadline = zeroTime\<rparr>"

text \<open>A missing topic is created on first reference; the store keeps it.\<close>

definition getTopic :: "string \<Rightarrow> event_store \<Rightarrow> topic" where
  "getTopic name s = (case map_of (es_topics s) name of None \<Rightarrow> \<lparr>t_backlog = [], t_subs = []\<rparr> | Some t \<Rightarrow> t)"

definition setTopic :: "string \<Rightarrow> topic \<Rightarrow> event_store \<Rightarrow> event_store" where
  "setTopic name t s = s\<lparr>es_topics := AList.update name t (es_topics s)\<rparr>"

text \<open>A missing subscription is created on first reference, with everything the topic has seen.\<close>

definition getSub :: "string \<Rightarrow> topic \<Rightarrow> subscription" where
  "getSub name t =
     (case map_of (t_subs t) name of
        None \<Rightarrow> \<lparr>s_available = map newDelivery (t_backlog t), s_locked = []\<rparr>
      | Some sub \<Rightarrow> sub)"

definition setSub :: "string \<Rightarrow> string \<Rightarrow> subscription \<Rightarrow> event_store \<Rightarrow> event_store" where
  "setSub topicName subName sub s =
     (let t = getTopic topicName s
      in setTopic topicName (t\<lparr>t_subs := AList.update subName sub (t_subs t)\<rparr>) s)"

section \<open>Operations\<close>

fun publishLoop :: "json list \<Rightarrow> topic \<Rightarrow> topic" where
  "publishLoop [] t = t"
| "publishLoop (e # es) t =
     publishLoop es (t\<lparr>t_backlog := t_backlog t @ [e],
       t_subs := map (\<lambda>(k, sub). (k, sub\<lparr>s_available := s_available sub @ [newDelivery e]\<rparr>)) (t_subs t)\<rparr>)"

definition publish :: "string \<Rightarrow> json list \<Rightarrow> event_store \<Rightarrow> event_store" where
  "publish topicName events s = setTopic topicName (publishLoop events (getTopic topicName s)) s"

text \<open>The range over the locked deliveries; \<open>visit\<close> lists the entries in the order they are met.\<close>

fun sweepLoop :: "time \<Rightarrow> (string \<times> delivery) list \<Rightarrow> subscription \<Rightarrow> subscription" where
  "sweepLoop now [] sub = sub"
| "sweepLoop now ((tok, d) # visit) sub =
     sweepLoop now visit
       (if d_lockDeadline d < now
        then sub\<lparr>s_locked := AList.delete tok (s_locked sub),
                 s_available := s_available sub @ [d\<lparr>d_lockDeadline := zeroTime\<rparr>]\<rparr>
        else sub)"

type_synonym range_order = "(string \<times> delivery) list \<Rightarrow> (string \<times> delivery) list"

definition sweepExpired :: "range_order \<Rightarrow> time \<Rightarrow> subscription \<Rightarrow> subscription" where
  "sweepExpired order now sub = sweepLoop now (order (s_locked sub)) sub"

definition lockFor :: "time \<Rightarrow> delivery \<Rightarrow> delivery" where
  "lockFor deadline d = d\<lparr>d_deliveryCount := d_deliveryCount d + 1, d_lockDeadline := deadline\<rparr>"

definition receivedOf :: "string \<Rightarrow> delivery \<Rightarrow> received" where
  "receivedOf token d = \<lparr>r_lockToken = token, r_deliveryCount = d_deliveryCount d, r_event = d_event d\<rparr>"

text \<open>\<open>n\<close> events are still wanted, \<open>k\<close> have been handed out.\<close>

fun receiveLoop :: "time \<Rightarrow> (nat \<Rightarrow> bytes) \<Rightarrow> nat \<Rightarrow> nat \<Rightarrow> delivery list \<Rightarrow> (string, delivery) go_map
    \<Rightarrow> received list \<times> delivery list \<times> (string, delivery) go_map" where
  "receiveLoop deadline rand k (Suc n) (d # ds) locked =
     (let d' = lockFor deadline d; token = newLockToken (rand k) in
      case receiveLoop deadline rand (Suc k) n ds (AList.update token d' locked) of
        (out, ds', locked') \<Rightarrow> (receivedOf token d' # out, ds', locked'))"
| "receiveLoop deadline rand k n ds locked = ([], ds, locked)"

text \<open>\<open>make([]Received, 0, max)\<close> panics when the capacity asked for exceeds the address space: an
  element has 48 bytes.\<close>

definition maxAlloc :: int where "maxAlloc = 2 ^ 48"

definition makeReceived :: "int \<Rightarrow> bool" where
  "makeReceived n \<longleftrightarrow> 48 * n \<le> maxAlloc"

datatype eg_panic = MakeSlice

definition receive ::
    "range_order \<Rightarrow> time \<Rightarrow> (nat \<Rightarrow> bytes) \<Rightarrow> string \<Rightarrow> string \<Rightarrow> int \<Rightarrow> event_store
     \<Rightarrow> (eg_panic + received list) \<times> event_store" where
  "receive order now rand topicName subName maxEvents s =
     (let sub = getSub subName (getTopic topicName s);
          n = (if maxEvents \<le> 0 then 1 else maxEvents);
          swept = sweepExpired order now sub
      in if \<not> makeReceived n then (Inl MakeSlice, setSub topicName subName swept s)
         else case receiveLoop (now + es_lockDuration s) rand 0 (nat n) (s_available swept) (s_locked swept) of
                (out, ds, locked) \<Rightarrow>
                  (Inr out, setSub topicName subName \<lparr>s_available = ds, s_locked = locked\<rparr> s))"

text \<open>The tokens one by one: a known one is unlocked, then \<open>onRemove\<close> sees the delivery.\<close>

fun resolveLoop :: "(delivery \<Rightarrow> subscription \<Rightarrow> subscription) \<Rightarrow> string list \<Rightarrow> subscription
    \<Rightarrow> lockResult \<times> subscription" where
  "resolveLoop onRemove [] sub = (\<lparr>l_succeeded = [], l_failed = []\<rparr>, sub)"
| "resolveLoop onRemove (tok # toks) sub =
     (case map_of (s_locked sub) tok of
        None \<Rightarrow> (case resolveLoop onRemove toks sub of (r, sub') \<Rightarrow> (r\<lparr>l_failed := tok # l_failed r\<rparr>, sub'))
      | Some d \<Rightarrow>
          (case resolveLoop onRemove toks (onRemove d (sub\<lparr>s_locked := AList.delete tok (s_locked sub)\<rparr>)) of
             (r, sub') \<Rightarrow> (r\<lparr>l_succeeded := tok # l_succeeded r\<rparr>, sub')))"

definition resolve ::
    "string \<Rightarrow> string \<Rightarrow> string list \<Rightarrow> (delivery \<Rightarrow> subscription \<Rightarrow> subscription) \<Rightarrow> event_store
     \<Rightarrow> lockResult \<times> event_store" where
  "resolve topicName subName tokens onRemove s =
     (case resolveLoop onRemove tokens (getSub subName (getTopic topicName s)) of
        (r, sub) \<Rightarrow> (r, setSub topicName subName sub s))"

definition acknowledge :: "string \<Rightarrow> string \<Rightarrow> string list \<Rightarrow> event_store \<Rightarrow> lockResult \<times> event_store" where
  "acknowledge t u tokens = resolve t u tokens (\<lambda>_ sub. sub)"

definition reject :: "string \<Rightarrow> string \<Rightarrow> string list \<Rightarrow> event_store \<Rightarrow> lockResult \<times> event_store" where
  "reject t u tokens = resolve t u tokens (\<lambda>_ sub. sub)"

definition release :: "string \<Rightarrow> string \<Rightarrow> string list \<Rightarrow> event_store \<Rightarrow> lockResult \<times> event_store" where
  "release t u tokens = resolve t u tokens (\<lambda>d sub. sub\<lparr>s_available := s_available sub @ [d]\<rparr>)"

fun renewLoop :: "time \<Rightarrow> string list \<Rightarrow> subscription \<Rightarrow> lockResult \<times> subscription" where
  "renewLoop deadline [] sub = (\<lparr>l_succeeded = [], l_failed = []\<rparr>, sub)"
| "renewLoop deadline (tok # toks) sub =
     (case map_of (s_locked sub) tok of
        None \<Rightarrow> (case renewLoop deadline toks sub of (r, sub') \<Rightarrow> (r\<lparr>l_failed := tok # l_failed r\<rparr>, sub'))
      | Some d \<Rightarrow>
          (case renewLoop deadline toks
                  (sub\<lparr>s_locked := AList.update tok (d\<lparr>d_lockDeadline := deadline\<rparr>) (s_locked sub)\<rparr>) of
             (r, sub') \<Rightarrow> (r\<lparr>l_succeeded := tok # l_succeeded r\<rparr>, sub')))"

definition renewLocks :: "time \<Rightarrow> string \<Rightarrow> string \<Rightarrow> string list \<Rightarrow> event_store \<Rightarrow> lockResult \<times> event_store" where
  "renewLocks now t u tokens s =
     (case renewLoop (now + es_lockDuration s) tokens (getSub u (getTopic t s)) of
        (r, sub) \<Rightarrow> (r, setSub t u sub s))"

section \<open>Events on their way\<close>

text \<open>The events a subscription has, waiting or locked.\<close>

definition held :: "subscription \<Rightarrow> json multiset" where
  "held sub = mset (map d_event (s_available sub)) + mset (map (d_event \<circ> snd) (s_locked sub))"

lemma mset_delete:
  assumes "distinct_keys m" and "map_of m k = Some v"
  shows "mset m = add_mset (k, v) (mset (AList.delete k m))"
  using assms
proof (induction m)
  case (Cons x m)
  show ?case
  proof (cases "fst x = k")
    case True
    then have "k \<notin> set (map fst m)" using Cons.prems(1) by (auto simp: distinct_keys_def)
    then have "AList.delete k m = m" by (force simp: AList.delete_eq intro!: filter_True)
    then show ?thesis using True Cons.prems by (cases x) auto
  next
    case False
    then show ?thesis using Cons by (cases x) (auto simp: distinct_keys_def)
  qed
qed simp

lemma mset_events_delete:
  "distinct_keys m \<Longrightarrow> map_of m k = Some d \<Longrightarrow>
     mset (map (d_event \<circ> snd) m) = add_mset (d_event d) (mset (map (d_event \<circ> snd) (AList.delete k m)))"
  using arg_cong [OF mset_delete, of m k d "image_mset (d_event \<circ> snd)"] by simp

lemma mset_events_update:
  assumes "distinct_keys m" and "map_of m k = Some d" and "d_event d' = d_event d"
  shows "mset (map (d_event \<circ> snd) (AList.update k d' m)) = mset (map (d_event \<circ> snd) m)"
  using assms by (induction m) (auto simp: distinct_keys_def)

lemma mset_events_fresh:
  "k \<notin> set (map fst m) \<Longrightarrow>
     mset (map (d_event \<circ> snd) (AList.update k d m)) = add_mset (d_event d) (mset (map (d_event \<circ> snd) m))"
  by (simp add: alist_update_fresh)

lemma publishLoop_subs:
  "map_of (t_subs (publishLoop es t)) u =
     map_option (\<lambda>sub. sub\<lparr>s_available := s_available sub @ map newDelivery es\<rparr>) (map_of (t_subs t) u)"
  by (induction es arbitrary: t) (auto simp: map_of_map_values option.map_comp comp_def option.map_ident
      intro!: option.map_cong)

lemma publishLoop_backlog: "t_backlog (publishLoop es t) = t_backlog t @ es"
  by (induction es arbitrary: t) simp_all

lemma held_new [simp]: "held (getSub u \<lparr>t_backlog = b, t_subs = []\<rparr>) = mset b"
  by (simp add: held_def getSub_def newDelivery_def comp_def)

lemma getTopic_setTopic [store_simps]:
  "getTopic t' (setTopic t x s) = (if t' = t then x else getTopic t' s)"
  by (simp add: getTopic_def setTopic_def store_simps)

lemma getTopic_setSub [store_simps]:
  "getTopic t' (setSub t u sub s) =
     (if t' = t then (getTopic t s)\<lparr>t_subs := AList.update u sub (t_subs (getTopic t s))\<rparr> else getTopic t' s)"
  by (simp add: setSub_def Let_def store_simps)

lemma getSub_update [store_simps]:
  "getSub u' (t\<lparr>t_subs := AList.update u sub (t_subs t)\<rparr>) = (if u' = u then sub else getSub u' t)"
  by (simp add: getSub_def store_simps split: option.split)

lemma held_publish: "held (getSub u (publishLoop es t)) = held (getSub u t) + mset es"
  by (cases "map_of (t_subs t) u")
     (simp_all add: getSub_def publishLoop_subs publishLoop_backlog held_def newDelivery_def comp_def)

definition sub_ok :: "subscription \<Rightarrow> bool" where
  "sub_ok sub \<longleftrightarrow> distinct_keys (s_locked sub)"

lemma sub_ok_publish: "sub_ok (getSub u (publishLoop es t)) \<longleftrightarrow> sub_ok (getSub u t)"
  by (cases "map_of (t_subs t) u") (simp_all add: getSub_def publishLoop_subs sub_ok_def)

text \<open>Sweeping only moves events from locked to waiting.\<close>

lemma sweepLoop_held:
  "sub_ok sub \<Longrightarrow> distinct_keys visit \<Longrightarrow> \<forall>(k, d) \<in> set visit. map_of (s_locked sub) k = Some d \<Longrightarrow>
     held (sweepLoop now visit sub) = held sub \<and> sub_ok (sweepLoop now visit sub)"
proof (induction now visit sub rule: sweepLoop.induct)
  case (2 now tok d visit sub)
  let ?sub = "if d_lockDeadline d < now
        then sub\<lparr>s_locked := AList.delete tok (s_locked sub),
                 s_available := s_available sub @ [d\<lparr>d_lockDeadline := zeroTime\<rparr>]\<rparr>
        else sub"
  have d: "map_of (s_locked sub) tok = Some d" and new: "tok \<notin> fst ` set visit" "distinct_keys visit"
    using 2(3, 4) by (auto simp: distinct_keys_def)
  have "held ?sub = held sub" "sub_ok ?sub"
    using 2(2) mset_events_delete [OF _ d] by (simp_all add: held_def sub_ok_def)
  moreover have "map_of (s_locked ?sub) k = Some x" if x: "(k, x) \<in> set visit" for k x
  proof -
    have "k \<noteq> tok" using x new(1) by force
    moreover have "map_of (s_locked sub) k = Some x" using x 2(4) by auto
    ultimately show ?thesis by (simp add: store_simps)
  qed
  then have "\<forall>(k, x) \<in> set visit. map_of (s_locked ?sub) k = Some x" by blast
  ultimately show ?case using 2(1) new(2) by simp
qed simp

definition ranges :: "range_order \<Rightarrow> bool" where
  "ranges order \<longleftrightarrow> (\<forall>m. mset (order m) = mset m)"

lemma sweepExpired_held:
  assumes "ranges order" and "sub_ok sub"
  shows "held (sweepExpired order now sub) = held sub" and "sub_ok (sweepExpired order now sub)"
proof -
  let ?m = "s_locked sub"
  have same: "mset (order ?m) = mset ?m" using assms(1) by (simp add: ranges_def)
  then have "set (order ?m) = set ?m" by (metis set_mset_mset)
  moreover have "mset (map fst (order ?m)) = mset (map fst ?m)" using same by simp
  then have "distinct_keys (order ?m)"
    using assms(2) by (metis distinct_keys_def mset_eq_imp_distinct_iff sub_ok_def)
  ultimately show "held (sweepExpired order now sub) = held sub" "sub_ok (sweepExpired order now sub)"
    using sweepLoop_held [of sub "order ?m" now] assms(2)
    by (auto simp: sweepExpired_def sub_ok_def map_of_in_set)
qed

text \<open>Tokens that are not in use yet, for as many events as there are.\<close>

definition fresh_tokens :: "(nat \<Rightarrow> bytes) \<Rightarrow> nat \<Rightarrow> nat \<Rightarrow> (string, delivery) go_map \<Rightarrow> bool" where
  "fresh_tokens rand k n locked \<longleftrightarrow>
     (\<forall>i. k \<le> i \<and> i < k + n \<longrightarrow> newLockToken (rand i) \<notin> set (map fst locked) \<and>
        (\<forall>j. k \<le> j \<and> j < i \<longrightarrow> newLockToken (rand i) \<noteq> newLockToken (rand j)))"

lemma receiveLoop_held:
  "receiveLoop deadline rand k n ds locked = (out, ds', locked') \<Longrightarrow> distinct_keys locked \<Longrightarrow>
     fresh_tokens rand k (length ds) locked \<Longrightarrow>
     held \<lparr>s_available = ds', s_locked = locked'\<rparr> = held \<lparr>s_available = ds, s_locked = locked\<rparr> \<and>
     distinct_keys locked' \<and> map r_event out = map d_event (take n ds) \<and> ds' = drop n ds"
proof (induction deadline rand k n ds locked arbitrary: out ds' locked' rule: receiveLoop.induct)
  case (1 deadline rand k n d ds locked)
  let ?tok = "newLockToken (rand k)" and ?d = "lockFor deadline d"
  have fresh: "?tok \<notin> set (map fst locked)" using 1(4) by (simp add: fresh_tokens_def)
  have later: "fresh_tokens rand (Suc k) (length ds) (AList.update ?tok ?d locked)"
    using 1(4) unfolding fresh_tokens_def alist_update_keys by (auto simp: less_Suc_eq_le)
  obtain out' where rec: "receiveLoop deadline rand (Suc k) n ds (AList.update ?tok ?d locked) = (out', ds', locked')"
    and out: "out = receivedOf ?tok ?d # out'"
    using 1(2) by (auto simp: Let_def split: prod.splits)
  from 1(1) [OF refl refl rec _ later] 1(3) mset_events_fresh [OF fresh, of ?d] show ?case
    by (auto simp: out held_def lockFor_def receivedOf_def)
qed auto

text \<open>The events whose tokens are known, in the order they are resolved.\<close>

fun resolvedEvents :: "string list \<Rightarrow> (string, delivery) go_map \<Rightarrow> json multiset" where
  "resolvedEvents [] m = {#}"
| "resolvedEvents (tok # toks) m =
     (case map_of m tok of
        None \<Rightarrow> resolvedEvents toks m
      | Some d \<Rightarrow> add_mset (d_event d) (resolvedEvents toks (AList.delete tok m)))"

lemma resolveLoop_drop:
  "sub_ok sub \<Longrightarrow> resolveLoop (\<lambda>_ sub. sub) toks sub = (r, sub') \<Longrightarrow>
     held sub' + resolvedEvents toks (s_locked sub) = held sub \<and> sub_ok sub'"
proof (induction toks arbitrary: sub r sub')
  case (Cons tok toks)
  show ?case
  proof (cases "map_of (s_locked sub) tok")
    case None
    then show ?thesis using Cons by (auto split: prod.splits)
  next
    case (Some d)
    let ?sub = "sub\<lparr>s_locked := AList.delete tok (s_locked sub)\<rparr>"
    obtain r' where rec: "resolveLoop (\<lambda>_ sub. sub) toks ?sub = (r', sub')"
      using Cons.prems(2) Some by (auto split: prod.splits)
    have "sub_ok ?sub" using Cons.prems(1) by (simp add: sub_ok_def)
    from Cons.IH [OF this rec] mset_events_delete [OF _ Some] Cons.prems(1) show ?thesis
      by (simp add: Some held_def sub_ok_def)
  qed
qed simp

lemma resolveLoop_release:
  "sub_ok sub \<Longrightarrow>
     resolveLoop (\<lambda>d sub. sub\<lparr>s_available := s_available sub @ [d]\<rparr>) toks sub = (r, sub') \<Longrightarrow>
     held sub' = held sub \<and> sub_ok sub'"
proof (induction toks arbitrary: sub r sub')
  case (Cons tok toks)
  show ?case
  proof (cases "map_of (s_locked sub) tok")
    case None
    then show ?thesis using Cons by (auto split: prod.splits)
  next
    case (Some d)
    let ?sub = "sub\<lparr>s_locked := AList.delete tok (s_locked sub), s_available := s_available sub @ [d]\<rparr>"
    obtain r' where rec: "resolveLoop (\<lambda>d sub. sub\<lparr>s_available := s_available sub @ [d]\<rparr>) toks ?sub = (r', sub')"
      using Cons.prems(2) Some by (auto split: prod.splits)
    have "sub_ok ?sub" using Cons.prems(1) by (simp add: sub_ok_def)
    from Cons.IH [OF this rec] mset_events_delete [OF _ Some] Cons.prems(1) show ?thesis
      by (simp add: held_def sub_ok_def)
  qed
qed simp

lemma renewLoop_held:
  "sub_ok sub \<Longrightarrow> renewLoop deadline toks sub = (r, sub') \<Longrightarrow> held sub' = held sub \<and> sub_ok sub'"
proof (induction toks arbitrary: sub r sub')
  case (Cons tok toks)
  show ?case
  proof (cases "map_of (s_locked sub) tok")
    case None
    then show ?thesis using Cons by (auto split: prod.splits)
  next
    case (Some d)
    let ?sub = "sub\<lparr>s_locked := AList.update tok (d\<lparr>d_lockDeadline := deadline\<rparr>) (s_locked sub)\<rparr>"
    obtain r' where rec: "renewLoop deadline toks ?sub = (r', sub')"
      using Cons.prems(2) Some by (auto split: prod.splits)
    have "sub_ok ?sub" using Cons.prems(1) by (simp add: sub_ok_def)
    from Cons.IH [OF this rec] mset_events_update [OF _ Some] Cons.prems(1) show ?thesis
      by (simp add: held_def sub_ok_def)
  qed
qed simp

section \<open>Every history\<close>

text \<open>The states a store can be in, with what was published to each topic and which events each
  subscription has acknowledged or rejected.\<close>

inductive eg_reachable ::
    "event_store \<Rightarrow> (string \<Rightarrow> json list) \<Rightarrow> (string \<times> string \<Rightarrow> json multiset) \<Rightarrow> bool" where
  start: "eg_reachable newEventStore (\<lambda>_. []) (\<lambda>_. {#})"
| publish: "eg_reachable s pub gone \<Longrightarrow> eg_reachable (publish t es s) (pub(t := pub t @ es)) gone"
| receive: "eg_reachable s pub gone \<Longrightarrow> ranges order \<Longrightarrow>
    fresh_tokens rand 0 (length (s_available (sweepExpired order now (getSub u (getTopic t s)))))
      (s_locked (sweepExpired order now (getSub u (getTopic t s)))) \<Longrightarrow>
    eg_reachable (snd (receive order now rand t u n s)) pub gone"
| acknowledge: "eg_reachable s pub gone \<Longrightarrow>
    eg_reachable (snd (acknowledge t u toks s)) pub
      (gone((t, u) := gone (t, u) + resolvedEvents toks (s_locked (getSub u (getTopic t s)))))"
| reject: "eg_reachable s pub gone \<Longrightarrow>
    eg_reachable (snd (reject t u toks s)) pub
      (gone((t, u) := gone (t, u) + resolvedEvents toks (s_locked (getSub u (getTopic t s)))))"
| release: "eg_reachable s pub gone \<Longrightarrow> eg_reachable (snd (release t u toks s)) pub gone"
| renew: "eg_reachable s pub gone \<Longrightarrow> eg_reachable (snd (renewLocks now t u toks s)) pub gone"

definition accounted :: "event_store \<Rightarrow> (string \<Rightarrow> json list) \<Rightarrow> (string \<times> string \<Rightarrow> json multiset) \<Rightarrow> bool" where
  "accounted s pub gone \<longleftrightarrow>
     (\<forall>t. t_backlog (getTopic t s) = pub t \<and>
        (\<forall>u. sub_ok (getSub u (getTopic t s)) \<and>
             held (getSub u (getTopic t s)) + gone (t, u) = mset (pub t)))"

lemma accounted_setSub:
  assumes "accounted s pub gone" and "sub_ok sub" and "held sub + extra = held (getSub u (getTopic t s))"
  shows "accounted (setSub t u sub s) pub (gone((t, u) := gone (t, u) + extra))"
  using assms unfolding accounted_def
  by (auto simp: store_simps) (metis add.assoc add.commute)

lemma accounted_setSub_same:
  assumes "accounted s pub gone" and "sub_ok sub" and "held sub = held (getSub u (getTopic t s))"
  shows "accounted (setSub t u sub s) pub gone"
  using accounted_setSub [OF assms(1, 2), of "{#}"] assms(3) by (simp add: fun_upd_idem)

lemma accounted_sub: "accounted s pub gone \<Longrightarrow> sub_ok (getSub u (getTopic t s))"
  by (simp add: accounted_def)

lemma receive_state:
  assumes acc: "accounted s pub gone" and ord: "ranges order"
    and fresh: "fresh_tokens rand 0 (length (s_available (sweepExpired order now (getSub u (getTopic t s)))))
      (s_locked (sweepExpired order now (getSub u (getTopic t s))))"
  shows "accounted (snd (receive order now rand t u n s)) pub gone"
proof -
  let ?sub = "getSub u (getTopic t s)"
  let ?swept = "sweepExpired order now ?sub"
  let ?n = "nat (if n \<le> 0 then 1 else n)"
  note swept = sweepExpired_held [OF ord accounted_sub [OF acc], of now u t]
  obtain out ds locked where loop:
      "receiveLoop (now + es_lockDuration s) rand 0 ?n (s_available ?swept) (s_locked ?swept) = (out, ds, locked)"
    by (metis prod_cases3)
  have "distinct_keys (s_locked ?swept)" using swept(2) by (simp add: sub_ok_def)
  note res = receiveLoop_held [OF loop this fresh]
  have "held \<lparr>s_available = ds, s_locked = locked\<rparr> = held ?swept"
    using conjunct1 [OF res] by (simp only: held_def subscription.simps)
  moreover have "distinct_keys locked" using res by blast
  ultimately show ?thesis
    using accounted_setSub_same [OF acc] swept loop
    by (simp add: receive_def Let_def sub_ok_def)
qed

lemma drop_state:
  assumes acc: "accounted s pub gone"
  shows "accounted (snd (resolve t u toks (\<lambda>_ sub. sub) s)) pub
    (gone((t, u) := gone (t, u) + resolvedEvents toks (s_locked (getSub u (getTopic t s)))))"
proof -
  obtain r sub where loop: "resolveLoop (\<lambda>_ sub. sub) toks (getSub u (getTopic t s)) = (r, sub)" by fastforce
  from resolveLoop_drop [OF accounted_sub [OF acc] loop] show ?thesis
    using accounted_setSub [OF acc] by (simp add: resolve_def loop)
qed

text \<open>C27: In every reachable state of the Event Grid store, for every topic and every subscription (also
  one that does not exist yet) the events published to the topic are, with multiplicity, those waiting
  in the subscription, those locked in it, and those it has acknowledged or rejected: none is lost or
  duplicated, whatever is received, released, renewed or expires in between.\<close>

theorem event_conservation:
  assumes "eg_reachable s pub gone"
  shows "mset (pub t) = mset (map d_event (s_available (getSub u (getTopic t s)))) +
    mset (map (d_event \<circ> snd) (s_locked (getSub u (getTopic t s)))) + gone (t, u)"
proof -
  have "accounted s pub gone"
    using assms
  proof induction
    case start
    then show ?case by (simp add: accounted_def getTopic_def newEventStore_def sub_ok_def getSub_def held_def)
  next
    case (publish s pub gone t es)
    then show ?case
      by (auto simp: accounted_def publish_def store_simps held_publish sub_ok_publish publishLoop_backlog)
  next
    case (receive s pub gone order rand now u t n)
    then show ?case using receive_state by blast
  next
    case (acknowledge s pub gone t u toks)
    show ?case unfolding acknowledge_def by (rule drop_state) (rule acknowledge.IH)
  next
    case (reject s pub gone t u toks)
    show ?case unfolding reject_def by (rule drop_state) (rule reject.IH)
  next
    case (release s pub gone t u toks)
    then show ?case
      using resolveLoop_release [OF accounted_sub] accounted_setSub_same
      by (auto simp: release_def resolve_def split: prod.splits)
  next
    case (renew s pub gone now t u toks)
    then show ?case
      using renewLoop_held [OF accounted_sub] accounted_setSub_same
      by (auto simp: renewLocks_def split: prod.splits)
  qed
  then show ?thesis by (simp add: accounted_def held_def)
qed

theorem event_conservation_witness:
  "mset [JString ''e''] =
     mset (map d_event (s_available (getSub ''u'' (getTopic ''t'' (publish ''t'' [JString ''e''] newEventStore))))) +
     mset (map (d_event \<circ> snd) (s_locked (getSub ''u'' (getTopic ''t'' (publish ''t'' [JString ''e''] newEventStore))))) + {#}"
proof -
  have "eg_reachable (publish ''t'' [JString ''e''] newEventStore)
      ((\<lambda>_. [])(''t'' := (\<lambda>_. []) ''t'' @ [JString ''e''])) (\<lambda>_. {#})"
    by (rule eg_reachable.publish [OF eg_reachable.start])
  from event_conservation [OF this, of "''t''" "''u''"] show ?thesis by simp
qed

text \<open>What a sweep makes available: what was, then the expired entries in the order they were met.\<close>

lemma sweepLoop_available:
  "s_available (sweepLoop now visit sub) =
     s_available sub @ map (\<lambda>(_, d). d\<lparr>d_lockDeadline := zeroTime\<rparr>) (filter (\<lambda>(_, d). d_lockDeadline d < now) visit)"
  by (induction now visit sub rule: sweepLoop.induct) (auto simp: case_prod_beta)

lemma receiveLoop_all:
  "length ds \<le> n \<Longrightarrow> map r_event (fst (receiveLoop deadline rand k n ds locked)) = map d_event ds"
proof (induction ds arbitrary: k n locked)
  case (Cons d ds)
  then obtain m where "n = Suc m" "length ds \<le> m" by (cases n) auto
  then show ?case
    using Cons.IH [of m "Suc k"] by (simp add: Let_def case_prod_beta receivedOf_def lockFor_def)
qed simp

text \<open>C28: No event is stranded: a receive that asks for enough events returns everything that waits in
  the subscription and everything whose lock has expired, so an event that was received but neither
  acknowledged nor released is handed out again once its deadline has passed, and never before it.\<close>

theorem expired_locks_redelivered:
  assumes "ranges order" and "0 < n" and "makeReceived n"
    and "int (length (s_available sub) + length (s_locked sub)) \<le> n" and "sub = getSub u (getTopic t s)"
  shows "\<exists>out. fst (receive order now rand t u n s) = Inr out \<and>
    mset (map r_event out) = mset (map d_event (s_available sub)) +
      mset (map (d_event \<circ> snd) (filter (\<lambda>(_, d). d_lockDeadline d < now) (s_locked sub)))"
proof -
  let ?P = "\<lambda>(_, d). d_lockDeadline d < now"
  let ?order = "order (s_locked sub)"
  let ?swept = "sweepExpired order now sub"
  have order: "mset ?order = mset (s_locked sub)" using assms(1) by (simp add: ranges_def)
  then have len: "length ?order = length (s_locked sub)" by (metis size_mset)
  have avail: "map d_event (s_available ?swept) = map d_event (s_available sub) @ map (d_event \<circ> snd) (filter ?P ?order)"
    by (simp add: sweepExpired_def sweepLoop_available comp_def case_prod_beta)
  have "length (s_available ?swept) \<le> nat n"
    using assms(4) len length_filter_le [of ?P ?order] by (simp add: sweepExpired_def sweepLoop_available)
  then have out: "map r_event (fst (receiveLoop (now + es_lockDuration s) rand 0 (nat n) (s_available ?swept) (s_locked ?swept)))
      = map d_event (s_available ?swept)" (is "map r_event ?out = _")
    by (rule receiveLoop_all)
  have "mset (map (d_event \<circ> snd) (filter ?P ?order)) = mset (map (d_event \<circ> snd) (filter ?P (s_locked sub)))"
    by (simp only: mset_map mset_filter order)
  then have "mset (map r_event ?out) = mset (map d_event (s_available sub)) +
      mset (map (d_event \<circ> snd) (filter ?P (s_locked sub)))"
    by (simp only: out avail mset_append)
  moreover have "fst (receive order now rand t u n s) = Inr ?out"
    using assms(2, 3) by (simp add: receive_def Let_def assms(5) [symmetric] case_prod_beta)
  ultimately show ?thesis by blast
qed

theorem expired_locks_redelivered_witness:
  "\<exists>out. fst (receive (\<lambda>m. m) 500 (\<lambda>_. []) ''t'' ''u'' 5
      (setSub ''t'' ''u'' \<lparr>s_available = [newDelivery JNull], s_locked = [(''k'', lockFor 300 (newDelivery (JBool True)))]\<rparr>
        newEventStore)) = Inr out \<and>
    mset (map r_event out) = {#JBool True, JNull#}"
  using expired_locks_redelivered [of "\<lambda>m. m" 5 _ "''u''" "''t''"
      "setSub ''t'' ''u'' \<lparr>s_available = [newDelivery JNull],
         s_locked = [(''k'', lockFor 300 (newDelivery (JBool True)))]\<rparr> newEventStore" 500 "\<lambda>_. []"]
  by (simp add: ranges_def makeReceived_def maxAlloc_def store_simps newDelivery_def lockFor_def)

end
