(* ===== verification/Event_Server.thy ===== *)
theory Event_Server
  imports Event_Grid Http
begin

text \<open>
  The HTTP surface of the Event Grid namespace, \<open>internal/servers/egserver\<close>: routing of a request onto
  the operations of the store, the JSON bodies it reads and writes. A panic of the store ends the
  request without a response.
\<close>

section \<open>Bodies\<close>

definition brokerProperties :: "received \<Rightarrow> json" where
  "brokerProperties r = JObject [(''lockToken'', JString (r_lockToken r)),
     (''deliveryCount'', JNumber (itoa (r_deliveryCount r)))]"

definition receiveDetail :: "received \<Rightarrow> json" where
  "receiveDetail r = JObject [(''brokerProperties'', brokerProperties r), (''event'', r_event r)]"

definition receiveResult :: "received list \<Rightarrow> json" where
  "receiveResult rs = JObject [(''value'', JArray (map receiveDetail rs))]"

definition failedLockToken :: "string \<Rightarrow> json" where
  "failedLockToken tok = JObject [(''lockToken'', JString tok),
     (''error'', JObject [(''code'', JString ''TokenLost''),
        (''message'', JString ''The lock token is invalid or has already been resolved.'')])]"

definition lockResultJSON :: "lockResult \<Rightarrow> json" where
  "lockResultJSON r = JObject [(''succeededLockTokens'', JArray (map JString (l_succeeded r))),
     (''failedLockTokens'', JArray (map failedLockToken (l_failed r)))]"

text \<open>The body of the token operations.\<close>

definition lockTokensRequest :: "json \<Rightarrow> string list option" where
  "lockTokensRequest j = structField ''lockTokens'' (intoSlice intoString []) j []"

section \<open>Handlers\<close>

text \<open>What one request draws: the order of a range, the clock and the random bytes.\<close>

record event_env =
  env_order :: range_order
  env_now :: time
  env_rand :: "nat \<Rightarrow> bytes"

type_synonym event_reply = "(eg_panic + json response) \<times> event_store"

definition reply :: "json response \<Rightarrow> event_store \<Rightarrow> event_reply" where
  "reply r s = (Inr r, s)"

definition handlePublish :: "json request \<Rightarrow> string \<Rightarrow> event_store \<Rightarrow> event_reply" where
  "handlePublish r topic s =
     (if indexOf (headerGet r ''Content-Type'') ''batch'' \<noteq> None
      then (case rq_body r of
              Body j \<Rightarrow>
                (case intoSlice intoRaw JNull j [] of
                   None \<Rightarrow> reply (writeError 400 ''InvalidRequest'' ''Malformed CloudEvent batch.'' []) s
                 | Some events \<Rightarrow> reply (writeJSON 200 (JObject []) []) (publish topic events s))
            | _ \<Rightarrow> reply (writeError 400 ''InvalidRequest'' ''Malformed CloudEvent batch.'' []) s)
      else (case rq_body r of
              Body j \<Rightarrow> reply (writeJSON 200 (JObject []) []) (publish topic [j] s)
            | _ \<Rightarrow> reply (writeError 400 ''InvalidRequest'' ''Malformed CloudEvent.'' []) s))"

text \<open>\<open>maxEvents\<close> of the query, when it is a positive integer.\<close>

definition maxEventsOf :: "json request \<Rightarrow> int" where
  "maxEventsOf r =
     (let v = queryGet r ''maxEvents'' in
      if v = [] then 1
      else case atoi v of None \<Rightarrow> 1 | Some n \<Rightarrow> if 0 < n then n else 1)"

definition handleReceive :: "event_env \<Rightarrow> json request \<Rightarrow> string \<Rightarrow> string \<Rightarrow> event_store \<Rightarrow> event_reply" where
  "handleReceive env r topic sub s =
     (case receive (env_order env) (env_now env) (env_rand env) topic sub (maxEventsOf r) s of
        (Inl p, s1) \<Rightarrow> (Inl p, s1)
      | (Inr rs, s1) \<Rightarrow> reply (writeJSON 200 (receiveResult rs) []) s1)"

definition handleLockAction ::
    "json request \<Rightarrow> (string list \<Rightarrow> event_store \<Rightarrow> lockResult \<times> event_store) \<Rightarrow> event_store \<Rightarrow> event_reply" where
  "handleLockAction r act s =
     (case rq_body r of
        Body j \<Rightarrow>
          (case lockTokensRequest j of
             None \<Rightarrow> reply (writeError 400 ''InvalidRequest'' ''Malformed lock token request.'' []) s
           | Some tokens \<Rightarrow> (case act tokens s of (res, s1) \<Rightarrow> reply (writeJSON 200 (lockResultJSON res) []) s1))
      | _ \<Rightarrow> reply (writeError 400 ''InvalidRequest'' ''Malformed lock token request.'' []) s)"

text \<open>The paths are \<open>topics/{topic}:publish\<close> and \<open>topics/{topic}/eventsubscriptions/{sub}:{action}\<close>.\<close>

definition serveEvents :: "event_env \<Rightarrow> json request \<Rightarrow> event_store \<Rightarrow> event_reply" where
  "serveEvents env r s =
     (if rq_method r \<noteq> ''POST''
      then reply (writeError 405 ''MethodNotAllowed'' ''Only POST is supported.'' []) s
      else
        let path = trimPrefix (rq_path r) ''/'' in
        case lastIndexByte path (CHR '':'') of
          None \<Rightarrow> reply (writeError 404 ''NotFound'' ''Unknown operation.'' []) s
        | Some colon \<Rightarrow>
            let act = drop (colon + 1) path;
                segments = splitOn (CHR ''/'') (take colon path)
            in if length segments < 2 \<or> segments ! 0 \<noteq> ''topics''
               then reply (writeError 404 ''NotFound'' ''Unknown resource.'' []) s
               else let topic = segments ! 1 in
                 if act = ''publish'' then handlePublish r topic s
                 else if length segments < 4 \<or> segments ! 2 \<noteq> ''eventsubscriptions''
                 then reply (writeError 404 ''NotFound'' ''Unknown resource.'' []) s
                 else let sub = segments ! 3 in
                   if act = ''receive'' then handleReceive env r topic sub s
                   else if act = ''acknowledge'' then handleLockAction r (acknowledge topic sub) s
                   else if act = ''release'' then handleLockAction r (release topic sub) s
                   else if act = ''reject'' then handleLockAction r (reject topic sub) s
                   else if act = ''renewLock'' then handleLockAction r (renewLocks (env_now env) topic sub) s
                   else reply (writeError 404 ''NotFound'' ''Unknown operation.'' []) s)"

section \<open>Requests that are refused\<close>

definition ok_or_unchanged :: "event_store \<Rightarrow> event_reply \<Rightarrow> bool" where
  "ok_or_unchanged s = (\<lambda>(out, s'). case out of Inl p \<Rightarrow> True | Inr r \<Rightarrow> rs_status r = 200 \<or> s' = s)"

lemma refused_unchanged:
  "ok_or_unchanged s (reply (writeError st c m hs) s)" "ok_or_unchanged s (reply (writeJSON 200 j hs) s')"
  by (simp_all add: ok_or_unchanged_def reply_def writeError_def writeJSON_def)

lemma handlers_unchanged:
  "ok_or_unchanged s (handlePublish r t s)" "ok_or_unchanged s (handleReceive env r t u s)"
  "ok_or_unchanged s (handleLockAction r act s)"
  by (auto simp: handlePublish_def handleReceive_def handleLockAction_def refused_unchanged
      split: body.split option.split prod.split sum.split)
     (simp add: ok_or_unchanged_def)

text \<open>An Event Grid request that is answered with an error, whatever its method, path and body, has
  changed nothing in the store.\<close>

lemma refused_event_request:
  "ok_or_unchanged s (serveEvents env r s)"
  unfolding serveEvents_def Let_def
  by (simp add: handlers_unchanged refused_unchanged split: option.split)

section \<open>Requests that panic\<close>

definition receive_route :: "json request \<Rightarrow> bool" where
  "receive_route r \<longleftrightarrow> rq_method r = ''POST'' \<and>
     (let path = trimPrefix (rq_path r) ''/'' in
      case lastIndexByte path (CHR '':'') of
        None \<Rightarrow> False
      | Some colon \<Rightarrow>
          drop (colon + 1) path = ''receive'' \<and>
          (let segments = splitOn (CHR ''/'') (take colon path)
           in 4 \<le> length segments \<and> segments ! 0 = ''topics'' \<and> segments ! 2 = ''eventsubscriptions''))"

definition panics :: "event_reply \<Rightarrow> bool" where
  "panics x \<longleftrightarrow> (case fst x of Inl _ \<Rightarrow> True | Inr _ \<Rightarrow> False)"

lemma no_panic:
  "\<not> panics (reply x s)" "\<not> panics (handlePublish r t s)" "\<not> panics (handleLockAction r act s)"
  by (auto simp: panics_def reply_def handlePublish_def handleLockAction_def
      split: body.split option.split prod.split)

lemma receive_panics: "panics (handleReceive env r t u s) \<longleftrightarrow> 5864062014805 < maxEventsOf r"
proof -
  have "0 < maxEventsOf r" by (auto simp: maxEventsOf_def Let_def split: option.split)
  then show ?thesis
    by (auto simp: panics_def handleReceive_def receive_def makeReceived_def maxAlloc_def reply_def Let_def
        case_prod_beta)
qed

text \<open>A request makes the Event Grid handler panic exactly when it is a receive whose query asks for
  more events than a slice can be made for: one request with a large \<open>maxEvents\<close> is enough, whatever is
  in the store, and no other request panics.\<close>

lemma serve_events_panics_iff:
  "panics (serveEvents env r s) \<longleftrightarrow> receive_route r \<and> 5864062014805 < maxEventsOf r"
  unfolding serveEvents_def receive_route_def Let_def
  by (simp add: no_panic receive_panics split: option.split)

end
