(* ===== verification/Key_Vault.thy ===== *)
theory Key_Vault
  imports Go_Maps Go_Time Go_Encoding
begin

text \<open>
  The Key Vault secrets, \<open>internal/stores/keyvaultstore\<close>: vault hosts hold secrets by name, a secret its
  versions in the order they were set. The mutex is held through every operation; the clock (\<open>now\<close>) and
  the random bytes of a version are arguments. Operations return copies. The code follows pointers into
  the versions without a check; the model makes that a failure of its own, and the invariant shows it
  never happens. The file the state is written to is in \<open>Key_Snapshot\<close>.
\<close>

section \<open>Types\<close>

datatype kv_error = ErrSecretNotFound | NilDereference

record secret =
  sec_name :: string
  sec_version :: string
  sec_value :: string
  sec_contentType :: string
  sec_tags :: "(string, string) go_map"
  sec_enabled :: bool
  sec_notBefore :: "time option"
  sec_expires :: "time option"
  sec_created :: time
  sec_updated :: time

record attributes =
  at_enabled :: "bool option"
  at_notBefore :: "time option"
  at_expires :: "time option"

record secretEntry =
  se_current :: string
  se_order :: "string list"
  se_versions :: "(string, secret) go_map"

type_synonym vaults = "(string, string, secretEntry) nested"

definition emptyEntry :: secretEntry where
  "emptyEntry = \<lparr>se_current = [], se_order = [], se_versions = []\<rparr>"

definition randomVersion :: "bytes \<Rightarrow> string" where "randomVersion b = hexString b"

text \<open>An entry without versions counts as missing.\<close>

definition lookupLocked :: "string \<Rightarrow> string \<Rightarrow> vaults \<Rightarrow> kv_error + secretEntry" where
  "lookupLocked host name s =
     (case map_of s host of
        None \<Rightarrow> Inl ErrSecretNotFound
      | Some v \<Rightarrow>
          (case map_of v name of
             None \<Rightarrow> Inl ErrSecretNotFound
           | Some e \<Rightarrow> if length (se_versions e) = 0 then Inl ErrSecretNotFound else Inr e))"

text \<open>\<open>*e.Versions[version]\<close>.\<close>

definition deref :: "secretEntry \<Rightarrow> string \<Rightarrow> kv_error + secret" where
  "deref e version = (case map_of (se_versions e) version of None \<Rightarrow> Inl NilDereference | Some x \<Rightarrow> Inr x)"

section \<open>Operations\<close>

definition setSecret ::
    "time \<Rightarrow> bytes \<Rightarrow> string \<Rightarrow> string \<Rightarrow> string \<Rightarrow> string \<Rightarrow> (string, string) go_map option \<Rightarrow> attributes
     \<Rightarrow> vaults \<Rightarrow> secret \<times> vaults" where
  "setSecret now rand host name secretValue contentType tags attrs s =
     (let e = (case map_of (inner host s) name of None \<Rightarrow> emptyEntry | Some e \<Rightarrow> e);
          sec = \<lparr>sec_name = name, sec_version = randomVersion rand, sec_value = secretValue,
                 sec_contentType = contentType,
                 sec_tags = (case tags of None \<Rightarrow> [] | Some t \<Rightarrow> t),
                 sec_enabled = (case at_enabled attrs of None \<Rightarrow> True | Some b \<Rightarrow> b),
                 sec_notBefore = at_notBefore attrs, sec_expires = at_expires attrs,
                 sec_created = now, sec_updated = now\<rparr>;
          e' = \<lparr>se_current = sec_version sec, se_order = se_order e @ [sec_version sec],
                se_versions = AList.update (sec_version sec) sec (se_versions e)\<rparr>
      in (sec, update2 (host, name) e' s))"

definition getSecret :: "string \<Rightarrow> string \<Rightarrow> string \<Rightarrow> vaults \<Rightarrow> kv_error + secret" where
  "getSecret host name version s =
     (case lookupLocked host name s of
        Inl err \<Rightarrow> Inl err
      | Inr e \<Rightarrow>
          (case map_of (se_versions e) (if version = [] then se_current e else version) of
             None \<Rightarrow> Inl ErrSecretNotFound
           | Some sec \<Rightarrow> Inr sec))"

text \<open>The changes of an update: what is not given is left alone.\<close>

definition amend ::
    "time \<Rightarrow> string option \<Rightarrow> (string, string) go_map option \<Rightarrow> attributes \<Rightarrow> secret \<Rightarrow> secret" where
  "amend now contentType tags attrs sec =
     sec\<lparr>sec_contentType := (case contentType of None \<Rightarrow> sec_contentType sec | Some c \<Rightarrow> c),
         sec_tags := (case tags of None \<Rightarrow> sec_tags sec | Some t \<Rightarrow> t),
         sec_enabled := (case at_enabled attrs of None \<Rightarrow> sec_enabled sec | Some b \<Rightarrow> b),
         sec_notBefore := (case at_notBefore attrs of None \<Rightarrow> sec_notBefore sec | Some t \<Rightarrow> Some t),
         sec_expires := (case at_expires attrs of None \<Rightarrow> sec_expires sec | Some t \<Rightarrow> Some t),
         sec_updated := now\<rparr>"

definition updateSecret ::
    "time \<Rightarrow> string \<Rightarrow> string \<Rightarrow> string \<Rightarrow> string option \<Rightarrow> (string, string) go_map option \<Rightarrow> attributes
     \<Rightarrow> vaults \<Rightarrow> (kv_error + secret) \<times> vaults" where
  "updateSecret now host name version contentType tags attrs s =
     (case lookupLocked host name s of
        Inl err \<Rightarrow> (Inl err, s)
      | Inr e \<Rightarrow>
          let v = (if version = [] then se_current e else version) in
          (case map_of (se_versions e) v of
             None \<Rightarrow> (Inl ErrSecretNotFound, s)
           | Some sec \<Rightarrow>
               let sec' = amend now contentType tags attrs sec in
               (Inr sec', update2 (host, name) (e\<lparr>se_versions := AList.update v sec' (se_versions e)\<rparr>) s)))"

definition deleteSecret :: "string \<Rightarrow> string \<Rightarrow> vaults \<Rightarrow> (kv_error + secret) \<times> vaults" where
  "deleteSecret host name s =
     (case lookupLocked host name s of
        Inl err \<Rightarrow> (Inl err, s)
      | Inr e \<Rightarrow>
          (case deref e (se_current e) of
             Inl p \<Rightarrow> (Inl p, s)
           | Inr latest \<Rightarrow> (Inr latest, delete2 (host, name) s)))"

fun derefAll :: "(secretEntry \<times> string) list \<Rightarrow> kv_error + secret list" where
  "derefAll [] = Inr []"
| "derefAll ((e, v) # rest) =
     and_then (deref e v) (\<lambda>x. and_then (derefAll rest) (\<lambda>xs. Inr (x # xs)))"

definition listSecrets :: "string \<Rightarrow> vaults \<Rightarrow> kv_error + secret list" where
  "listSecrets host s =
     derefAll (map (\<lambda>n. let e = the (map_of (inner host s) n) in (e, se_current e))
       (sort (map fst (inner host s))))"

definition listVersions :: "string \<Rightarrow> string \<Rightarrow> vaults \<Rightarrow> kv_error + secret list" where
  "listVersions host name s =
     (case lookupLocked host name s of
        Inl err \<Rightarrow> Inl err
      | Inr e \<Rightarrow> derefAll (map (\<lambda>v. (e, v)) (se_order e)))"

section \<open>The invariant\<close>

text \<open>The order lists every version once, the current one last, and each version carries its own name.\<close>

definition entry_inv :: "string \<Rightarrow> secretEntry \<Rightarrow> bool" where
  "entry_inv name e \<longleftrightarrow> distinct_keys (se_versions e) \<and> distinct (se_order e) \<and> se_order e \<noteq> [] \<and>
     se_current e = last (se_order e) \<and> [] \<notin> set (se_order e) \<and>
     set (se_order e) = set (map fst (se_versions e)) \<and>
     (\<forall>(v, sec) \<in> set (se_versions e). sec_version sec = v \<and> sec_name sec = name)"

definition vaults_inv :: "vaults \<Rightarrow> bool" where
  "vaults_inv s \<longleftrightarrow> nested_ok s \<and> (\<forall>h n e. lookup2 s (h, n) = Some e \<longrightarrow> entry_inv n e)"

section \<open>The contract: a history of versions per secret\<close>

type_synonym vault_spec = "string \<times> string \<Rightarrow> secret list option"

definition history :: "secretEntry \<Rightarrow> secret list" where
  "history e = map (\<lambda>v. the (map_of (se_versions e) v)) (se_order e)"

definition vaults_abs :: "vaults \<Rightarrow> vault_spec" where
  "vaults_abs s k = map_option history (lookup2 s k)"

datatype vault_op = SetSecret string string string string "(string \<times> string) list option" attributes
  | GetSecret string string string
  | UpdateSecret string string string "string option" "(string \<times> string) list option" attributes
  | DeleteSecret string string | ListSecrets string | ListVersions string string

datatype vault_result = VError kv_error | VSecret secret | VSecrets "secret list"

definition v_result :: "('v \<Rightarrow> vault_result) \<Rightarrow> kv_error + 'v \<Rightarrow> vault_result" where
  "v_result f r = (case r of Inl e \<Rightarrow> VError e | Inr x \<Rightarrow> f x)"

fun vault_exec :: "time \<Rightarrow> bytes \<Rightarrow> vault_op \<Rightarrow> vaults \<Rightarrow> vault_result \<times> vaults" where
  "vault_exec now rand (SetSecret h n x ct tags attrs) s = apfst VSecret (setSecret now rand h n x ct tags attrs s)"
| "vault_exec now rand (GetSecret h n v) s = (v_result VSecret (getSecret h n v s), s)"
| "vault_exec now rand (UpdateSecret h n v ct tags attrs) s =
     apfst (v_result VSecret) (updateSecret now h n v ct tags attrs s)"
| "vault_exec now rand (DeleteSecret h n) s = apfst (v_result VSecret) (deleteSecret h n s)"
| "vault_exec now rand (ListSecrets h) s = (v_result VSecrets (listSecrets h s), s)"
| "vault_exec now rand (ListVersions h n) s = (v_result VSecrets (listVersions h n s), s)"

text \<open>The version a request means: the latest, or the one with that name.\<close>

definition pick :: "string \<Rightarrow> secret list \<Rightarrow> secret option" where
  "pick version hist = (if version = [] then Some (last hist) else find (\<lambda>x. sec_version x = version) hist)"

fun vault_spec :: "time \<Rightarrow> bytes \<Rightarrow> vault_op \<Rightarrow> vault_spec \<Rightarrow> vault_result \<times> vault_spec" where
  "vault_spec now rand (SetSecret h n x ct tags attrs) m =
     (let sec = \<lparr>sec_name = n, sec_version = randomVersion rand, sec_value = x, sec_contentType = ct,
                 sec_tags = (case tags of None \<Rightarrow> [] | Some t \<Rightarrow> t),
                 sec_enabled = (at_enabled attrs \<noteq> Some False),
                 sec_notBefore = at_notBefore attrs, sec_expires = at_expires attrs,
                 sec_created = now, sec_updated = now\<rparr>
      in (VSecret sec, m((h, n) \<mapsto> (case m (h, n) of None \<Rightarrow> [] | Some hist \<Rightarrow> hist) @ [sec])))"
| "vault_spec now rand (GetSecret h n v) m =
     ((case m (h, n) of
         None \<Rightarrow> VError ErrSecretNotFound
       | Some hist \<Rightarrow> (case pick v hist of None \<Rightarrow> VError ErrSecretNotFound | Some x \<Rightarrow> VSecret x)), m)"
| "vault_spec now rand (UpdateSecret h n v ct tags attrs) m =
     (case m (h, n) of
        None \<Rightarrow> (VError ErrSecretNotFound, m)
      | Some hist \<Rightarrow>
          (case pick v hist of
             None \<Rightarrow> (VError ErrSecretNotFound, m)
           | Some x \<Rightarrow>
               (VSecret (amend now ct tags attrs x),
                m((h, n) \<mapsto> map (\<lambda>y. if y = x then amend now ct tags attrs x else y) hist))))"
| "vault_spec now rand (DeleteSecret h n) m =
     (case m (h, n) of
        None \<Rightarrow> (VError ErrSecretNotFound, m)
      | Some hist \<Rightarrow> (VSecret (last hist), m((h, n) := None)))"
| "vault_spec now rand (ListSecrets h) m =
     (VSecrets (map (\<lambda>n. last (the (m (h, n)))) (sorted_list_of_set {n. m (h, n) \<noteq> None})), m)"
| "vault_spec now rand (ListVersions h n) m =
     ((case m (h, n) of None \<Rightarrow> VError ErrSecretNotFound | Some hist \<Rightarrow> VSecrets hist), m)"

text \<open>The version drawn is new to the secret it is set on.\<close>

fun fresh_version :: "bytes \<Rightarrow> vault_op \<Rightarrow> vault_spec \<Rightarrow> bool" where
  "fresh_version rand (SetSecret h n _ _ _ _) m =
     (rand \<noteq> [] \<and> (case m (h, n) of None \<Rightarrow> True | Some hist \<Rightarrow> randomVersion rand \<notin> sec_version ` set hist))"
| "fresh_version rand _ m = True"

section \<open>The store meets the contract\<close>

lemma vault_lookup_eq:
  assumes "vaults_inv s"
  shows "lookupLocked h n s = (case lookup2 s (h, n) of None \<Rightarrow> Inl ErrSecretNotFound | Some e \<Rightarrow> Inr e)"
proof -
  have "se_versions e \<noteq> []" if "lookup2 s (h, n) = Some e" for e
  proof -
    have "entry_inv n e" using assms that by (simp add: vaults_inv_def)
    then show ?thesis by (auto simp: entry_inv_def)
  qed
  then show ?thesis
    by (auto simp: lookupLocked_def lookup2_def inner_def split: option.splits)
qed

lemma entry_version:
  assumes "entry_inv n e"
  shows "map_of (se_versions e) v = find (\<lambda>x. sec_version x = v) (history e)"
    and "v \<in> set (se_order e) \<Longrightarrow> \<exists>x. map_of (se_versions e) v = Some x \<and> sec_version x = v \<and> sec_name x = n"
proof -
  have found: "\<exists>x. map_of (se_versions e) v = Some x \<and> sec_version x = v \<and> sec_name x = n"
    if v: "v \<in> set (se_order e)" for v
  proof -
    have "map_of (se_versions e) v \<noteq> None" using assms v by (simp add: entry_inv_def map_of_eq_None_iff)
    then obtain x where x: "map_of (se_versions e) v = Some x" by blast
    then have "(v, x) \<in> set (se_versions e)" by (rule map_of_SomeD)
    then show ?thesis using x assms by (auto simp: entry_inv_def)
  qed
  then show "v \<in> set (se_order e) \<Longrightarrow> \<exists>x. map_of (se_versions e) v = Some x \<and> sec_version x = v \<and> sec_name x = n" .
  have "find (\<lambda>x. sec_version x = v) (map (\<lambda>u. the (map_of (se_versions e) u)) us) =
      (if v \<in> set us then map_of (se_versions e) v else None)" if "set us \<subseteq> set (se_order e)" for us
    using that
  proof (induction us)
    case (Cons u us)
    obtain x where "map_of (se_versions e) u = Some x" "sec_version x = u" using found [of u] Cons.prems by auto
    then show ?case using Cons by auto
  qed simp
  from this [of "se_order e"] show "map_of (se_versions e) v = find (\<lambda>x. sec_version x = v) (history e)"
    using assms by (auto simp: history_def entry_inv_def map_of_eq_None_iff)
qed

lemma history_facts:
  assumes "entry_inv n e"
  shows "history e \<noteq> []" and "map sec_version (history e) = se_order e"
    and "map_of (se_versions e) (se_current e) = Some (last (history e))"
proof -
  have order: "se_order e \<noteq> []" "se_current e = last (se_order e)" using assms by (simp_all add: entry_inv_def)
  show "history e \<noteq> []" using order by (simp add: history_def)
  show "map sec_version (history e) = se_order e"
    using entry_version(2) [OF assms] by (force simp: history_def intro!: map_idI)
  obtain x where "map_of (se_versions e) (se_current e) = Some x"
    using entry_version(2) [OF assms, of "se_current e"] order by auto
  then show "map_of (se_versions e) (se_current e) = Some (last (history e))"
    using order by (simp add: history_def last_map)
qed

lemma pick_eq:
  assumes "entry_inv n e"
  shows "map_of (se_versions e) (if v = [] then se_current e else v) = pick v (history e)"
  using entry_version(1) [OF assms] history_facts(3) [OF assms] by (simp add: pick_def)

lemma derefAll_eq:
  "\<forall>(e, v) \<in> set xs. map_of (se_versions e) v \<noteq> None \<Longrightarrow>
     derefAll xs = Inr (map (\<lambda>(e, v). the (map_of (se_versions e) v)) xs)"
  by (induction xs rule: derefAll.induct) (auto simp: deref_def)

text \<open>Storing an entry keeps the invariant and its history is what the contract sees.\<close>

lemma vaults_put:
  assumes "vaults_inv s" and "entry_inv n e"
  shows "vaults_inv (update2 (h, n) e s)" and "vaults_abs (update2 (h, n) e s) = (vaults_abs s)((h, n) \<mapsto> history e)"
  using assms by (auto simp: vaults_inv_def vaults_abs_def store_simps inv_intros fun_eq_iff)

lemma abs_found: "lookup2 s k = Some e \<Longrightarrow> vaults_abs s k = Some (history e)"
  and abs_missing: "lookup2 s k = None \<Longrightarrow> vaults_abs s k = None"
  by (simp_all add: vaults_abs_def)

definition meets :: "vault_result \<times> vaults \<Rightarrow> vault_result \<times> vault_spec \<Rightarrow> bool" where
  "meets = (\<lambda>(r, s) (r', m). r = r' \<and> vaults_inv s \<and> vaults_abs s = m)"

lemma new_version:
  assumes inv: "entry_inv n e \<or> e = emptyEntry" and v: "v \<noteq> []" "v \<notin> set (se_order e)"
    and sec: "sec_version sec = v" "sec_name sec = n"
  defines "e' \<equiv> \<lparr>se_current = v, se_order = se_order e @ [v], se_versions = AList.update v sec (se_versions e)\<rparr>"
  shows "entry_inv n e'" and "history e' = history e @ [sec]"
proof -
  have e: "distinct_keys (se_versions e)" "distinct (se_order e)" "[] \<notin> set (se_order e)"
    "set (se_order e) = set (map fst (se_versions e))"
    "\<forall>(v, sec) \<in> set (se_versions e). sec_version sec = v \<and> sec_name sec = n"
    using inv by (auto simp: entry_inv_def emptyEntry_def)
  then have fresh: "v \<notin> set (map fst (se_versions e))" using v(2) by simp
  show "entry_inv n e'"
    using e v sec by (auto simp: entry_inv_def e'_def alist_update_fresh [OF fresh] distinct_keys_def)
  show "history e' = history e @ [sec]"
    using v(2) by (auto simp: history_def e'_def store_simps intro!: map_cong)
qed

lemma set_meets:
  assumes inv: "vaults_inv s" and fresh: "fresh_version rand (SetSecret h n x ct tags attrs) (vaults_abs s)"
  shows "meets (vault_exec now rand (SetSecret h n x ct tags attrs) s)
    (vault_spec now rand (SetSecret h n x ct tags attrs) (vaults_abs s))"
proof -
  let ?e = "case lookup2 s (h, n) of None \<Rightarrow> emptyEntry | Some e \<Rightarrow> e"
  let ?v = "randomVersion rand"
  let ?sec = "\<lparr>sec_name = n, sec_version = ?v, sec_value = x, sec_contentType = ct,
    sec_tags = (case tags of None \<Rightarrow> [] | Some t \<Rightarrow> t), sec_enabled = (at_enabled attrs \<noteq> Some False),
    sec_notBefore = at_notBefore attrs, sec_expires = at_expires attrs, sec_created = now, sec_updated = now\<rparr>"
  let ?e' = "\<lparr>se_current = ?v, se_order = se_order ?e @ [?v], se_versions = AList.update ?v ?sec (se_versions ?e)\<rparr>"
  have entry: "entry_inv n ?e \<or> ?e = emptyEntry"
    using inv by (cases "lookup2 s (h, n)") (auto simp: vaults_inv_def)
  have "?v \<noteq> []" using fresh hexString_not_Nil by (simp add: randomVersion_def)
  moreover have "?v \<notin> set (se_order ?e)"
  proof (cases "lookup2 s (h, n)")
    case (Some e)
    then have "entry_inv n e" using inv by (simp add: vaults_inv_def)
    then have "set (se_order e) = sec_version ` set (history e)"
      using history_facts(2) [of n e] by (metis list.set_map)
    then show ?thesis using fresh Some by (simp add: abs_found)
  qed (simp add: emptyEntry_def)
  ultimately have new: "entry_inv n ?e'" "history ?e' = history ?e @ [?sec]"
    using new_version [OF entry, of ?v ?sec] by simp_all
  have old: "(case vaults_abs s (h, n) of None \<Rightarrow> [] | Some hist \<Rightarrow> hist) = history ?e"
    by (cases "lookup2 s (h, n)") (simp_all add: abs_found abs_missing history_def emptyEntry_def)
  have enabled: "(case at_enabled attrs of None \<Rightarrow> True | Some b \<Rightarrow> b) \<longleftrightarrow> at_enabled attrs \<noteq> Some False"
    by (auto split: option.split)
  have "setSecret now rand h n x ct tags attrs s = (?sec, update2 (h, n) ?e' s)"
    by (simp add: setSecret_def Let_def enabled lookup2_def)
  then show ?thesis
    using vaults_put [OF inv new(1), of h] by (simp add: meets_def new(2) old Let_def)
qed

lemma update_history:
  assumes inv: "entry_inv n e" and x: "map_of (se_versions e) v = Some x"
    and same: "sec_version y = sec_version x" "sec_name y = sec_name x"
  defines "e' \<equiv> e\<lparr>se_versions := AList.update v y (se_versions e)\<rparr>"
  shows "entry_inv n e'" and "history e' = map (\<lambda>z. if z = x then y else z) (history e)"
proof -
  have xv: "(v, x) \<in> set (se_versions e)" using x by (rule map_of_SomeD)
  moreover have "\<forall>(v, sec) \<in> set (se_versions e). sec_version sec = v \<and> sec_name sec = n"
    using inv unfolding entry_inv_def by blast
  ultimately have v: "sec_version x = v" by blast
  have "v \<in> set (map fst (se_versions e))" using xv by force
  then have keys: "map fst (AList.update v y (se_versions e)) = map fst (se_versions e)"
    by (simp add: update_keys)
  have "\<forall>(u, sec) \<in> set (AList.update v y (se_versions e)). sec_version sec = u \<and> sec_name sec = n"
    using set_update_subset [of v y "se_versions e"] inv same v xv by (fastforce simp: entry_inv_def)
  then show "entry_inv n e'"
    using inv arg_cong [OF keys, of set] unfolding entry_inv_def e'_def by (auto simp: distinct_keys_def keys)
  have "(if the (map_of (se_versions e) u) = x then y else the (map_of (se_versions e) u)) =
      (if u = v then y else the (map_of (se_versions e) u))" if "u \<in> set (se_order e)" for u
    using entry_version(2) [OF inv that] v x by auto
  then show "history e' = map (\<lambda>z. if z = x then y else z) (history e)"
    by (auto simp: history_def e'_def store_simps intro!: map_cong)
qed

lemma amend_keeps [simp]: "sec_version (amend now ct tags attrs x) = sec_version x"
  "sec_name (amend now ct tags attrs x) = sec_name x"
  by (simp_all add: amend_def)

lemma update_meets:
  assumes inv: "vaults_inv s"
  shows "meets (vault_exec now rand (UpdateSecret h n v ct tags attrs) s)
    (vault_spec now rand (UpdateSecret h n v ct tags attrs) (vaults_abs s))"
proof (cases "lookup2 s (h, n)")
  case None
  then show ?thesis using inv by (simp add: meets_def updateSecret_def vault_lookup_eq abs_missing v_result_def)
next
  case (Some e)
  then have e: "entry_inv n e" using inv by (simp add: vaults_inv_def)
  let ?u = "if v = [] then se_current e else v"
  show ?thesis
  proof (cases "pick v (history e)")
    case None
    then show ?thesis
      using inv Some pick_eq [OF e, of v]
      by (simp add: meets_def updateSecret_def vault_lookup_eq abs_found v_result_def Let_def)
  next
    case (Some x)
    let ?y = "amend now ct tags attrs x"
    have x: "map_of (se_versions e) ?u = Some x" using pick_eq [OF e, of v] Some by simp
    from update_history [OF e x, of ?y] have
      "entry_inv n (e\<lparr>se_versions := AList.update ?u ?y (se_versions e)\<rparr>)"
      "history (e\<lparr>se_versions := AList.update ?u ?y (se_versions e)\<rparr>) = map (\<lambda>z. if z = x then ?y else z) (history e)"
      by simp_all
    note put = vaults_put [OF inv this(1), of h] this(2)
    have "updateSecret now h n v ct tags attrs s =
        (Inr ?y, update2 (h, n) (e\<lparr>se_versions := AList.update ?u ?y (se_versions e)\<rparr>) s)"
      using x \<open>lookup2 s (h, n) = Some e\<close> by (simp add: updateSecret_def vault_lookup_eq [OF inv] Let_def)
    then show ?thesis
      using put Some \<open>lookup2 s (h, n) = Some e\<close> by (simp add: meets_def v_result_def abs_found)
  qed
qed

lemma delete_meets:
  assumes inv: "vaults_inv s"
  shows "meets (vault_exec now rand (DeleteSecret h n) s) (vault_spec now rand (DeleteSecret h n) (vaults_abs s))"
proof (cases "lookup2 s (h, n)")
  case None
  then show ?thesis using inv by (simp add: meets_def deleteSecret_def vault_lookup_eq abs_missing v_result_def)
next
  case (Some e)
  then have "entry_inv n e" using inv by (simp add: vaults_inv_def)
  then show ?thesis
    using inv Some history_facts(3) [of n e]
    by (auto simp: meets_def deleteSecret_def vault_lookup_eq abs_found v_result_def deref_def vaults_inv_def
        vaults_abs_def store_simps inv_intros fun_eq_iff)
qed

lemma get_meets:
  assumes inv: "vaults_inv s"
  shows "meets (vault_exec now rand (GetSecret h n v) s) (vault_spec now rand (GetSecret h n v) (vaults_abs s))"
proof (cases "lookup2 s (h, n)")
  case None
  then show ?thesis using inv by (simp add: meets_def getSecret_def vault_lookup_eq abs_missing v_result_def)
next
  case (Some e)
  then have "entry_inv n e" using inv by (simp add: vaults_inv_def)
  from pick_eq [OF this, of v] show ?thesis
    using inv Some
    by (cases "pick v (history e)")
       (simp_all add: meets_def getSecret_def vault_lookup_eq abs_found v_result_def)
qed

lemma listVersions_meets:
  assumes inv: "vaults_inv s"
  shows "meets (vault_exec now rand (ListVersions h n) s) (vault_spec now rand (ListVersions h n) (vaults_abs s))"
proof (cases "lookup2 s (h, n)")
  case None
  then show ?thesis using inv by (simp add: meets_def listVersions_def vault_lookup_eq abs_missing v_result_def)
next
  case (Some e)
  then have "entry_inv n e" using inv by (simp add: vaults_inv_def)
  then have "derefAll (map (\<lambda>v. (e, v)) (se_order e)) = Inr (history e)"
    using entry_version(2) [of n e] by (subst derefAll_eq) (auto simp: history_def)
  then show ?thesis
    using inv Some by (simp add: meets_def listVersions_def vault_lookup_eq abs_found v_result_def)
qed

lemma listSecrets_meets:
  assumes inv: "vaults_inv s"
  shows "meets (vault_exec now rand (ListSecrets h) s) (vault_spec now rand (ListSecrets h) (vaults_abs s))"
proof -
  let ?names = "sort (map fst (inner h s))"
  have keys: "distinct_keys (inner h s)" using inv by (simp add: vaults_inv_def nested_ok_def)
  have "{n. vaults_abs s (h, n) \<noteq> None} = set (map fst (inner h s))"
    using sorted_keys [OF keys] by (simp add: vaults_abs_def lookup2_def del: list.set_map)
  moreover have "distinct (map fst (inner h s))" using keys by (simp add: distinct_keys_def)
  ultimately have names: "?names = sorted_list_of_set {n. vaults_abs s (h, n) \<noteq> None}"
    by (simp only: sorted_list_of_set_sort_remdups distinct_remdups_id)
  have entry: "\<exists>e. map_of (inner h s) n = Some e \<and> entry_inv n e \<and> vaults_abs s (h, n) = Some (history e)"
    if n: "n \<in> set ?names" for n
  proof -
    obtain e where "(n, e) \<in> set (inner h s)" using n by auto
    then have "lookup2 s (h, n) = Some e" by (simp add: lookup2_def map_of_in_set [OF keys])
    then show ?thesis using inv by (auto simp: vaults_inv_def vaults_abs_def lookup2_def)
  qed
  let ?xs = "map (\<lambda>n. let e = the (map_of (inner h s) n) in (e, se_current e)) ?names"
  have "\<forall>(e, v) \<in> set ?xs. map_of (se_versions e) v \<noteq> None"
    using entry history_facts(3) by (fastforce simp: Let_def)
  from derefAll_eq [OF this] have "listSecrets h s = Inr (map (\<lambda>n. last (the (vaults_abs s (h, n)))) ?names)"
    using entry history_facts(3) by (fastforce simp: listSecrets_def Let_def)
  then show ?thesis using inv unfolding names by (simp add: meets_def v_result_def)
qed

text \<open>C29: Every Key Vault operation, on every branch, implements the history of versions of each
  secret: setting appends, the empty version means the latest, an update changes one version in place
  and never its value, deleting removes the history, listings are sorted. The invariant is kept, so the
  unchecked pointers into the versions are never nil.\<close>

theorem key_vault_refines:
  assumes "vaults_inv s" and "fresh_version rand op (vaults_abs s)" and "vault_exec now rand op s = (r, s')"
  shows "vaults_inv s' \<and> vault_spec now rand op (vaults_abs s) = (r, vaults_abs s') \<and> r \<noteq> VError NilDereference"
proof -
  have "meets (vault_exec now rand op s) (vault_spec now rand op (vaults_abs s))"
    using assms(1, 2)
    by (cases op) (simp_all only: set_meets update_meets delete_meets get_meets listVersions_meets listSecrets_meets)
  moreover have "fst (vault_spec now rand op m) \<noteq> VError NilDereference" for m
    by (cases op) (auto simp: Let_def split: option.splits)
  ultimately show ?thesis using assms(3) by (auto simp: meets_def split: prod.splits) (metis fst_conv)
qed

theorem key_vault_refines_witness:
  "\<exists>r s'. vault_exec 7 [1, 2] (SetSecret ''vault'' ''db'' ''pw'' [] None
        \<lparr>at_enabled = None, at_notBefore = None, at_expires = None\<rparr>) [] = (r, s') \<and>
     vaults_inv s' \<and> vaults_abs s' (''vault'', ''db'') \<noteq> None"
proof -
  let ?op = "SetSecret ''vault'' ''db'' ''pw'' [] None \<lparr>at_enabled = None, at_notBefore = None, at_expires = None\<rparr>"
  obtain r s' where run: "vault_exec 7 [1, 2] ?op [] = (r, s')" by fastforce
  have "vaults_inv []" by (simp add: vaults_inv_def lookup2_def)
  moreover have "fresh_version [1, 2] ?op (vaults_abs [])" by (simp add: vaults_abs_def lookup2_def)
  ultimately have "vaults_inv s' \<and> vault_spec 7 [1, 2] ?op (vaults_abs []) = (r, vaults_abs s') \<and> r \<noteq> VError NilDereference"
    using run by (rule key_vault_refines)
  then have "vaults_inv s'" "vaults_abs s' = snd (vault_spec 7 [1, 2] ?op (vaults_abs []))" by auto
  then have "vaults_inv s' \<and> vaults_abs s' (''vault'', ''db'') \<noteq> None" by (simp add: Let_def)
  then show ?thesis using run by blast
qed

end
