(* ===== verification/Key_Server.thy ===== *)
theory Key_Server
  imports Key_Vault Http
begin

text \<open>
  The HTTP surface of Key Vault secrets, \<open>internal/servers/kvserver\<close>: the authentication challenge,
  routing, JSON bodies. Reading a body fails when it is not JSON, empty, or longer than the limit.
\<close>

section \<open>Paths\<close>

text \<open>\<open>url.PathUnescape\<close>.\<close>

definition hexValue :: "char \<Rightarrow> nat option" where
  "hexValue c =
     (let n = (of_char c :: nat) in
      if 48 \<le> n \<and> n \<le> 57 then Some (n - 48)
      else if 97 \<le> n \<and> n \<le> 102 then Some (n - 87)
      else if 65 \<le> n \<and> n \<le> 70 then Some (n - 55)
      else None)"

fun pathUnescape :: "string \<Rightarrow> string option" where
  "pathUnescape [] = Some []"
| "pathUnescape (c # s) =
     (if c \<noteq> CHR ''%'' then map_option ((#) c) (pathUnescape s)
      else case s of
             a # b # rest \<Rightarrow>
               (case (hexValue a, hexValue b) of
                  (Some x, Some y) \<Rightarrow> map_option ((#) (char_of (16 * x + y))) (pathUnescape rest)
                | _ \<Rightarrow> None)
           | _ \<Rightarrow> None)"

section \<open>Request bodies\<close>

record attributesBody =
  ab_enabled :: "bool option"
  ab_notBefore :: "int option"
  ab_expires :: "int option"

record setSecretRequest =
  ss_value :: string
  ss_contentType :: string
  ss_tags :: "(string \<times> string) list option"
  ss_attributes :: "attributesBody option"

record updateSecretRequest =
  us_contentType :: "string option"
  us_tags :: "(string \<times> string) list option"
  us_attributes :: "attributesBody option"

definition noAttributes :: attributesBody where
  "noAttributes = \<lparr>ab_enabled = None, ab_notBefore = None, ab_expires = None\<rparr>"

definition intoAttributes :: "json \<Rightarrow> attributesBody \<Rightarrow> attributesBody option" where
  "intoAttributes j a =
     (case (structField ''enabled'' (intoPointer intoBool False) j (ab_enabled a),
            structField ''nbf'' (intoPointer intoInt64 0) j (ab_notBefore a),
            structField ''exp'' (intoPointer intoInt64 0) j (ab_expires a)) of
        (Some e, Some n, Some x) \<Rightarrow> Some \<lparr>ab_enabled = e, ab_notBefore = n, ab_expires = x\<rparr>
      | _ \<Rightarrow> None)"

definition decodeSetSecret :: "json \<Rightarrow> setSecretRequest option" where
  "decodeSetSecret j =
     (case (structField ''value'' intoString j [], structField ''contentType'' intoString j [],
            structField ''tags'' (intoMap intoString []) j None,
            structField ''attributes'' (intoPointer intoAttributes noAttributes) j None) of
        (Some v, Some c, Some t, Some a) \<Rightarrow>
          Some \<lparr>ss_value = v, ss_contentType = c, ss_tags = t, ss_attributes = a\<rparr>
      | _ \<Rightarrow> None)"

definition decodeUpdateSecret :: "json \<Rightarrow> updateSecretRequest option" where
  "decodeUpdateSecret j =
     (case (structField ''contentType'' (intoPointer intoString []) j None,
            structField ''tags'' (intoMap intoString []) j None,
            structField ''attributes'' (intoPointer intoAttributes noAttributes) j None) of
        (Some c, Some t, Some a) \<Rightarrow> Some \<lparr>us_contentType = c, us_tags = t, us_attributes = a\<rparr>
      | _ \<Rightarrow> None)"

definition toAttributes :: "attributesBody option \<Rightarrow> attributes" where
  "toAttributes b =
     (case b of
        None \<Rightarrow> \<lparr>at_enabled = None, at_notBefore = None, at_expires = None\<rparr>
      | Some a \<Rightarrow> \<lparr>at_enabled = ab_enabled a, at_notBefore = map_option (\<lambda>n. n * second) (ab_notBefore a),
                  at_expires = map_option (\<lambda>n. n * second) (ab_expires a)\<rparr>)"

section \<open>Response bodies\<close>

definition omitInt :: "string \<Rightarrow> int \<Rightarrow> (string \<times> json) list" where
  "omitInt k n = (if n = 0 then [] else [(k, JNumber (itoa n))])"

definition omitPointer :: "string \<Rightarrow> int option \<Rightarrow> (string \<times> json) list" where
  "omitPointer k p = (case p of None \<Rightarrow> [] | Some n \<Rightarrow> [(k, JNumber (itoa n))])"

definition unixSeconds :: "time \<Rightarrow> int" where "unixSeconds t = t div second"

definition recoveryLevel :: string where "recoveryLevel = ''Purgeable''"

definition attributesOf :: "secret \<Rightarrow> json" where
  "attributesOf sec = JObject
     ([(''enabled'', JBool (sec_enabled sec))] @
      omitInt ''created'' (unixSeconds (sec_created sec)) @ omitInt ''updated'' (unixSeconds (sec_updated sec)) @
      omitPointer ''nbf'' (map_option unixSeconds (sec_notBefore sec)) @
      omitPointer ''exp'' (map_option unixSeconds (sec_expires sec)) @
      [(''recoveryLevel'', JString recoveryLevel)])"

definition secretID :: "string \<Rightarrow> string \<Rightarrow> string \<Rightarrow> string" where
  "secretID base name version = base @ ''/secrets/'' @ name @ ''/'' @ version"

definition bundleMembers :: "string \<Rightarrow> secret \<Rightarrow> bool \<Rightarrow> (string \<times> json) list" where
  "bundleMembers base sec withValue =
     omitString ''id'' (secretID base (sec_name sec) (sec_version sec)) @
     (if withValue then omitString ''value'' (sec_value sec) else []) @
     omitString ''contentType'' (sec_contentType sec) @ [(''attributes'', attributesOf sec)] @
     (if sec_tags sec = [] then []
      else [(''tags'', JObject (map (apsnd JString) (sort_key fst (sec_tags sec))))])"

definition bundleOf :: "string \<Rightarrow> secret \<Rightarrow> bool \<Rightarrow> json" where
  "bundleOf base sec withValue = JObject (bundleMembers base sec withValue)"

definition deletedBundle :: "string \<Rightarrow> string \<Rightarrow> secret \<Rightarrow> json" where
  "deletedBundle base name sec =
     JObject (bundleMembers base sec True @ omitString ''recoveryId'' (base @ ''/deletedsecrets/'' @ name))"

definition secretListResult :: "json list \<Rightarrow> json" where
  "secretListResult items = JObject [(''value'', JArray items), (''nextLink'', JNull)]"

section \<open>Handlers\<close>

text \<open>A panic of the store ends the request; what the request draws is the clock and a version.\<close>

record vault_env =
  ve_now :: time
  ve_rand :: bytes

type_synonym vault_reply = "(kv_error + json response) \<times> vaults"

definition writeSecretNotFound :: "string \<Rightarrow> json response" where
  "writeSecretNotFound name =
     writeError 404 ''SecretNotFound'' (''A secret with (name/id) '' @ name @ '' was not found in this key vault.'') []"

text \<open>The store's error is always answered with not found; only a panic is not an error.\<close>

definition kv_reply :: "string \<Rightarrow> ('v \<Rightarrow> json response) \<Rightarrow> kv_error + 'v \<Rightarrow> kv_error + json response" where
  "kv_reply name f r =
     (case r of Inl NilDereference \<Rightarrow> Inl NilDereference | Inl ErrSecretNotFound \<Rightarrow> Inr (writeSecretNotFound name)
      | Inr x \<Rightarrow> Inr (f x))"

definition decodeBody :: "json body \<Rightarrow> (json \<Rightarrow> 'r option) \<Rightarrow> json response + 'r" where
  "decodeBody b decode =
     (let malformed = writeError 400 ''BadParameter'' ''Request body is not valid JSON.'' [] in
      case b of
        BodyTooLarge \<Rightarrow> Inl (writeError 413 ''RequestEntityTooLarge'' ''Request body is too large.'' [])
      | Body j \<Rightarrow> (case decode j of None \<Rightarrow> Inl malformed | Some r \<Rightarrow> Inr r)
      | _ \<Rightarrow> Inl malformed)"

definition handleSet :: "vault_env \<Rightarrow> json request \<Rightarrow> string \<Rightarrow> vaults \<Rightarrow> vault_reply" where
  "handleSet env r name s =
     (case decodeBody (rq_body r) decodeSetSecret of
        Inl e \<Rightarrow> (Inr e, s)
      | Inr req \<Rightarrow>
          (case setSecret (ve_now env) (ve_rand env) (rq_host r) name (ss_value req) (ss_contentType req)
                  (ss_tags req) (toAttributes (ss_attributes req)) s of
             (sec, s1) \<Rightarrow> (Inr (writeJSON 200 (bundleOf (''https://'' @ rq_host r) sec True) []), s1)))"

definition handleGet :: "json request \<Rightarrow> string \<Rightarrow> string \<Rightarrow> vaults \<Rightarrow> vault_reply" where
  "handleGet r name version s =
     (kv_reply name (\<lambda>sec. writeJSON 200 (bundleOf (''https://'' @ rq_host r) sec True) [])
        (getSecret (rq_host r) name version s), s)"

definition handleUpdate :: "vault_env \<Rightarrow> json request \<Rightarrow> string \<Rightarrow> string \<Rightarrow> vaults \<Rightarrow> vault_reply" where
  "handleUpdate env r name version s =
     (case decodeBody (rq_body r) decodeUpdateSecret of
        Inl e \<Rightarrow> (Inr e, s)
      | Inr req \<Rightarrow>
          apfst (kv_reply name (\<lambda>sec. writeJSON 200 (bundleOf (''https://'' @ rq_host r) sec False) []))
            (updateSecret (ve_now env) (rq_host r) name version (us_contentType req) (us_tags req)
               (toAttributes (us_attributes req)) s))"

definition handleDelete :: "json request \<Rightarrow> string \<Rightarrow> vaults \<Rightarrow> vault_reply" where
  "handleDelete r name s =
     apfst (kv_reply name (\<lambda>sec. writeJSON 200 (deletedBundle (''https://'' @ rq_host r) name sec) []))
       (deleteSecret (rq_host r) name s)"

definition handleList :: "json request \<Rightarrow> vaults \<Rightarrow> vault_reply" where
  "handleList r s =
     (kv_reply [] (\<lambda>secs. writeJSON 200
          (secretListResult (map (\<lambda>x. bundleOf (''https://'' @ rq_host r) x False) secs)) [])
        (listSecrets (rq_host r) s), s)"

definition handleVersions :: "json request \<Rightarrow> string \<Rightarrow> vaults \<Rightarrow> vault_reply" where
  "handleVersions r name s =
     (kv_reply name (\<lambda>secs. writeJSON 200
          (secretListResult (map (\<lambda>x. bundleOf (''https://'' @ rq_host r) x False) secs)) [])
        (listVersions (rq_host r) name s), s)"

definition routeSecrets :: "vault_env \<Rightarrow> json request \<Rightarrow> vaults \<Rightarrow> vault_reply" where
  "routeSecrets env r s =
     (let segments = splitOn (CHR ''/'') (trimSlashes (rq_path r));
          unknown = (Inr (writeError 404 ''NotFound'' ''Unknown operation.'' []), s);
          n = length segments; meth = rq_method r
      in if segments ! 0 \<noteq> ''secrets'' then unknown
         else case (if 2 \<le> n then pathUnescape (segments ! 1) else Some []) of
                None \<Rightarrow> (Inr (writeError 400 ''BadParameter'' ''Invalid secret name.'' []), s)
              | Some name \<Rightarrow>
                  if n = 1 \<and> meth = ''GET'' then handleList r s
                  else if n = 2 \<and> meth = ''PUT'' then handleSet env r name s
                  else if n = 2 \<and> meth = ''GET'' then handleGet r name [] s
                  else if n = 2 \<and> meth = ''PATCH'' then handleUpdate env r name [] s
                  else if n = 2 \<and> meth = ''DELETE'' then handleDelete r name s
                  else if n = 3 \<and> segments ! 2 = ''versions'' \<and> meth = ''GET'' then handleVersions r name s
                  else if n = 3 \<and> meth = ''GET'' then handleGet r name (segments ! 2) s
                  else if n = 3 \<and> meth = ''PATCH'' then handleUpdate env r name (segments ! 2) s
                  else unknown)"

text \<open>A request without a token is challenged; any token is accepted.\<close>

definition challenge :: "string \<Rightarrow> json response" where
  "challenge authority =
     writeError 401 ''Unauthorized'' ''Request is missing a bearer token.''
       [(''WWW-Authenticate'',
         ''Bearer authorization=\"'' @ authority @ ''\", resource=\"https://vault.azure.net\"'')]"

definition serveSecrets :: "string \<Rightarrow> vault_env \<Rightarrow> json request \<Rightarrow> vaults \<Rightarrow> vault_reply" where
  "serveSecrets authority env r s =
     (if headerGet r ''Authorization'' = [] then (Inr (challenge authority), s) else routeSecrets env r s)"

section \<open>What requests do\<close>

lemma pathUnescape_plain: "CHR ''%'' \<notin> set s \<Longrightarrow> pathUnescape s = Some s"
  by (induction s) auto

lemma secret_path:
  assumes "name \<noteq> []" and "CHR ''/'' \<notin> set name"
  shows "splitOn (CHR ''/'') (trimSlashes (''/secrets/'' @ name)) = [''secrets'', name]"
proof -
  obtain c cs where rev: "rev name = c # cs" using assms(1) by (cases "rev name") auto
  then have "c \<in> set (rev name)" by simp
  then have "c \<noteq> CHR ''/''" using assms(2) by auto
  then have "trimSlashes (''/secrets/'' @ name) = ''secrets'' @ CHR ''/'' # name"
    by (simp add: trimSlashes_def rev) (metis rev rev_rev_ident rev.simps(2))
  then show ?thesis
    using splitOn_append [of "CHR ''/''" "''secrets''" name] splitOn_none [OF assms(2)] by simp
qed

definition reads_as :: "json response \<Rightarrow> string \<Rightarrow> bool" where
  "reads_as resp x \<longleftrightarrow> rs_status resp = 200 \<and>
     (\<exists>kvs. rs_body resp = Some (JObject kvs) \<and> (x \<noteq> [] \<longrightarrow> map_of kvs ''value'' = Some (JString x)))"

lemma bundle_value: "x \<noteq> [] \<Longrightarrow> sec_value sec = x \<Longrightarrow> map_of (bundleMembers base sec True) ''value'' = Some (JString x)"
  by (simp add: bundleMembers_def omitString_def map_add_def secretID_def)

lemma set_then_get:
  assumes "vaults_inv s" and "randomVersion rand \<notin> (case lookup2 s (h, n) of None \<Rightarrow> {} | Some e \<Rightarrow> set (se_order e))"
    and "rand \<noteq> []" and "setSecret now rand h n x ct tags attrs s = (sec, s1)"
  shows "getSecret h n [] s1 = Inr sec" and "getSecret h n (sec_version sec) s1 = Inr sec" and "sec_value sec = x"
    and "sec_name sec = n"
proof -
  show "sec_value sec = x" "sec_name sec = n" using assms(4) by (auto simp: setSecret_def Let_def)
  obtain e where e: "lookup2 s1 (h, n) = Some e" "map_of (se_versions e) (sec_version sec) = Some sec"
      "se_current e = sec_version sec" "se_versions e \<noteq> []"
    using assms(4) by (fastforce simp: setSecret_def Let_def store_simps)
  have "sec_version sec \<noteq> []" using assms(3, 4) hexString_not_Nil
    by (auto simp: setSecret_def Let_def randomVersion_def)
  moreover have "Key_Vault.lookupLocked h n s1 = Inr e"
    using e(1, 4) by (auto simp: Key_Vault.lookupLocked_def lookup2_def inner_def split: option.splits)
  ultimately show "getSecret h n [] s1 = Inr sec" "getSecret h n (sec_version sec) s1 = Inr sec"
    using e by (simp_all add: getSecret_def)
qed

text \<open>A secret put over HTTP is what the next get returns: a put of a well-formed body under a name
  without slashes or percent signs is answered with 200 and the value, and a get of that name on the
  store it leaves is answered with 200 and the same value.\<close>

lemma secret_put_get:
  assumes "vaults_inv s" and "name \<noteq> []" and "CHR ''/'' \<notin> set name" and "CHR ''%'' \<notin> set name"
    and "rq_path p = ''/secrets/'' @ name" and "rq_path g = rq_path p"
    and "rq_method p = ''PUT''" and "rq_method g = ''GET''" and "rq_host g = rq_host p"
    and "headerGet p ''Authorization'' \<noteq> []" and "headerGet g ''Authorization'' \<noteq> []"
    and "rq_body p = Body j" and "decodeSetSecret j = Some req" and "ve_rand env \<noteq> []"
    and "randomVersion (ve_rand env) \<notin>
      (case lookup2 s (rq_host p, name) of None \<Rightarrow> {} | Some e \<Rightarrow> set (se_order e))"
  shows "\<exists>resp s1 resp'. serveSecrets authority env p s = (Inr resp, s1) \<and> reads_as resp (ss_value req) \<and>
    serveSecrets authority env' g s1 = (Inr resp', s1) \<and> reads_as resp' (ss_value req)"
proof -
  obtain sec s1 where set: "setSecret (ve_now env) (ve_rand env) (rq_host p) name (ss_value req)
      (ss_contentType req) (ss_tags req) (toAttributes (ss_attributes req)) s = (sec, s1)" by fastforce
  note got = set_then_get [OF assms(1) assms(15) assms(14) set]
  have path: "splitOn (CHR ''/'') (trimSlashes (rq_path p)) = [''secrets'', name]"
    "splitOn (CHR ''/'') (trimSlashes (rq_path g)) = [''secrets'', name]"
    using secret_path [OF assms(2, 3)] assms(5, 6) by simp_all
  let ?resp = "writeJSON 200 (bundleOf (''https://'' @ rq_host p) sec True) []"
  have "serveSecrets authority env p s = (Inr ?resp, s1)"
    using path assms pathUnescape_plain [OF assms(4)] set
    by (simp add: serveSecrets_def routeSecrets_def Let_def handleSet_def decodeBody_def)
  moreover have "serveSecrets authority env' g s1 = (Inr ?resp, s1)"
    using path assms pathUnescape_plain [OF assms(4)] got(1)
    by (simp add: serveSecrets_def routeSecrets_def Let_def handleGet_def kv_reply_def)
  moreover have "reads_as ?resp (ss_value req)"
    using bundle_value got(3) by (simp add: reads_as_def writeJSON_def bundleOf_def)
  ultimately show ?thesis by blast
qed

definition secret_request :: "string \<Rightarrow> json body \<Rightarrow> json request" where
  "secret_request meth b = \<lparr>rq_method = meth, rq_path = ''/secrets/db'', rq_query = [],
     rq_headers = [(''Authorization'', [''Bearer t''])], rq_host = ''vault'', rq_tls = True, rq_body = b\<rparr>"

lemma secret_put_get_witness:
  "\<exists>resp s1 resp'. serveSecrets ''a'' \<lparr>ve_now = 5, ve_rand = [7]\<rparr>
      (secret_request ''PUT'' (Body (JObject [(''value'', JString ''pw'')]))) [] = (Inr resp, s1) \<and>
    reads_as resp ''pw'' \<and>
    serveSecrets ''a'' \<lparr>ve_now = 6, ve_rand = [8]\<rparr> (secret_request ''GET'' BodyEmpty) s1 = (Inr resp', s1) \<and>
    reads_as resp' ''pw''"
proof -
  let ?req = "\<lparr>ss_value = ''pw'', ss_contentType = [], ss_tags = None, ss_attributes = None\<rparr>"
  have same: "equalFold ''value'' ''value''" by (simp add: equalFold_def)
  have other: "\<not> equalFold ''value'' ''contentType''" "\<not> equalFold ''value'' ''tags''"
    "\<not> equalFold ''value'' ''attributes''" by code_simp+
  have "decodeSetSecret (JObject [(''value'', JString ''pw'')]) = Some ?req"
    by (simp add: decodeSetSecret_def structField_def intoString_def same other)
  from secret_put_get [of "[]" "''db''" "secret_request ''PUT'' (Body (JObject [(''value'', JString ''pw'')]))"
      "secret_request ''GET'' BodyEmpty" _ ?req "\<lparr>ve_now = 5, ve_rand = [7]\<rparr>" "''a''" "\<lparr>ve_now = 6, ve_rand = [8]\<rparr>",
      OF _ _ _ _ _ _ _ _ _ _ _ _ this]
  show ?thesis by (simp add: secret_request_def headerGet_def vaults_inv_def lookup2_def)
qed

definition fine :: "vaults \<Rightarrow> vault_reply \<Rightarrow> bool" where
  "fine s = (\<lambda>(out, s'). \<exists>resp. out = Inr resp \<and> (rs_status resp \<noteq> 200 \<longrightarrow> s' = s))"

lemma fine_reply: "fine s (Inr resp, s)" "fine s (Inr (writeJSON 200 j hs), s')"
  by (simp_all add: fine_def writeJSON_def)

lemma fine_kv_reply:
  assumes "r \<noteq> Inl NilDereference" and "\<And>e. r = Inl e \<Longrightarrow> s' = s"
  shows "fine s (kv_reply name (\<lambda>x. writeJSON 200 (f x) hs) r, s')"
  using assms by (cases r rule: sum.exhaust) (auto simp: kv_reply_def fine_reply split: kv_error.splits)

lemma found_or_missing:
  assumes "vaults_inv s"
  shows "listSecrets h s \<noteq> Inl e" "listVersions h n s \<noteq> Inl NilDereference"
    "fst (deleteSecret h n s) \<noteq> Inl NilDereference"
  using listSecrets_meets [OF assms, of _ _ h] listVersions_meets [OF assms, of _ _ h n]
    delete_meets [OF assms, of _ _ h n]
  by (auto simp: meets_def v_result_def case_prod_beta split: sum.splits option.splits)

lemma handlers_fine:
  assumes "vaults_inv s"
  shows "fine s (handleSet env r name s)" "fine s (handleGet r name version s)"
    "fine s (handleUpdate env r name version s)" "fine s (handleDelete r name s)"
    "fine s (handleList r s)" "fine s (handleVersions r name s)"
proof -
  show "fine s (handleSet env r name s)"
    by (auto simp: handleSet_def fine_reply split: sum.split prod.split)
  have "getSecret h name version s \<noteq> Inl NilDereference" for h
    by (auto simp: getSecret_def Key_Vault.lookupLocked_def split: sum.splits option.splits if_splits)
  then show "fine s (handleGet r name version s)" by (simp add: handleGet_def fine_kv_reply)
  have "fst (updateSecret now h name version ct tags attrs s) \<noteq> Inl NilDereference" 
    "fst (updateSecret now h name version ct tags attrs s) = Inl e \<Longrightarrow>
       snd (updateSecret now h name version ct tags attrs s) = s" for now h ct tags attrs e
    by (auto simp: updateSecret_def Let_def Key_Vault.lookupLocked_def split: sum.splits option.splits if_splits)
  then show "fine s (handleUpdate env r name version s)"
    by (auto simp: handleUpdate_def fine_reply apfst_def map_prod_def case_prod_beta
        split: sum.split intro!: fine_kv_reply)
  have "fst (deleteSecret h name s) = Inl e \<Longrightarrow> snd (deleteSecret h name s) = s" for h e
    by (auto simp: deleteSecret_def split: sum.splits)
  then show "fine s (handleDelete r name s)"
    using found_or_missing(3) [OF assms]
    by (auto simp: handleDelete_def apfst_def map_prod_def case_prod_beta intro!: fine_kv_reply)
  show "fine s (handleList r s)" "fine s (handleVersions r name s)"
    using found_or_missing [OF assms] by (auto simp: handleList_def handleVersions_def intro!: fine_kv_reply)
qed

text \<open>In a store that satisfies the invariant no request makes the Key Vault handler panic, and a
  request that is not answered with 200 (no token, unknown path, malformed body, no such secret) has
  changed nothing.\<close>

lemma refused_secret_request:
  assumes "vaults_inv s" and "serveSecrets authority env r s = (out, s')"
  shows "\<exists>resp. out = Inr resp \<and> (rs_status resp \<noteq> 200 \<longrightarrow> s' = s)"
proof -
  have "fine s (serveSecrets authority env r s)"
    unfolding serveSecrets_def routeSecrets_def Let_def
    by (simp add: handlers_fine [OF assms(1)] fine_reply split: option.split)
  then show ?thesis using assms(2) by (simp add: fine_def)
qed

lemma refused_secret_request_witness:
  "\<exists>resp s'. serveSecrets ''a'' \<lparr>ve_now = 5, ve_rand = [7]\<rparr> (secret_request ''DELETE'' BodyEmpty) [] = (Inr resp, s') \<and>
     (rs_status resp \<noteq> 200 \<longrightarrow> s' = [])"
proof -
  obtain out s' where run: "serveSecrets ''a'' \<lparr>ve_now = 5, ve_rand = [7]\<rparr> (secret_request ''DELETE'' BodyEmpty) [] = (out, s')"
    by fastforce
  have "vaults_inv []" by (simp add: vaults_inv_def lookup2_def)
  from refused_secret_request [OF this run] run show ?thesis by blast
qed

end
