(* ===== verification/Go_Float.thy ===== *)
theory Go_Float
  imports Complex_Main Go_Strings
begin

text \<open>
  What the source uses of Go's \<open>float64\<close> and \<open>strconv.ParseFloat(s, 64)\<close>: the accepted syntax
  (decimal and hexadecimal literals, underscores between digits, infinities and NaN), the value
  rounded to nearest even, the range error on overflow, and the comparisons. Negative zero is not
  distinguished from zero: no comparison tells them apart.
\<close>

datatype f64 = NaN | Inf bool | Fin rat

section \<open>Comparisons\<close>

fun f64_less :: "f64 \<Rightarrow> f64 \<Rightarrow> bool" where
  "f64_less NaN _ = False"
| "f64_less _ NaN = False"
| "f64_less (Inf neg) (Inf neg') = (neg \<and> \<not> neg')"
| "f64_less (Inf neg) (Fin _) = neg"
| "f64_less (Fin _) (Inf neg) = (\<not> neg)"
| "f64_less (Fin x) (Fin y) = (x < y)"

definition f64_eq :: "f64 \<Rightarrow> f64 \<Rightarrow> bool" where
  "f64_eq x y \<longleftrightarrow> x = y \<and> x \<noteq> NaN"

section \<open>Rounding\<close>

definition pow2 :: "int \<Rightarrow> rat" where
  "pow2 e = (if 0 \<le> e then 2 ^ nat e else 1 / 2 ^ nat (- e))"

definition pow10 :: "int \<Rightarrow> rat" where
  "pow10 e = (if 0 \<le> e then 10 ^ nat e else 1 / 10 ^ nat (- e))"

definition roundHalfEven :: "rat \<Rightarrow> int" where
  "roundHalfEven x =
     (let n = \<lfloor>x\<rfloor>; d = x - of_int n in
      if d < 1 / 2 then n else if 1 / 2 < d then n + 1 else if even n then n else n + 1)"

fun bitLength :: "int \<Rightarrow> int" where
  "bitLength n = (if n \<le> 0 then 0 else 1 + bitLength (n div 2))"

declare bitLength.simps [simp del]

text \<open>The nearest \<open>float64\<close> of a non-negative rational; \<open>None\<close> when it is out of range.\<close>

definition round64 :: "rat \<Rightarrow> rat option" where
  "round64 x =
     (if x = 0 then Some 0
      else let (p, q) = quotient_of x;
               e0 = bitLength p - bitLength q - 53;
               e1 = (if 2 ^ 53 \<le> x / pow2 e0 then e0 + 1 else e0);
               e = max e1 (- 1074);
               y = of_int (roundHalfEven (x / pow2 e)) * pow2 e
           in if pow2 1024 \<le> y then None else Some y)"

section \<open>Syntax\<close>

definition isDigit :: "char \<Rightarrow> bool" where
  "isDigit c \<longleftrightarrow> 48 \<le> (of_char c :: nat) \<and> (of_char c :: nat) \<le> 57"

definition isHexLetter :: "char \<Rightarrow> bool" where
  "isHexLetter c \<longleftrightarrow> 97 \<le> (of_char (lowerChar c) :: nat) \<and> (of_char (lowerChar c) :: nat) \<le> 102"

definition digitValue :: "char \<Rightarrow> int" where
  "digitValue c = (if isDigit c then of_char c - 48 else of_char (lowerChar c) - 87)"

text \<open>The mantissa: its digits as a number, how many followed the point, whether there was a digit,
  a point, an underscore; and what is left.\<close>

fun mantissa :: "int \<Rightarrow> int \<Rightarrow> nat \<Rightarrow> bool \<Rightarrow> bool \<Rightarrow> bool \<Rightarrow> string
    \<Rightarrow> int \<times> nat \<times> bool \<times> bool \<times> string" where
  "mantissa base m nfrac digit dot score [] = (m, nfrac, digit, score, [])"
| "mantissa base m nfrac digit dot score (c # s) =
     (if c = CHR ''_'' then mantissa base m nfrac digit dot True s
      else if c = CHR ''.'' then
        if dot then (m, nfrac, digit, score, c # s) else mantissa base m nfrac digit True score s
      else if isDigit c \<or> (base = 16 \<and> isHexLetter c) then
        mantissa base (m * base + digitValue c) (if dot then Suc nfrac else nfrac) True dot score s
      else (m, nfrac, digit, score, c # s))"

fun exponentDigits :: "int \<Rightarrow> bool \<Rightarrow> string \<Rightarrow> int \<times> bool \<times> string" where
  "exponentDigits e score [] = (e, score, [])"
| "exponentDigits e score (c # s) =
     (if c = CHR ''_'' then exponentDigits e True s
      else if isDigit c then exponentDigits (if e < 10000 then e * 10 + digitValue c else e) score s
      else (e, score, c # s))"

text \<open>\<open>underscoreOK\<close>: underscores only between digits (a base prefix counts as one).\<close>

datatype seen = Start | Digit | Underscore | Other

fun underscores :: "bool \<Rightarrow> seen \<Rightarrow> string \<Rightarrow> bool" where
  "underscores hex saw [] = (saw \<noteq> Underscore)"
| "underscores hex saw (c # s) =
     (if isDigit c \<or> (hex \<and> isHexLetter c) then underscores hex Digit s
      else if c = CHR ''_'' then saw = Digit \<and> underscores hex Underscore s
      else saw \<noteq> Underscore \<and> underscores hex Other s)"

definition trimSign :: "string \<Rightarrow> bool \<times> string" where
  "trimSign s = (case s of
      [] \<Rightarrow> (False, [])
    | c # r \<Rightarrow> if c = CHR ''+'' then (False, r) else if c = CHR ''-'' then (True, r) else (False, s))"

definition underscoreOK :: "string \<Rightarrow> bool" where
  "underscoreOK s =
     (let r = snd (trimSign s) in
      case r of
        z # b # r' \<Rightarrow>
          if z = CHR ''0'' \<and> lowerChar b \<in> {CHR ''b'', CHR ''o'', CHR ''x''}
          then underscores (lowerChar b = CHR ''x'') Digit r'
          else underscores False Start r
      | _ \<Rightarrow> underscores False Start r)"

text \<open>\<open>special\<close>: infinities with an optional sign, NaN without; in any case.\<close>

definition special :: "string \<Rightarrow> f64 option" where
  "special s =
     (case trimSign s of (neg, r) \<Rightarrow>
        if map lowerChar r \<in> {''inf'', ''infinity''} then Some (Inf neg)
        else if map lowerChar s = ''nan'' then Some NaN
        else None)"

text \<open>\<open>ParseFloat\<close>: \<open>None\<close> is a syntax or range error.\<close>

definition parseFloat :: "string \<Rightarrow> f64 option" where
  "parseFloat s =
     (case special s of
        Some x \<Rightarrow> Some x
      | None \<Rightarrow>
        (case trimSign s of (neg, r) \<Rightarrow>
          let hex = (2 < length r \<and> r ! 0 = CHR ''0'' \<and> lowerChar (r ! 1) = CHR ''x'');
              base = (if hex then 16 else 10) in
          case mantissa base 0 0 False False False (if hex then drop 2 r else r) of
            (m, nfrac, digit, score, r1) \<Rightarrow>
              if \<not> digit then None
              else if r1 \<noteq> [] \<and> lowerChar (hd r1) = (if hex then CHR ''p'' else CHR ''e'') then
                (case trimSign (tl r1) of (eneg, r2) \<Rightarrow>
                   if r2 = [] \<or> \<not> isDigit (hd r2) then None
                   else case exponentDigits 0 score r2 of (e, score', r3) \<Rightarrow>
                     if r3 \<noteq> [] \<or> (score' \<and> \<not> underscoreOK s) then None
                     else let ex = (if eneg then - e else e);
                              v = (if hex then of_int m * pow2 (ex - 4 * int nfrac)
                                   else of_int m * pow10 (ex - int nfrac))
                          in map_option (\<lambda>y. Fin (if neg then - y else y)) (round64 v))
              else if hex \<or> r1 \<noteq> [] \<or> (score \<and> \<not> underscoreOK s) then None
              else map_option (\<lambda>y. Fin (if neg then - y else y)) (round64 (of_int m * pow10 (- int nfrac)))))"

end
