(* ===== verification/Table_Store.thy ===== *)
theory Table_Store
  imports Go_Maps Go_Time Go_Json "HOL-Library.Product_Lexorder"
begin

text \<open>
  The Table service's state, \<open>internal/stores/tablestore\<close>. Accounts hold tables by name, a table holds
  partitions of rows, a row is an entity. The mutex is held through every operation, so each is one
  step; \<open>now\<close> is the clock it reads. Operations return copies of what they store, so sharing between
  callers and the store cannot be observed. The file the state is written to
  is in \<open>Table_Snapshot\<close>.

  A property value is JSON (\<open>json.RawMessage\<close>), which the store never looks into.
\<close>

section \<open>Types\<close>

type_synonym props = "string \<rightharpoonup> json"

datatype table_error = ErrTableNotFound | ErrTableExists | ErrEntityNotFound | ErrEntityExists
  | ErrETagMismatch

record entity =
  e_partitionKey :: string
  e_rowKey :: string
  e_props :: props
  e_timestamp :: time
  e_etag :: string

type_synonym partitions = "(string, (string, entity) go_map) go_map"

record table =
  t_name :: string
  t_entities :: partitions

definition newTable :: "string \<Rightarrow> table" where
  "newTable name = \<lparr>t_name = name, t_entities = []\<rparr>"

definition t_get :: "table \<Rightarrow> string \<Rightarrow> string \<Rightarrow> entity option" where
  "t_get t pk rk =
     (case map_of (t_entities t) pk of None \<Rightarrow> None | Some rows \<Rightarrow> map_of rows rk)"

definition t_put :: "entity \<Rightarrow> table \<Rightarrow> table" where
  "t_put e t =
     (let rows = (case map_of (t_entities t) (e_partitionKey e) of None \<Rightarrow> [] | Some rows \<Rightarrow> rows)
      in t\<lparr>t_entities := AList.update (e_partitionKey e) (AList.update (e_rowKey e) e rows) (t_entities t)\<rparr>)"

definition t_delete :: "string \<Rightarrow> string \<Rightarrow> table \<Rightarrow> bool \<times> table" where
  "t_delete pk rk t =
     (case map_of (t_entities t) pk of
        None \<Rightarrow> (False, t)
      | Some rows \<Rightarrow>
          if map_of rows rk = None then (False, t)
          else let rows' = AList.delete rk rows in
            (True, if length rows' = 0 then t\<lparr>t_entities := AList.delete pk (t_entities t)\<rparr>
                   else t\<lparr>t_entities := AList.update pk rows' (t_entities t)\<rparr>))"

type_synonym table_store = "(string, (string, table) go_map) go_map"

section \<open>Tables\<close>

definition lookupLocked :: "string \<Rightarrow> string \<Rightarrow> table_store \<Rightarrow> table_error + table" where
  "lookupLocked account name s =
     (case map_of s account of
        None \<Rightarrow> Inl ErrTableNotFound
      | Some ts \<Rightarrow> (case map_of ts name of None \<Rightarrow> Inl ErrTableNotFound | Some t \<Rightarrow> Inr t))"

text \<open>An account that is not there is added before the table is looked for.\<close>

definition createTable :: "string \<Rightarrow> string \<Rightarrow> table_store \<Rightarrow> table_error option \<times> table_store" where
  "createTable account name s =
     (let s1 = (if map_of s account = None then AList.update account [] s else s);
          ts = inner account s1
      in if map_of ts name \<noteq> None then (Some ErrTableExists, s1)
         else (None, AList.update account (AList.update name (newTable name) ts) s1))"

definition deleteTable :: "string \<Rightarrow> string \<Rightarrow> table_store \<Rightarrow> table_error option \<times> table_store" where
  "deleteTable account name s =
     (case map_of s account of
        None \<Rightarrow> (Some ErrTableNotFound, s)
      | Some ts \<Rightarrow>
          if map_of ts name = None then (Some ErrTableNotFound, s)
          else (None, AList.update account (AList.delete name ts) s))"

definition listTables :: "string \<Rightarrow> table_store \<Rightarrow> string list" where
  "listTables account s = sort (map fst (inner account s))"

section \<open>Entities\<close>

definition serverProps :: "string list" where
  "serverProps = [''Timestamp'', ''odata.metadata'', ''odata.etag'', ''odata.type'', ''odata.id'',
     ''odata.editLink'']"

definition stripServerProps :: "props \<Rightarrow> props" where
  "stripServerProps p = (\<lambda>k. if k \<in> set serverProps then None else p k)"

definition mustJSON :: "string \<Rightarrow> json" where
  "mustJSON s = JString (concat (map encodeRune (runes s)))"

text \<open>\<open>url.QueryEscape\<close> of a formatted time: the colons are the only bytes it escapes.\<close>

definition queryEscape :: "string \<Rightarrow> string" where
  "queryEscape s = concat (map (\<lambda>c. if c = CHR '':'' then ''%3A'' else [c]) s)"

definition etagFor :: "time \<Rightarrow> string" where
  "etagFor t = ''W/\"datetime'' @ [CHR 39] @ queryEscape (formatTime7 t) @ [CHR 39] @ ''\"''"

definition buildEntity :: "time \<Rightarrow> string \<Rightarrow> string \<Rightarrow> props \<Rightarrow> entity" where
  "buildEntity now pk rk p =
     \<lparr>e_partitionKey = pk, e_rowKey = rk,
      e_props = (stripServerProps p)(''PartitionKey'' \<mapsto> mustJSON pk, ''RowKey'' \<mapsto> mustJSON rk),
      e_timestamp = now, e_etag = etagFor now\<rparr>"

definition matchETag :: "entity \<Rightarrow> string \<Rightarrow> table_error option" where
  "matchETag e ifMatch =
     (if ifMatch = [] \<or> ifMatch = ''*'' then None
      else if ifMatch \<noteq> e_etag e then Some ErrETagMismatch else None)"

definition setTable :: "string \<Rightarrow> string \<Rightarrow> table \<Rightarrow> table_store \<Rightarrow> table_store" where
  "setTable account name t s = AList.update account (AList.update name t (inner account s)) s"

definition insertEntity ::
    "time \<Rightarrow> string \<Rightarrow> string \<Rightarrow> string \<Rightarrow> string \<Rightarrow> props \<Rightarrow> table_store \<Rightarrow> (table_error + entity) \<times> table_store" where
  "insertEntity now account name pk rk p s =
     (case lookupLocked account name s of
        Inl e \<Rightarrow> (Inl e, s)
      | Inr t \<Rightarrow>
          if t_get t pk rk \<noteq> None then (Inl ErrEntityExists, s)
          else let e = buildEntity now pk rk p in (Inr e, setTable account name (t_put e t) s))"

definition getEntity :: "string \<Rightarrow> string \<Rightarrow> string \<Rightarrow> string \<Rightarrow> table_store \<Rightarrow> table_error + entity" where
  "getEntity account name pk rk s =
     (case lookupLocked account name s of
        Inl e \<Rightarrow> Inl e
      | Inr t \<Rightarrow> (case t_get t pk rk of None \<Rightarrow> Inl ErrEntityNotFound | Some e \<Rightarrow> Inr e))"

text \<open>\<open>sort.Slice\<close> by partition key then row key; keys are distinct, so any sort gives the same list.\<close>

definition sortEntities :: "entity list \<Rightarrow> entity list" where
  "sortEntities = sort_key (\<lambda>e. (e_partitionKey e, e_rowKey e))"

definition allEntities :: "table \<Rightarrow> entity list" where
  "allEntities t = concat (map (\<lambda>(_, rows). map snd rows) (t_entities t))"

definition listEntities :: "string \<Rightarrow> string \<Rightarrow> table_store \<Rightarrow> table_error + entity list" where
  "listEntities account name s =
     (case lookupLocked account name s of Inl e \<Rightarrow> Inl e | Inr t \<Rightarrow> Inr (sortEntities (allEntities t)))"

definition updateEntity ::
    "time \<Rightarrow> string \<Rightarrow> string \<Rightarrow> string \<Rightarrow> string \<Rightarrow> props \<Rightarrow> string \<Rightarrow> bool \<Rightarrow> table_store
     \<Rightarrow> (table_error + entity) \<times> table_store" where
  "updateEntity now account name pk rk p ifMatch merge s =
     (case lookupLocked account name s of
        Inl e \<Rightarrow> (Inl e, s)
      | Inr t \<Rightarrow>
          (case t_get t pk rk of
             None \<Rightarrow>
               if ifMatch \<noteq> [] then (Inl ErrEntityNotFound, s)
               else let e = buildEntity now pk rk p in (Inr e, setTable account name (t_put e t) s)
           | Some existing \<Rightarrow>
               (case matchETag existing ifMatch of
                  Some err \<Rightarrow> (Inl err, s)
                | None \<Rightarrow>
                    let e = (if merge then buildEntity now pk rk (e_props existing ++ stripServerProps p)
                             else buildEntity now pk rk p)
                    in (Inr e, setTable account name (t_put e t) s))))"

definition replaceEntity where
  "replaceEntity now account name pk rk p ifMatch = updateEntity now account name pk rk p ifMatch False"

definition mergeEntity where
  "mergeEntity now account name pk rk p ifMatch = updateEntity now account name pk rk p ifMatch True"

definition deleteEntity ::
    "string \<Rightarrow> string \<Rightarrow> string \<Rightarrow> string \<Rightarrow> string \<Rightarrow> table_store \<Rightarrow> table_error option \<times> table_store" where
  "deleteEntity account name pk rk ifMatch s =
     (case lookupLocked account name s of
        Inl e \<Rightarrow> (Some e, s)
      | Inr t \<Rightarrow>
          (case t_get t pk rk of
             None \<Rightarrow> (Some ErrEntityNotFound, s)
           | Some existing \<Rightarrow>
               (case matchETag existing ifMatch of
                  Some err \<Rightarrow> (Some err, s)
                | None \<Rightarrow> (None, setTable account name (snd (t_delete pk rk t)) s))))"

section \<open>The invariant\<close>

text \<open>Every row is filed under its own keys, has them among its properties, none of the properties the
  server manages, and the entity tag of its timestamp; no partition is empty.\<close>

definition entity_ok :: "entity \<Rightarrow> bool" where
  "entity_ok e \<longleftrightarrow> e_props e ''PartitionKey'' = Some (mustJSON (e_partitionKey e)) \<and>
     e_props e ''RowKey'' = Some (mustJSON (e_rowKey e)) \<and>
     (\<forall>k \<in> set serverProps. e_props e k = None) \<and> e_etag e = etagFor (e_timestamp e)"

definition filed :: "string \<times> string \<Rightarrow> entity \<Rightarrow> bool" where
  "filed = (\<lambda>(pk, rk) e. e_partitionKey e = pk \<and> e_rowKey e = rk \<and> entity_ok e)"

definition table_inv :: "table \<Rightarrow> bool" where
  "table_inv t \<longleftrightarrow> distinct_keys (t_entities t) \<and>
     (\<forall>(pk, rows) \<in> set (t_entities t). rows \<noteq> [] \<and> distinct_keys rows \<and> (\<forall>(rk, e) \<in> set rows. filed (pk, rk) e))"

definition t_seek :: "table \<Rightarrow> string \<times> string \<Rightarrow> entity option" where
  "t_seek t = (\<lambda>(pk, rk). t_get t pk rk)"

lemma buildEntity_ok: "filed (pk, rk) (buildEntity now pk rk p)"
  by (auto simp: filed_def entity_ok_def buildEntity_def serverProps_def stripServerProps_def)

lemma table_inv_rows:
  "table_inv t \<Longrightarrow> map_of (t_entities t) pk = Some rows \<Longrightarrow>
     rows \<noteq> [] \<and> distinct_keys rows \<and> (\<forall>(rk, e) \<in> set rows. filed (pk, rk) e)"
  unfolding table_inv_def by (drule map_of_SomeD) fast

lemma update_not_Nil [simp]: "AList.update k v m \<noteq> []"
  by (cases m) auto

text \<open>Storing rows under a partition keeps the invariant.\<close>

lemma table_inv_update:
  assumes "table_inv t" and "rows \<noteq> []" and "distinct_keys rows" and "\<forall>(rk, e) \<in> set rows. filed (pk, rk) e"
  shows "table_inv (t\<lparr>t_entities := AList.update pk rows (t_entities t)\<rparr>)"
  using assms set_update_subset [of pk rows "t_entities t"] unfolding table_inv_def by fastforce

lemma t_seek_update:
  "t_seek (t\<lparr>t_entities := AList.update pk rows (t_entities t)\<rparr>) (pk', rk) =
     (if pk' = pk then map_of rows rk else t_seek t (pk', rk))"
  by (simp add: t_seek_def t_get_def store_simps)

lemma t_put_inv:
  assumes inv: "table_inv t" and fits: "filed (pk, rk) e"
  shows "table_inv (t_put e t)" and "t_seek (t_put e t) = (t_seek t)((pk, rk) \<mapsto> e)"
proof -
  let ?rows = "case map_of (t_entities t) pk of None \<Rightarrow> [] | Some rows \<Rightarrow> rows"
  have keys: "e_partitionKey e = pk" "e_rowKey e = rk" using fits by (simp_all add: filed_def)
  have rows: "distinct_keys ?rows" "\<forall>(k, x) \<in> set ?rows. filed (pk, k) x"
    using table_inv_rows [OF inv, of pk] by (cases "map_of (t_entities t) pk"; auto)+
  then have "\<forall>(k, x) \<in> set (AList.update rk e ?rows). filed (pk, k) x"
    using fits set_update_subset [of rk e ?rows] by fast
  then show "table_inv (t_put e t)"
    unfolding t_put_def keys Let_def by (intro table_inv_update [OF inv]) (simp_all add: rows)
  show "t_seek (t_put e t) = (t_seek t)((pk, rk) \<mapsto> e)"
    by (auto simp: t_put_def keys Let_def fun_eq_iff t_seek_update store_simps)
       (auto simp: t_seek_def t_get_def split: option.splits)
qed

lemma t_delete_inv:
  assumes inv: "table_inv t"
  shows "table_inv (snd (t_delete pk rk t))" and "t_seek (snd (t_delete pk rk t)) = (t_seek t)((pk, rk) := None)"
    and "fst (t_delete pk rk t) \<longleftrightarrow> t_get t pk rk \<noteq> None"
proof -
  show "fst (t_delete pk rk t) \<longleftrightarrow> t_get t pk rk \<noteq> None"
    by (simp add: t_delete_def t_get_def Let_def split: option.splits)
  have "table_inv (snd (t_delete pk rk t)) \<and> t_seek (snd (t_delete pk rk t)) = (t_seek t)((pk, rk) := None)"
  proof (cases "map_of (t_entities t) pk")
    case None
    then show ?thesis using inv by (auto simp: t_delete_def t_seek_def t_get_def fun_eq_iff)
  next
    case (Some rows)
    note rows = table_inv_rows [OF inv Some]
    show ?thesis
    proof (cases "map_of rows rk = None \<or> AList.delete rk rows = []")
      case True
      have dropped: "table_inv (t\<lparr>t_entities := AList.delete pk (t_entities t)\<rparr>)"
        using inv set_delete_subset [of pk "t_entities t"] unfolding table_inv_def by fastforce
      have none: "map_of rows k = None" if "k \<noteq> rk" "AList.delete rk rows = []" for k
        using that one_map.drop_other [of rows k rk] rows by simp
      then show ?thesis
        using True inv dropped Some
        by (auto simp: t_delete_def Let_def t_seek_def t_get_def fun_eq_iff store_simps)
    next
      case False
      have "\<forall>(k, x) \<in> set (AList.delete rk rows). filed (pk, k) x"
        using rows set_delete_subset [of rk rows] by fast
      then have "table_inv (t\<lparr>t_entities := AList.update pk (AList.delete rk rows) (t_entities t)\<rparr>)"
        using False rows by (intro table_inv_update [OF inv]) auto
      then show ?thesis
        using False Some
        by (auto simp: t_delete_def Let_def t_seek_update fun_eq_iff store_simps)
           (auto simp: t_seek_def t_get_def)
    qed
  qed
  then show "table_inv (snd (t_delete pk rk t))"
    "t_seek (snd (t_delete pk rk t)) = (t_seek t)((pk, rk) := None)" by simp_all
qed

interpretation rows: keyed_store t_seek "\<lambda>k e t. t_put e t" "\<lambda>(pk, rk) t. snd (t_delete pk rk t)" table_inv filed
proof (unfold_locales, goal_cases)
  case (1 t k e) then show ?case using t_put_inv(2) [of t "fst k" "snd k" e] by simp
next
  case (2 t k) then show ?case using t_delete_inv(2) [of t "fst k" "snd k"] by (simp add: case_prod_beta)
next
  case (3 t k e) then show ?case using t_put_inv(1) [of t "fst k" "snd k" e] by simp
next
  case (4 t k) then show ?case using t_delete_inv(1) [of t "fst k" "snd k"] by (simp add: case_prod_beta)
qed

definition tables_inv :: "table_store \<Rightarrow> bool" where
  "tables_inv s \<longleftrightarrow> nested_ok s \<and> (\<forall>k t. lookup2 s k = Some t \<longrightarrow> table_inv t)"

section \<open>The contract: a map of maps\<close>

type_synonym table_spec = "string \<times> string \<Rightarrow> (string \<times> string \<Rightarrow> entity option) option"

definition tables_abs :: "table_store \<Rightarrow> table_spec" where
  "tables_abs s k = map_option t_seek (lookup2 s k)"

datatype table_op = CreateTable string string | DeleteTable string string
  | InsertEntity string string string string props
  | GetEntity string string string string
  | UpdateEntity string string string string props string bool
  | DeleteEntity string string string string string

datatype table_result = TOk | TError table_error | TEntity entity

definition of_error :: "table_error option \<times> 's \<Rightarrow> table_result \<times> 's" where
  "of_error = (\<lambda>(e, s). (case e of None \<Rightarrow> TOk | Some x \<Rightarrow> TError x, s))"

definition of_entity :: "(table_error + entity) \<times> 's \<Rightarrow> table_result \<times> 's" where
  "of_entity = (\<lambda>(r, s). (case r of Inl x \<Rightarrow> TError x | Inr e \<Rightarrow> TEntity e, s))"

fun table_exec :: "time \<Rightarrow> table_op \<Rightarrow> table_store \<Rightarrow> table_result \<times> table_store" where
  "table_exec now (CreateTable a n) s = of_error (createTable a n s)"
| "table_exec now (DeleteTable a n) s = of_error (deleteTable a n s)"
| "table_exec now (InsertEntity a n pk rk p) s = of_entity (insertEntity now a n pk rk p s)"
| "table_exec now (GetEntity a n pk rk) s = of_entity (getEntity a n pk rk s, s)"
| "table_exec now (UpdateEntity a n pk rk p m merge) s = of_entity (updateEntity now a n pk rk p m merge s)"
| "table_exec now (DeleteEntity a n pk rk m) s = of_error (deleteEntity a n pk rk m s)"

text \<open>What the service promises: rows of tables as partial functions, conditional updates on the tag
  of the row that is there.\<close>

fun spec_rows :: "time \<Rightarrow> table_op \<Rightarrow> (string \<times> string \<Rightarrow> entity option)
    \<Rightarrow> table_result \<times> (string \<times> string \<Rightarrow> entity option)" where
  "spec_rows now (InsertEntity a n pk rk p) rows =
     (if rows (pk, rk) \<noteq> None then (TError ErrEntityExists, rows)
      else (TEntity (buildEntity now pk rk p), rows((pk, rk) \<mapsto> buildEntity now pk rk p)))"
| "spec_rows now (GetEntity a n pk rk) rows =
     (case rows (pk, rk) of None \<Rightarrow> (TError ErrEntityNotFound, rows) | Some e \<Rightarrow> (TEntity e, rows))"
| "spec_rows now (UpdateEntity a n pk rk p m merge) rows =
     (let new = buildEntity now pk rk
            (case rows (pk, rk) of
               Some e \<Rightarrow> if merge then e_props e ++ stripServerProps p else p
             | None \<Rightarrow> p)
      in case rows (pk, rk) of
           None \<Rightarrow> if m = [] then (TEntity new, rows((pk, rk) \<mapsto> new)) else (TError ErrEntityNotFound, rows)
         | Some e \<Rightarrow> if m = [] \<or> m = ''*'' \<or> m = e_etag e then (TEntity new, rows((pk, rk) \<mapsto> new))
                    else (TError ErrETagMismatch, rows))"
| "spec_rows now (DeleteEntity a n pk rk m) rows =
     (case rows (pk, rk) of
        None \<Rightarrow> (TError ErrEntityNotFound, rows)
      | Some e \<Rightarrow> if m = [] \<or> m = ''*'' \<or> m = e_etag e then (TOk, rows((pk, rk) := None))
                 else (TError ErrETagMismatch, rows))"
| "spec_rows now _ rows = (TOk, rows)"

fun target :: "table_op \<Rightarrow> string \<times> string" where
  "target (CreateTable a n) = (a, n)"
| "target (DeleteTable a n) = (a, n)"
| "target (InsertEntity a n _ _ _) = (a, n)"
| "target (GetEntity a n _ _) = (a, n)"
| "target (UpdateEntity a n _ _ _ _ _) = (a, n)"
| "target (DeleteEntity a n _ _ _) = (a, n)"

definition spec_exec :: "time \<Rightarrow> table_op \<Rightarrow> table_spec \<Rightarrow> table_result \<times> table_spec" where
  "spec_exec now op m =
     (case (op, m (target op)) of
        (CreateTable a n, None) \<Rightarrow> (TOk, m((a, n) \<mapsto> Map.empty))
      | (CreateTable a n, Some _) \<Rightarrow> (TError ErrTableExists, m)
      | (_, None) \<Rightarrow> (TError ErrTableNotFound, m)
      | (DeleteTable a n, Some _) \<Rightarrow> (TOk, m((a, n) := None))
      | (_, Some rows) \<Rightarrow> (case spec_rows now op rows of (r, rows') \<Rightarrow> (r, m(target op \<mapsto> rows'))))"

section \<open>The store meets the contract\<close>

lemma table_lookup_eq:
  "lookupLocked a n s = (case lookup2 s (a, n) of None \<Rightarrow> Inl ErrTableNotFound | Some t \<Rightarrow> Inr t)"
  by (simp add: lookupLocked_def lookup2_def inner_def split: option.splits)

lemma setTable_eq: "setTable a n t s = update2 (a, n) t s"
  by (simp add: setTable_def update2_def)

lemma setTable_ok:
  assumes "tables_inv s" and "table_inv t"
  shows "tables_inv (setTable a n t s)" and "tables_abs (setTable a n t s) = (tables_abs s)((a, n) \<mapsto> t_seek t)"
  using assms
  by (auto simp: setTable_eq tables_inv_def tables_abs_def store_simps fun_eq_iff inv_intros split: if_splits)

lemma newTable_inv: "table_inv (newTable n)" "t_seek (newTable n) = Map.empty"
  by (auto simp: table_inv_def newTable_def t_seek_def t_get_def fun_eq_iff)

lemma createTable_ok:
  assumes "tables_inv s" and "createTable a n s = (r, s')"
  shows "tables_inv s' \<and> (case tables_abs s (a, n) of
      None \<Rightarrow> r = None \<and> tables_abs s' = (tables_abs s)((a, n) \<mapsto> Map.empty)
    | Some _ \<Rightarrow> r = Some ErrTableExists \<and> tables_abs s' = tables_abs s)"
proof -
  let ?s1 = "if map_of s a = None then AList.update a [] s else s"
  have inner: "inner x ?s1 = inner x s" for x by (auto simp: inner_def store_simps)
  then have lookup: "lookup2 ?s1 = lookup2 s" by (auto simp: lookup2_def fun_eq_iff)
  have "distinct_keys ?s1" using assms(1) by (simp add: tables_inv_def nested_ok_def)
  then have inv: "tables_inv ?s1"
    using assms(1) lookup inner by (auto simp: tables_inv_def nested_ok_def)
  have abs: "tables_abs ?s1 = tables_abs s" by (simp add: tables_abs_def lookup fun_eq_iff)
  have seek: "lookup2 s (a, n) = map_of (inner a ?s1) n" by (simp add: lookup2_def inner)
  show ?thesis
  proof (cases "map_of (inner a ?s1) n")
    case None
    then have "r = None" "s' = setTable a n (newTable n) ?s1"
      using assms(2) by (simp_all add: createTable_def setTable_def Let_def)
    then show ?thesis
      using setTable_ok [OF inv newTable_inv(1), of a n n] abs newTable_inv(2) None seek
      by (simp add: tables_abs_def)
  next
    case (Some t)
    then have "r = Some ErrTableExists" "s' = ?s1"
      using assms(2) by (simp_all add: createTable_def Let_def)
    then show ?thesis using inv abs Some seek by (simp add: tables_abs_def)
  qed
qed

lemma deleteTable_ok:
  assumes "tables_inv s" and "deleteTable a n s = (r, s')"
  shows "tables_inv s' \<and> (case tables_abs s (a, n) of
      None \<Rightarrow> r = Some ErrTableNotFound \<and> s' = s
    | Some _ \<Rightarrow> r = None \<and> tables_abs s' = (tables_abs s)((a, n) := None))"
proof (cases "lookup2 s (a, n)")
  case None
  then show ?thesis
    using assms by (auto simp: deleteTable_def tables_abs_def lookup2_def inner_def split: option.splits)
next
  case (Some t)
  then obtain ts where ts: "map_of s a = Some ts" "map_of ts n = Some t"
    by (auto simp: lookup2_def inner_def split: option.splits)
  then have "s' = delete2 (a, n) s" "r = None"
    using assms(2) map_of_SomeD [OF ts(1)] by (force simp: deleteTable_def delete2_def inner_def)+
  then show ?thesis
    using assms(1) Some
    by (auto simp: tables_inv_def tables_abs_def store_simps fun_eq_iff inv_intros split: if_splits)
qed

text \<open>Operations on rows: each leaves the store, or replaces the table by one with the promised rows.\<close>

lemma matchETag_eq: "matchETag e m = None \<longleftrightarrow> m = [] \<or> m = ''*'' \<or> m = e_etag e"
    "matchETag e m = Some x \<longleftrightarrow> \<not> (m = [] \<or> m = ''*'' \<or> m = e_etag e) \<and> x = ErrETagMismatch"
  by (auto simp: matchETag_def)

lemma t_seek_apply: "t_get t pk rk = t_seek t (pk, rk)"
  by (simp add: t_seek_def)

definition row_op :: "table_op \<Rightarrow> bool" where
  "row_op op \<longleftrightarrow> (\<forall>a n. op \<noteq> CreateTable a n \<and> op \<noteq> DeleteTable a n)"

lemma row_op_missing:
  "row_op op \<Longrightarrow> lookup2 s (target op) = None \<Longrightarrow> table_exec now op s = (TError ErrTableNotFound, s)"
  by (cases op) (simp_all add: row_op_def insertEntity_def getEntity_def updateEntity_def deleteEntity_def
      table_lookup_eq of_error_def of_entity_def)

lemma row_op_step:
  assumes "row_op op" and t: "lookup2 s (target op) = Some t" and inv: "table_inv t"
  shows "\<exists>r s' rows'. table_exec now op s = (r, s') \<and> spec_rows now op (t_seek t) = (r, rows') \<and>
    (s' = s \<and> rows' = t_seek t \<or>
     (\<exists>t'. table_inv t' \<and> rows' = t_seek t' \<and> s' = setTable (fst (target op)) (snd (target op)) t' s))"
proof (cases op)
  case (InsertEntity a n pk rk p)
  have "table_inv (t_put (buildEntity now pk rk p) t)"
    "t_seek (t_put (buildEntity now pk rk p) t) = (t_seek t)((pk, rk) \<mapsto> buildEntity now pk rk p)"
    using rows.sound_put [OF inv buildEntity_ok] rows.seek_put [OF inv buildEntity_ok] by blast+
  then show ?thesis
    using InsertEntity t
    by (auto simp: insertEntity_def table_lookup_eq of_entity_def t_seek_apply Let_def)
next
  case (GetEntity a n pk rk)
  then show ?thesis
    using t by (auto simp: getEntity_def table_lookup_eq of_entity_def t_seek_apply split: option.splits)
next
  case (UpdateEntity a n pk rk p m merge)
  have put: "table_inv (t_put (buildEntity now pk rk q) t)"
    "t_seek (t_put (buildEntity now pk rk q) t) = (t_seek t)((pk, rk) \<mapsto> buildEntity now pk rk q)" for q
    using rows.sound_put [OF inv buildEntity_ok] rows.seek_put [OF inv buildEntity_ok] by blast+
  show ?thesis
  proof (cases "t_seek t (pk, rk)")
    case None
    then show ?thesis
      using UpdateEntity t put(1) [of p] put(2) [of p, symmetric]
      by (cases "m = []") (auto simp: updateEntity_def table_lookup_eq of_entity_def t_seek_apply Let_def)
  next
    case (Some e)
    show ?thesis
    proof (cases "m = [] \<or> m = ''*'' \<or> m = e_etag e")
      case True
      then have "matchETag e m = None" by (simp add: matchETag_eq)
      then show ?thesis
        using UpdateEntity t Some True put(1) [of p] put(2) [of p, symmetric]
          put(1) [of "e_props e ++ stripServerProps p"] put(2) [of "e_props e ++ stripServerProps p", symmetric]
        by (cases merge) (auto simp: updateEntity_def table_lookup_eq of_entity_def t_seek_apply Let_def)
    next
      case False
      then have "matchETag e m = Some ErrETagMismatch" by (simp add: matchETag_eq)
      then show ?thesis
        using UpdateEntity t Some False
        by (simp add: updateEntity_def table_lookup_eq of_entity_def t_seek_apply Let_def)
    qed
  qed
next
  case (DeleteEntity a n pk rk m)
  have del: "table_inv (snd (t_delete pk rk t))" "t_seek (snd (t_delete pk rk t)) = (t_seek t)((pk, rk) := None)"
    using t_delete_inv [OF inv] by blast+
  show ?thesis
  proof (cases "t_seek t (pk, rk)")
    case None
    then show ?thesis
      using DeleteEntity t by (simp add: deleteEntity_def table_lookup_eq of_error_def t_seek_apply)
  next
    case (Some e)
    show ?thesis
    proof (cases "m = [] \<or> m = ''*'' \<or> m = e_etag e")
      case True
      then have "matchETag e m = None" by (simp add: matchETag_eq)
      then show ?thesis
        using DeleteEntity t del(1) del(2) [symmetric] Some True
        by (auto simp: deleteEntity_def table_lookup_eq of_error_def t_seek_apply)
    next
      case False
      then have "matchETag e m = Some ErrETagMismatch" by (simp add: matchETag_eq)
      then show ?thesis
        using DeleteEntity t Some False
        by (simp add: deleteEntity_def table_lookup_eq of_error_def t_seek_apply)
    qed
  qed
qed (use assms in \<open>simp_all add: row_op_def\<close>)

lemma table_exec_meets:
  assumes "tables_inv s" and "table_exec now op s = (r, s')"
  shows "tables_inv s' \<and> spec_exec now op (tables_abs s) = (r, tables_abs s')"
proof (cases "row_op op")
  case True
  show ?thesis
  proof (cases "lookup2 s (target op)")
    case None
    then have "tables_abs s (target op) = None" by (simp add: tables_abs_def)
    then show ?thesis
      using row_op_missing [OF True None] assms True
      by (cases op) (auto simp: spec_exec_def row_op_def)
  next
    case (Some t)
    then have inv: "table_inv t" using assms(1) by (cases "target op") (auto simp: tables_inv_def)
    have abs: "tables_abs s (target op) = Some (t_seek t)" by (simp add: tables_abs_def Some)
    obtain r0 s0 rows' where step: "table_exec now op s = (r0, s0)" "spec_rows now op (t_seek t) = (r0, rows')"
      "s0 = s \<and> rows' = t_seek t \<or>
       (\<exists>t'. table_inv t' \<and> rows' = t_seek t' \<and> s0 = setTable (fst (target op)) (snd (target op)) t' s)"
      using row_op_step [OF True Some inv] by blast
    have "tables_inv s0 \<and> tables_abs s0 = (tables_abs s)(target op \<mapsto> rows')"
      using step(3) setTable_ok [OF assms(1)] assms(1) abs by (auto simp: fun_upd_idem)
    moreover have "spec_exec now op (tables_abs s) = (r0, (tables_abs s)(target op \<mapsto> rows'))"
      using True abs step(2) by (cases op) (auto simp: spec_exec_def row_op_def simp del: spec_rows.simps)
    ultimately show ?thesis using step(1) assms(2) by simp
  qed
next
  case False
  then consider a n where "op = CreateTable a n" | a n where "op = DeleteTable a n"
    by (auto simp: row_op_def)
  then show ?thesis
  proof cases
    case 1
    then show ?thesis
      using createTable_ok [OF assms(1), of a n] assms(2)
      by (auto simp: of_error_def spec_exec_def split: prod.splits option.splits)
  next
    case 2
    then show ?thesis
      using deleteTable_ok [OF assms(1), of a n] assms(1, 2)
      by (auto simp: of_error_def spec_exec_def split: prod.splits option.splits)
  qed
qed

section \<open>Properties\<close>



definition entity_key :: "entity \<Rightarrow> string \<times> string" where
  "entity_key e = (e_partitionKey e, e_rowKey e)"

lemma distinct_nested:
  assumes "distinct_keys m" and "\<forall>(pk, rows) \<in> set m. distinct_keys rows"
  shows "distinct (concat (map (\<lambda>(pk, rows). map (\<lambda>(rk, _). (pk, rk)) rows) m))"
  using assms
proof (induction m)
  case (Cons x m)
  obtain pk rows where x: "x = (pk, rows)" by (cases x)
  have "distinct (map (\<lambda>(rk, _). (pk, rk)) rows)"
    using Cons.prems(2) distinct_map [of "Pair pk" "map fst rows"]
    by (auto simp: x distinct_keys_def comp_def case_prod_unfold inj_on_def)
  moreover have "pk \<notin> fst ` set m" using Cons.prems(1) by (simp add: x distinct_keys_def)
  ultimately show ?case
    using Cons by (force simp: x distinct_keys_def)
qed simp

lemma allEntities_keys:
  assumes inv: "table_inv t"
  shows "distinct (map entity_key (allEntities t))" and "set (allEntities t) = {e. \<exists>k. t_seek t k = Some e}"
proof -
  have keys: "map entity_key (allEntities t) =
      concat (map (\<lambda>(pk, rows). map (\<lambda>(rk, _). (pk, rk)) rows) (t_entities t))"
    using inv unfolding allEntities_def map_concat map_map table_inv_def
    by (intro arg_cong [of _ _ concat] map_cong) (auto simp: entity_key_def filed_def split: prod.splits)
  show "distinct (map entity_key (allEntities t))"
    unfolding keys using inv by (intro distinct_nested) (auto simp: table_inv_def)
  show "set (allEntities t) = {e. \<exists>k. t_seek t k = Some e}"
  proof (intro set_eqI iffI)
    fix e
    assume "e \<in> set (allEntities t)"
    then obtain pk rows rk where r: "(pk, rows) \<in> set (t_entities t)" "(rk, e) \<in> set rows"
      by (auto simp: allEntities_def)
    then have "map_of (t_entities t) pk = Some rows" "map_of rows rk = Some e"
      using inv by (auto simp: table_inv_def distinct_keys_def)
    then have "t_seek t (pk, rk) = Some e" by (simp add: t_seek_def t_get_def)
    then show "e \<in> {e. \<exists>k. t_seek t k = Some e}" by blast
  next
    fix e
    assume "e \<in> {e. \<exists>k. t_seek t k = Some e}"
    then show "e \<in> set (allEntities t)"
      by (force simp: allEntities_def t_seek_def t_get_def split: option.splits dest!: map_of_SomeD)
  qed
qed

text \<open>a listing returns every entity of the table exactly once, in strictly increasing order of
  partition key then row key.\<close>

lemma list_entities_sorted:
  assumes "tables_inv s" and "listEntities a n s = Inr es"
  shows "sorted_wrt (<) (map (\<lambda>e. (e_partitionKey e, e_rowKey e)) es) \<and>
    (\<exists>rows. tables_abs s (a, n) = Some rows \<and> set es = {e. \<exists>k. rows k = Some e})"
proof -
  obtain t where t: "lookup2 s (a, n) = Some t" and es: "es = sortEntities (allEntities t)"
    using assms(2) by (auto simp: listEntities_def table_lookup_eq split: option.splits)
  have inv: "table_inv t" using assms(1) t by (auto simp: tables_inv_def)
  have "distinct (map entity_key es)"
    using allEntities_keys(1) [OF inv]
    by (simp add: es sortEntities_def distinct_map)
  moreover have "sorted (map entity_key es)"
    unfolding es sortEntities_def entity_key_def by (rule sorted_sort_key)
  ultimately have sorted: "sorted_wrt (<) (map entity_key es)" by (simp add: strict_sorted_iff)
  have key: "(\<lambda>e. (e_partitionKey e, e_rowKey e)) = entity_key" by (simp add: fun_eq_iff entity_key_def)
  have "set es = set (allEntities t)" by (simp add: es sortEntities_def)
  also have "\<dots> = {e. \<exists>k. t_seek t k = Some e}" by (rule allEntities_keys(2) [OF inv])
  finally have "set es = {e. \<exists>k. t_seek t k = Some e}" .
  moreover have "tables_abs s (a, n) = Some (t_seek t)" by (simp add: tables_abs_def t)
  ultimately show ?thesis unfolding key using sorted by blast
qed

definition one_row_store :: table_store where
  "one_row_store = setTable ''a'' ''t'' (t_put (buildEntity 0 ''p'' ''r'' Map.empty) (newTable ''t'')) []"

lemma one_row_store_inv: "tables_inv one_row_store"
proof -
  have "tables_inv []" by (simp add: tables_inv_def lookup2_def)
  then show ?thesis
    unfolding one_row_store_def
    by (rule setTable_ok(1)) (rule rows.sound_put [OF newTable_inv(1) buildEntity_ok [of "''p''" "''r''"]])
qed

lemma one_row_store_get:
  "lookupLocked ''a'' ''t'' one_row_store = Inr (t_put (buildEntity 0 ''p'' ''r'' Map.empty) (newTable ''t''))"
  "t_get (t_put (buildEntity 0 ''p'' ''r'' Map.empty) (newTable ''t'')) ''p'' ''r'' =
     Some (buildEntity 0 ''p'' ''r'' Map.empty)"
  by (simp_all add: lookupLocked_def one_row_store_def setTable_def t_get_def t_put_def newTable_def
      buildEntity_def)

lemma list_entities_sorted_witness:
  "sorted_wrt (<) (map (\<lambda>e. (e_partitionKey e, e_rowKey e)) [buildEntity 0 ''p'' ''r'' Map.empty]) \<and>
    (\<exists>rows. tables_abs one_row_store (''a'', ''t'') = Some rows \<and>
       set [buildEntity 0 ''p'' ''r'' Map.empty] = {e. \<exists>k. rows k = Some e})"
proof (rule list_entities_sorted [OF one_row_store_inv])
  show "listEntities ''a'' ''t'' one_row_store = Inr [buildEntity 0 ''p'' ''r'' Map.empty]"
    by (simp add: listEntities_def one_row_store_get sortEntities_def allEntities_def t_put_def
        newTable_def)
qed

lemma etagFor_not_wild: "etagFor t \<noteq> []" "etagFor t \<noteq> ''*''"
  by (simp_all add: etagFor_def)

text \<open>optimistic concurrency. Of two clients that read the same entity and update it on the tag
  they read, the second is refused and changes nothing, unless the first update got the very same
  tag (it fell into the same 100 nanoseconds as the version both had read).\<close>

lemma stale_update_refused:
  assumes inv: "tables_inv s" and get: "getEntity a n pk rk s = Inr e"
    and first: "updateEntity now a n pk rk p (e_etag e) merge s = (r, s1)"
    and changed: "etagFor now \<noteq> e_etag e"
  shows "r = Inr (buildEntity now pk rk (if merge then e_props e ++ stripServerProps p else p)) \<and>
    updateEntity now' a n pk rk p' (e_etag e) merge' s1 = (Inl ErrETagMismatch, s1)"
proof -
  obtain t where t: "lookup2 s (a, n) = Some t" and e: "t_get t pk rk = Some e"
    using get by (auto simp: getEntity_def table_lookup_eq split: option.splits)
  have tinv: "table_inv t" using inv t by (auto simp: tables_inv_def)
  have tag: "e_etag e = etagFor (e_timestamp e)"
  proof -
    have "t_seek t (pk, rk) = Some e" using e by (simp add: t_seek_def)
    then have "e \<in> set (allEntities t)" using allEntities_keys(2) [OF tinv] by auto
    then obtain pk' rows rk' where "(pk', rows) \<in> set (t_entities t)" "(rk', e) \<in> set rows"
      by (auto simp: allEntities_def)
    then have "filed (pk', rk') e" using tinv unfolding table_inv_def by blast
    then show ?thesis by (simp add: filed_def entity_ok_def)
  qed
  let ?e1 = "buildEntity now pk rk (if merge then e_props e ++ stripServerProps p else p)"
  have "r = Inr ?e1" and s1: "s1 = setTable a n (t_put ?e1 t) s"
    using first t e etagFor_not_wild
    by (auto simp: updateEntity_def table_lookup_eq matchETag_def tag Let_def split: if_splits)
  moreover have "t_get (t_put ?e1 t) pk rk = Some ?e1"
    using rows.put_same [OF tinv buildEntity_ok [of pk rk now]] by (simp add: t_seek_def)
  moreover have "lookup2 s1 (a, n) = Some (t_put ?e1 t)"
    by (simp add: s1 setTable_eq store_simps)
  moreover have "matchETag ?e1 (e_etag e) = Some ErrETagMismatch"
    using changed etagFor_not_wild by (simp add: matchETag_def buildEntity_def tag)
  ultimately show ?thesis by (simp add: updateEntity_def table_lookup_eq)
qed

lemma stale_update_refused_witness:
  "\<exists>r s1. updateEntity 100 ''a'' ''t'' ''p'' ''r'' Map.empty (etagFor 0) False one_row_store = (r, s1) \<and>
    updateEntity 200 ''a'' ''t'' ''p'' ''r'' Map.empty (etagFor 0) True s1 = (Inl ErrETagMismatch, s1)"
proof -
  let ?e = "buildEntity 0 ''p'' ''r'' Map.empty"
  obtain r s1 where u: "updateEntity 100 ''a'' ''t'' ''p'' ''r'' Map.empty (e_etag ?e) False one_row_store = (r, s1)"
    by fastforce
  have g: "getEntity ''a'' ''t'' ''p'' ''r'' one_row_store = Inr ?e"
    by (simp add: getEntity_def one_row_store_get)
  have "etagFor 100 \<noteq> etagFor 0" by code_simp
  then have "etagFor 100 \<noteq> e_etag ?e" by (simp add: buildEntity_def)
  then have "updateEntity 200 ''a'' ''t'' ''p'' ''r'' Map.empty (e_etag ?e) True s1 = (Inl ErrETagMismatch, s1)"
    using stale_update_refused [OF one_row_store_inv g u] by blast
  then show ?thesis using u by (auto simp: buildEntity_def)
qed

end
