(* ===== verification/Odata_Filter.thy ===== *)
theory Odata_Filter
  imports Go_Float Table_Store
begin

text \<open>
  The \<open>$filter\<close> language of the Table service, \<open>internal/servers/tableserver/filter_lexer.go\<close>,
  \<open>filter_parser.go\<close> and the filter part of \<open>odata.go\<close>. The closures the parser builds are the
  constructors of \<open>filter_expr\<close>, applied by \<open>satisfies\<close>. The parser's position is the list of tokens left; it
  recurses on fuel, of which \<open>parseFilter\<close> gives enough (\<open>parser_has_fuel\<close>).
\<close>

section \<open>Tokens\<close>

datatype tokenKind = TokIdent | TokString | TokNumber | TokBool | TokOp | TokAnd | TokOr
  | TokLParen | TokRParen

datatype token = Token (kind: tokenKind) (text_of: string)

datatype filter_error = ErrFilter | NoFuel

definition compareOps :: "string list" where
  "compareOps = [''eq'', ''ne'', ''gt'', ''ge'', ''lt'', ''le'']"

definition classifyWord :: "string \<Rightarrow> token" where
  "classifyWord word =
     (let lower = toLower word in
      if lower = ''and'' then Token TokAnd []
      else if lower = ''or'' then Token TokOr []
      else if lower = ''true'' \<or> lower = ''false'' then Token TokBool lower
      else if lower \<in> set compareOps then Token TokOp lower
      else if parseFloat word \<noteq> None then Token TokNumber word
      else Token TokIdent word)"

text \<open>The inner loop on a quoted string: its contents and what follows the closing quote.\<close>

abbreviation quote :: char where "quote \<equiv> CHR 39"

fun quotedString :: "string \<Rightarrow> string \<Rightarrow> (string \<times> string) option" where
  "quotedString sb [] = None"
| "quotedString sb (c # s) =
     (if c = quote then
        (case s of
           d # s' \<Rightarrow> if d = quote then quotedString (sb @ [quote]) s' else Some (sb, s)
         | [] \<Rightarrow> Some (sb, s))
      else quotedString (sb @ [c]) s)"

definition wordEnd :: "char \<Rightarrow> bool" where
  "wordEnd c \<longleftrightarrow> c = CHR '' '' \<or> c = CHR 9 \<or> c = CHR ''('' \<or> c = CHR '')''"

lemma quotedString_shorter: "quotedString sb s = Some (x, r) \<Longrightarrow> length r < length s"
  by (induction sb s rule: quotedString.induct) (auto split: if_splits list.splits)

lemma dropWhile_shorter: "\<not> p c \<Longrightarrow> length (dropWhile (\<lambda>d. \<not> p d) s) < Suc (length s)"
  by (simp add: length_dropWhile_le less_Suc_eq_le)

function tokenizeFilter :: "string \<Rightarrow> filter_error + token list" where
  "tokenizeFilter [] = Inr []"
| "tokenizeFilter (c # s) =
     (if c = CHR '' '' \<or> c = CHR 9 then tokenizeFilter s
      else if c = CHR ''('' then and_then (tokenizeFilter s) (\<lambda>ts. Inr (Token TokLParen [] # ts))
      else if c = CHR '')'' then and_then (tokenizeFilter s) (\<lambda>ts. Inr (Token TokRParen [] # ts))
      else if c = quote then
        (case quotedString [] s of
           None \<Rightarrow> Inl ErrFilter
         | Some (x, r) \<Rightarrow> and_then (tokenizeFilter r) (\<lambda>ts. Inr (Token TokString x # ts)))
      else and_then (tokenizeFilter (dropWhile (\<lambda>d. \<not> wordEnd d) s))
             (\<lambda>ts. Inr (classifyWord (c # takeWhile (\<lambda>d. \<not> wordEnd d) s) # ts)))"
  by pat_completeness auto
termination
  by (relation "measure length") (auto dest: quotedString_shorter simp: length_dropWhile_le less_Suc_eq_le)

declare tokenizeFilter.simps [simp del]

section \<open>Expressions\<close>

datatype literal = LString string | LNumber f64 | LBool bool

datatype filter_expr = FTrue | FOr filter_expr filter_expr | FAnd filter_expr filter_expr
  | FCompare string string literal

definition maxFilterDepth :: nat where "maxFilterDepth = 64"

definition literalOf :: "token \<Rightarrow> filter_error + literal" where
  "literalOf t =
     (case kind t of
        TokString \<Rightarrow> Inr (LString (text_of t))
      | TokNumber \<Rightarrow> (case parseFloat (text_of t) of None \<Rightarrow> Inl ErrFilter | Some x \<Rightarrow> Inr (LNumber x))
      | TokBool \<Rightarrow> Inr (LBool (text_of t = ''true''))
      | _ \<Rightarrow> Inl ErrFilter)"

definition comparison :: "string \<Rightarrow> string \<Rightarrow> token \<Rightarrow> filter_error + filter_expr" where
  "comparison field op t = and_then (literalOf t) (\<lambda>l. Inr (FCompare field op l))"

text \<open>
  \<open>depth\<close> is the parser's counter: the code adds one at an opening parenthesis and takes it back
  when the inner expression parsed, so it is an argument here. \<open>orLoop\<close> and \<open>andLoop\<close> are the loops
  of \<open>parseOr\<close> and \<open>parseAnd\<close>, with the expression built so far.
\<close>

type_synonym parsed = "filter_error + (filter_expr \<times> token list)"

function (sequential) parseOr :: "nat \<Rightarrow> nat \<Rightarrow> token list \<Rightarrow> parsed"
  and orLoop :: "nat \<Rightarrow> nat \<Rightarrow> filter_expr \<Rightarrow> token list \<Rightarrow> parsed"
  and parseAnd :: "nat \<Rightarrow> nat \<Rightarrow> token list \<Rightarrow> parsed"
  and andLoop :: "nat \<Rightarrow> nat \<Rightarrow> filter_expr \<Rightarrow> token list \<Rightarrow> parsed"
  and parsePrimary :: "nat \<Rightarrow> nat \<Rightarrow> token list \<Rightarrow> parsed"
  where
  "parseOr 0 depth ts = Inl NoFuel"
| "parseOr (Suc f) depth ts = and_then (parseAnd f depth ts) (\<lambda>(left, ts'). orLoop f depth left ts')"
| "orLoop 0 depth left ts = Inl NoFuel"
| "orLoop (Suc f) depth left ts =
     (case ts of
        [] \<Rightarrow> Inr (left, ts)
      | t # ts' \<Rightarrow>
          if kind t \<noteq> TokOr then Inr (left, ts)
          else and_then (parseAnd f depth ts') (\<lambda>(right, r). orLoop f depth (FOr left right) r))"
| "parseAnd 0 depth ts = Inl NoFuel"
| "parseAnd (Suc f) depth ts = and_then (parsePrimary f depth ts) (\<lambda>(left, ts'). andLoop f depth left ts')"
| "andLoop 0 depth left ts = Inl NoFuel"
| "andLoop (Suc f) depth left ts =
     (case ts of
        [] \<Rightarrow> Inr (left, ts)
      | t # ts' \<Rightarrow>
          if kind t \<noteq> TokAnd then Inr (left, ts)
          else and_then (parsePrimary f depth ts') (\<lambda>(right, r). andLoop f depth (FAnd left right) r))"
| "parsePrimary 0 depth ts = Inl NoFuel"
| "parsePrimary (Suc f) depth ts =
     (case ts of
        [] \<Rightarrow> Inl ErrFilter
      | t # ts1 \<Rightarrow>
          if kind t = TokLParen then
            if Suc depth > maxFilterDepth then Inl ErrFilter
            else and_then (parseOr f (Suc depth) ts1) (\<lambda>(e, ts2).
              case ts2 of
                [] \<Rightarrow> Inl ErrFilter
              | c # ts3 \<Rightarrow> if kind c \<noteq> TokRParen then Inl ErrFilter else Inr (e, ts3))
          else if kind t \<noteq> TokIdent then Inl ErrFilter
          else (case ts1 of
              [] \<Rightarrow> Inl ErrFilter
            | op # ts2 \<Rightarrow>
                if kind op \<noteq> TokOp then Inl ErrFilter
                else (case ts2 of
                    [] \<Rightarrow> Inl ErrFilter
                  | v # ts3 \<Rightarrow> and_then (comparison (text_of t) (text_of op) v) (\<lambda>e. Inr (e, ts3)))))"
  by pat_completeness auto
termination
  by (relation "measure (\<lambda>x. case x of Inl y \<Rightarrow> (case y of Inl (f, _) \<Rightarrow> f | Inr (f, _) \<Rightarrow> f)
      | Inr y \<Rightarrow> (case y of Inl (f, _) \<Rightarrow> f | Inr (Inl (f, _)) \<Rightarrow> f | Inr (Inr (f, _)) \<Rightarrow> f))") auto

definition parseTokens :: "token list \<Rightarrow> filter_error + filter_expr" where
  "parseTokens ts =
     and_then (parseOr (5 * length ts + 5) 0 ts) (\<lambda>(e, r). if r \<noteq> [] then Inl ErrFilter else Inr e)"

definition parseFilter :: "string \<Rightarrow> filter_error + filter_expr" where
  "parseFilter expr =
     (let x = trimSpace expr in
      if x = [] then Inr FTrue else and_then (tokenizeFilter x) parseTokens)"

section \<open>Evaluation\<close>

datatype go_value = GString string | GNumber f64 | GBool bool | GOther

text \<open>\<open>json.Unmarshal\<close> into an interface value: a number out of range is an error.\<close>

definition propValue :: "props \<Rightarrow> string \<Rightarrow> go_value option" where
  "propValue p key =
     (case p key of
        None \<Rightarrow> None
      | Some (JString s) \<Rightarrow> Some (GString s)
      | Some (JBool b) \<Rightarrow> Some (GBool b)
      | Some (JNumber t) \<Rightarrow> map_option GNumber (parseFloat t)
      | Some _ \<Rightarrow> Some GOther)"

definition numericOp :: "string \<Rightarrow> f64 \<Rightarrow> f64 \<Rightarrow> bool" where
  "numericOp op a b =
     (if op = ''eq'' then f64_eq a b
      else if op = ''ne'' then \<not> f64_eq a b
      else if op = ''gt'' then f64_less b a
      else if op = ''ge'' then f64_less b a \<or> f64_eq a b
      else if op = ''lt'' then f64_less a b
      else if op = ''le'' then f64_less a b \<or> f64_eq a b
      else False)"

definition stringOp :: "string \<Rightarrow> string \<Rightarrow> string \<Rightarrow> bool" where
  "stringOp op a b =
     (if op = ''eq'' then a = b
      else if op = ''ne'' then a \<noteq> b
      else if op = ''gt'' then a > b
      else if op = ''ge'' then a \<ge> b
      else if op = ''lt'' then a < b
      else if op = ''le'' then a \<le> b
      else False)"

fun compare_op :: "string \<Rightarrow> go_value \<Rightarrow> literal \<Rightarrow> bool" where
  "compare_op op (GNumber a) (LNumber b) = numericOp op a b"
| "compare_op op (GString a) (LString b) = stringOp op a b"
| "compare_op op (GBool a) (LBool b) =
     (if op = ''eq'' then a = b else if op = ''ne'' then a \<noteq> b else False)"
| "compare_op op _ _ = False"

fun satisfies :: "filter_expr \<Rightarrow> props \<Rightarrow> bool" where
  "satisfies FTrue p = True"
| "satisfies (FOr l r) p = (satisfies l p \<or> satisfies r p)"
| "satisfies (FAnd l r) p = (satisfies l p \<and> satisfies r p)"
| "satisfies (FCompare field op lit) p =
     (case propValue p field of None \<Rightarrow> False | Some v \<Rightarrow> compare_op op v lit)"

end
