(* ===== verification/Odata_Grammar.thy ===== *)
theory Odata_Grammar
  imports Odata_Filter
begin

text \<open>
  The grammar of the \<open>$filter\<close> language, and that the recursive-descent parser of
  \<open>internal/servers/tableserver/filter_parser.go\<close> accepts exactly it: \<open>and\<close> binds tighter than \<open>or\<close>,
  both associate to the left, parentheses nest at most \<open>maxFilterDepth\<close> deep.
\<close>

section \<open>The grammar\<close>

text \<open>\<open>or_form n ts e\<close>: \<open>ts\<close> writes \<open>e\<close> with parentheses nested at most \<open>n\<close> deep.\<close>

inductive or_form :: "nat \<Rightarrow> token list \<Rightarrow> filter_expr \<Rightarrow> bool"
  and and_form :: "nat \<Rightarrow> token list \<Rightarrow> filter_expr \<Rightarrow> bool"
  and primary_form :: "nat \<Rightarrow> token list \<Rightarrow> filter_expr \<Rightarrow> bool"
  where
  or_one: "and_form n ts e \<Longrightarrow> or_form n ts e"
| or_more: "or_form n ts l \<Longrightarrow> kind t = TokOr \<Longrightarrow> and_form n ts' r \<Longrightarrow> or_form n (ts @ t # ts') (FOr l r)"
| and_one: "primary_form n ts e \<Longrightarrow> and_form n ts e"
| and_more: "and_form n ts l \<Longrightarrow> kind t = TokAnd \<Longrightarrow> primary_form n ts' r \<Longrightarrow>
    and_form n (ts @ t # ts') (FAnd l r)"
| parens: "kind t = TokLParen \<Longrightarrow> or_form n ts e \<Longrightarrow> kind t' = TokRParen \<Longrightarrow>
    primary_form (Suc n) (t # ts @ [t']) e"
| comparing: "kind t = TokIdent \<Longrightarrow> kind op = TokOp \<Longrightarrow> literalOf v = Inr l \<Longrightarrow>
    primary_form n [t, op, v] (FCompare (text_of t) (text_of op) l)"

section \<open>The parser's fuel\<close>

lemmas parse_simps = parseOr.simps orLoop.simps parseAnd.simps andLoop.simps parsePrimary.simps

declare parse_simps [simp del]

lemma parseOr_Suc:
  "parseOr (Suc f) d ts = and_then (parseAnd f d ts) (\<lambda>(left, r). orLoop f d left r)"
  by (simp add: parse_simps)

lemma parseAnd_Suc:
  "parseAnd (Suc f) d ts = and_then (parsePrimary f d ts) (\<lambda>(left, r). andLoop f d left r)"
  by (simp add: parse_simps)

lemma orLoop_Suc:
  "orLoop (Suc f) d l ts =
     (if ts = [] \<or> kind (hd ts) \<noteq> TokOr then Inr (l, ts)
      else and_then (parseAnd f d (tl ts)) (\<lambda>(right, r). orLoop f d (FOr l right) r))"
  by (cases ts) (simp_all add: parse_simps)

lemma andLoop_Suc:
  "andLoop (Suc f) d l ts =
     (if ts = [] \<or> kind (hd ts) \<noteq> TokAnd then Inr (l, ts)
      else and_then (parsePrimary f d (tl ts)) (\<lambda>(right, r). andLoop f d (FAnd l right) r))"
  by (cases ts) (simp_all add: parse_simps)

lemma parsePrimary_Suc:
  "parsePrimary (Suc f) d ts =
     (if ts = [] then Inl ErrFilter
      else if kind (hd ts) = TokLParen then
        if maxFilterDepth \<le> d then Inl ErrFilter
        else and_then (parseOr f (Suc d) (tl ts)) (\<lambda>(e, r).
          if r = [] \<or> kind (hd r) \<noteq> TokRParen then Inl ErrFilter else Inr (e, tl r))
      else if length ts < 3 \<or> kind (hd ts) \<noteq> TokIdent \<or> kind (ts ! 1) \<noteq> TokOp then Inl ErrFilter
      else and_then (comparison (text_of (hd ts)) (text_of (ts ! 1)) (ts ! 2)) (\<lambda>e. Inr (e, drop 3 ts)))"
  by (auto simp: parse_simps less_Suc_eq_le numeral_3_eq_3 split: list.splits intro!: arg_cong [of _ _ "and_then _"])

lemmas parse_Suc = parseOr_Suc parseAnd_Suc orLoop_Suc andLoop_Suc parsePrimary_Suc
lemmas parse_zero = parseOr.simps(1) orLoop.simps(1) parseAnd.simps(1) andLoop.simps(1) parsePrimary.simps(1)

lemma parse_shorter_fuel:
  "(\<forall>d ts e r. parseOr f d ts = Inr (e, r) \<longrightarrow> length r < length ts) \<and>
   (\<forall>d l ts e r. orLoop f d l ts = Inr (e, r) \<longrightarrow> length r \<le> length ts) \<and>
   (\<forall>d ts e r. parseAnd f d ts = Inr (e, r) \<longrightarrow> length r < length ts) \<and>
   (\<forall>d l ts e r. andLoop f d l ts = Inr (e, r) \<longrightarrow> length r \<le> length ts) \<and>
   (\<forall>d ts e r. parsePrimary f d ts = Inr (e, r) \<longrightarrow> length r < length ts)"
proof (induction f)
  case 0
  show ?case by (simp add: parse_zero)
next
  case (Suc f)
  then have ih: "\<And>d ts e r. parseOr f d ts = Inr (e, r) \<Longrightarrow> length r < length ts"
    "\<And>d l ts e r. orLoop f d l ts = Inr (e, r) \<Longrightarrow> length r \<le> length ts"
    "\<And>d ts e r. parseAnd f d ts = Inr (e, r) \<Longrightarrow> length r < length ts"
    "\<And>d l ts e r. andLoop f d l ts = Inr (e, r) \<Longrightarrow> length r \<le> length ts"
    "\<And>d ts e r. parsePrimary f d ts = Inr (e, r) \<Longrightarrow> length r < length ts"
    by meson+
  have "length r < length ts" if "parseOr (Suc f) d ts = Inr (e, r)" for d ts e r
    using that by (fastforce simp: parse_Suc and_then_eq_Inr dest: ih)
  moreover have "length r < length ts" if "parseAnd (Suc f) d ts = Inr (e, r)" for d ts e r
    using that by (fastforce simp: parse_Suc and_then_eq_Inr dest: ih)
  moreover have "length r \<le> length ts" if "orLoop (Suc f) d l ts = Inr (e, r)" for d l ts e r
    using that by (cases ts) (auto simp: parse_Suc and_then_eq_Inr neq_Nil_conv split: if_splits dest!: ih)
  moreover have "length r \<le> length ts" if "andLoop (Suc f) d l ts = Inr (e, r)" for d l ts e r
    using that by (cases ts) (auto simp: parse_Suc and_then_eq_Inr neq_Nil_conv split: if_splits dest!: ih)
  moreover have "length r < length ts" if "parsePrimary (Suc f) d ts = Inr (e, r)" for d ts e r
    using that by (cases ts) (auto simp: parse_Suc and_then_eq_Inr neq_Nil_conv split: if_splits dest!: ih)
  ultimately show ?case by blast
qed

lemma parse_shorter:
  "parseOr f d ts = Inr (e, r) \<Longrightarrow> length r < length ts"
  "parseAnd f d ts = Inr (e, r) \<Longrightarrow> length r < length ts"
  "parsePrimary f d ts = Inr (e, r) \<Longrightarrow> length r < length ts"
  using parse_shorter_fuel [of f] by meson+

lemma literalOf_fuel: "literalOf t \<noteq> Inl NoFuel" "comparison x y t \<noteq> Inl NoFuel"
  by (auto simp: literalOf_def comparison_def and_then_eq_Inl split: tokenKind.splits option.splits)

lemma parse_enough_fuel:
  "(\<forall>d ts. 5 * length ts + 3 \<le> f \<longrightarrow> parseOr f d ts \<noteq> Inl NoFuel) \<and>
   (\<forall>d l ts. 5 * length ts + 1 \<le> f \<longrightarrow> orLoop f d l ts \<noteq> Inl NoFuel) \<and>
   (\<forall>d ts. 5 * length ts + 2 \<le> f \<longrightarrow> parseAnd f d ts \<noteq> Inl NoFuel) \<and>
   (\<forall>d l ts. 5 * length ts + 1 \<le> f \<longrightarrow> andLoop f d l ts \<noteq> Inl NoFuel) \<and>
   (\<forall>d ts. 5 * length ts + 1 \<le> f \<longrightarrow> parsePrimary f d ts \<noteq> Inl NoFuel)"
proof (induction f)
  case 0
  show ?case by (simp add: parse_zero)
next
  case (Suc f)
  then have ih: "\<And>d ts. 5 * length ts + 3 \<le> f \<Longrightarrow> parseOr f d ts \<noteq> Inl NoFuel"
    "\<And>d l ts. 5 * length ts + 1 \<le> f \<Longrightarrow> orLoop f d l ts \<noteq> Inl NoFuel"
    "\<And>d ts. 5 * length ts + 2 \<le> f \<Longrightarrow> parseAnd f d ts \<noteq> Inl NoFuel"
    "\<And>d l ts. 5 * length ts + 1 \<le> f \<Longrightarrow> andLoop f d l ts \<noteq> Inl NoFuel"
    "\<And>d ts. 5 * length ts + 1 \<le> f \<Longrightarrow> parsePrimary f d ts \<noteq> Inl NoFuel"
    by meson+
  have "parseOr (Suc f) d ts \<noteq> Inl NoFuel" if "5 * length ts + 3 \<le> Suc f" for d ts
  proof -
    have "orLoop f d x r \<noteq> Inl NoFuel" if "parseAnd f d ts = Inr (x, r)" for x r
      using parse_shorter(2) [OF that] \<open>5 * length ts + 3 \<le> Suc f\<close> by (intro ih) simp
    then show ?thesis using that ih(3) [of ts d] by (auto simp: parse_Suc and_then_eq_Inl)
  qed
  moreover have "parseAnd (Suc f) d ts \<noteq> Inl NoFuel" if "5 * length ts + 2 \<le> Suc f" for d ts
  proof -
    have "andLoop f d x r \<noteq> Inl NoFuel" if "parsePrimary f d ts = Inr (x, r)" for x r
      using parse_shorter(3) [OF that] \<open>5 * length ts + 2 \<le> Suc f\<close> by (intro ih) simp
    then show ?thesis using that ih(5) [of ts d] by (auto simp: parse_Suc and_then_eq_Inl)
  qed
  moreover have "orLoop (Suc f) d l ts \<noteq> Inl NoFuel" if "5 * length ts + 1 \<le> Suc f" for d l ts
  proof (cases ts)
    case (Cons t ts')
    have "orLoop f d y r \<noteq> Inl NoFuel" if "parseAnd f d ts' = Inr (x, r)" for x y r
      using parse_shorter(2) [OF that] \<open>5 * length ts + 1 \<le> Suc f\<close> Cons by (intro ih) simp
    then show ?thesis using that Cons ih(3) [of ts' d] by (auto simp: parse_Suc and_then_eq_Inl)
  qed (simp add: parse_Suc)
  moreover have "andLoop (Suc f) d l ts \<noteq> Inl NoFuel" if "5 * length ts + 1 \<le> Suc f" for d l ts
  proof (cases ts)
    case (Cons t ts')
    have "andLoop f d y r \<noteq> Inl NoFuel" if "parsePrimary f d ts' = Inr (x, r)" for x y r
      using parse_shorter(3) [OF that] \<open>5 * length ts + 1 \<le> Suc f\<close> Cons by (intro ih) simp
    then show ?thesis using that Cons ih(5) [of ts' d] by (auto simp: parse_Suc and_then_eq_Inl)
  qed (simp add: parse_Suc)
  moreover have "parsePrimary (Suc f) d ts \<noteq> Inl NoFuel" if "5 * length ts + 1 \<le> Suc f" for d ts
  proof (cases ts)
    case (Cons t ts')
    have "parseOr f d' ts' \<noteq> Inl NoFuel" for d'
      using that Cons by (intro ih) simp
    then show ?thesis
      using Cons literalOf_fuel by (auto simp: parse_Suc and_then_eq_Inl split: if_splits)
  qed (simp add: parse_Suc)
  ultimately show ?case by blast
qed

text \<open>More fuel does not change an answer.\<close>

lemma parse_more_fuel_step:
  "(\<forall>d ts. parseOr f d ts \<noteq> Inl NoFuel \<longrightarrow> parseOr (Suc f) d ts = parseOr f d ts) \<and>
   (\<forall>d l ts. orLoop f d l ts \<noteq> Inl NoFuel \<longrightarrow> orLoop (Suc f) d l ts = orLoop f d l ts) \<and>
   (\<forall>d ts. parseAnd f d ts \<noteq> Inl NoFuel \<longrightarrow> parseAnd (Suc f) d ts = parseAnd f d ts) \<and>
   (\<forall>d l ts. andLoop f d l ts \<noteq> Inl NoFuel \<longrightarrow> andLoop (Suc f) d l ts = andLoop f d l ts) \<and>
   (\<forall>d ts. parsePrimary f d ts \<noteq> Inl NoFuel \<longrightarrow> parsePrimary (Suc f) d ts = parsePrimary f d ts)"
proof (induction f)
  case 0
  show ?case by (simp add: parse_zero)
next
  case (Suc f)
  then have ih: "\<And>d ts. parseOr f d ts \<noteq> Inl NoFuel \<Longrightarrow> parseOr (Suc f) d ts = parseOr f d ts"
    "\<And>d l ts. orLoop f d l ts \<noteq> Inl NoFuel \<Longrightarrow> orLoop (Suc f) d l ts = orLoop f d l ts"
    "\<And>d ts. parseAnd f d ts \<noteq> Inl NoFuel \<Longrightarrow> parseAnd (Suc f) d ts = parseAnd f d ts"
    "\<And>d l ts. andLoop f d l ts \<noteq> Inl NoFuel \<Longrightarrow> andLoop (Suc f) d l ts = andLoop f d l ts"
    "\<And>d ts. parsePrimary f d ts \<noteq> Inl NoFuel \<Longrightarrow> parsePrimary (Suc f) d ts = parsePrimary f d ts"
    by meson+
  have bind: "and_then m' g' = and_then m g"
    if "and_then m g \<noteq> Inl NoFuel" "m \<noteq> Inl NoFuel \<Longrightarrow> m' = m" "\<And>x. g x \<noteq> Inl NoFuel \<Longrightarrow> g' x = g x"
    for m m' :: "filter_error + 'x" and g g' :: "'x \<Rightarrow> filter_error + 'y"
    using that by (cases m) auto
  have "parseOr (Suc (Suc f)) d ts = parseOr (Suc f) d ts" if "parseOr (Suc f) d ts \<noteq> Inl NoFuel" for d ts
    using that unfolding parseOr_Suc [of "Suc f" d ts] parseOr_Suc [of f d ts] by (rule bind) (auto intro: ih)
  moreover have "parseAnd (Suc (Suc f)) d ts = parseAnd (Suc f) d ts"
    if "parseAnd (Suc f) d ts \<noteq> Inl NoFuel" for d ts
    using that unfolding parseAnd_Suc [of "Suc f" d ts] parseAnd_Suc [of f d ts] by (rule bind) (auto intro: ih)
  moreover have "orLoop (Suc (Suc f)) d l ts = orLoop (Suc f) d l ts"
    if "orLoop (Suc f) d l ts \<noteq> Inl NoFuel" for d l ts
    using that unfolding orLoop_Suc [of "Suc f" d l ts] orLoop_Suc [of f d l ts]
    by (auto split: if_splits elim!: bind intro: ih)
  moreover have "andLoop (Suc (Suc f)) d l ts = andLoop (Suc f) d l ts"
    if "andLoop (Suc f) d l ts \<noteq> Inl NoFuel" for d l ts
    using that unfolding andLoop_Suc [of "Suc f" d l ts] andLoop_Suc [of f d l ts]
    by (auto split: if_splits elim!: bind intro: ih)
  moreover have "parsePrimary (Suc (Suc f)) d ts = parsePrimary (Suc f) d ts"
    if "parsePrimary (Suc f) d ts \<noteq> Inl NoFuel" for d ts
    using that unfolding parsePrimary_Suc [of "Suc f" d ts] parsePrimary_Suc [of f d ts]
    by (auto split: if_splits elim!: bind intro: ih)
  ultimately show ?case by blast
qed

lemma parse_more_fuel: "parseOr f d ts \<noteq> Inl NoFuel \<Longrightarrow> parseOr (f + k) d ts = parseOr f d ts"
proof (induction k)
  case (Suc k)
  then have "parseOr (f + k) d ts \<noteq> Inl NoFuel" by simp
  then show ?case using parse_more_fuel_step [of "f + k"] Suc by simp
qed simp

section \<open>The parser accepts only the grammar\<close>

lemma parse_sound_fuel:
  "(\<forall>d ts e r. parseOr f d ts = Inr (e, r) \<longrightarrow> d \<le> maxFilterDepth \<longrightarrow>
      (\<exists>u. ts = u @ r \<and> or_form (maxFilterDepth - d) u e)) \<and>
   (\<forall>d l ts e r p. orLoop f d l ts = Inr (e, r) \<longrightarrow> d \<le> maxFilterDepth \<longrightarrow>
      or_form (maxFilterDepth - d) p l \<longrightarrow> (\<exists>u. ts = u @ r \<and> or_form (maxFilterDepth - d) (p @ u) e)) \<and>
   (\<forall>d ts e r. parseAnd f d ts = Inr (e, r) \<longrightarrow> d \<le> maxFilterDepth \<longrightarrow>
      (\<exists>u. ts = u @ r \<and> and_form (maxFilterDepth - d) u e)) \<and>
   (\<forall>d l ts e r p. andLoop f d l ts = Inr (e, r) \<longrightarrow> d \<le> maxFilterDepth \<longrightarrow>
      and_form (maxFilterDepth - d) p l \<longrightarrow> (\<exists>u. ts = u @ r \<and> and_form (maxFilterDepth - d) (p @ u) e)) \<and>
   (\<forall>d ts e r. parsePrimary f d ts = Inr (e, r) \<longrightarrow> d \<le> maxFilterDepth \<longrightarrow>
      (\<exists>u. ts = u @ r \<and> primary_form (maxFilterDepth - d) u e))"
proof (induction f)
  case 0
  show ?case by (simp add: parse_zero)
next
  case (Suc f)
  let ?n = "\<lambda>d. maxFilterDepth - d"
  from Suc have pOr: "\<And>d ts e r. parseOr f d ts = Inr (e, r) \<Longrightarrow> d \<le> maxFilterDepth \<Longrightarrow>
      \<exists>u. ts = u @ r \<and> or_form (?n d) u e"
    and lOr: "\<And>d l ts e r p. orLoop f d l ts = Inr (e, r) \<Longrightarrow> d \<le> maxFilterDepth \<Longrightarrow>
      or_form (?n d) p l \<Longrightarrow> \<exists>u. ts = u @ r \<and> or_form (?n d) (p @ u) e"
    and pAnd: "\<And>d ts e r. parseAnd f d ts = Inr (e, r) \<Longrightarrow> d \<le> maxFilterDepth \<Longrightarrow>
      \<exists>u. ts = u @ r \<and> and_form (?n d) u e"
    and lAnd: "\<And>d l ts e r p. andLoop f d l ts = Inr (e, r) \<Longrightarrow> d \<le> maxFilterDepth \<Longrightarrow>
      and_form (?n d) p l \<Longrightarrow> \<exists>u. ts = u @ r \<and> and_form (?n d) (p @ u) e"
    and pPrim: "\<And>d ts e r. parsePrimary f d ts = Inr (e, r) \<Longrightarrow> d \<le> maxFilterDepth \<Longrightarrow>
      \<exists>u. ts = u @ r \<and> primary_form (?n d) u e"
    by meson+
  have "\<exists>u. ts = u @ r \<and> or_form (?n d) u e"
    if res: "parseOr (Suc f) d ts = Inr (e, r)" and dm: "d \<le> maxFilterDepth" for d ts e r
  proof -
    obtain l r1 where a: "parseAnd f d ts = Inr (l, r1)" and o: "orLoop f d l r1 = Inr (e, r)"
      using res by (auto simp: parse_Suc and_then_eq_Inr)
    obtain u where u: "ts = u @ r1" "and_form (?n d) u l" using pAnd [OF a dm] by blast
    obtain u' where "r1 = u' @ r" "or_form (?n d) (u @ u') e"
      using lOr [OF o dm or_one [OF u(2)]] by blast
    with u show ?thesis by auto
  qed
  moreover have "\<exists>u. ts = u @ r \<and> and_form (?n d) u e"
    if res: "parseAnd (Suc f) d ts = Inr (e, r)" and dm: "d \<le> maxFilterDepth" for d ts e r
  proof -
    obtain l r1 where a: "parsePrimary f d ts = Inr (l, r1)" and o: "andLoop f d l r1 = Inr (e, r)"
      using res by (auto simp: parse_Suc and_then_eq_Inr)
    obtain u where u: "ts = u @ r1" "primary_form (?n d) u l" using pPrim [OF a dm] by blast
    obtain u' where "r1 = u' @ r" "and_form (?n d) (u @ u') e"
      using lAnd [OF o dm and_one [OF u(2)]] by blast
    with u show ?thesis by auto
  qed
  moreover have "\<exists>u. ts = u @ r \<and> or_form (?n d) (p @ u) e"
    if res: "orLoop (Suc f) d l ts = Inr (e, r)" and dm: "d \<le> maxFilterDepth" and pre: "or_form (?n d) p l" for d l ts e r p
  proof (cases "ts = [] \<or> kind (hd ts) \<noteq> TokOr")
    case True
    then show ?thesis using res pre by (auto simp: parse_Suc)
  next
    case False
    then obtain t ts' x r1 where ts: "ts = t # ts'" "kind t = TokOr"
      and a: "parseAnd f d ts' = Inr (x, r1)" and o: "orLoop f d (FOr l x) r1 = Inr (e, r)"
      using res by (cases ts) (auto simp: parse_Suc and_then_eq_Inr)
    obtain u where u: "ts' = u @ r1" "and_form (?n d) u x" using pAnd [OF a dm] by blast
    obtain u' where "r1 = u' @ r" "or_form (?n d) ((p @ t # u) @ u') e"
      using lOr [OF o dm or_more [OF pre ts(2) u(2)]] by blast
    with u ts show ?thesis by (intro exI [of _ "t # u @ u'"]) simp
  qed
  moreover have "\<exists>u. ts = u @ r \<and> and_form (?n d) (p @ u) e"
    if res: "andLoop (Suc f) d l ts = Inr (e, r)" and dm: "d \<le> maxFilterDepth" and pre: "and_form (?n d) p l" for d l ts e r p
  proof (cases "ts = [] \<or> kind (hd ts) \<noteq> TokAnd")
    case True
    then show ?thesis using res pre by (auto simp: parse_Suc)
  next
    case False
    then obtain t ts' x r1 where ts: "ts = t # ts'" "kind t = TokAnd"
      and a: "parsePrimary f d ts' = Inr (x, r1)" and o: "andLoop f d (FAnd l x) r1 = Inr (e, r)"
      using res by (cases ts) (auto simp: parse_Suc and_then_eq_Inr)
    obtain u where u: "ts' = u @ r1" "primary_form (?n d) u x" using pPrim [OF a dm] by blast
    obtain u' where "r1 = u' @ r" "and_form (?n d) ((p @ t # u) @ u') e"
      using lAnd [OF o dm and_more [OF pre ts(2) u(2)]] by blast
    with u ts show ?thesis by (intro exI [of _ "t # u @ u'"]) simp
  qed
  moreover have "\<exists>u. ts = u @ r \<and> primary_form (?n d) u e"
    if res: "parsePrimary (Suc f) d ts = Inr (e, r)" and dm: "d \<le> maxFilterDepth" for d ts e r
  proof (cases "ts \<noteq> [] \<and> kind (hd ts) = TokLParen")
    case True
    then obtain t ts1 t' where ts: "ts = t # ts1" "kind t = TokLParen" and d: "d < maxFilterDepth"
      and o: "parseOr f (Suc d) ts1 = Inr (e, t' # r)" and t': "kind t' = TokRParen"
      using res by (cases ts) (auto simp: parse_Suc and_then_eq_Inr neq_Nil_conv split: if_splits)
    obtain u where u: "ts1 = u @ t' # r" "or_form (?n (Suc d)) u e" using pOr [OF o] d by auto
    have "?n d = Suc (?n (Suc d))" using d by simp
    then have "primary_form (?n d) (t # u @ [t']) e" using parens [OF ts(2) u(2) t'] by simp
    with u ts show ?thesis by (intro exI [of _ "t # u @ [t']"]) simp
  next
    case False
    then have kinds: "\<not> length ts < 3" "kind (hd ts) = TokIdent" "kind (ts ! 1) = TokOp"
      and c: "comparison (text_of (hd ts)) (text_of (ts ! 1)) (ts ! 2) = Inr e" and r: "r = drop 3 ts"
      using res by (auto simp: parse_Suc and_then_eq_Inr split: if_splits)
    obtain t op v where ts: "ts = t # op # v # r"
      using kinds(1) r by (cases ts; cases "tl ts"; cases "tl (tl ts)") auto
    obtain l where "literalOf v = Inr l" "e = FCompare (text_of t) (text_of op) l"
      using c by (auto simp: ts comparison_def and_then_eq_Inr)
    then have "primary_form (?n d) [t, op, v] e"
      using comparing [of t op v l "?n d"] kinds by (simp add: ts)
    then show ?thesis using ts by (intro exI [of _ "[t, op, v]"]) simp
  qed
  ultimately show ?case by blast
qed

section \<open>The parser accepts the whole grammar\<close>

definition eventually_fuel :: "(nat \<Rightarrow> bool) \<Rightarrow> bool" where
  "eventually_fuel P \<longleftrightarrow> (\<exists>b. \<forall>f. b \<le> f \<longrightarrow> P f)"

lemma eventually_fuelI: "(\<And>f. b \<le> f \<Longrightarrow> P f) \<Longrightarrow> eventually_fuel P"
  by (auto simp: eventually_fuel_def)

definition stops_at :: "tokenKind \<Rightarrow> token list \<Rightarrow> bool" where
  "stops_at k r \<longleftrightarrow> r = [] \<or> kind (hd r) \<noteq> k"

lemma parse_complete_fuel:
  "(or_form n ts e \<longrightarrow> (\<forall>d rest. n + d = maxFilterDepth \<longrightarrow> stops_at TokAnd rest \<longrightarrow>
      (\<exists>k. eventually_fuel (\<lambda>f. parseOr (f + k) d (ts @ rest) = orLoop f d e rest)))) \<and>
   (and_form n ts e \<longrightarrow> (\<forall>d rest. n + d = maxFilterDepth \<longrightarrow>
      (\<exists>k. eventually_fuel (\<lambda>f. parseAnd (f + k) d (ts @ rest) = andLoop f d e rest)))) \<and>
   (primary_form n ts e \<longrightarrow> (\<forall>d rest. n + d = maxFilterDepth \<longrightarrow>
      eventually_fuel (\<lambda>f. parsePrimary f d (ts @ rest) = Inr (e, rest))))"
proof (induction rule: or_form_and_form_primary_form.induct)
  case (or_one n ts e)
  show ?case
  proof (intro allI impI)
    fix d rest
    assume d: "n + d = maxFilterDepth" and stop: "stops_at TokAnd rest"
    obtain k b where b: "\<And>f. b \<le> f \<Longrightarrow> parseAnd (f + k) d (ts @ rest) = andLoop f d e rest"
      using or_one.IH d unfolding eventually_fuel_def by blast
    have "parseOr (f + 1) d (ts @ rest) = orLoop f d e rest" if "b + k + 1 \<le> f" for f
    proof -
      have "parseAnd f d (ts @ rest) = andLoop (f - k) d e rest" using b [of "f - k"] that by simp
      also have "\<dots> = Inr (e, rest)"
        using that stop by (cases "f - k") (auto simp: parse_Suc stops_at_def)
      finally show ?thesis by (simp add: parse_Suc)
    qed
    then show "\<exists>k. eventually_fuel (\<lambda>f. parseOr (f + k) d (ts @ rest) = orLoop f d e rest)"
      by (blast intro: eventually_fuelI)
  qed
next
  case (or_more n ts l t ts' r)
  show ?case
  proof (intro allI impI)
    fix d rest
    assume d: "n + d = maxFilterDepth" and stop: "stops_at TokAnd rest"
    have "stops_at TokAnd (t # ts' @ rest)" using or_more.hyps by (simp add: stops_at_def)
    then obtain k b where b: "\<And>f. b \<le> f \<Longrightarrow> parseOr (f + k) d (ts @ t # ts' @ rest) = orLoop f d l (t # ts' @ rest)"
      using or_more.IH(1) d unfolding eventually_fuel_def by blast
    obtain k' b' where b': "\<And>f. b' \<le> f \<Longrightarrow> parseAnd (f + k') d (ts' @ rest) = andLoop f d r rest"
      using or_more.IH(2) d unfolding eventually_fuel_def by blast
    have "parseOr (f + Suc k) d ((ts @ t # ts') @ rest) = orLoop f d (FOr l r) rest"
      if "b + b' + k' + 1 \<le> f" for f
    proof -
      have "parseAnd f d (ts' @ rest) = andLoop (f - k') d r rest" using b' [of "f - k'"] that by simp
      also have "\<dots> = Inr (r, rest)"
        using that stop by (cases "f - k'") (auto simp: parse_Suc stops_at_def)
      finally show ?thesis using b [of "Suc f"] that or_more.hyps by (simp add: parse_Suc)
    qed
    then show "\<exists>k. eventually_fuel (\<lambda>f. parseOr (f + k) d ((ts @ t # ts') @ rest) = orLoop f d (FOr l r) rest)"
      by (blast intro: eventually_fuelI)
  qed
next
  case (and_one n ts e)
  show ?case
  proof (intro allI impI)
    fix d rest
    assume d: "n + d = maxFilterDepth"
    obtain b where b: "\<And>f. b \<le> f \<Longrightarrow> parsePrimary f d (ts @ rest) = Inr (e, rest)"
      using and_one.IH d unfolding eventually_fuel_def by blast
    then have "parseAnd (f + 1) d (ts @ rest) = andLoop f d e rest" if "b \<le> f" for f
      using that by (simp add: parse_Suc)
    then show "\<exists>k. eventually_fuel (\<lambda>f. parseAnd (f + k) d (ts @ rest) = andLoop f d e rest)"
      by (blast intro: eventually_fuelI)
  qed
next
  case (and_more n ts l t ts' r)
  show ?case
  proof (intro allI impI)
    fix d rest
    assume d: "n + d = maxFilterDepth"
    obtain k b where b: "\<And>f. b \<le> f \<Longrightarrow> parseAnd (f + k) d (ts @ t # ts' @ rest) = andLoop f d l (t # ts' @ rest)"
      using and_more.IH(1) d unfolding eventually_fuel_def by blast
    obtain b' where b': "\<And>f. b' \<le> f \<Longrightarrow> parsePrimary f d (ts' @ rest) = Inr (r, rest)"
      using and_more.IH(2) d unfolding eventually_fuel_def by blast
    have "parseAnd (f + Suc k) d ((ts @ t # ts') @ rest) = andLoop f d (FAnd l r) rest"
      if "b + b' \<le> f" for f
      using b [of "Suc f"] b' [of f] that and_more.hyps by (simp add: parse_Suc)
    then show "\<exists>k. eventually_fuel (\<lambda>f. parseAnd (f + k) d ((ts @ t # ts') @ rest) = andLoop f d (FAnd l r) rest)"
      by (blast intro: eventually_fuelI)
  qed
next
  case (parens t n ts e t')
  show ?case
  proof (intro allI impI)
    fix d rest
    assume d: "Suc n + d = maxFilterDepth"
    then have "n + Suc d = maxFilterDepth" "stops_at TokAnd (t' # rest)"
      using parens.hyps by (simp_all add: stops_at_def)
    then obtain k b where b: "\<And>f. b \<le> f \<Longrightarrow> parseOr (f + k) (Suc d) (ts @ t' # rest) = orLoop f (Suc d) e (t' # rest)"
      using parens.IH unfolding eventually_fuel_def by blast
    have "parsePrimary f d ((t # ts @ [t']) @ rest) = Inr (e, rest)" if "b + k + 2 \<le> f" for f
    proof -
      obtain g where f: "f = Suc g" using \<open>b + k + 2 \<le> f\<close> by (cases f) auto
      have "parseOr g (Suc d) (ts @ t' # rest) = orLoop (g - k) (Suc d) e (t' # rest)"
        using b [of "g - k"] that f by simp
      also have "\<dots> = Inr (e, t' # rest)"
        using that f parens.hyps by (cases "g - k") (auto simp: parse_Suc)
      finally show ?thesis using d parens.hyps f by (simp add: parse_Suc)
    qed
    then show "eventually_fuel (\<lambda>f. parsePrimary f d ((t # ts @ [t']) @ rest) = Inr (e, rest))"
      by (blast intro: eventually_fuelI)
  qed
next
  case (comparing t op v l n)
  then have "parsePrimary f d ([t, op, v] @ rest) = Inr (FCompare (text_of t) (text_of op) l, rest)"
    if "1 \<le> f" for f d rest
    using that by (cases f) (auto simp: parse_Suc comparison_def)
  then show ?case by (blast intro: eventually_fuelI)
qed

lemma orLoop_Nil: "0 < f \<Longrightarrow> orLoop f d e [] = Inr (e, [])"
  by (cases f) (simp_all add: parse_Suc)

section \<open>Properties\<close>

text \<open>C13: the filter parser accepts exactly the grammar: a token list parses to an expression if and only
  if it writes that expression with \<open>and\<close> binding tighter than \<open>or\<close>, both to the left, and with
  parentheses nested at most 64 deep; so the expression is unique, and anything else is refused with
  an error (the parser always returns).\<close>

theorem parser_accepts_grammar:
  "(parseTokens ts = Inr e \<longleftrightarrow> or_form 64 ts e) \<and> parseTokens ts \<noteq> Inl NoFuel"
proof -
  let ?f = "5 * length ts + 5"
  have fuel: "parseOr ?f 0 ts \<noteq> Inl NoFuel" using parse_enough_fuel [of ?f] by simp
  have "or_form maxFilterDepth ts e" if "parseTokens ts = Inr e"
  proof -
    have p: "parseOr ?f 0 ts = Inr (e, [])"
      using that by (auto simp: parseTokens_def and_then_eq_Inr split: if_splits)
    then obtain u where "ts = u @ []" "or_form (maxFilterDepth - 0) u e"
      using parse_sound_fuel [of ?f] by (meson le0)
    then show ?thesis by simp
  qed
  moreover have "parseTokens ts = Inr e" if e: "or_form maxFilterDepth ts e"
  proof -
    obtain k b where b: "\<And>f. b \<le> f \<Longrightarrow> parseOr (f + k) 0 (ts @ []) = orLoop f 0 e []"
      using parse_complete_fuel [of maxFilterDepth ts e] e
      unfolding eventually_fuel_def stops_at_def by (metis add_0_right)
    have "parseOr (b + 1 + ?f + k) 0 ts = Inr (e, [])"
      using b [of "b + 1 + ?f"] orLoop_Nil [of "b + 1 + ?f"] by simp
    moreover have "parseOr (?f + (b + 1 + k)) 0 ts = parseOr ?f 0 ts"
      by (rule parse_more_fuel [OF fuel])
    ultimately have "parseOr ?f 0 ts = Inr (e, [])" by (simp add: ac_simps)
    then show ?thesis by (simp add: parseTokens_def)
  qed
  moreover have "parseTokens ts \<noteq> Inl NoFuel"
    using fuel by (auto simp: parseTokens_def and_then_eq_Inl split: if_splits)
  ultimately show ?thesis by (auto simp: maxFilterDepth_def)
qed

lemma and_then_fails:
  "m \<in> {Inl ErrFilter, Inl NoFuel} \<Longrightarrow> and_then m g \<in> {Inl ErrFilter, Inl NoFuel}"
  by auto

lemma deep_parens_refused_fuel:
  "maxFilterDepth < k + d \<longrightarrow> d \<le> maxFilterDepth \<longrightarrow>
     parseOr f d (replicate k (Token TokLParen []) @ rest) \<in> {Inl ErrFilter, Inl NoFuel}"
proof (induction k arbitrary: d f)
  case (Suc k)
  have primary: "parsePrimary f d (replicate (Suc k) (Token TokLParen []) @ rest) \<in> {Inl ErrFilter, Inl NoFuel}"
    if "maxFilterDepth < Suc k + d" for f
  proof (cases f)
    case (Suc g)
    then show ?thesis
      using Suc.IH [of "Suc d" g] that by (auto simp: parse_Suc)
  qed (simp add: parse_zero)
  have conj: "parseAnd f d (replicate (Suc k) (Token TokLParen []) @ rest) \<in> {Inl ErrFilter, Inl NoFuel}"
    if "maxFilterDepth < Suc k + d" for f
    using that
  proof (cases f)
    case (Suc g)
    show ?thesis unfolding Suc parseAnd_Suc by (rule and_then_fails) (rule primary [OF that])
  qed (simp add: parse_zero)
  have "parseOr f d (replicate (Suc k) (Token TokLParen []) @ rest) \<in> {Inl ErrFilter, Inl NoFuel}"
    if "maxFilterDepth < Suc k + d"
  proof (cases f)
    case (Suc g)
    show ?thesis unfolding Suc parseOr_Suc
      by (rule and_then_fails) (rule conj [OF that])
  qed (simp add: parse_zero)
  then show ?case by blast
qed simp

text \<open>nesting is bounded: a filter that opens with more than 64 parentheses is refused with an error
  before the parser recurses any deeper, whatever follows them.\<close>

lemma deep_filter_refused:
  assumes "64 < k"
  shows "parseTokens (replicate k (Token TokLParen []) @ rest) = Inl ErrFilter"
proof -
  let ?ts = "replicate k (Token TokLParen []) @ rest"
  have "parseOr (5 * length ?ts + 5) 0 ?ts \<noteq> Inl NoFuel"
    using parse_enough_fuel [of "5 * length ?ts + 5"] by simp
  then show ?thesis
    using deep_parens_refused_fuel [of k 0 "5 * length ?ts + 5" rest] assms
    by (auto simp: parseTokens_def maxFilterDepth_def)
qed

lemma deep_filter_refused_witness:
  "parseTokens (replicate 65 (Token TokLParen []) @ [Token TokIdent ''a'']) = Inl ErrFilter"
  by (rule deep_filter_refused) simp

end
