(* ===== verification/Odata_Keys.thy ===== *)
theory Odata_Keys
  imports Odata_Grammar
begin

text \<open>
  Keys in URLs and in filters, \<open>internal/servers/tableserver/odata.go\<close>: splitting a path segment into a
  table name and a key predicate, reading the keys from it, and their escaping by doubled quotes. Shown
  here: whatever characters a key has, escaping it and reading it back gives the key, in a predicate and
  in a filter, so a key can never end its own literal.
\<close>

section \<open>Predicates\<close>

definition splitPredicate :: "string \<Rightarrow> string \<times> string" where
  "splitPredicate seg =
     (case indexByte seg (CHR ''('') of
        None \<Rightarrow> (seg, [])
      | Some i \<Rightarrow> (take i seg, trimSuffix (drop (i + 1) seg) '')''))"

definition insideParens :: "string \<Rightarrow> string" where
  "insideParens seg =
     (case indexByte seg (CHR ''('') of None \<Rightarrow> [] | Some i \<Rightarrow> trimSuffix (drop (i + 1) seg) '')'')"

text \<open>\<open>strings.ReplaceAll\<close> of two quotes by one, and of one by two.\<close>

fun undouble :: "string \<Rightarrow> string" where
  "undouble (c # d # s) = (if c = quote \<and> d = quote then quote # undouble s else c # undouble (d # s))"
| "undouble s = s"

definition escapeKey :: "string \<Rightarrow> string" where
  "escapeKey s = concat (map (\<lambda>c. if c = quote then [quote, quote] else [c]) s)"

definition unquoteKey :: "string \<Rightarrow> string" where
  "unquoteKey s = undouble (trimSuffix (trimPrefix (trimSpace s) [quote]) [quote])"

text \<open>The loop of \<open>splitTopLevel\<close>, with the part read so far.\<close>

fun splitTop :: "char \<Rightarrow> bool \<Rightarrow> string \<Rightarrow> string \<Rightarrow> string list" where
  "splitTop sep inQuote cur [] = (if cur \<noteq> [] then [cur] else [])"
| "splitTop sep inQuote cur (c # s) =
     (if c = quote then splitTop sep (\<not> inQuote) (cur @ [c]) s
      else if c = sep \<and> \<not> inQuote then cur # splitTop sep inQuote [] s
      else splitTop sep inQuote (cur @ [c]) s)"

definition splitTopLevel :: "string \<Rightarrow> char \<Rightarrow> string list" where
  "splitTopLevel s sep = splitTop sep False [] s"

definition keyPart :: "string \<Rightarrow> string \<times> string \<Rightarrow> string \<times> string" where
  "keyPart part = (\<lambda>(pk, rk).
     case indexByte part (CHR ''='') of
       None \<Rightarrow> (pk, rk)
     | Some i \<Rightarrow>
         let key = toLower (trimSpace (take i part)); val = unquoteKey (drop (i + 1) part) in
         if key = ''partitionkey'' then (val, rk)
         else if key = ''rowkey'' then (pk, val)
         else (pk, rk))"

definition parseEntityKeys :: "string \<Rightarrow> string \<times> string" where
  "parseEntityKeys predicate = fold keyPart (splitTopLevel predicate (CHR '','')) ([], [])"

text \<open>The predicate of an entity's address, as \<open>entityLocation\<close> writes it.\<close>

definition keyPredicate :: "string \<Rightarrow> string \<Rightarrow> string" where
  "keyPredicate pk rk =
     ''PartitionKey='' @ [quote] @ escapeKey pk @ [quote] @ '',RowKey='' @ [quote] @ escapeKey rk @ [quote]"

section \<open>Trimming\<close>

lemma graphic_quote [simp]: "graphic quote"
  by (simp add: graphic_def)

section \<open>Escaping and reading back\<close>

lemma escapeKey_simps [simp]:
  "escapeKey [] = []" "escapeKey (c # s) = (if c = quote then [quote, quote] else [c]) @ escapeKey s"
  by (simp_all add: escapeKey_def)

lemma undouble_escapeKey: "undouble (escapeKey s) = s"
proof (induction s)
  case (Cons c s)
  have "undouble (c # escapeKey s) = c # undouble (escapeKey s)" if "c \<noteq> quote"
    using that by (cases "escapeKey s") auto
  then show ?case using Cons by auto
qed simp

lemma unquoteKey_escapeKey: "unquoteKey ([quote] @ escapeKey s @ [quote]) = s"
proof -
  have "trimSpace ([quote] @ escapeKey s @ [quote]) = [quote] @ escapeKey s @ [quote]"
    by (rule trimSpace_graphic) simp_all
  then show ?thesis
    by (simp only: unquoteKey_def trimPrefix_append trimSuffix_append undouble_escapeKey)
qed

lemma splitTop_plain:
  "quote \<notin> set p \<Longrightarrow> sep \<notin> set p \<Longrightarrow> splitTop sep b cur (p @ s) = splitTop sep b (cur @ p) s"
  by (induction p arbitrary: cur) auto

lemma splitTop_escaped:
  "splitTop sep True cur (escapeKey k @ s) = splitTop sep True (cur @ escapeKey k) s"
  by (induction k arbitrary: cur) auto

lemma splitTop_quoted:
  "splitTop sep False cur ([quote] @ escapeKey k @ [quote] @ s) =
     splitTop sep False (cur @ [quote] @ escapeKey k @ [quote]) s"
  using splitTop_escaped [of sep "cur @ [quote]" k "quote # s"] by simp

lemma keyPart_partition: "keyPart (''PartitionKey='' @ [quote] @ escapeKey k @ [quote]) (pk, rk) = (k, rk)"
proof -
  have "toLower (trimSpace ''PartitionKey'') = ''partitionkey''"
    by (simp add: trimSpace_graphic graphic_def toLower_def isAscii_def lowerChar_def char_of_eq_iff)
  then show ?thesis
    using unquoteKey_escapeKey [of k] by (simp add: keyPart_def Let_def)
qed

lemma keyPart_row: "keyPart (''RowKey='' @ [quote] @ escapeKey k @ [quote]) (pk, rk) = (pk, k)"
proof -
  have "toLower (trimSpace ''RowKey'') = ''rowkey''"
    by (simp add: trimSpace_graphic graphic_def toLower_def isAscii_def lowerChar_def char_of_eq_iff)
  then show ?thesis
    using unquoteKey_escapeKey [of k] by (simp add: keyPart_def Let_def)
qed

lemma parse_keyPredicate: "parseEntityKeys (keyPredicate pk rk) = (pk, rk)"
proof -
  let ?p = "''PartitionKey='' @ [quote] @ escapeKey pk @ [quote]"
  let ?r = "''RowKey='' @ [quote] @ escapeKey rk @ [quote]"
  have "splitTopLevel (keyPredicate pk rk) (CHR '','') =
      splitTop (CHR '','') False ''PartitionKey='' ([quote] @ escapeKey pk @ [quote] @ '','' @ ?r)"
    using splitTop_plain [of "''PartitionKey=''" "CHR '',''" False "[]"
        "[quote] @ escapeKey pk @ [quote] @ '','' @ ?r"]
    by (simp add: splitTopLevel_def keyPredicate_def)
  also have "\<dots> = ?p # splitTop (CHR '','') False [] ?r"
    unfolding splitTop_quoted by simp
  also have "splitTop (CHR '','') False [] ?r = [?r]"
    using splitTop_plain [of "''RowKey=''" "CHR '',''" False "[]" "[quote] @ escapeKey rk @ [quote]"]
      splitTop_quoted [of "CHR '',''" "''RowKey=''" rk "[]"] by simp
  finally show ?thesis
    using keyPart_partition [of pk] keyPart_row [of rk] by (simp add: parseEntityKeys_def)
qed

text \<open>An entity's address can be read back whatever its keys contain: the keys parsed from the
  predicate the server writes into the Location of an entity are the entity's keys.\<close>

lemma keys_roundtrip: "parseEntityKeys (keyPredicate pk rk) = (pk, rk)"
  by (rule parse_keyPredicate)

section \<open>String literals in filters\<close>

lemma quotedString_escaped:
  "quotedString sb (escapeKey k @ [quote] @ s) = (case s of
      d # s' \<Rightarrow> if d = quote then quotedString (sb @ k @ [quote]) s' else Some (sb @ k, s)
    | [] \<Rightarrow> Some (sb @ k, s))"
  by (induction k arbitrary: sb) (auto split: list.splits)

lemma tokenize_word:
  assumes "w \<noteq> []" and "\<forall>c \<in> set w. \<not> wordEnd c" and "hd w \<noteq> quote"
  shows "tokenizeFilter (w @ '' '' @ s) = and_then (tokenizeFilter s) (\<lambda>ts. Inr (classifyWord w # ts))"
proof -
  obtain c v where w: "w = c # v" using assms(1) by (cases w) auto
  have c: "\<not> wordEnd c" "c \<noteq> quote" using assms w by auto
  have "takeWhile (\<lambda>d. \<not> wordEnd d) (v @ '' '' @ s) = v" "dropWhile (\<lambda>d. \<not> wordEnd d) (v @ '' '' @ s) = '' '' @ s"
    using assms(2) w by (auto simp: takeWhile_append dropWhile_append wordEnd_def)
  then show ?thesis using c by (simp add: w tokenizeFilter.simps wordEnd_def)
qed

lemma tokenize_literal:
  "tokenizeFilter ([quote] @ escapeKey k @ [quote]) = Inr [Token TokString k]"
  using quotedString_escaped [of "[]" k "[]"] by (simp add: tokenizeFilter.simps)

lemma compareOp_word:
  assumes "op \<in> set compareOps"
  shows "classifyWord op = Token TokOp op" and "op \<noteq> []" and "\<forall>c \<in> set op. \<not> wordEnd c" and "hd op \<noteq> quote"
proof -
  have "\<forall>op \<in> set compareOps. classifyWord op = Token TokOp op \<and> op \<noteq> [] \<and> (\<forall>c \<in> set op. \<not> wordEnd c) \<and>
      hd op \<noteq> quote"
    by code_simp
  then show "classifyWord op = Token TokOp op" and "op \<noteq> []" and "\<forall>c \<in> set op. \<not> wordEnd c" and "hd op \<noteq> quote"
    using assms by blast+
qed

lemma parse_comparison:
  "parseTokens [Token TokIdent f, Token TokOp op, Token TokString k] = Inr (FCompare f op (LString k))"
  by (simp add: parseTokens_def parse_simps eval_nat_numeral comparison_def literalOf_def)

lemma parse_literal:
  assumes "classifyWord f = Token TokIdent f" and "f \<noteq> []" and "\<forall>c \<in> set f. \<not> wordEnd c"
    and "graphic (hd f)" and "hd f \<noteq> quote" and "op \<in> set compareOps"
  shows "parseFilter (f @ '' '' @ op @ '' '' @ [quote] @ escapeKey k @ [quote]) = Inr (FCompare f op (LString k))"
proof -
  let ?x = "f @ '' '' @ op @ '' '' @ [quote] @ escapeKey k @ [quote]"
  have "trimSpace ?x = ?x" using assms(2, 4) by (intro trimSpace_graphic) simp_all
  moreover have "tokenizeFilter ?x = Inr [Token TokIdent f, Token TokOp op, Token TokString k]"
    using tokenize_word [OF assms(2, 3, 5)] tokenize_word [OF compareOp_word(2-4)] tokenize_literal
      compareOp_word(1) assms(1, 6) by simp
  ultimately show ?thesis using assms(2) by (simp add: parseFilter_def parse_comparison del: append.simps)
qed

text \<open>A key quoted into a filter stays a literal: for every field name, comparison and string, the
  filter made of the field, the operator and the string with its quotes doubled parses to that
  comparison with that string, so no string can change what the filter means.\<close>

lemma filter_literal_safe:
  assumes "classifyWord f = Token TokIdent f" and "f \<noteq> []" and "\<forall>c \<in> set f. \<not> wordEnd c"
    and "graphic (hd f)" and "hd f \<noteq> quote" and "op \<in> set compareOps"
  shows "parseFilter (f @ '' '' @ op @ '' '' @ [quote] @ escapeKey k @ [quote]) = Inr (FCompare f op (LString k))"
  using assms by (rule parse_literal)

lemma partitionKey_word: "classifyWord ''PartitionKey'' = Token TokIdent ''PartitionKey''"
  by code_simp

lemma filter_literal_safe_witness:
  "parseFilter (''PartitionKey'' @ '' '' @ ''eq'' @ '' '' @ [quote] @ escapeKey (''a'' @ [quote] @ '' or 1'') @ [quote]) =
     Inr (FCompare ''PartitionKey'' ''eq'' (LString (''a'' @ [quote] @ '' or 1'')))"
  by (rule filter_literal_safe [OF partitionKey_word])
     (simp_all add: wordEnd_def graphic_def compareOps_def)

end
