(* ===== verification/Table_Server.thy ===== *)
theory Table_Server
  imports Odata_Keys Http
begin

text \<open>
  The HTTP surface of the Table service, \<open>internal/servers/tableserver\<close>: routing by the form of the
  path, table and entity handlers, the properties of an entity in a response, \<open>$filter\<close>, \<open>$top\<close> and
  \<open>$select\<close>. A body is a JSON document; a response carries the metadata URL and maps of properties,
  which the code writes as one JSON object with sorted members. \<open>env\<close> is what a request draws: the
  store's clock, and the clock and identifier of the response headers.
\<close>

record table_env = surroundings +
  te_now :: time

datatype table_body = ErrorBody json | TableBody string string | TablesBody string "string list"
  | EntityBody props | EntitiesBody string "props list"

type_synonym table_reply = "table_body response \<times> table_store"
type_synonym header_list = "(string \<times> string) list"

section \<open>Rendering\<close>

text \<open>The user's properties with the timestamp and the entity tag.\<close>

definition renderEntity :: "entity \<Rightarrow> props" where
  "renderEntity e =
     (e_props e)(''Timestamp'' \<mapsto> mustJSON (formatTime7 (e_timestamp e)), ''odata.etag'' \<mapsto> mustJSON (e_etag e))"

definition projectSelect :: "props \<Rightarrow> string \<Rightarrow> props" where
  "projectSelect m select =
     (if select = [] then m
      else let keep = ''odata.etag'' # map trimSpace (splitOn (CHR '','') select)
           in (\<lambda>k. if k \<in> set keep then m k else None))"

definition parseInt :: "string \<Rightarrow> int \<Rightarrow> int" where
  "parseInt s fallback = (if s = [] then fallback else case atoi s of Some v \<Rightarrow> v | None \<Rightarrow> fallback)"

definition preferNoContent :: "string \<Rightarrow> bool" where
  "preferNoContent prefer \<longleftrightarrow> prefer = ''return-no-content''"

section \<open>Responses\<close>

definition apiVersion :: string where "apiVersion = ''2019-02-02''"

definition commonHeaders :: "table_env \<Rightarrow> header_list" where
  "commonHeaders env =
     setHeader ''Cache-Control'' ''no-cache''
       (setHeader ''Date'' (formatHTTP (now_http env))
         (setHeader ''x-ms-request-id'' (newRequestID (request_id env))
           (setHeader ''x-ms-version'' apiVersion (setHeader ''Server'' ''localaz'' []))))"

definition respond :: "table_env \<Rightarrow> int \<Rightarrow> header_list \<Rightarrow> table_body option \<Rightarrow> table_body response" where
  "respond env status hs b = \<lparr>rs_status = status, rs_headers = fold (\<lambda>(k, v). setHeader k v) hs (commonHeaders env),
     rs_body = b\<rparr>"

definition contentType :: string where
  "contentType = ''application/json;odata=minimalmetadata;streaming=true;charset=utf-8''"

definition azureError :: "table_env \<Rightarrow> json request \<Rightarrow> azure_error \<Rightarrow> table_body response" where
  "azureError env r e =
     respond env (ae_status e)
       [(''x-ms-error-code'', ae_code e), (''Content-Type'', ''application/json;odata=minimalmetadata;charset=utf-8'')]
       (if rq_method r \<noteq> ''HEAD'' then Some (ErrorBody (azErrorJSON e)) else None)"

definition storeError :: "table_error \<Rightarrow> azure_error" where
  "storeError e = (case e of
       ErrTableNotFound \<Rightarrow> tableNotFound
     | ErrTableExists \<Rightarrow> tableAlreadyExists
     | ErrEntityNotFound \<Rightarrow> entityNotFound
     | ErrEntityExists \<Rightarrow> entityAlreadyExists
     | ErrETagMismatch \<Rightarrow> updateConditionNotMet)"

definition methodNotAllowed :: azure_error where
  "methodNotAllowed = azError 405 codeUnsupportedHeader ''The HTTP method is not supported for this resource.''"

definition metadataBase :: "json request \<Rightarrow> string \<Rightarrow> string" where
  "metadataBase r account = scheme r @ ''://'' @ rq_host r @ ''/'' @ account @ ''/$metadata''"

definition entityLocation :: "json request \<Rightarrow> string \<Rightarrow> string \<Rightarrow> string \<Rightarrow> string \<Rightarrow> string" where
  "entityLocation r account tab pk rk =
     scheme r @ ''://'' @ rq_host r @ ''/'' @ account @ ''/'' @ tab @ ''('' @ keyPredicate pk rk @ '')''"

definition entityResponse :: "json request \<Rightarrow> string \<Rightarrow> string \<Rightarrow> entity \<Rightarrow> table_body" where
  "entityResponse r account tab e =
     EntityBody ([''odata.metadata'' \<mapsto> mustJSON (metadataBase r account @ ''#'' @ tab @ ''/@Element'')] ++ renderEntity e)"

section \<open>Bodies\<close>

definition bodyReadError :: "'b body \<Rightarrow> string option" where
  "bodyReadError b = (case b of BodyError e \<Rightarrow> Some e | BodyTooLarge \<Rightarrow> Some ''http: request body too large'' | _ \<Rightarrow> None)"

text \<open>The table name in the body, empty when it is missing or the body is no such object.\<close>

definition createTableBody :: "json body \<Rightarrow> string" where
  "createTableBody b =
     (case b of
        Body j \<Rightarrow> (case structField ''TableName'' intoString j [] of None \<Rightarrow> [] | Some n \<Rightarrow> n)
      | _ \<Rightarrow> [])"

text \<open>An object as a map of raw values: the last of equal names counts.\<close>

definition propsOf :: "json \<Rightarrow> props option" where
  "propsOf j = (case j of JObject kvs \<Rightarrow> Some (map_of (rev kvs)) | JNull \<Rightarrow> Some Map.empty | _ \<Rightarrow> None)"

definition decodeKey :: "json option \<Rightarrow> string" where
  "decodeKey raw = (case raw of Some (JString s) \<Rightarrow> s | _ \<Rightarrow> [])"

section \<open>Table handlers\<close>

definition handleCreateTable :: "table_env \<Rightarrow> json request \<Rightarrow> string \<Rightarrow> table_store \<Rightarrow> table_reply" where
  "handleCreateTable env r account s =
     (case bodyReadError (rq_body r) of
        Some e \<Rightarrow> (azureError env r (internalError e), s)
      | None \<Rightarrow>
          let name = createTableBody (rq_body r) in
          if name = [] then (azureError env r (azError 400 codeInvalidInput ''Invalid table creation payload.''), s)
          else case createTable account name s of
                 (Some e, s1) \<Rightarrow> (azureError env r (storeError e), s1)
               | (None, s1) \<Rightarrow>
                   if preferNoContent (headerGet r ''Prefer'')
                   then (respond env 204 [(''Content-Type'', contentType), (''Preference-Applied'', ''return-no-content'')] None, s1)
                   else (respond env 201 [(''Content-Type'', contentType)]
                           (Some (TableBody (metadataBase r account @ ''#Tables/@Element'') name)), s1))"

definition handleDeleteTable :: "table_env \<Rightarrow> json request \<Rightarrow> string \<Rightarrow> string \<Rightarrow> table_store \<Rightarrow> table_reply" where
  "handleDeleteTable env r account name s =
     (case deleteTable account name s of
        (Some e, s1) \<Rightarrow> (azureError env r (storeError e), s1)
      | (None, s1) \<Rightarrow> (respond env 204 [] None, s1))"

definition handleListTables :: "table_env \<Rightarrow> json request \<Rightarrow> string \<Rightarrow> table_store \<Rightarrow> table_reply" where
  "handleListTables env r account s =
     (respond env 200 [(''Content-Type'', contentType)]
        (Some (TablesBody (metadataBase r account @ ''#Tables'') (listTables account s))), s)"

section \<open>Entity handlers\<close>

definition invalidEntity :: azure_error where
  "invalidEntity = azError 400 codeInvalidInput ''Invalid entity payload.''"

definition handleInsertEntity :: "table_env \<Rightarrow> json request \<Rightarrow> string \<Rightarrow> string \<Rightarrow> table_store \<Rightarrow> table_reply" where
  "handleInsertEntity env r account tab s =
     (case bodyReadError (rq_body r) of
        Some e \<Rightarrow> (azureError env r (internalError e), s)
      | None \<Rightarrow>
          (case (case rq_body r of Body j \<Rightarrow> propsOf j | _ \<Rightarrow> None) of
             None \<Rightarrow> (azureError env r invalidEntity, s)
           | Some p \<Rightarrow>
               let pk = decodeKey (p ''PartitionKey''); rk = decodeKey (p ''RowKey'') in
               (case insertEntity (te_now env) account tab pk rk p s of
                  (Inl e, s1) \<Rightarrow> (azureError env r (storeError e), s1)
                | (Inr ent, s1) \<Rightarrow>
                    let hs = [(''ETag'', e_etag ent), (''Content-Type'', contentType)];
                        location = (''Location'', entityLocation r account tab pk rk)
                    in if preferNoContent (headerGet r ''Prefer'')
                       then (respond env 204 (hs @ [(''Preference-Applied'', ''return-no-content''), location]) None, s1)
                       else (respond env 201 (hs @ [location]) (Some (entityResponse r account tab ent)), s1))))"

definition handleGetEntity ::
    "table_env \<Rightarrow> json request \<Rightarrow> string \<Rightarrow> string \<Rightarrow> string \<Rightarrow> string \<Rightarrow> table_store \<Rightarrow> table_reply" where
  "handleGetEntity env r account tab pk rk s =
     (case getEntity account tab pk rk s of
        Inl e \<Rightarrow> (azureError env r (storeError e), s)
      | Inr ent \<Rightarrow>
          (respond env 200 [(''ETag'', e_etag ent), (''Content-Type'', contentType)]
             (Some (entityResponse r account tab ent)), s))"

text \<open>The loop over the entities: filter, stop at \<open>$top\<close>, project.\<close>

fun listLoop :: "(props \<Rightarrow> bool) \<Rightarrow> int \<Rightarrow> string \<Rightarrow> props list \<Rightarrow> entity list \<Rightarrow> props list" where
  "listLoop accept most select out [] = out"
| "listLoop accept most select out (e # es) =
     (let rendered = renderEntity e in
      if \<not> accept rendered then listLoop accept most select out es
      else if 0 \<le> most \<and> most \<le> int (length out) then out
      else listLoop accept most select (out @ [projectSelect rendered select]) es)"

definition handleListEntities :: "table_env \<Rightarrow> json request \<Rightarrow> string \<Rightarrow> string \<Rightarrow> table_store \<Rightarrow> table_reply" where
  "handleListEntities env r account tab s =
     (case listEntities account tab s of
        Inl e \<Rightarrow> (azureError env r (storeError e), s)
      | Inr ents \<Rightarrow>
          (case (if queryGet r ''$filter'' = [] then Inr FTrue else parseFilter (queryGet r ''$filter'')) of
             Inl _ \<Rightarrow> (azureError env r (azError 400 codeInvalidInput ''Unsupported $filter expression.''), s)
           | Inr f \<Rightarrow>
               (respond env 200 [(''Content-Type'', contentType)]
                  (Some (EntitiesBody (metadataBase r account @ ''#'' @ tab)
                     (listLoop (satisfies f) (parseInt (queryGet r ''$top'') (- 1)) (queryGet r ''$select'') [] ents))),
                s)))"

definition handleUpdateEntity ::
    "table_env \<Rightarrow> json request \<Rightarrow> string \<Rightarrow> string \<Rightarrow> string \<Rightarrow> string \<Rightarrow> bool \<Rightarrow> table_store \<Rightarrow> table_reply" where
  "handleUpdateEntity env r account tab pk rk merge s =
     (case bodyReadError (rq_body r) of
        Some e \<Rightarrow> (azureError env r (internalError e), s)
      | None \<Rightarrow>
          (case (case rq_body r of Body j \<Rightarrow> propsOf j | BodyEmpty \<Rightarrow> Some Map.empty | _ \<Rightarrow> None) of
             None \<Rightarrow> (azureError env r invalidEntity, s)
           | Some p \<Rightarrow>
               let ifMatch = headerGet r ''If-Match'' in
               (case (if merge then mergeEntity (te_now env) account tab pk rk p ifMatch s
                      else replaceEntity (te_now env) account tab pk rk p ifMatch s) of
                  (Inl e, s1) \<Rightarrow> (azureError env r (storeError e), s1)
                | (Inr ent, s1) \<Rightarrow> (respond env 204 [(''ETag'', e_etag ent)] None, s1))))"

definition handleDeleteEntity ::
    "table_env \<Rightarrow> json request \<Rightarrow> string \<Rightarrow> string \<Rightarrow> string \<Rightarrow> string \<Rightarrow> table_store \<Rightarrow> table_reply" where
  "handleDeleteEntity env r account tab pk rk s =
     (case deleteEntity account tab pk rk (headerGet r ''If-Match'') s of
        (Some e, s1) \<Rightarrow> (azureError env r (storeError e), s1)
      | (None, s1) \<Rightarrow> (respond env 204 [] None, s1))"

section \<open>Routing\<close>

definition handleTableCollection :: "table_env \<Rightarrow> json request \<Rightarrow> string \<Rightarrow> table_store \<Rightarrow> table_reply" where
  "handleTableCollection env r account s =
     (if rq_method r = ''POST'' then handleCreateTable env r account s
      else if rq_method r = ''GET'' then handleListTables env r account s
      else (azureError env r methodNotAllowed, s))"

definition handleTableItem :: "table_env \<Rightarrow> json request \<Rightarrow> string \<Rightarrow> string \<Rightarrow> table_store \<Rightarrow> table_reply" where
  "handleTableItem env r account name s =
     (if rq_method r = ''DELETE'' then handleDeleteTable env r account name s
      else (azureError env r methodNotAllowed, s))"

definition handleEntityCollection ::
    "table_env \<Rightarrow> json request \<Rightarrow> string \<Rightarrow> string \<Rightarrow> table_store \<Rightarrow> table_reply" where
  "handleEntityCollection env r account name s =
     (if rq_method r = ''POST'' then handleInsertEntity env r account name s
      else if rq_method r = ''GET'' then handleListEntities env r account name s
      else (azureError env r methodNotAllowed, s))"

definition handleEntityItem ::
    "table_env \<Rightarrow> json request \<Rightarrow> string \<Rightarrow> string \<Rightarrow> string \<Rightarrow> string \<Rightarrow> table_store \<Rightarrow> table_reply" where
  "handleEntityItem env r account name pk rk s =
     (let meth = rq_method r in
      if meth = ''GET'' then handleGetEntity env r account name pk rk s
      else if meth = ''PUT'' then handleUpdateEntity env r account name pk rk False s
      else if meth = ''PATCH'' \<or> meth = ''MERGE'' then handleUpdateEntity env r account name pk rk True s
      else if meth = ''DELETE'' then handleDeleteEntity env r account name pk rk s
      else (azureError env r methodNotAllowed, s))"

definition missing :: "string \<Rightarrow> azure_error" where
  "missing what = azError 400 codeInvalidInput (''Missing '' @ what @ '' in request URL.'')"

definition serveTables :: "table_env \<Rightarrow> json request \<Rightarrow> table_store \<Rightarrow> table_reply" where
  "serveTables env r s =
     (let segments = splitOn (CHR ''/'') (trimPrefix (rq_path r) ''/''); account = segments ! 0 in
      if account = [] then (azureError env r (missing ''account''), s)
      else if length segments < 2 \<or> segments ! 1 = [] then (azureError env r (missing ''resource''), s)
      else let resource = segments ! 1 in
        if resource = ''Tables'' then handleTableCollection env r account s
        else if hasPrefix resource ''Tables('' then
          (let name = unquoteKey (insideParens resource) in
           if name = [] then handleTableCollection env r account s
           else handleTableItem env r account name s)
        else (case splitPredicate resource of (name, predicate) \<Rightarrow>
          if predicate = [] then handleEntityCollection env r account name s
          else (case parseEntityKeys predicate of (pk, rk) \<Rightarrow> handleEntityItem env r account name pk rk s)))"

section \<open>Queries\<close>

lemma listLoop_eq:
  "listLoop accept most select out es =
     out @ map (\<lambda>e. projectSelect (renderEntity e) select)
       ((if 0 \<le> most then take (nat most - length out) else id) (filter (\<lambda>e. accept (renderEntity e)) es))"
proof (induction es arbitrary: out)
  case (Cons e es)
  show ?case
    by (cases "accept (renderEntity e)"; cases "0 \<le> most \<and> most \<le> int (length out)")
       (auto simp: Cons.IH Let_def take_Cons' nat_diff_distrib)
qed simp

text \<open>The path of a resource of an account, read back.\<close>

lemma resource_path:
  assumes "rq_path r = ''/'' @ account @ ''/'' @ resource" and "account \<noteq> []" and "CHR ''/'' \<notin> set account"
  shows "splitOn (CHR ''/'') (trimPrefix (rq_path r) ''/'') = account # splitOn (CHR ''/'') resource"
  using splitOn_append [OF assms(3), of resource] trimPrefix_append [of "''/''" "account @ ''/'' @ resource"]
  by (simp add: assms(1))

lemma splitPredicate_append:
  "CHR ''('' \<notin> set tab \<Longrightarrow> splitPredicate (tab @ ''('' @ p @ '')'') = (tab, p)"
  using indexByte_append [of "CHR ''(''" tab "p @ '')''"] by (simp add: splitPredicate_def)

lemma not_tables:
  assumes "tab \<noteq> ''Tables''" and "CHR ''('' \<notin> set tab"
  shows "tab @ ''('' @ p \<noteq> ''Tables''" and "\<not> hasPrefix (tab @ ''('' @ p) ''Tables(''"
proof -
  have "CHR ''('' \<in> set (tab @ ''('' @ p)" by simp
  moreover have "CHR ''('' \<notin> set ''Tables''" by simp
  ultimately show "tab @ ''('' @ p \<noteq> ''Tables''" by metis
  show "\<not> hasPrefix (tab @ ''('' @ p) ''Tables(''"
  proof
    assume "hasPrefix (tab @ ''('' @ p) ''Tables(''"
    then obtain q where "tab @ CHR ''('' # p = ''Tables'' @ CHR ''('' # q" by (auto simp: hasPrefix_iff)
    then have "indexByte (tab @ CHR ''('' # p) (CHR ''('') = indexByte (''Tables'' @ CHR ''('' # q) (CHR ''('')"
      by simp
    then have "length tab = length ''Tables''"
      using indexByte_append [OF assms(2), of p] indexByte_append [of "CHR ''(''" "''Tables''" q] by simp
    with \<open>tab @ CHR ''('' # p = ''Tables'' @ CHR ''('' # q\<close> have "tab = ''Tables''"
      by (metis append_eq_append_conv)
    with assms(1) show False by simp
  qed
qed

lemma collection_route:
  assumes "rq_path r = ''/'' @ account @ ''/'' @ tab @ ''()''" and "account \<noteq> []" and "CHR ''/'' \<notin> set account"
    and "CHR ''/'' \<notin> set tab" and "CHR ''('' \<notin> set tab" and "tab \<noteq> ''Tables''"
  shows "serveTables env r s = handleEntityCollection env r account tab s"
proof -
  have "CHR ''/'' \<notin> set (tab @ ''()'')" using assms(4) by simp
  from resource_path [OF assms(1-3)] splitOn_none [OF this]
  have "splitOn (CHR ''/'') (trimPrefix (rq_path r) ''/'') = [account, tab @ ''()'']" by simp
  then show ?thesis
    using splitPredicate_append [OF assms(5), of "[]"] not_tables [OF assms(6, 5), of "'')''"] assms(2)
    by (simp add: serveTables_def)
qed

lemma item_route:
  assumes "rq_path r = ''/'' @ account @ ''/'' @ tab @ ''('' @ keyPredicate pk rk @ '')''"
    and "account \<noteq> []" and "CHR ''/'' \<notin> set account" and "CHR ''/'' \<notin> set tab" and "CHR ''('' \<notin> set tab"
    and "tab \<noteq> ''Tables''" and "CHR ''/'' \<notin> set pk" and "CHR ''/'' \<notin> set rk"
  shows "serveTables env r s = handleEntityItem env r account tab pk rk s"
proof -
  have esc: "set (escapeKey k) \<subseteq> set k" for k by (auto simp: escapeKey_def)
  then have "CHR ''/'' \<notin> set (tab @ ''('' @ keyPredicate pk rk @ '')'')"
    using assms(4, 7, 8) by (auto simp: keyPredicate_def dest: subsetD [OF esc])
  from resource_path [OF assms(1-3)] splitOn_none [OF this]
  have "splitOn (CHR ''/'') (trimPrefix (rq_path r) ''/'') = [account, tab @ ''('' @ keyPredicate pk rk @ '')'']" by simp
  moreover have "keyPredicate pk rk \<noteq> []" by (simp add: keyPredicate_def)
  ultimately show ?thesis
    using splitPredicate_append [OF assms(5), of "keyPredicate pk rk"] not_tables [OF assms(6, 5)] assms(2)
      parse_keyPredicate [of pk rk]
    by (simp add: serveTables_def)
qed

lemma respond_status [simp]: "rs_status (respond env n hs b) = n" "rs_body (respond env n hs b) = b"
  by (simp_all add: respond_def)

text \<open>Asking for one partition returns that partition: a GET of a table with the filter
  PartitionKey eq and the key quoted, for any key, is answered with 200 and exactly the entities of
  that partition, in order of their row keys, with all their properties.\<close>

lemma partition_query:
  assumes "tables_inv s" and "lookup2 s (account, tab) = Some t"
    and "\<forall>e \<in> set (allEntities t). mustJSON (e_partitionKey e) = JString (e_partitionKey e)"
    and "rq_method r = ''GET''" and "rq_path r = ''/'' @ account @ ''/'' @ tab @ ''()''"
    and "account \<noteq> []" and "CHR ''/'' \<notin> set account" and "CHR ''/'' \<notin> set tab"
    and "CHR ''('' \<notin> set tab" and "tab \<noteq> ''Tables''"
    and "queryGet r ''$filter'' = ''PartitionKey eq '' @ [quote] @ escapeKey k @ [quote]"
    and "queryGet r ''$top'' = []" and "queryGet r ''$select'' = []"
  shows "\<exists>resp meta. serveTables env r s = (resp, s) \<and> rs_status resp = 200 \<and>
    rs_body resp = Some (EntitiesBody meta
      (map renderEntity (filter (\<lambda>e. e_partitionKey e = k) (sortEntities (allEntities t)))))"
proof -
  have filter: "parseFilter (queryGet r ''$filter'') = Inr (FCompare ''PartitionKey'' ''eq'' (LString k))"
    using parse_literal [OF partitionKey_word, of "''eq''" k]
    by (simp add: assms(11) wordEnd_def graphic_def compareOps_def)
  have key: "satisfies (FCompare ''PartitionKey'' ''eq'' (LString k)) (renderEntity e) \<longleftrightarrow> e_partitionKey e = k"
    if e: "e \<in> set (allEntities t)" for e
  proof -
    have inv: "table_inv t" using assms(1, 2) by (cases "(account, tab)") (auto simp: tables_inv_def)
    obtain pk rows rk where "(pk, rows) \<in> set (t_entities t)" "(rk, e) \<in> set rows"
      using e by (auto simp: allEntities_def)
    then have "entity_ok e" using inv unfolding table_inv_def filed_def by fastforce
    then show ?thesis
      using assms(3) e by (auto simp: renderEntity_def propValue_def entity_ok_def stringOp_def)
  qed
  have "set (sortEntities (allEntities t)) = set (allEntities t)" by (simp add: sortEntities_def)
  then have "filter (\<lambda>e. satisfies (FCompare ''PartitionKey'' ''eq'' (LString k)) (renderEntity e)) (sortEntities (allEntities t)) =
      filter (\<lambda>e. e_partitionKey e = k) (sortEntities (allEntities t))"
    using key by (intro filter_cong) auto
  moreover have "listEntities account tab s = Inr (sortEntities (allEntities t))"
    using assms(2) by (simp add: listEntities_def table_lookup_eq)
  ultimately show ?thesis
    using filter collection_route [OF assms(5-10), of env s]
    by (simp add: handleEntityCollection_def handleListEntities_def assms(4, 11, 12, 13) listLoop_eq parseInt_def
        projectSelect_def del: satisfies.simps)
qed

definition table_request ::
    "string \<Rightarrow> string \<Rightarrow> (string \<times> string) list \<Rightarrow> json body \<Rightarrow> json request" where
  "table_request meth path q b = \<lparr>rq_method = meth, rq_path = path, rq_query = q, rq_headers = [],
     rq_host = ''h'', rq_tls = False, rq_body = b\<rparr>"

definition table_env_at :: "time \<Rightarrow> table_env" where
  "table_env_at t = \<lparr>now_http = t, request_id = replicate 16 0, te_now = t\<rparr>"

lemma partition_query_witness:
  "\<exists>resp meta. serveTables (table_env_at 5) (table_request ''GET'' ''/a/t()''
        [(''$filter'', ''PartitionKey eq '' @ [quote] @ escapeKey ''p'' @ [quote])] BodyEmpty) one_row_store = (resp, one_row_store) \<and>
     rs_status resp = 200 \<and>
     rs_body resp = Some (EntitiesBody meta [renderEntity (buildEntity 0 ''p'' ''r'' Map.empty)])"
proof -
  let ?t = "t_put (buildEntity 0 ''p'' ''r'' Map.empty) (newTable ''t'')"
  let ?r = "table_request ''GET'' ''/a/t()'' [(''$filter'', ''PartitionKey eq '' @ [quote] @ escapeKey ''p'' @ [quote])] BodyEmpty"
  have look: "lookup2 one_row_store (''a'', ''t'') = Some ?t"
    by (simp add: one_row_store_def setTable_def lookup2_def inner_def)
  have all: "allEntities ?t = [buildEntity 0 ''p'' ''r'' Map.empty]"
    by (simp add: allEntities_def t_put_def newTable_def buildEntity_def)
  have "mustJSON ''p'' = JString ''p''" by code_simp
  then have utf: "\<forall>e \<in> set (allEntities ?t). mustJSON (e_partitionKey e) = JString (e_partitionKey e)"
    unfolding all by (simp add: buildEntity_def)
  have "\<exists>resp meta. serveTables (table_env_at 5) ?r one_row_store = (resp, one_row_store) \<and> rs_status resp = 200 \<and>
      rs_body resp = Some (EntitiesBody meta
        (map renderEntity (filter (\<lambda>e. e_partitionKey e = ''p'') (sortEntities (allEntities ?t)))))"
    by (rule partition_query [OF one_row_store_inv look utf, where r = ?r])
       (simp_all add: table_request_def queryGet_def)
  then show ?thesis unfolding all by (simp add: sortEntities_def buildEntity_def)
qed

section \<open>Addresses\<close>

lemma setHeader_find [store_simps]: "map_of (setHeader k v hs) = (map_of hs)(k \<mapsto> v)"
  by (simp add: setHeader_def update_conv')

lemma respond_header [store_simps]:
  "map_of (rs_headers (respond env n (hs @ [(k, v)]) b)) k = Some v"
  by (simp add: respond_def setHeader_find)

lemma insert_then_get:
  assumes "tables_inv s" and "insertEntity now account tab pk rk p s = (Inr e, s1)"
  shows "getEntity account tab pk rk s1 = Inr e"
proof -
  obtain t where t: "lookup2 s (account, tab) = Some t" and e: "e = buildEntity now pk rk p"
    and s1: "s1 = setTable account tab (t_put e t) s"
    using assms(2)
    by (auto simp: insertEntity_def table_lookup_eq Let_def split: option.splits if_splits)
  have "table_inv t" using assms(1) t by (simp add: tables_inv_def)
  then have "t_get (t_put e t) pk rk = Some e"
    using rows.put_same [of t "(pk, rk)" e] buildEntity_ok e by (simp add: t_seek_def)
  then show ?thesis
    by (simp add: getEntity_def table_lookup_eq s1 setTable_eq store_simps)
qed



text \<open>An entity whose key contains a slash, which POST accepts, cannot be addressed: a DELETE of its
  own address is taken for the entity with the key up to the slash and an empty row key, and removes
  that one if it is there.\<close>

lemma slash_key_misrouted:
  assumes "rq_path r = ''/'' @ account @ ''/'' @ tab @ ''('' @ keyPredicate (a @ ''/'' @ b) rk @ '')''"
    and "account \<noteq> []" and "CHR ''/'' \<notin> set account" and "CHR ''/'' \<notin> set tab"
    and "CHR ''('' \<notin> set tab" and "tab \<noteq> ''Tables''"
    and "\<forall>c \<in> set a. graphic c \<and> c \<noteq> quote \<and> c \<noteq> CHR ''/'' \<and> c \<noteq> CHR '')''"
  shows "serveTables env r s = handleEntityItem env r account tab a [] s"
proof -
  let ?p = "''PartitionKey='' @ [quote] @ a"
  have esc: "escapeKey a = a" using assms(7) by (induction a) auto
  have "tab @ ''('' @ keyPredicate (a @ ''/'' @ b) rk @ '')'' =
      (tab @ ''('' @ ?p) @ CHR ''/'' # (escapeKey b @ [quote] @ '',RowKey='' @ [quote] @ escapeKey rk @ [quote] @ '')'')"
    using esc by (simp add: keyPredicate_def escapeKey_def)
  moreover have "CHR ''/'' \<notin> set (tab @ ''('' @ ?p)" using assms(4, 7) by auto
  ultimately obtain more where segments:
      "splitOn (CHR ''/'') (trimPrefix (rq_path r) ''/'') = account # (tab @ ''('' @ ?p) # more"
    using resource_path [OF assms(1-3)] splitOn_append [of "CHR ''/''" "tab @ ''('' @ ?p"] by metis
  have "\<not> hasSuffix ?p '')''"
  proof
    assume "hasSuffix ?p '')''"
    then obtain t where "?p = t @ '')''" by (auto simp: hasSuffix_iff)
    then have "last ?p = CHR '')''" by (metis last_snoc)
    then show False using assms(7) by (cases a rule: rev_cases) auto
  qed
  then have "trimSuffix ?p '')'' = ?p" by (simp only: trimSuffix_def if_False)
  then have split: "splitPredicate (tab @ ''('' @ ?p) = (tab, ?p)"
    using indexByte_append [OF assms(5), of ?p] by (simp add: splitPredicate_def)
  have "splitTop (CHR '','') True cur a = [cur @ a]" if "cur \<noteq> []" for cur
    using assms(7) that by (induction a arbitrary: cur) auto
  then have "splitTopLevel ?p (CHR '','') = [?p]"
    using splitTop_plain [of "''PartitionKey=''" "CHR '',''" False "[]" "[quote] @ a"]
    by (simp add: splitTopLevel_def)
  moreover have "trimSpace ([quote] @ a) = [quote] @ a"
    using assms(7) by (intro trimSpace_graphic) (cases a rule: rev_cases; simp)+
  moreover have "trimSuffix a [quote] = a"
  proof (cases a rule: rev_cases)
    case (snoc xs x)
    then show ?thesis using assms(7) by (simp add: trimSuffix_def hasSuffix_def)
  qed (simp add: trimSuffix_def hasSuffix_def)
  moreover have "undouble a = a" using undouble_escapeKey [of a] by (simp add: esc)
  moreover have "toLower (trimSpace ''PartitionKey'') = ''partitionkey''"
    by (simp add: trimSpace_graphic graphic_def toLower_def isAscii_def lowerChar_def char_of_eq_iff)
  ultimately have "parseEntityKeys ?p = (a, [])"
    using trimPrefix_append [of "[quote]" a] by (simp add: parseEntityKeys_def keyPart_def unquoteKey_def Let_def)
  then show ?thesis
    using split not_tables [OF assms(6, 5), of ?p] assms(2) by (simp add: serveTables_def segments)
qed

lemma slash_key_misrouted_witness:
  "serveTables (table_env_at 5)
     (table_request ''DELETE'' (''/a/t('' @ keyPredicate (''x'' @ ''/'' @ ''y'') ''r'' @ '')'') [] BodyEmpty) one_row_store =
   handleDeleteEntity (table_env_at 5)
     (table_request ''DELETE'' (''/a/t('' @ keyPredicate (''x'' @ ''/'' @ ''y'') ''r'' @ '')'') [] BodyEmpty) ''a'' ''t'' ''x'' []
     one_row_store"
  using slash_key_misrouted [of "table_request ''DELETE'' (''/a/t('' @ keyPredicate (''x'' @ ''/'' @ ''y'') ''r'' @ '')'') [] BodyEmpty"
      "''a''" "''t''" "''x''" "''y''" "''r''" "table_env_at 5" one_row_store]
  by (simp add: table_request_def graphic_def handleEntityItem_def)

section \<open>Refused requests\<close>

definition table_harmless :: "table_store \<Rightarrow> table_reply \<Rightarrow> bool" where
  "table_harmless s = (\<lambda>(resp, s'). 400 \<le> rs_status resp \<longrightarrow> tables_abs s' = tables_abs s)"

lemma harmless_same [simp]: "table_harmless s (resp, s)"
  by (simp add: table_harmless_def)

lemma harmless_ok [simp]: "n < 400 \<Longrightarrow> table_harmless s (respond env n hs b, s')"
  by (simp add: table_harmless_def)

lemma createTable_abs: "createTable a n s = (Some e, s') \<Longrightarrow> tables_abs s' = tables_abs s"
  by (auto simp: createTable_def Let_def tables_abs_def lookup2_def inner_def store_simps fun_eq_iff
      split: if_splits option.splits)

lemma error_same:
  "deleteTable a n s = (Some err, s') \<Longrightarrow> s' = s"
  "insertEntity now a n pk rk p s = (Inl err, s') \<Longrightarrow> s' = s"
  "updateEntity now a n pk rk p m mg s = (Inl err, s') \<Longrightarrow> s' = s"
  "deleteEntity a n pk rk m s = (Some err, s') \<Longrightarrow> s' = s"
  by (auto simp: deleteTable_def insertEntity_def updateEntity_def deleteEntity_def Let_def
      split: option.splits sum.splits if_splits)

lemma table_handlers_harmless:
  "table_harmless s (handleCreateTable env r a s)" "table_harmless s (handleDeleteTable env r a n s)"
  "table_harmless s (handleListTables env r a s)" "table_harmless s (handleInsertEntity env r a n s)"
  "table_harmless s (handleGetEntity env r a n pk rk s)" "table_harmless s (handleListEntities env r a n s)"
  "table_harmless s (handleUpdateEntity env r a n pk rk mg s)" "table_harmless s (handleDeleteEntity env r a n pk rk s)"
proof -
  show "table_harmless s (handleCreateTable env r a s)"
    using createTable_abs by (auto simp: handleCreateTable_def Let_def table_harmless_def split: option.splits prod.splits)
qed (auto simp: handleDeleteTable_def handleListTables_def handleInsertEntity_def handleGetEntity_def
    handleListEntities_def handleUpdateEntity_def handleDeleteEntity_def mergeEntity_def replaceEntity_def Let_def
    split: option.split sum.split prod.split dest: error_same)

text \<open>A request to the Table service that is answered with an error has changed no table and no
  entity.\<close>

lemma refused_table_request:
  assumes "serveTables env r s = (resp, s')" and "400 \<le> rs_status resp"
  shows "tables_abs s' = tables_abs s"
proof -
  have "table_harmless s (serveTables env r s)"
    unfolding serveTables_def handleTableCollection_def handleTableItem_def handleEntityCollection_def
      handleEntityItem_def Let_def
    by (simp add: table_handlers_harmless split: prod.split)
  then show ?thesis using assms by (simp add: table_harmless_def)
qed

lemma refused_table_request_witness:
  "\<exists>resp s'. serveTables (table_env_at 5) (table_request ''PUT'' ''/a/Tables'' [] BodyEmpty) one_row_store = (resp, s') \<and>
     rs_status resp = 405 \<and> tables_abs s' = tables_abs one_row_store"
proof -
  let ?r = "table_request ''PUT'' ''/a/Tables'' [] BodyEmpty"
  have run: "serveTables (table_env_at 5) ?r one_row_store = (azureError (table_env_at 5) ?r methodNotAllowed, one_row_store)"
    by (simp add: serveTables_def table_request_def trimPrefix_def hasPrefix_def Let_def handleTableCollection_def)
  have "rs_status (azureError (table_env_at 5) ?r methodNotAllowed) = 405"
    by (simp add: azureError_def methodNotAllowed_def azError_def)
  with refused_table_request [OF run] run show ?thesis by simp
qed

end
