(* ===== verification/Go_Files.thy ===== *)
theory Go_Files
  imports Go_Maps Go_Strings
begin

text \<open>
  What the stores use of \<open>os\<close> and \<open>path/filepath\<close>: a file system is an association list from clean
  absolute paths to directories and files, where a file holds a value of \<open>'c\<close> (its bytes, or what they
  encode). Every call can fail for reasons outside the program (\<open>os_fails\<close>, a full disk say), and then
  answers with the text \<open>os_text\<close>. Files are written through a temporary file and a rename
  (\<open>internal/utils/atomicfile\<close>); temporary names are never read back and are left out. Owners, modes,
  links, and the limits on names and sizes (which can be among the failures) are not modelled.
\<close>

section \<open>Paths\<close>

type_synonym path = "string list"

text \<open>\<open>filepath.Join\<close> onto a clean absolute path: empty components and dots vanish, two dots go up.\<close>

definition pathStep :: "path \<Rightarrow> string \<Rightarrow> path" where
  "pathStep p c = (if c = [] \<or> c = ''.'' then p else if c = ''..'' then butlast p else p @ [c])"

definition joinPath :: "path \<Rightarrow> string \<Rightarrow> path" where
  "joinPath p elem = foldl pathStep p (splitOn (CHR ''/'') elem)"

text \<open>A component that stays what it is when joined.\<close>

definition plainName :: "string \<Rightarrow> bool" where
  "plainName c \<longleftrightarrow> c \<noteq> [] \<and> c \<noteq> ''.'' \<and> c \<noteq> ''..'' \<and> CHR ''/'' \<notin> set c"

lemma joinPath_plain [simp]: "plainName c \<Longrightarrow> joinPath p c = p @ [c]"
  by (simp add: joinPath_def plainName_def splitOn_none pathStep_def)

section \<open>The file system\<close>

datatype 'c node = Dir | File (contents: 'c)

type_synonym 'c disk = "(path, 'c node) go_map"

datatype syscall = OsMkdir | OsCreate | OsWrite | OsSync | OsClose | OsRename | OsOpen | OsRead | OsReadDir
  | OsStat | OsRemove | OsRemoveAll

record os =
  os_fails :: "syscall \<Rightarrow> path \<Rightarrow> bool"
  os_text :: "syscall \<Rightarrow> path \<Rightarrow> string"
  os_kept :: "path \<Rightarrow> bool"

definition isDir :: "'c disk \<Rightarrow> path \<Rightarrow> bool" where
  "isDir d p \<longleftrightarrow> p = [] \<or> map_of d p = Some Dir"

text \<open>\<open>os.MkdirAll\<close>: the missing directories on the way, outermost first.\<close>

fun mkdirs :: "os \<Rightarrow> path list \<Rightarrow> 'c disk \<Rightarrow> string option \<times> 'c disk" where
  "mkdirs os [] d = (None, d)"
| "mkdirs os (p # ps) d =
     (case map_of d p of
        Some Dir \<Rightarrow> mkdirs os ps d
      | Some (File _) \<Rightarrow> (Some (os_text os OsMkdir p), d)
      | None \<Rightarrow> if os_fails os OsMkdir p then (Some (os_text os OsMkdir p), d)
                else mkdirs os ps (AList.update p Dir d))"

definition waypoints :: "path \<Rightarrow> path list" where
  "waypoints p = map (\<lambda>n. take n p) [1..<length p + 1]"

definition mkdirAll :: "os \<Rightarrow> path \<Rightarrow> 'c disk \<Rightarrow> string option \<times> 'c disk" where
  "mkdirAll os p d = mkdirs os (waypoints p) d"

text \<open>Creating a temporary file beside \<open>p\<close>, and renaming it onto \<open>p\<close>.\<close>

definition createBeside :: "os \<Rightarrow> path \<Rightarrow> 'c disk \<Rightarrow> string option" where
  "createBeside os p d =
     (if os_fails os OsCreate p \<or> \<not> isDir d (butlast p) then Some (os_text os OsCreate p) else None)"

definition renameOnto :: "os \<Rightarrow> path \<Rightarrow> 'c \<Rightarrow> 'c disk \<Rightarrow> string option \<times> 'c disk" where
  "renameOnto os p c d =
     (if os_fails os OsRename p \<or> isDir d p then (Some (os_text os OsRename p), d)
      else (None, AList.update p (File c) d))"

text \<open>The first of some calls on a path that fails.\<close>

definition firstFailure :: "os \<Rightarrow> syscall list \<Rightarrow> path \<Rightarrow> string option" where
  "firstFailure os calls p = map_option (\<lambda>c. os_text os c p) (find (\<lambda>c. os_fails os c p) calls)"

text \<open>\<open>atomicfile.Write\<close>.\<close>

definition writeAtomic :: "os \<Rightarrow> path \<Rightarrow> 'c \<Rightarrow> 'c disk \<Rightarrow> string option \<times> 'c disk" where
  "writeAtomic os p c d =
     (case createBeside os p d of
        Some e \<Rightarrow> (Some e, d)
      | None \<Rightarrow>
          (case firstFailure os [OsWrite, OsSync, OsClose] p of
             Some e \<Rightarrow> (Some e, d)
           | None \<Rightarrow> renameOnto os p c d))"

text \<open>\<open>os.ReadDir\<close> lists the entries by name; \<open>os.Open\<close> and \<open>os.ReadFile\<close> give what the file holds.\<close>

definition readDir :: "os \<Rightarrow> path \<Rightarrow> 'c disk \<Rightarrow> string + (string \<times> 'c node) list" where
  "readDir os p d =
     (if os_fails os OsReadDir p \<or> \<not> isDir d p then Inl (os_text os OsReadDir p)
      else Inr (sort_key fst (map (\<lambda>(q, n). (last q, n)) (filter (\<lambda>(q, n). q \<noteq> [] \<and> butlast q = p) d))))"

definition openFile :: "os \<Rightarrow> path \<Rightarrow> 'c disk \<Rightarrow> string + 'c node" where
  "openFile os p d =
     (if os_fails os OsOpen p then Inl (os_text os OsOpen p)
      else if p = [] then Inr Dir
      else case map_of d p of None \<Rightarrow> Inl (os_text os OsOpen p) | Some n \<Rightarrow> Inr n)"

definition readFile :: "os \<Rightarrow> path \<Rightarrow> 'c disk \<Rightarrow> string + 'c" where
  "readFile os p d =
     and_then (openFile os p d) (\<lambda>n.
       if os_fails os OsRead p then Inl (os_text os OsRead p)
       else case n of Dir \<Rightarrow> Inl (os_text os OsRead p) | File c \<Rightarrow> Inr c)"

definition statFails :: "os \<Rightarrow> path \<Rightarrow> 'c disk \<Rightarrow> bool" where
  "statFails os p d \<longleftrightarrow> os_fails os OsStat p \<or> (p \<noteq> [] \<and> map_of d p = None)"

text \<open>\<open>os.Remove\<close> (of a file or an empty directory) and \<open>os.RemoveAll\<close>, which when it fails may have
  removed any part of the tree.\<close>

definition hasChildren :: "path \<Rightarrow> 'c disk \<Rightarrow> bool" where
  "hasChildren p d \<longleftrightarrow> list_ex (\<lambda>(q, _). q \<noteq> [] \<and> butlast q = p) d"

definition removeFile :: "os \<Rightarrow> path \<Rightarrow> 'c disk \<Rightarrow> string option \<times> 'c disk" where
  "removeFile os p d =
     (if os_fails os OsRemove p \<or> map_of d p = None \<or> hasChildren p d then (Some (os_text os OsRemove p), d)
      else (None, AList.delete p d))"

definition under :: "path \<Rightarrow> path \<Rightarrow> bool" where
  "under p q \<longleftrightarrow> take (length p) q = p"

definition removeAll :: "os \<Rightarrow> path \<Rightarrow> 'c disk \<Rightarrow> string option \<times> 'c disk" where
  "removeAll os p d =
     (if os_fails os OsRemoveAll p
      then (Some (os_text os OsRemoveAll p), filter (\<lambda>(q, _). under p q \<longrightarrow> os_kept os q) d)
      else (None, filter (\<lambda>(q, _). \<not> under p q) d))"

section \<open>Calls that succeed\<close>

text \<open>An operating system that lets every sensible call through.\<close>

definition healthy :: "os \<Rightarrow> bool" where
  "healthy os \<longleftrightarrow> (\<forall>c p. \<not> os_fails os c p)"

text \<open>A file system is a tree, and \<open>root\<close> a directory in it; \<open>view\<close> is what lies below \<open>root\<close>.\<close>

definition tree :: "'c disk \<Rightarrow> bool" where
  "tree d \<longleftrightarrow> distinct_keys d \<and> map_of d [] = None \<and>
     (\<forall>p n. map_of d p = Some n \<longrightarrow> butlast p = [] \<or> map_of d (butlast p) = Some Dir)"

definition rooted :: "path \<Rightarrow> 'c disk \<Rightarrow> bool" where
  "rooted root d \<longleftrightarrow> root \<noteq> [] \<and> tree d \<and> map_of d root = Some Dir"

definition view :: "path \<Rightarrow> 'c disk \<Rightarrow> path \<Rightarrow> 'c node option" where
  "view root d xs = map_of d (root @ xs)"

definition above :: "path \<Rightarrow> path \<Rightarrow> bool" where
  "above p q \<longleftrightarrow> (\<exists>r. q = p @ r)"

lemma above_append [simp]: "above (r @ p) (r @ q) \<longleftrightarrow> above p q"
  by (simp add: above_def)

lemma above_refl [simp]: "above p p"
  by (simp add: above_def)

lemma above_extended [simp]: "above p (p @ q)"
  by (simp add: above_def)

lemma above_Nil [simp]: "above [] q" "above p [] \<longleftrightarrow> p = []"
  by (auto simp: above_def)

lemma above_Cons [simp]: "above (a # p) (b # q) \<longleftrightarrow> a = b \<and> above p q"
  by (auto simp: above_def)

lemma above_Cons_left: "above (a # p) q \<longleftrightarrow> (\<exists>q'. q = a # q' \<and> above p q')"
  by (cases q) auto

lemma under_above: "under p q \<longleftrightarrow> above p q"
  unfolding under_def above_def by (metis append_eq_conv_conj)

lemma above_butlast: "above p (butlast q) \<Longrightarrow> above p q"
  unfolding above_def by (cases "q = []") (simp, metis append_assoc append_butlast_last_id)

lemma butlast_above: "above p q \<Longrightarrow> above (butlast p) q"
  unfolding above_def by (cases "p = []") (simp, metis append_assoc append_butlast_last_id)

lemma above_snoc: "above p (q @ [x]) \<longleftrightarrow> p = q @ [x] \<or> above p q"
  unfolding above_def by (metis append_assoc append_Nil2 append_is_Nil_conv butlast_append butlast_snoc)

lemma waypoints_above: "q \<in> set (waypoints p) \<longleftrightarrow> q \<noteq> [] \<and> above q p"
proof
  assume "q \<noteq> [] \<and> above q p"
  then obtain r where "q \<noteq> []" "p = q @ r" by (auto simp: above_def)
  then have "q = take (length q) p" "length q \<in> set [1..<length p + 1]" by (auto simp: Suc_le_eq)
  then show "q \<in> set (waypoints p)" by (auto simp: waypoints_def)
next
  assume "q \<in> set (waypoints p)"
  then show "q \<noteq> [] \<and> above q p"
    by (auto simp: waypoints_def above_def) (metis append_take_drop_id)
qed

lemma tree_parent: "tree d \<Longrightarrow> map_of d (p @ [x]) = Some n \<Longrightarrow> p \<noteq> [] \<Longrightarrow> map_of d p = Some Dir"
  unfolding tree_def by (metis butlast_snoc)

lemma tree_above:
  assumes "tree d" and "map_of d q = Some n" and "above p q" and "p \<noteq> []" and "p \<noteq> q"
  shows "map_of d p = Some Dir"
proof -
  obtain r where "q = p @ r" using assms(3) by (auto simp: above_def)
  with assms show ?thesis
  proof (induction r arbitrary: q n rule: rev_induct)
    case (snoc x r)
    have "map_of d (p @ r) = Some Dir"
      using tree_parent [OF snoc.prems(1), of "p @ r" x n] snoc.prems by simp
    then show ?case using snoc.IH [of "p @ r" Dir] snoc.prems by (cases "r = []") (auto simp: above_def)
  qed simp
qed

lemma tree_update:
  assumes "tree d" and "p \<noteq> []" and "butlast p = [] \<or> map_of d (butlast p) = Some Dir"
    and "n = Dir \<or> map_of d p \<noteq> Some Dir"
  shows "tree (AList.update p n d)"
  using assms unfolding tree_def by (auto simp: store_simps)

lemma rooted_view: "rooted root d \<Longrightarrow> view root d [] = Some Dir"
  by (simp add: rooted_def view_def)

lemma view_parent: "rooted root d \<Longrightarrow> view root d (xs @ [x]) = Some n \<Longrightarrow> view root d xs = Some Dir"
  using tree_parent [of d "root @ xs" x n] by (simp add: rooted_def view_def)

lemma view_update: "view root (AList.update (root @ xs) n d) = (view root d)(xs \<mapsto> n)"
  by (simp add: view_def store_simps fun_eq_iff)

lemma rooted_update:
  assumes "rooted root d" and "xs \<noteq> []" and "view root d (butlast xs) = Some Dir"
    and "n = Dir \<or> view root d xs \<noteq> Some Dir"
  shows "rooted root (AList.update (root @ xs) n d)"
  using assms tree_update [of d "root @ xs" n]
  by (auto simp: rooted_def view_def store_simps butlast_append)

text \<open>Nothing but what is below \<open>root\<close> changes.\<close>

definition outside :: "path \<Rightarrow> 'c disk \<Rightarrow> 'c disk \<Rightarrow> bool" where
  "outside root d d' \<longleftrightarrow> (\<forall>q. \<not> above root q \<longrightarrow> map_of d' q = map_of d q)"

lemma outside_refl [simp]: "outside root d d"
  by (simp add: outside_def)

lemma outside_trans: "outside root d d' \<Longrightarrow> outside root d' d'' \<Longrightarrow> outside root d d''"
  by (simp add: outside_def)

lemma outside_update [simp]: "outside root d (AList.update (root @ xs) n d)"
  by (auto simp: outside_def store_simps above_def)

section \<open>What calls change below the root\<close>

text \<open>Making directories needs only that call to succeed.\<close>

definition mkdir_free :: "os \<Rightarrow> bool" where
  "mkdir_free os \<longleftrightarrow> (\<forall>p. \<not> os_fails os OsMkdir p)"

lemma healthy_mkdir_free: "healthy os \<Longrightarrow> mkdir_free os"
  by (simp add: healthy_def mkdir_free_def)

lemma mkdirs_free:
  assumes "mkdir_free os" and "\<forall>p \<in> set ps. \<forall>c. map_of d p \<noteq> Some (File c)"
  shows "\<exists>d'. mkdirs os ps d = (None, d') \<and>
    map_of d' = (\<lambda>q. if q \<in> set ps then Some Dir else map_of d q) \<and> (distinct_keys d \<longrightarrow> distinct_keys d')"
  using assms(2)
proof (induction ps arbitrary: d)
  case (Cons p ps)
  have os: "\<not> os_fails os OsMkdir p" using assms(1) by (simp add: mkdir_free_def)
  show ?case
  proof (cases "map_of d p")
    case None
    have "\<forall>q \<in> set ps. \<forall>c. map_of (AList.update p Dir d) q \<noteq> Some (File c)"
      using Cons.prems by (simp add: store_simps)
    from Cons.IH [OF this] show ?thesis
      using None os by (auto simp: store_simps fun_eq_iff)
  next
    case (Some n)
    then have n: "n = Dir" using Cons.prems by (cases n) auto
    have "\<forall>q \<in> set ps. \<forall>c. map_of d q \<noteq> Some (File c)" using Cons.prems by simp
    from Cons.IH [OF this] show ?thesis using Some n by (auto simp: fun_eq_iff)
  qed
qed simp

lemma view_mkdirAll_free:
  assumes "mkdir_free os" and "rooted root d"
    and "\<And>ys c. above ys xs \<Longrightarrow> ys \<noteq> [] \<Longrightarrow> view root d ys \<noteq> Some (File c)"
  obtains d' where "mkdirAll os (root @ xs) d = (None, d')" and "rooted root d'"
    and "view root d' = (\<lambda>ys. if above ys xs then Some Dir else view root d ys)" and "outside root d d'"
proof -
  have root: "tree d" "map_of d root = Some Dir" "root \<noteq> []" using assms(2) by (auto simp: rooted_def)
  have way: "map_of d q \<noteq> Some (File c)" if q: "q \<in> set (waypoints (root @ xs))" for q c
  proof (cases "above q root")
    case True
    then have "map_of d q = Some Dir"
      using tree_above [OF root(1, 2), of q] root q by (cases "q = root") (auto simp: waypoints_above)
    then show ?thesis by simp
  next
    case False
    then obtain ys where "q = root @ ys" "above ys xs" "ys \<noteq> []"
      using q by (auto simp: waypoints_above above_def append_eq_append_conv2)
    then show ?thesis using assms(3) [of ys c] by (simp add: view_def)
  qed
  obtain d' where made: "mkdirAll os (root @ xs) d = (None, d')"
      "map_of d' = (\<lambda>q. if q \<in> set (waypoints (root @ xs)) then Some Dir else map_of d q)" "distinct_keys d'"
    using mkdirs_free [OF assms(1), of "waypoints (root @ xs)" d] way root(1)
    by (auto simp: mkdirAll_def tree_def)
  have "butlast p = [] \<or> map_of d' (butlast p) = Some Dir" if p: "map_of d' p = Some n" for p n
  proof (cases "p \<in> set (waypoints (root @ xs))")
    case True
    then have "above (butlast p) (root @ xs)" by (simp add: waypoints_above butlast_above)
    then show ?thesis by (simp add: made(2) waypoints_above)
  next
    case False
    then have "map_of d p = Some n" using p by (simp add: made(2))
    then show ?thesis using root(1) by (auto simp: made(2) tree_def)
  qed
  moreover have "map_of d' [] = None" "map_of d' root = Some Dir"
    using root by (simp_all add: made(2) waypoints_above tree_def)
  ultimately have "rooted root d'" using root(3) made(3) unfolding rooted_def tree_def by blast
  moreover have "view root d' = (\<lambda>ys. if above ys xs then Some Dir else view root d ys)"
    using root by (auto simp: view_def made(2) waypoints_above fun_eq_iff)
  moreover have "map_of d' q = map_of d q" if "\<not> above root q" for q
  proof (cases "q \<noteq> [] \<and> above q (root @ xs)")
    case True
    then have "above q root" using that by (auto simp: above_def append_eq_append_conv2)
    then have "map_of d q = Some Dir" using tree_above [OF root(1, 2), of q] True root(2) by (cases "q = root") auto
    then show ?thesis by (simp add: made(2) waypoints_above)
  qed (auto simp: made(2) waypoints_above)
  then have "outside root d d'" by (simp add: outside_def)
  ultimately show thesis using made(1) that by blast
qed

lemmas view_mkdirAll = view_mkdirAll_free [OF healthy_mkdir_free]

lemma firstFailure_healthy [simp]: "healthy os \<Longrightarrow> firstFailure os calls p = None"
  by (simp add: firstFailure_def healthy_def find_None_iff)

lemma createBeside_healthy:
  "healthy os \<Longrightarrow> rooted root d \<Longrightarrow> view root d (butlast xs) = Some Dir \<Longrightarrow> xs \<noteq> [] \<Longrightarrow>
     createBeside os (root @ xs) d = None"
  by (simp add: createBeside_def healthy_def isDir_def view_def butlast_append)

lemma renameOnto_healthy:
  "healthy os \<Longrightarrow> rooted root d \<Longrightarrow> view root d xs \<noteq> Some Dir \<Longrightarrow>
     renameOnto os (root @ xs) c d = (None, AList.update (root @ xs) (File c) d)"
  by (simp add: renameOnto_def healthy_def isDir_def view_def rooted_def)

lemma writeAtomic_healthy:
  assumes "healthy os" and "rooted root d" and "view root d (butlast xs) = Some Dir" and "xs \<noteq> []"
    and "view root d xs \<noteq> Some Dir"
  shows "writeAtomic os (root @ xs) c d = (None, AList.update (root @ xs) (File c) d)"
  using createBeside_healthy [OF assms(1-4)] renameOnto_healthy [OF assms(1, 2, 5)] assms(1)
  by (simp add: writeAtomic_def)

lemma openFile_healthy:
  "healthy os \<Longrightarrow> rooted root d \<Longrightarrow>
     openFile os (root @ xs) d = (case view root d xs of None \<Rightarrow> Inl (os_text os OsOpen (root @ xs)) | Some n \<Rightarrow> Inr n)"
  by (simp add: openFile_def healthy_def rooted_def view_def)

lemma readFile_healthy:
  "healthy os \<Longrightarrow> rooted root d \<Longrightarrow> view root d xs = Some (File c) \<Longrightarrow> readFile os (root @ xs) d = Inr c"
  by (simp add: readFile_def openFile_healthy) (simp add: healthy_def)

lemma statFails_healthy:
  "healthy os \<Longrightarrow> rooted root d \<Longrightarrow> statFails os (root @ xs) d \<longleftrightarrow> view root d xs = None"
  by (simp add: statFails_def healthy_def rooted_def view_def)

lemma removeFile_healthy:
  assumes "healthy os" and "rooted root d" and "view root d xs \<noteq> Some Dir" and "xs \<noteq> []"
  shows "rooted root (snd (removeFile os (root @ xs) d)) \<and>
    view root (snd (removeFile os (root @ xs) d)) = (view root d)(xs := None) \<and>
    outside root d (snd (removeFile os (root @ xs) d))"
proof -
  have tree: "tree d" using assms(2) by (simp add: rooted_def)
  have leaf: "map_of d (root @ xs @ [x]) = None" for x
    using tree_parent [OF tree, of "root @ xs" x] assms(3, 4) by (cases "map_of d (root @ xs @ [x])") (auto simp: view_def)
  have none: "\<not> hasChildren (root @ xs) d"
  proof
    assume "hasChildren (root @ xs) d"
    then obtain q n where "(q, n) \<in> set d" "q \<noteq> []" "butlast q = root @ xs" by (auto simp: hasChildren_def list_ex_iff)
    then have "(root @ xs @ [last q], n) \<in> set d" by (metis append_assoc append_butlast_last_id)
    then show False using leaf map_of_eq_None_iff [of d "root @ xs @ [last q]"] by force
  qed
  show ?thesis
  proof (cases "view root d xs")
    case None
    then show ?thesis using assms by (auto simp: removeFile_def view_def fun_eq_iff)
  next
    case (Some n)
    then have "removeFile os (root @ xs) d = (None, AList.delete (root @ xs) d)"
      using none assms(1) by (simp add: removeFile_def healthy_def view_def)
    moreover have "map_of d p = None" if "butlast p = root @ xs" for p
      using that leaf assms(4) by (metis append_assoc append_butlast_last_id append_is_Nil_conv butlast.simps(1))
    then have "butlast p = [] \<or> map_of (AList.delete (root @ xs) d) (butlast p) = Some Dir"
      if "map_of (AList.delete (root @ xs) d) p = Some m" for p m
      using that tree by (auto simp: store_simps tree_def split: if_splits)
    then have "rooted root (AList.delete (root @ xs) d)"
      using assms(2, 4) unfolding rooted_def tree_def by (auto simp: store_simps)
    ultimately show ?thesis by (auto simp: view_def store_simps fun_eq_iff outside_def)
  qed
qed

lemma map_of_filter_keys: "map_of (filter (\<lambda>(k, _). P k) m) k = (if P k then map_of m k else None)"
  by (induction m) auto

lemma removeAll_healthy:
  assumes "healthy os" and "rooted root d" and "xs \<noteq> []"
  obtains d' where "removeAll os (root @ xs) d = (None, d')" and "rooted root d'"
    and "view root d' = (\<lambda>ys. if above xs ys then None else view root d ys)" and "outside root d d'"
proof
  let ?d = "filter (\<lambda>(q, _). \<not> under (root @ xs) q) d"
  show "removeAll os (root @ xs) d = (None, ?d)" using assms(1) by (simp add: removeAll_def healthy_def)
  show "view root ?d = (\<lambda>ys. if above xs ys then None else view root d ys)"
    by (simp add: view_def map_of_filter_keys under_above fun_eq_iff)
  show "outside root d ?d"
    by (auto simp: outside_def map_of_filter_keys under_above above_def)
  have "distinct_keys ?d" using assms(2) by (simp add: rooted_def tree_def distinct_keys_def distinct_map_filter)
  moreover have "\<not> above (root @ xs) root" using assms(3) by (auto simp: above_def)
  moreover have "butlast p = [] \<or> map_of ?d (butlast p) = Some Dir" if "map_of ?d p = Some n" for p n
    using that assms(2) above_butlast [of "root @ xs" p]
    by (auto simp: rooted_def tree_def map_of_filter_keys under_above split: if_splits)
  ultimately show "rooted root ?d"
    using assms(2) by (auto simp: rooted_def tree_def map_of_filter_keys under_above)
qed

lemma readDir_healthy:
  assumes "healthy os" and "rooted root d" and "view root d xs = Some Dir"
  obtains entries where "readDir os (root @ xs) d = Inr entries" and "distinct (map fst entries)"
    and "\<And>x n. (x, n) \<in> set entries \<longleftrightarrow> view root d (xs @ [x]) = Some n"
proof
  let ?p = "root @ xs"
  let ?in = "filter (\<lambda>(q, n). q \<noteq> [] \<and> butlast q = ?p) d"
  let ?entries = "sort_key fst (map (\<lambda>(q, n). (last q, n)) ?in)"
  have keys: "distinct_keys d" using assms(2) by (simp add: rooted_def tree_def)
  show "readDir os ?p d = Inr ?entries"
    using assms by (simp add: readDir_def healthy_def isDir_def view_def)
  have "distinct (map fst ?in)" using keys by (simp add: distinct_keys_def distinct_map_filter)
  moreover have "inj_on last (set (map fst ?in))"
    by (auto simp: inj_on_def) (metis append_butlast_last_id)
  ultimately have "distinct (map last (map fst ?in))" by (simp add: distinct_map del: map_map)
  then show "distinct (map fst ?entries)" by (simp add: comp_def case_prod_beta)
  fix x n
  have "(x, n) \<in> set ?entries \<longleftrightarrow> (\<exists>q. (q, n) \<in> set d \<and> q \<noteq> [] \<and> butlast q = ?p \<and> x = last q)" by force
  also have "\<dots> \<longleftrightarrow> (?p @ [x], n) \<in> set d"
    by (metis append_butlast_last_id append_is_Nil_conv butlast_snoc last_snoc not_Cons_self2)
  also have "\<dots> \<longleftrightarrow> view root d (xs @ [x]) = Some n" using map_of_in_set [OF keys] by (simp add: view_def)
  finally show "(x, n) \<in> set ?entries \<longleftrightarrow> view root d (xs @ [x]) = Some n" .
qed

end
