(* ===== verification/Go_Md5.thy ===== *)
theory Go_Md5
  imports Prelude
begin

text \<open>
  \<open>crypto/md5\<close>, which the Blob service computes over payloads and blocks. The digest of RFC 1321 on
  32-bit words: padding to a multiple of 64 bytes, sixty-four rounds per block, little-endian output.
\<close>

definition le_word :: "bytes \<Rightarrow> u32" where
  "le_word bs = be_word (rev bs)"

definition le_bytes :: "nat \<Rightarrow> 'a::len word \<Rightarrow> bytes" where
  "le_bytes n w = rev (be_bytes n w)"

definition md5Shifts :: "nat list" where
  "md5Shifts = concat (replicate 4 [7, 12, 17, 22]) @ concat (replicate 4 [5, 9, 14, 20]) @
     concat (replicate 4 [4, 11, 16, 23]) @ concat (replicate 4 [6, 10, 15, 21])"

definition md5Table :: "u32 list" where
  "md5Table =
    [0xd76aa478, 0xe8c7b756, 0x242070db, 0xc1bdceee, 0xf57c0faf, 0x4787c62a, 0xa8304613, 0xfd469501,
     0x698098d8, 0x8b44f7af, 0xffff5bb1, 0x895cd7be, 0x6b901122, 0xfd987193, 0xa679438e, 0x49b40821,
     0xf61e2562, 0xc040b340, 0x265e5a51, 0xe9b6c7aa, 0xd62f105d, 0x02441453, 0xd8a1e681, 0xe7d3fbc8,
     0x21e1cde6, 0xc33707d6, 0xf4d50d87, 0x455a14ed, 0xa9e3e905, 0xfcefa3f8, 0x676f02d9, 0x8d2a4c8a,
     0xfffa3942, 0x8771f681, 0x6d9d6122, 0xfde5380c, 0xa4beea44, 0x4bdecfa9, 0xf6bb4b60, 0xbebfbc70,
     0x289b7ec6, 0xeaa127fa, 0xd4ef3085, 0x04881d05, 0xd9d4d039, 0xe6db99e5, 0x1fa27cf8, 0xc4ac5665,
     0xf4292244, 0x432aff97, 0xab9423a7, 0xfc93a039, 0x655b59c3, 0x8f0ccc92, 0xffeff47d, 0x85845dd1,
     0x6fa87e4f, 0xfe2ce6e0, 0xa3014314, 0x4e0811a1, 0xf7537e82, 0xbd3af235, 0x2ad7d2bb, 0xeb86d391]"

type_synonym md5_state = "u32 \<times> u32 \<times> u32 \<times> u32"

definition rotateLeft :: "nat \<Rightarrow> u32 \<Rightarrow> u32" where
  "rotateLeft n w = push_bit n w OR drop_bit (32 - n) w"

text \<open>The mixing function of round \<open>i\<close> and the word of the block it reads.\<close>

definition md5Mix :: "nat \<Rightarrow> u32 \<Rightarrow> u32 \<Rightarrow> u32 \<Rightarrow> u32 \<times> nat" where
  "md5Mix i b c d =
     (if i < 16 then ((b AND c) OR (NOT b AND d), i)
      else if i < 32 then ((d AND b) OR (NOT d AND c), (5 * i + 1) mod 16)
      else if i < 48 then (b XOR c XOR d, (3 * i + 5) mod 16)
      else (c XOR (b OR NOT d), (7 * i) mod 16))"

definition md5Round :: "u32 list \<Rightarrow> md5_state \<Rightarrow> nat \<times> nat \<times> u32 \<Rightarrow> md5_state" where
  "md5Round block = (\<lambda>(a, b, c, d) (i, shift, k).
     case md5Mix i b c d of (f, g) \<Rightarrow> (d, b + rotateLeft shift (a + f + k + block ! g), b, c))"

definition md5Block :: "md5_state \<Rightarrow> u32 list \<Rightarrow> md5_state" where
  "md5Block s block =
     (case (s, foldl (md5Round block) s (zip [0..<64] (zip md5Shifts md5Table))) of
        ((a, b, c, d), (a', b', c', d')) \<Rightarrow> (a + a', b + b', c + c', d + d'))"

fun chunks :: "nat \<Rightarrow> 'a list \<Rightarrow> 'a list list" where
  "chunks n [] = []"
| "chunks 0 (x # xs) = [x # xs]"
| "chunks (Suc n) (x # xs) = (x # take n xs) # chunks (Suc n) (drop n xs)"

definition md5Pad :: "bytes \<Rightarrow> bytes" where
  "md5Pad bs = bs @ [0x80] @ replicate ((119 - length bs mod 64) mod 64) 0 @ le_bytes 8 (word_of_nat (8 * length bs) :: u64)"

definition md5 :: "bytes \<Rightarrow> bytes" where
  "md5 bs =
     (case foldl md5Block (0x67452301, 0xefcdab89, 0x98badcfe, 0x10325476)
             (map (\<lambda>block. map le_word (chunks 4 block)) (chunks 64 (md5Pad bs))) of
        (a, b, c, d) \<Rightarrow> concat (map (le_bytes 4) [a, b, c, d]))"

lemma length_le_bytes [simp]: "length (le_bytes n w) = n"
  by (simp add: le_bytes_def)

lemma length_md5 [simp]: "length (md5 bs) = 16"
  by (simp add: md5_def split: prod.split)

end
