(* ===== verification/Go_Utf8.thy ===== *)
theory Go_Utf8
  imports Go_Maps Go_Strings
begin

text \<open>
  Text on its way through JSON: \<open>encoding/json\<close> writes a Go string as the runes \<open>unicode/utf8\<close> finds in
  it, so bytes that are not UTF-8 come back as U+FFFD. Shown here: what came back once comes back the
  same for ever, for strings and for maps of strings.
\<close>

section \<open>Runes\<close>

definition scalar :: "nat \<Rightarrow> bool" where
  "scalar r \<longleftrightarrow> r < 0x110000 \<and> \<not> (0xD800 \<le> r \<and> r \<le> 0xDFFF)"

text \<open>\<open>decodeRune\<close> on the first four codes.\<close>

definition decodeCodes :: "nat \<Rightarrow> nat \<Rightarrow> nat \<Rightarrow> nat \<Rightarrow> nat \<times> nat" where
  "decodeCodes a b c d =
     (if a < 0x80 then (a, 1)
      else if 0xC2 \<le> a \<and> a \<le> 0xDF \<and> continuation b then ((a - 0xC0) * 64 + (b - 0x80), 2)
      else if 0xE0 \<le> a \<and> a \<le> 0xEF \<and> continuation b \<and> continuation c \<and>
              (a = 0xE0 \<longrightarrow> 0xA0 \<le> b) \<and> (a = 0xED \<longrightarrow> b \<le> 0x9F)
        then ((a - 0xE0) * 4096 + (b - 0x80) * 64 + (c - 0x80), 3)
      else if 0xF0 \<le> a \<and> a \<le> 0xF4 \<and> continuation b \<and> continuation c \<and> continuation d \<and>
              (a = 0xF0 \<longrightarrow> 0x90 \<le> b) \<and> (a = 0xF4 \<longrightarrow> b \<le> 0x8F)
        then ((a - 0xF0) * 262144 + (b - 0x80) * 4096 + (c - 0x80) * 64 + (d - 0x80), 4)
      else (runeError, 1))"

lemma decodeRune_codes: "decodeRune s = decodeCodes (code_at s 0) (code_at s 1) (code_at s 2) (code_at s 3)"
  unfolding decodeRune_def decodeCodes_def Let_def ..

lemma scalar_codes: "scalar (fst (decodeCodes a b c d))"
proof -
  have "scalar ((a - 0xC0) * 64 + (b - 0x80))" if "a \<le> 0xDF" "continuation b"
    using that unfolding scalar_def continuation_def by linarith
  moreover have "scalar ((a - 0xE0) * 4096 + (b - 0x80) * 64 + (c - 0x80))"
    if h: "0xE0 \<le> a" "a \<le> 0xEF" "continuation b" "continuation c" "a = 0xED \<longrightarrow> b \<le> 0x9F"
  proof -
    obtain x where x: "a = 0xE0 + x" using h(1) le_Suc_ex by blast
    obtain y where y: "b = 0x80 + y" using h(3) le_Suc_ex unfolding continuation_def by blast
    obtain z where z: "c = 0x80 + z" using h(4) le_Suc_ex unfolding continuation_def by blast
    have "x \<le> 15" "y \<le> 63" "z \<le> 63" "x = 13 \<longrightarrow> y \<le> 31" using h by (simp_all add: x y z continuation_def)
    moreover from this have "x * 4096 + y * 64 + z < 0xD800 \<or> 0xDFFF < x * 4096 + y * 64 + z"
      by (cases "x = 13"; cases "x < 13") simp_all
    ultimately show ?thesis unfolding scalar_def x y z by auto
  qed
  moreover have "scalar ((a - 0xF0) * 262144 + (b - 0x80) * 4096 + (c - 0x80) * 64 + (d - 0x80))"
    if h: "0xF0 \<le> a" "a \<le> 0xF4" "continuation b" "continuation c" "continuation d" "a = 0xF0 \<longrightarrow> 0x90 \<le> b"
      "a = 0xF4 \<longrightarrow> b \<le> 0x8F"
  proof -
    obtain w where w: "a = 0xF0 + w" using h(1) le_Suc_ex by blast
    obtain x where x: "b = 0x80 + x" using h(3) le_Suc_ex unfolding continuation_def by blast
    obtain y where y: "c = 0x80 + y" using h(4) le_Suc_ex unfolding continuation_def by blast
    obtain z where z: "d = 0x80 + z" using h(5) le_Suc_ex unfolding continuation_def by blast
    have "w \<le> 4" "x \<le> 63" "y \<le> 63" "z \<le> 63" "w = 0 \<longrightarrow> 16 \<le> x" "w = 4 \<longrightarrow> x \<le> 15"
      using h by (simp_all add: w x y z continuation_def)
    moreover from this have "w * 262144 + x * 4096 + y * 64 + z < 0x110000" "0xDFFF < w * 262144 + x * 4096 + y * 64 + z"
      by (cases "w = 0"; cases "w = 4"; simp)+
    ultimately show ?thesis unfolding scalar_def w x y z by auto
  qed
  moreover have "scalar runeError" by (simp add: scalar_def)
  moreover have "scalar a" if "a < 0x80" using that by (simp add: scalar_def)
  ultimately show ?thesis unfolding decodeCodes_def by simp
qed

lemma code_at_encoded:
  "\<forall>n \<in> set ns. n < 256 \<Longrightarrow> i < length ns \<Longrightarrow> code_at (map char_of ns @ t) i = ns ! i"
  by (simp add: nth_append)

lemma decode_encode:
  assumes "scalar r"
  shows "decodeRune (encodeRune r @ t) = (r, length (encodeRune r))"
proof -
  consider "r < 0x80" | "0x80 \<le> r" "r < 0x800" | "0x800 \<le> r" "r < 0x10000" | "0x10000 \<le> r" "r < 0x110000"
    using assms unfolding scalar_def by linarith
  then show ?thesis
  proof cases
    case 1
    then have "encodeRune r = map char_of [r]" by (simp add: encodeRune_def)
    then show ?thesis
      using 1 code_at_encoded [of "[r]" 0 t] by (simp add: decodeRune_codes decodeCodes_def)
  next
    case 2
    let ?ns = "[0xC0 + r div 64, 0x80 + r mod 64]"
    have q: "2 \<le> r div 64" "r div 64 < 32" using 2 by (simp_all add: less_mult_imp_div_less less_eq_div_iff_mult_less_eq)
    have m: "r mod 64 < 64" by simp
    have enc: "encodeRune r = map char_of ?ns" using 2 by (simp add: encodeRune_def)
    have small: "\<forall>n \<in> set ?ns. n < 256" using q m by simp
    have codes: "code_at (encodeRune r @ t) 0 = 0xC0 + r div 64" "code_at (encodeRune r @ t) 1 = 0x80 + r mod 64"
      unfolding enc by (subst code_at_encoded [OF small]; simp)+
    have "r div 64 * 64 + r mod 64 = r" by simp
    then show ?thesis
      unfolding decodeRune_codes decodeCodes_def codes continuation_def using q m by (simp add: enc)
  next
    case 3
    let ?ns = "[0xE0 + r div 4096, 0x80 + r div 64 mod 64, 0x80 + r mod 64]"
    have q: "r div 4096 < 16" using 3 by (simp add: less_mult_imp_div_less)
    have m: "r mod 64 \<le> 63" "r div 64 mod 64 \<le> 63"
      using mod_less_divisor [of 64 r] mod_less_divisor [of 64 "r div 64"] by linarith+
    have enc: "encodeRune r = map char_of ?ns" using 3 by (simp add: encodeRune_def)
    have small: "\<forall>n \<in> set ?ns. n < 256" using q m by simp
    have codes: "code_at (encodeRune r @ t) 0 = 0xE0 + r div 4096"
        "code_at (encodeRune r @ t) 1 = 0x80 + r div 64 mod 64" "code_at (encodeRune r @ t) 2 = 0x80 + r mod 64"
      unfolding enc by (subst code_at_encoded [OF small]; simp)+
    have sum: "r div 4096 * 4096 + (r div 64 mod 64) * 64 + r mod 64 = r"
    proof -
      have "r div 4096 * 64 + r div 64 mod 64 = r div 64"
        using div_mult_mod_eq [of "r div 64" 64] by (simp add: div_mult2_eq [symmetric])
      then show ?thesis using div_mult_mod_eq [of r 64] by linarith
    qed
    have low: "r div 4096 = 0 \<Longrightarrow> 0x20 \<le> r div 64 mod 64" using sum 3 m by linarith
    have high: "r div 4096 = 13 \<Longrightarrow> r div 64 mod 64 \<le> 0x1F" using sum assms m unfolding scalar_def by linarith
    show ?thesis
      unfolding decodeRune_codes decodeCodes_def codes continuation_def using q m low high sum by (simp add: enc)
  next
    case 4
    let ?ns = "[0xF0 + r div 262144, 0x80 + r div 4096 mod 64, 0x80 + r div 64 mod 64, 0x80 + r mod 64]"
    have q: "r div 262144 < 5" using 4 by (simp add: less_mult_imp_div_less)
    have m: "r mod 64 \<le> 63" "r div 64 mod 64 \<le> 63" "r div 4096 mod 64 \<le> 63"
      using mod_less_divisor [of 64 r] mod_less_divisor [of 64 "r div 64"] mod_less_divisor [of 64 "r div 4096"] by linarith+
    have enc: "encodeRune r = map char_of ?ns" using 4 by (simp add: encodeRune_def)
    have small: "\<forall>n \<in> set ?ns. n < 256" using q m by simp
    have codes: "code_at (encodeRune r @ t) 0 = 0xF0 + r div 262144"
        "code_at (encodeRune r @ t) 1 = 0x80 + r div 4096 mod 64"
        "code_at (encodeRune r @ t) 2 = 0x80 + r div 64 mod 64" "code_at (encodeRune r @ t) 3 = 0x80 + r mod 64"
      unfolding enc by (subst code_at_encoded [OF small]; simp)+
    have sum: "r div 262144 * 262144 + (r div 4096 mod 64) * 4096 + (r div 64 mod 64) * 64 + r mod 64 = r"
    proof -
      have "r div 4096 * 64 + r div 64 mod 64 = r div 64" "r div 262144 * 64 + r div 4096 mod 64 = r div 4096"
        using div_mult_mod_eq [of "r div 64" 64] div_mult_mod_eq [of "r div 4096" 64] by (simp_all add: div_mult2_eq [symmetric])
      then show ?thesis using div_mult_mod_eq [of r 64] by linarith
    qed
    have low: "r div 262144 = 0 \<Longrightarrow> 0x10 \<le> r div 4096 mod 64" using sum 4 m by linarith
    have high: "r div 262144 = 4 \<Longrightarrow> r div 4096 mod 64 \<le> 0xF" using sum 4 m by linarith
    show ?thesis
      unfolding decodeRune_codes decodeCodes_def codes continuation_def using q m low high sum by (simp add: enc)
  qed
qed

lemma encodeRune_not_Nil [simp]: "encodeRune r \<noteq> []"
  by (simp add: encodeRune_def)

lemma runes_encoded: "\<forall>r \<in> set rs. scalar r \<Longrightarrow> runes (concat (map encodeRune rs)) = rs"
proof (induction rs)
  case (Cons r rs)
  let ?t = "concat (map encodeRune rs)"
  have "1 \<le> length (encodeRune r)" by (simp add: Suc_le_eq)
  then have "runes (encodeRune r @ ?t) = r # runes ?t"
    using decode_encode [of r ?t] Cons.prems by (subst runes.simps) (simp add: max_absorb2)
  then show ?case using Cons by simp
qed (simp add: runes.simps)

lemma scalar_runes: "r \<in> set (runes s) \<Longrightarrow> scalar r"
proof (induction s rule: runes.induct)
  case (1 s)
  then show ?case
    by (cases "s = []") (auto simp: runes.simps [of s] runes.simps [of "[]"] decodeRune_codes scalar_codes)
qed

section \<open>Strings\<close>

text \<open>A string after a trip through JSON.\<close>

definition jsonString :: "string \<Rightarrow> string" where
  "jsonString s = concat (map encodeRune (runes s))"

lemma jsonString_idem [simp]: "jsonString (jsonString s) = jsonString s"
  using runes_encoded [of "runes s"] scalar_runes by (simp add: jsonString_def)

lemma runes_ascii: "isAscii s \<Longrightarrow> runes s = map of_char s"
proof (induction s)
  case (Cons c s)
  then have c: "(of_char c :: nat) < 128" "isAscii s" by (simp_all add: isAscii_def)
  then have "decodeRune (c # s) = (of_char c, 1)" by (simp add: decodeRune_codes decodeCodes_def)
  then show ?case using Cons c by (subst runes.simps) simp
qed (simp add: runes.simps)

lemma jsonString_ascii: "isAscii s \<Longrightarrow> jsonString s = s"
  unfolding jsonString_def runes_ascii
  by (induction s) (simp_all add: isAscii_def encodeRune_def)

section \<open>Maps\<close>

text \<open>A map is written in the order of its keys and read back one entry after the other. The order of
  the list that stands for a map does not matter; here it is that of the keys.\<close>

definition jsonMap :: "(string, string) go_map \<Rightarrow> (string, string) go_map" where
  "jsonMap m = sort_key fst (fold (\<lambda>(k, v). AList.update (jsonString k) (jsonString v)) (sort_key fst m) [])"

lemma fold_update_fresh:
  "distinct (map fst (acc @ m)) \<Longrightarrow> fold (\<lambda>(k, v). AList.update k v) m acc = acc @ m"
proof (induction m arbitrary: acc)
  case (Cons x m)
  then have "AList.update (fst x) (snd x) acc = acc @ [x]" by (simp add: alist_update_fresh)
  then show ?case using Cons.IH [of "acc @ [x]"] Cons.prems by (simp add: case_prod_beta)
qed simp

lemma fold_update_inv:
  assumes "\<forall>(k, v) \<in> set acc. jsonString k = k \<and> jsonString v = v" and "distinct (map fst acc)"
  shows "(\<forall>(k, v) \<in> set (fold (\<lambda>(k, v). AList.update (jsonString k) (jsonString v)) m acc).
      jsonString k = k \<and> jsonString v = v) \<and>
    distinct (map fst (fold (\<lambda>(k, v). AList.update (jsonString k) (jsonString v)) m acc))"
  using assms
proof (induction m arbitrary: acc)
  case (Cons x m)
  obtain k v where x: "x = (k, v)" by (cases x)
  have "\<forall>(k, v) \<in> set (AList.update (jsonString k) (jsonString v) acc). jsonString k = k \<and> jsonString v = v"
    using Cons.prems(1) set_update_subset [of "jsonString k" "jsonString v" acc] by fastforce
  then show ?case using Cons.IH distinct_update [OF Cons.prems(2)] by (simp add: x)
qed simp

lemma jsonMap_idem [simp]: "jsonMap (jsonMap m) = jsonMap m"
proof -
  have inv: "\<forall>(k, v) \<in> set (jsonMap m). jsonString k = k \<and> jsonString v = v" "distinct (map fst (jsonMap m))"
    using fold_update_inv [of "[]" "sort_key fst m"] by (simp_all add: jsonMap_def)
  have sorted: "sort_key fst (jsonMap m) = jsonMap m"
    by (simp add: jsonMap_def sort_key_id_if_sorted)
  have "fold (\<lambda>(k, v). AList.update (jsonString k) (jsonString v)) (jsonMap m) [] = fold (\<lambda>(k, v). AList.update k v) (jsonMap m) []"
    using inv(1) by (intro fold_cong) auto
  also have "\<dots> = jsonMap m" using fold_update_fresh [of "[]" "jsonMap m"] inv(2) by simp
  finally show ?thesis using sorted by (simp add: jsonMap_def [of "jsonMap m"])
qed

end
