(* ===== verification/Blob_Store.thy ===== *)
theory Blob_Store
  imports Go_Files Go_Md5 Go_Time Go_Encoding Go_Json Go_Utf8
begin

text \<open>
  The Blob service's state, \<open>internal/stores/blobstore\<close> and its implementation \<open>fsstore\<close>: an index of
  accounts, containers and blobs in memory, written through to files, with the payloads and the staged
  blocks on disk only. The mutex is held through every operation (shared by those that only read), so
  each is one step. \<open>env\<close> holds the clock and the operating system; an \<open>io.Reader\<close> is the bytes it
  yields and the error it ends with, if any. The state has the disk beside the fields of \<open>Store\<close>.
\<close>

section \<open>Types\<close>

type_synonym metadata = "(string, string) go_map"

datatype blob_error = ErrContainerNotFound | ErrContainerExists | ErrBlobNotFound | ErrInvalidBlockList
  | ErrOther string

record containerInfo =
  ci_name :: string
  ci_etag :: string
  ci_lastModified :: time
  ci_metadata :: metadata

record blobProps =
  bp_contentType :: string
  bp_contentEncoding :: string
  bp_contentLanguage :: string
  bp_contentDisposition :: string
  bp_cacheControl :: string
  bp_contentMD5 :: bytes
  bp_metadata :: metadata

record blobInfo =
  bi_name :: string
  bi_containerName :: string
  bi_contentLength :: int
  bi_etag :: string
  bi_lastModified :: time
  bi_blobType :: string
  bi_props :: blobProps

definition noProps :: blobProps where
  "noProps = \<lparr>bp_contentType = [], bp_contentEncoding = [], bp_contentLanguage = [],
     bp_contentDisposition = [], bp_cacheControl = [], bp_contentMD5 = [], bp_metadata = []\<rparr>"

record blobEntry =
  be_info :: blobInfo

record container =
  c_info :: containerInfo
  c_blobs :: "(string, blobEntry) go_map"

type_synonym accounts = "(string, string, container) nested"

text \<open>What files hold: payloads and blocks their bytes, the metadata files a JSON document.\<close>

datatype content = Payload bytes | ContainerJSON containerInfo | BlobJSON blobInfo

record blob_store =
  bs_root :: path
  bs_accounts :: accounts
  bs_disk :: "content disk"

record blob_env =
  be_now :: time
  be_os :: os

type_synonym reader = "bytes \<times> string option"

section \<open>Paths\<close>

definition containerMetaFile :: string where "containerMetaFile = ''_container.json''"
definition dataDir :: string where "dataDir = ''data''"
definition metaDir :: string where "metaDir = ''meta''"
definition blocksDir :: string where "blocksDir = ''blocks''"

definition key :: "string \<Rightarrow> string" where "key name = rawURLEncode name"

definition accountDir :: "path \<Rightarrow> string \<Rightarrow> path" where
  "accountDir root acct = joinPath root acct"

definition containerDir :: "path \<Rightarrow> string \<Rightarrow> string \<Rightarrow> path" where
  "containerDir root acct c = joinPath (accountDir root acct) c"

definition blobDataPath :: "path \<Rightarrow> string \<Rightarrow> string \<Rightarrow> string \<Rightarrow> path" where
  "blobDataPath root acct c name = joinPath (joinPath (containerDir root acct c) dataDir) (key name)"

definition blobMetaPath :: "path \<Rightarrow> string \<Rightarrow> string \<Rightarrow> string \<Rightarrow> path" where
  "blobMetaPath root acct c name = joinPath (joinPath (containerDir root acct c) metaDir) (key name @ ''.json'')"

definition blockDir :: "path \<Rightarrow> string \<Rightarrow> string \<Rightarrow> string \<Rightarrow> path" where
  "blockDir root acct c name = joinPath (joinPath (containerDir root acct c) blocksDir) (key name)"

definition blockPath :: "path \<Rightarrow> string \<Rightarrow> string \<Rightarrow> string \<Rightarrow> string \<Rightarrow> path" where
  "blockPath root acct c name blockID = joinPath (blockDir root acct c name) (key blockID)"

section \<open>Helpers\<close>

text \<open>\<open>streamToFile\<close>: the digest and the number of bytes, once the file is in place.\<close>

definition streamToFile :: "os \<Rightarrow> path \<Rightarrow> reader \<Rightarrow> content disk \<Rightarrow> (string + bytes \<times> int) \<times> content disk" where
  "streamToFile os dst src d =
     (case createBeside os dst d of
        Some e \<Rightarrow> (Inl e, d)
      | None \<Rightarrow>
          (case (if fst src = [] then None else firstFailure os [OsWrite] dst) of
             Some e \<Rightarrow> (Inl e, d)
           | None \<Rightarrow>
               (case snd src of
                  Some e \<Rightarrow> (Inl e, d)
                | None \<Rightarrow>
                    (case firstFailure os [OsSync, OsClose] dst of
                       Some e \<Rightarrow> (Inl e, d)
                     | None \<Rightarrow>
                         (case renameOnto os dst (Payload (fst src)) d of
                            (Some e, d1) \<Rightarrow> (Inl e, d1)
                          | (None, d1) \<Rightarrow> (Inr (md5 (fst src), int (length (fst src))), d1))))))"

text \<open>\<open>%X\<close> of a 64-bit integer.\<close>

fun upperHex :: "nat \<Rightarrow> string" where
  "upperHex n = (if n < 16 then [''0123456789ABCDEF'' ! n] else upperHex (n div 16) @ [''0123456789ABCDEF'' ! (n mod 16)])"

declare upperHex.simps [simp del]

definition newETag :: "time \<Rightarrow> string" where
  "newETag t = (let n = wrap64 t in
     ''\"0x'' @ (if n < 0 then ''-'' @ upperHex (nat (- n)) else upperHex (nat n)) @ ''\"'')"

definition encodeMarker :: "string \<Rightarrow> string" where
  "encodeMarker name = rawURLEncode name"

definition decodeMarker :: "string \<Rightarrow> string" where
  "decodeMarker marker =
     (if marker = [] then [] else case rawURLDecode marker of None \<Rightarrow> [] | Some raw \<Rightarrow> raw)"

text \<open>A copy of a map is the map: nothing here shares one between two owners.\<close>

definition cloneMeta :: "metadata \<Rightarrow> metadata" where
  "cloneMeta m = m"

section \<open>Accounts\<close>

definition lookupContainer :: "string \<Rightarrow> string \<Rightarrow> blob_store \<Rightarrow> blob_error + container" where
  "lookupContainer acct name s =
     (case map_of (bs_accounts s) acct of
        None \<Rightarrow> Inl ErrContainerNotFound
      | Some a \<Rightarrow> (case map_of a name of None \<Rightarrow> Inl ErrContainerNotFound | Some c \<Rightarrow> Inr c))"

definition getAccount :: "string \<Rightarrow> blob_store \<Rightarrow> blob_store" where
  "getAccount name s =
     (if map_of (bs_accounts s) name = None
      then s\<lparr>bs_accounts := AList.update name [] (bs_accounts s)\<rparr> else s)"

text \<open>Writing through the pointer to a container found in the index.\<close>

definition setBlobs :: "string \<Rightarrow> string \<Rightarrow> ((string, blobEntry) go_map \<Rightarrow> (string, blobEntry) go_map)
    \<Rightarrow> blob_store \<Rightarrow> blob_store" where
  "setBlobs acct cname f s =
     (case lookupContainer acct cname s of
        Inl _ \<Rightarrow> s
      | Inr c \<Rightarrow> s\<lparr>bs_accounts := update2 (acct, cname) (c\<lparr>c_blobs := f (c_blobs c)\<rparr>) (bs_accounts s)\<rparr>)"

definition onDisk :: "content disk \<Rightarrow> blob_store \<Rightarrow> blob_store" where
  "onDisk d s = s\<lparr>bs_disk := d\<rparr>"

section \<open>Persistence\<close>

definition jsonContainer :: "containerInfo \<Rightarrow> containerInfo" where
  "jsonContainer i = \<lparr>ci_name = jsonString (ci_name i), ci_etag = jsonString (ci_etag i),
     ci_lastModified = ci_lastModified i, ci_metadata = jsonMap (ci_metadata i)\<rparr>"

definition jsonProps :: "blobProps \<Rightarrow> blobProps" where
  "jsonProps p = \<lparr>bp_contentType = jsonString (bp_contentType p),
     bp_contentEncoding = jsonString (bp_contentEncoding p),
     bp_contentLanguage = jsonString (bp_contentLanguage p),
     bp_contentDisposition = jsonString (bp_contentDisposition p),
     bp_cacheControl = jsonString (bp_cacheControl p),
     bp_contentMD5 = bp_contentMD5 p, bp_metadata = jsonMap (bp_metadata p)\<rparr>"

definition jsonBlob :: "blobInfo \<Rightarrow> blobInfo" where
  "jsonBlob i = \<lparr>bi_name = jsonString (bi_name i), bi_containerName = jsonString (bi_containerName i),
     bi_contentLength = bi_contentLength i, bi_etag = jsonString (bi_etag i),
     bi_lastModified = bi_lastModified i, bi_blobType = jsonString (bi_blobType i),
     bi_props = jsonProps (bi_props i)\<rparr>"

definition persistContainer :: "os \<Rightarrow> path \<Rightarrow> string \<Rightarrow> containerInfo \<Rightarrow> content disk \<Rightarrow> string option \<times> content disk" where
  "persistContainer os root acct i d =
     (let dir = containerDir root acct (ci_name i) in
      case mkdirAll os dir d of
        (Some e, d1) \<Rightarrow> (Some e, d1)
      | (None, d1) \<Rightarrow> writeAtomic os (joinPath dir containerMetaFile) (ContainerJSON (jsonContainer i)) d1)"

definition persistBlobMeta ::
    "os \<Rightarrow> path \<Rightarrow> string \<Rightarrow> string \<Rightarrow> blobInfo \<Rightarrow> content disk \<Rightarrow> string option \<times> content disk" where
  "persistBlobMeta os root acct cname i d =
     (case mkdirAll os (joinPath (containerDir root acct cname) metaDir) d of
        (Some e, d1) \<Rightarrow> (Some e, d1)
      | (None, d1) \<Rightarrow> writeAtomic os (blobMetaPath root acct cname (bi_name i)) (BlobJSON (jsonBlob i)) d1)"

text \<open>Unmarshalling a file: the metadata files hold the documents written to them (the name of a payload
  or a block has no dot, so none is ever read as one).\<close>

definition readContainerMeta :: "os \<Rightarrow> path \<Rightarrow> content disk \<Rightarrow> string + containerInfo" where
  "readContainerMeta os p d =
     and_then (readFile os p d) (\<lambda>c. case c of ContainerJSON i \<Rightarrow> Inr i | _ \<Rightarrow> Inl (os_text os OsRead p))"

definition readBlobMeta :: "os \<Rightarrow> path \<Rightarrow> content disk \<Rightarrow> string + blobInfo" where
  "readBlobMeta os p d =
     and_then (readFile os p d) (\<lambda>c. case c of BlobJSON i \<Rightarrow> Inr i | _ \<Rightarrow> Inl (os_text os OsRead p))"

fun loadBlobs :: "os \<Rightarrow> path \<Rightarrow> content disk \<Rightarrow> (string \<times> content node) list \<Rightarrow> (string, blobEntry) go_map
    \<Rightarrow> string + (string, blobEntry) go_map" where
  "loadBlobs os dir d [] blobs = Inr blobs"
| "loadBlobs os dir d ((n, node) # entries) blobs =
     (if node = Dir \<or> \<not> hasSuffix n ''.json'' then loadBlobs os dir d entries blobs
      else and_then (readBlobMeta os (joinPath dir n) d) (\<lambda>info.
        loadBlobs os dir d entries (AList.update (bi_name info) \<lparr>be_info = info\<rparr> blobs)))"

definition loadContainer :: "os \<Rightarrow> path \<Rightarrow> string \<Rightarrow> string \<Rightarrow> content disk \<Rightarrow> string + container" where
  "loadContainer os root acct name d =
     (let dir = containerDir root acct name; meta = joinPath dir metaDir in
      and_then (readContainerMeta os (joinPath dir containerMetaFile) d) (\<lambda>info.
        if \<not> os_fails os OsReadDir meta \<and> map_of d meta = None then Inr \<lparr>c_info = info, c_blobs = []\<rparr>
        else and_then (readDir os meta d) (\<lambda>entries.
          and_then (loadBlobs os meta d entries []) (\<lambda>blobs. Inr \<lparr>c_info = info, c_blobs = blobs\<rparr>))))"

fun loadContainers :: "os \<Rightarrow> path \<Rightarrow> string \<Rightarrow> content disk \<Rightarrow> (string \<times> content node) list \<Rightarrow> (string, container) go_map
    \<Rightarrow> string + (string, container) go_map" where
  "loadContainers os root acct d [] cs = Inr cs"
| "loadContainers os root acct d ((n, node) # entries) cs =
     (if node \<noteq> Dir then loadContainers os root acct d entries cs
      else and_then (loadContainer os root acct n d) (\<lambda>c.
        loadContainers os root acct d entries (AList.update n c cs)))"

fun loadAccounts :: "os \<Rightarrow> path \<Rightarrow> content disk \<Rightarrow> (string \<times> content node) list \<Rightarrow> accounts \<Rightarrow> string + accounts" where
  "loadAccounts os root d [] accts = Inr accts"
| "loadAccounts os root d ((n, node) # entries) accts =
     (if node \<noteq> Dir then loadAccounts os root d entries accts
      else and_then (readDir os (accountDir root n) d) (\<lambda>conts.
        and_then (loadContainers os root n d conts []) (\<lambda>cs.
          loadAccounts os root d entries (AList.update n cs accts))))"

definition loadStore :: "os \<Rightarrow> path \<Rightarrow> content disk \<Rightarrow> string + accounts" where
  "loadStore os root d = and_then (readDir os root d) (\<lambda>entries. loadAccounts os root d entries [])"

text \<open>\<open>New\<close>.\<close>

definition newStore :: "os \<Rightarrow> path \<Rightarrow> content disk \<Rightarrow> string + blob_store" where
  "newStore os root d =
     (case mkdirAll os root d of
        (Some e, d1) \<Rightarrow> Inl e
      | (None, d1) \<Rightarrow>
          and_then (loadStore os root d1) (\<lambda>accts. Inr \<lparr>bs_root = root, bs_accounts = accts, bs_disk = d1\<rparr>))"

section \<open>Containers\<close>

definition createContainer :: "blob_env \<Rightarrow> string \<Rightarrow> string \<Rightarrow> metadata \<Rightarrow> blob_store
    \<Rightarrow> (blob_error + containerInfo) \<times> blob_store" where
  "createContainer env acct name md s =
     (let s1 = getAccount acct s; a = inner acct (bs_accounts s1) in
      if map_of a name \<noteq> None then (Inl ErrContainerExists, s1)
      else
        let now = be_now env;
            info = \<lparr>ci_name = name, ci_etag = newETag now, ci_lastModified = now, ci_metadata = cloneMeta md\<rparr>;
            c = \<lparr>c_info = info, c_blobs = []\<rparr>
        in case persistContainer (be_os env) (bs_root s1) acct info (bs_disk s1) of
             (Some e, d) \<Rightarrow> (Inl (ErrOther e), onDisk d s1)
           | (None, d) \<Rightarrow>
               (Inr info, onDisk d s1\<lparr>bs_accounts := update2 (acct, name) c (bs_accounts s1)\<rparr>))"

definition deleteContainer :: "blob_env \<Rightarrow> string \<Rightarrow> string \<Rightarrow> blob_store \<Rightarrow> blob_error option \<times> blob_store" where
  "deleteContainer env acct name s =
     (case map_of (bs_accounts s) acct of
        None \<Rightarrow> (Some ErrContainerNotFound, s)
      | Some a \<Rightarrow>
          (if map_of a name = None then (Some ErrContainerNotFound, s)
           else case removeAll (be_os env) (containerDir (bs_root s) acct name) (bs_disk s) of
                  (Some e, d) \<Rightarrow> (Some (ErrOther e), onDisk d s)
                | (None, d) \<Rightarrow>
                    (None, onDisk d s\<lparr>bs_accounts := delete2 (acct, name) (bs_accounts s)\<rparr>)))"

definition getContainer :: "string \<Rightarrow> string \<Rightarrow> blob_store \<Rightarrow> blob_error + containerInfo" where
  "getContainer acct name s =
     and_then (lookupContainer acct name s) (\<lambda>c.
       Inr ((c_info c)\<lparr>ci_metadata := cloneMeta (ci_metadata (c_info c))\<rparr>))"

definition maxListContainersResults :: int where "maxListContainersResults = 5000"

text \<open>The page of a sorted listing.\<close>

fun containerPage :: "string \<Rightarrow> int \<Rightarrow> containerInfo list \<Rightarrow> containerInfo list \<Rightarrow> containerInfo list \<times> string" where
  "containerPage after maxResults out [] = (out, [])"
| "containerPage after maxResults out (info # infos) =
     (if after \<noteq> [] \<and> ci_name info \<le> after then containerPage after maxResults out infos
      else if int (length out) = maxResults then (out, encodeMarker (ci_name (last out)))
      else containerPage after maxResults (out @ [info]) infos)"

definition clampResults :: "int \<Rightarrow> int \<Rightarrow> int" where
  "clampResults most n = (if n \<le> 0 \<or> most < n then most else n)"

definition listContainers :: "string \<Rightarrow> string \<Rightarrow> int \<Rightarrow> string \<Rightarrow> blob_store \<Rightarrow> containerInfo list \<times> string" where
  "listContainers acct prefix maxResults marker s =
     (case map_of (bs_accounts s) acct of
        None \<Rightarrow> ([], [])
      | Some a \<Rightarrow>
          let all = map (\<lambda>(n, c). (c_info c)\<lparr>ci_metadata := cloneMeta (ci_metadata (c_info c))\<rparr>)
                (filter (\<lambda>(n, c). prefix = [] \<or> hasPrefix n prefix) a)
          in containerPage (decodeMarker marker) (clampResults maxListContainersResults maxResults) []
               (sort_key ci_name all))"

section \<open>Blobs\<close>

definition commitWrittenBlob :: "blob_env \<Rightarrow> string \<Rightarrow> string \<Rightarrow> container \<Rightarrow> string \<Rightarrow> int \<Rightarrow> blobProps
    \<Rightarrow> blob_store \<Rightarrow> (blob_error + blobInfo) \<times> blob_store" where
  "commitWrittenBlob env acct cname c name n props s =
     (let now = be_now env;
          info = \<lparr>bi_name = name, bi_containerName = ci_name (c_info c), bi_contentLength = n,
            bi_etag = newETag now, bi_lastModified = now, bi_blobType = ''BlockBlob'',
            bi_props = props\<lparr>bp_metadata := cloneMeta (bp_metadata props)\<rparr>\<rparr>
      in case persistBlobMeta (be_os env) (bs_root s) acct (ci_name (c_info c)) info (bs_disk s) of
           (Some e, d) \<Rightarrow> (Inl (ErrOther e), onDisk d s)
         | (None, d) \<Rightarrow> (Inr info, setBlobs acct cname (AList.update name \<lparr>be_info = info\<rparr>) (onDisk d s)))"

definition putBlob :: "blob_env \<Rightarrow> string \<Rightarrow> string \<Rightarrow> string \<Rightarrow> reader \<Rightarrow> blobProps \<Rightarrow> blob_store
    \<Rightarrow> (blob_error + blobInfo) \<times> blob_store" where
  "putBlob env acct cname name src props s =
     (case lookupContainer acct cname s of
        Inl e \<Rightarrow> (Inl e, s)
      | Inr c \<Rightarrow>
          (case mkdirAll (be_os env) (joinPath (containerDir (bs_root s) acct cname) dataDir) (bs_disk s) of
             (Some e, d) \<Rightarrow> (Inl (ErrOther e), onDisk d s)
           | (None, d) \<Rightarrow>
               (case streamToFile (be_os env) (blobDataPath (bs_root s) acct cname name) src d of
                  (Inl e, d1) \<Rightarrow> (Inl (ErrOther e), onDisk d1 s)
                | (Inr (digest, n), d1) \<Rightarrow>
                    commitWrittenBlob env acct cname c name n (props\<lparr>bp_contentMD5 := digest\<rparr>) (onDisk d1 s))))"

text \<open>The bytes read from an open file; reading a directory fails at once.\<close>

definition nodeBytes :: "content node \<Rightarrow> bytes" where
  "nodeBytes n = (case n of File (Payload b) \<Rightarrow> b | _ \<Rightarrow> [])"

definition findBlob :: "string \<Rightarrow> container \<Rightarrow> blob_error + blobInfo" where
  "findBlob name c =
     (case map_of (c_blobs c) name of
        None \<Rightarrow> Inl ErrBlobNotFound
      | Some b \<Rightarrow> Inr ((be_info b)\<lparr>bi_props := (bi_props (be_info b))\<lparr>bp_metadata := cloneMeta (bp_metadata (bi_props (be_info b)))\<rparr>\<rparr>))"

definition getBlob :: "blob_env \<Rightarrow> string \<Rightarrow> string \<Rightarrow> string \<Rightarrow> blob_store \<Rightarrow> blob_error + bytes \<times> blobInfo" where
  "getBlob env acct cname name s =
     and_then (lookupContainer acct cname s) (\<lambda>c.
       and_then (findBlob name c) (\<lambda>info.
         case openFile (be_os env) (blobDataPath (bs_root s) acct cname name) (bs_disk s) of
           Inl e \<Rightarrow> Inl (ErrOther e)
         | Inr f \<Rightarrow> Inr (nodeBytes f, info)))"

definition statBlob :: "string \<Rightarrow> string \<Rightarrow> string \<Rightarrow> blob_store \<Rightarrow> blob_error + blobInfo" where
  "statBlob acct cname name s = and_then (lookupContainer acct cname s) (findBlob name)"

definition deleteBlob :: "blob_env \<Rightarrow> string \<Rightarrow> string \<Rightarrow> string \<Rightarrow> blob_store \<Rightarrow> blob_error option \<times> blob_store" where
  "deleteBlob env acct cname name s =
     (case lookupContainer acct cname s of
        Inl e \<Rightarrow> (Some e, s)
      | Inr c \<Rightarrow>
          (if map_of (c_blobs c) name = None then (Some ErrBlobNotFound, s)
           else
             let os = be_os env; root = bs_root s;
                 d1 = snd (removeFile os (blobDataPath root acct cname name) (bs_disk s));
                 d2 = snd (removeFile os (blobMetaPath root acct cname name) d1);
                 d3 = snd (removeAll os (joinPath (joinPath (containerDir root acct cname) blocksDir) (key name)) d2)
             in (None, setBlobs acct cname (AList.delete name) (onDisk d3 s))))"

section \<open>Listing blobs\<close>

definition maxListResults :: int where "maxListResults = 5000"

text \<open>Collapse a name to its virtual directory; \<open>True\<close> if it was.\<close>

definition collapse :: "string \<Rightarrow> string \<Rightarrow> string \<Rightarrow> string \<times> bool" where
  "collapse prefix delimiter name =
     (if delimiter = [] then (name, False)
      else let rest = drop (length prefix) name in
        case indexOf rest delimiter of
          None \<Rightarrow> (name, False)
        | Some idx \<Rightarrow> (prefix @ take (idx + length delimiter) rest, True))"

record blobPage =
  pg_blobs :: "blobInfo list"
  pg_prefixes :: "string list"
  pg_next :: string

definition emptyPage :: blobPage where
  "emptyPage = \<lparr>pg_blobs = [], pg_prefixes = [], pg_next = []\<rparr>"

text \<open>The loop over the sorted names: the prefixes met so far, the page, its size, where it got to.\<close>

fun pageLoop :: "(string \<Rightarrow> string \<times> bool) \<Rightarrow> (string \<Rightarrow> blobInfo) \<Rightarrow> int \<Rightarrow> string list \<Rightarrow> blobPage \<Rightarrow> int \<Rightarrow> string
    \<Rightarrow> string list \<Rightarrow> blobPage" where
  "pageLoop fold_name info most seen page count resumeAfter [] = page"
| "pageLoop fold_name info most seen page count resumeAfter (name # names) =
     (case fold_name name of (k, isPrefix) \<Rightarrow>
        if isPrefix \<and> k \<in> set seen then pageLoop fold_name info most seen page count resumeAfter names
        else if resumeAfter \<noteq> [] \<and> k \<le> resumeAfter
          then pageLoop fold_name info most (if isPrefix then k # seen else seen) page count resumeAfter names
        else if most \<le> count then page\<lparr>pg_next := encodeMarker resumeAfter\<rparr>
        else if isPrefix
          then pageLoop fold_name info most (k # seen) (page\<lparr>pg_prefixes := pg_prefixes page @ [k]\<rparr>) (count + 1) k names
          else pageLoop fold_name info most seen (page\<lparr>pg_blobs := pg_blobs page @ [info name]\<rparr>) (count + 1) k names)"

definition blobNames :: "string \<Rightarrow> (string, blobEntry) go_map \<Rightarrow> string list" where
  "blobNames prefix blobs = sort (filter (\<lambda>n. prefix = [] \<or> hasPrefix n prefix) (map fst blobs))"

definition infoOf :: "(string, blobEntry) go_map \<Rightarrow> string \<Rightarrow> blobInfo" where
  "infoOf blobs name = be_info (the (map_of blobs name))"

definition listBlobs :: "string \<Rightarrow> string \<Rightarrow> string \<Rightarrow> string \<Rightarrow> int \<Rightarrow> string \<Rightarrow> blob_store \<Rightarrow> blob_error + blobPage" where
  "listBlobs acct cname prefix delimiter maxResults marker s =
     and_then (lookupContainer acct cname s) (\<lambda>c.
       let page = pageLoop (collapse prefix delimiter) (infoOf (c_blobs c)) (clampResults maxListResults maxResults)
             [] emptyPage 0 (decodeMarker marker) (blobNames prefix (c_blobs c))
       in Inr (page\<lparr>pg_prefixes := sort (pg_prefixes page)\<rparr>))"

section \<open>Blocks\<close>

definition stageBlock :: "blob_env \<Rightarrow> string \<Rightarrow> string \<Rightarrow> string \<Rightarrow> string \<Rightarrow> reader \<Rightarrow> blob_store
    \<Rightarrow> blob_error option \<times> blob_store" where
  "stageBlock env acct cname name blockID src s =
     (case lookupContainer acct cname s of
        Inl e \<Rightarrow> (Some e, s)
      | Inr c \<Rightarrow>
          let placeholder = \<lparr>bi_name = name, bi_containerName = cname, bi_contentLength = 0, bi_etag = [],
                bi_lastModified = zeroTime, bi_blobType = ''BlockBlob'', bi_props = noProps\<rparr>;
              s1 = (if map_of (c_blobs c) name = None
                    then setBlobs acct cname (AList.update name \<lparr>be_info = placeholder\<rparr>) s else s)
          in case mkdirAll (be_os env) (blockDir (bs_root s) acct cname name) (bs_disk s) of
               (Some e, d) \<Rightarrow> (Some (ErrOther e), onDisk d s1)
             | (None, d) \<Rightarrow>
                 (case streamToFile (be_os env) (blockPath (bs_root s) acct cname name blockID) src d of
                    (Inl e, d1) \<Rightarrow> (Some (ErrOther e), onDisk d1 s1)
                  | (Inr _, d1) \<Rightarrow> (None, onDisk d1 s1)))"

text \<open>Copying the staged blocks to the temporary file \<open>dst\<close> is renamed to.\<close>

fun copyBlocks :: "os \<Rightarrow> path \<Rightarrow> content disk \<Rightarrow> path list \<Rightarrow> string + bytes" where
  "copyBlocks os dst d [] = Inr []"
| "copyBlocks os dst d (p # ps) =
     and_then (openFile os p d) (\<lambda>n.
       if n = Dir \<or> os_fails os OsRead p then Inl (os_text os OsRead p)
       else if nodeBytes n \<noteq> [] \<and> os_fails os OsWrite dst then Inl (os_text os OsWrite dst)
       else and_then (copyBlocks os dst d ps) (\<lambda>b. Inr (nodeBytes n @ b)))"

definition assembleBlocks :: "os \<Rightarrow> path \<Rightarrow> path list \<Rightarrow> content disk \<Rightarrow> (string + int) \<times> content disk" where
  "assembleBlocks os dst blocks d =
     (case createBeside os dst d of
        Some e \<Rightarrow> (Inl e, d)
      | None \<Rightarrow>
          (case copyBlocks os dst d blocks of
             Inl e \<Rightarrow> (Inl e, d)
           | Inr b \<Rightarrow>
               (case firstFailure os [OsSync, OsClose] dst of
                  Some e \<Rightarrow> (Inl e, d)
                | None \<Rightarrow>
                    (case renameOnto os dst (Payload b) d of
                       (Some e, d1) \<Rightarrow> (Inl e, d1)
                     | (None, d1) \<Rightarrow> (Inr (int (length b)), d1)))))"

definition commitBlockList :: "blob_env \<Rightarrow> string \<Rightarrow> string \<Rightarrow> string \<Rightarrow> string list \<Rightarrow> blobProps \<Rightarrow> blob_store
    \<Rightarrow> (blob_error + blobInfo) \<times> blob_store" where
  "commitBlockList env acct cname name blockIDs props s =
     (case lookupContainer acct cname s of
        Inl e \<Rightarrow> (Inl e, s)
      | Inr c \<Rightarrow>
          (let os = be_os env; root = bs_root s; blocks = map (blockPath root acct cname name) blockIDs in
           if map_of (c_blobs c) name = None then (Inl ErrInvalidBlockList, s)
           else if list_ex (\<lambda>p. statFails os p (bs_disk s)) blocks then (Inl ErrInvalidBlockList, s)
           else
             case mkdirAll os (joinPath (containerDir root acct cname) dataDir) (bs_disk s) of
               (Some e, d) \<Rightarrow> (Inl (ErrOther e), onDisk d s)
             | (None, d) \<Rightarrow>
                 (case assembleBlocks os (blobDataPath root acct cname name) blocks d of
                    (Inl e, d1) \<Rightarrow> (Inl (ErrOther e), onDisk d1 s)
                  | (Inr n, d1) \<Rightarrow>
                      (case commitWrittenBlob env acct cname c name n props (onDisk d1 s) of
                         (Inl e, s2) \<Rightarrow> (Inl e, s2)
                       | (Inr info, s2) \<Rightarrow>
                           (Inr info, onDisk (snd (removeAll os (blockDir root acct cname name) (bs_disk s2))) s2)))))"

end
