(* ===== verification/Blob_Spec.thy ===== *)
theory Blob_Spec
  imports Blob_Store
begin

text \<open>
  What the blob store promises. The contract has containers whose blobs are committed with their bytes
  or still without a commit, and the blocks staged for each name; it knows no files. The store keeps
  the bytes and blocks on disk and the rest in memory and on disk. Shown here: every operation does
  what the contract says, on every branch, as long as the operating system lets calls through.
\<close>

section \<open>Names of files\<close>

lemma base64_chars:
  "set alphabet \<subseteq> A \<Longrightarrow> length alphabet = 64 \<Longrightarrow> list_all (\<lambda>n. n < 256) ns \<Longrightarrow> set (base64 alphabet [] ns) \<subseteq> A"
  by (induction alphabet "[] :: string" ns rule: base64.induct)
     (auto simp: less_mult_imp_div_less intro!: subsetD [OF _ nth_mem])

lemma key_chars: "set (key n) \<subseteq> set urlAlphabet"
  unfolding key_def rawURLEncode_def
  by (rule base64_chars) (simp_all add: list_all_iff of_char_less_256 urlAlphabet_def)

lemma key_special: "CHR ''.'' \<notin> set (key n)" "CHR ''/'' \<notin> set (key n)"
proof -
  have "CHR ''.'' \<notin> set urlAlphabet" "CHR ''/'' \<notin> set urlAlphabet" by (simp_all add: urlAlphabet_def)
  then show "CHR ''.'' \<notin> set (key n)" "CHR ''/'' \<notin> set (key n)" using key_chars [of n] by blast+
qed

lemma key_Nil [simp]: "key n = [] \<longleftrightarrow> n = []"
  by (simp add: key_def rawURLEncode_Nil)

lemma key_inject [simp]: "key m = key n \<longleftrightarrow> m = n"
  by (simp add: key_def rawURLEncode_inject)

lemma plain_key: "n \<noteq> [] \<Longrightarrow> plainName (key n)"
  using key_special [of n] by (auto simp: plainName_def)

lemma plain_meta: "plainName (key n @ ''.json'')"
  using key_special [of n] by (auto simp: plainName_def append_eq_Cons_conv)

lemma plain_dirs [simp]: "plainName dataDir" "plainName metaDir" "plainName blocksDir" "plainName containerMetaFile"
  by (simp_all add: plainName_def dataDir_def metaDir_def blocksDir_def containerMetaFile_def)

lemma dirs_differ [simp]:
  "dataDir \<noteq> metaDir" "metaDir \<noteq> dataDir" "dataDir \<noteq> blocksDir" "blocksDir \<noteq> dataDir"
  "metaDir \<noteq> blocksDir" "blocksDir \<noteq> metaDir" "containerMetaFile \<noteq> dataDir" "dataDir \<noteq> containerMetaFile"
  "containerMetaFile \<noteq> metaDir" "metaDir \<noteq> containerMetaFile" "containerMetaFile \<noteq> blocksDir"
  "blocksDir \<noteq> containerMetaFile"
  by (simp_all add: dataDir_def metaDir_def blocksDir_def containerMetaFile_def)

lemma blob_paths:
  assumes "plainName a" and "plainName c" and "n \<noteq> []"
  shows "containerDir root a c = root @ [a, c]"
    and "blobDataPath root a c n = (root @ [a, c]) @ [dataDir, key n]"
    and "blobMetaPath root a c n = (root @ [a, c]) @ [metaDir, key n @ ''.json'']"
    and "blockDir root a c n = (root @ [a, c]) @ [blocksDir, key n]"
    and "i \<noteq> [] \<Longrightarrow> blockPath root a c n i = (root @ [a, c]) @ [blocksDir, key n, key i]"
  using assms plain_key [of n] plain_key [of i]
  by (simp_all add: containerDir_def accountDir_def blobDataPath_def blobMetaPath_def blockDir_def blockPath_def plain_meta)

section \<open>The contract\<close>

datatype blob_state = Uncommitted | Committed blobInfo bytes

record acontainer =
  a_info :: containerInfo
  a_blobs :: "string \<Rightarrow> blob_state option"
  a_staged :: "string \<Rightarrow> string \<Rightarrow> bytes option"

type_synonym blob_spec = "string \<times> string \<Rightarrow> acontainer option"

text \<open>What an entry of the index says of a blob that has not been committed yet.\<close>

definition placeholder :: "string \<Rightarrow> string \<Rightarrow> blobInfo" where
  "placeholder cname name = \<lparr>bi_name = name, bi_containerName = cname, bi_contentLength = 0, bi_etag = [],
     bi_lastModified = zeroTime, bi_blobType = ''BlockBlob'', bi_props = noProps\<rparr>"

definition stateInfo :: "string \<Rightarrow> string \<Rightarrow> blob_state \<Rightarrow> blobInfo" where
  "stateInfo cname name b = (case b of Uncommitted \<Rightarrow> placeholder cname name | Committed i _ \<Rightarrow> i)"

definition madeInfo :: "string \<Rightarrow> string \<Rightarrow> time \<Rightarrow> blobProps \<Rightarrow> bytes \<Rightarrow> blobInfo" where
  "madeInfo cname name now props b = \<lparr>bi_name = name, bi_containerName = cname,
     bi_contentLength = int (length b), bi_etag = newETag now, bi_lastModified = now,
     bi_blobType = ''BlockBlob'', bi_props = props\<rparr>"

definition madeContainer :: "string \<Rightarrow> time \<Rightarrow> metadata \<Rightarrow> containerInfo" where
  "madeContainer name now md = \<lparr>ci_name = name, ci_etag = newETag now, ci_lastModified = now, ci_metadata = md\<rparr>"

section \<open>The store as the contract sees it\<close>

text \<open>\<open>w\<close> is what lies below the directory of a container.\<close>

definition payloadAt :: "(path \<Rightarrow> content node option) \<Rightarrow> path \<Rightarrow> bytes option" where
  "payloadAt w p = (case w p of Some (File (Payload b)) \<Rightarrow> Some b | _ \<Rightarrow> None)"

definition abs_container :: "(path \<Rightarrow> content node option) \<Rightarrow> container \<Rightarrow> acontainer" where
  "abs_container w c = \<lparr>a_info = c_info c,
     a_blobs = (\<lambda>n. map_option (\<lambda>e. case payloadAt w [dataDir, key n] of
        None \<Rightarrow> Uncommitted | Some b \<Rightarrow> Committed (be_info e) b) (map_of (c_blobs c) n)),
     a_staged = (\<lambda>n i. payloadAt w [blocksDir, key n, key i])\<rparr>"

definition container_view :: "blob_store \<Rightarrow> string \<times> string \<Rightarrow> path \<Rightarrow> content node option" where
  "container_view s = (\<lambda>(a, c). view (bs_root s @ [a, c]) (bs_disk s))"

definition blob_abs :: "blob_store \<Rightarrow> blob_spec" where
  "blob_abs s = (\<lambda>k. map_option (abs_container (container_view s k)) (lookup2 (bs_accounts s) k))"

text \<open>A blob and its files: both a payload and a description that say the same, or neither.\<close>

definition blob_ok :: "(path \<Rightarrow> content node option) \<Rightarrow> string \<Rightarrow> string \<Rightarrow> blobEntry option \<Rightarrow> bool" where
  "blob_ok w cname n e \<longleftrightarrow>
     (\<exists>b i. e = Some \<lparr>be_info = i\<rparr> \<and> w [dataDir, key n] = Some (File (Payload b)) \<and>
        w [metaDir, key n @ ''.json''] = Some (File (BlobJSON (jsonBlob i))) \<and>
        bi_name i = n \<and> bi_contentLength i = int (length b)) \<or>
     (w [dataDir, key n] = None \<and> w [metaDir, key n @ ''.json''] = None \<and>
        (e = None \<or> e = Some \<lparr>be_info = placeholder cname n\<rparr>))"

definition container_ok :: "(path \<Rightarrow> content node option) \<Rightarrow> string \<Rightarrow> container \<Rightarrow> bool" where
  "container_ok w cname c \<longleftrightarrow>
     distinct_keys (c_blobs c) \<and> map_of (c_blobs c) [] = None \<and> ci_name (c_info c) = cname \<and>
     w [containerMetaFile] = Some (File (ContainerJSON (jsonContainer (c_info c)))) \<and>
     (\<forall>x \<in> {dataDir, metaDir, blocksDir}. \<forall>f. w [x] \<noteq> Some (File f)) \<and>
     (\<forall>n. n \<noteq> [] \<longrightarrow> blob_ok w cname n (map_of (c_blobs c) n)) \<and>
     (\<forall>x. w [metaDir, x] \<noteq> None \<longrightarrow> (\<exists>n. n \<noteq> [] \<and> x = key n @ ''.json'')) \<and>
     (\<forall>x f. w [blocksDir, x] \<noteq> Some (File f)) \<and>
     (\<forall>x y n. w [blocksDir, x, y] = Some n \<longrightarrow> (\<exists>b. n = File (Payload b)))"

text \<open>Below the root there are directories only; the files of other stores in them have a dot in their
  names, so they are not in the way of containers.\<close>

definition blob_inv :: "blob_store \<Rightarrow> bool" where
  "blob_inv s \<longleftrightarrow>
     rooted (bs_root s) (bs_disk s) \<and> nested_ok (bs_accounts s) \<and>
     (\<forall>a n. view (bs_root s) (bs_disk s) [a] = Some n \<longrightarrow> n = Dir \<and> plainName a) \<and>
     (\<forall>a c f. view (bs_root s) (bs_disk s) [a, c] = Some (File f) \<longrightarrow> CHR ''.'' \<in> set c) \<and>
     (\<forall>a c. view (bs_root s) (bs_disk s) [a, c] = Some Dir \<longleftrightarrow> lookup2 (bs_accounts s) (a, c) \<noteq> None) \<and>
     (\<forall>a c cont. lookup2 (bs_accounts s) (a, c) = Some cont \<longrightarrow>
        plainName a \<and> plainName c \<and> container_ok (container_view s (a, c)) c cont)"

lemma lookupContainer_eq:
  "lookupContainer a c s = (case lookup2 (bs_accounts s) (a, c) of None \<Rightarrow> Inl ErrContainerNotFound | Some x \<Rightarrow> Inr x)"
  by (simp add: lookupContainer_def lookup2_def inner_def split: option.split)

lemma blob_abs_lookup:
  "blob_abs s k = None \<longleftrightarrow> lookup2 (bs_accounts s) k = None"
  by (simp add: blob_abs_def)

lemma view_extend: "view root d ([a, c] @ xs) = view (root @ [a, c]) d xs"
  by (simp add: view_def)

lemma container_rooted:
  assumes "blob_inv s" and "lookup2 (bs_accounts s) (a, c) = Some cont"
  shows "rooted (bs_root s @ [a, c]) (bs_disk s)"
  using assms by (auto simp: blob_inv_def rooted_def view_def)

text \<open>A change below the directory of one container changes that container and nothing else.\<close>

lemma outside_container:
  assumes "outside (root @ [a, c]) d d'" and "k \<noteq> (a, c)"
  shows "view (root @ [fst k, snd k]) d' = view (root @ [fst k, snd k]) d"
  using assms by (cases k) (auto simp: outside_def view_def fun_eq_iff above_Cons_left)

lemma outside_view:
  assumes "outside (root @ [a, c]) d d'"
  shows "view root d' [x] = view root d [x]" "(x, y) \<noteq> (a, c) \<Longrightarrow> view root d' [x, y] = view root d [x, y]"
    "map_of d' root = map_of d root"
  using assms by (auto simp: outside_def view_def) (simp add: above_def)

lemma container_step:
  assumes inv: "blob_inv s" and cont: "lookup2 (bs_accounts s) (a, c) = Some cont"
    and disk: "rooted (bs_root s @ [a, c]) d'" "outside (bs_root s @ [a, c]) (bs_disk s) d'"
    and ok: "container_ok (view (bs_root s @ [a, c]) d') c cont'"
    and s': "s' = s\<lparr>bs_accounts := update2 (a, c) cont' (bs_accounts s), bs_disk := d'\<rparr>"
  shows "blob_inv s' \<and> blob_abs s' = (blob_abs s)((a, c) \<mapsto> abs_container (view (bs_root s @ [a, c]) d') cont')"
proof -
  let ?R = "bs_root s"
  have here: "view ?R d' [a, c] = Some Dir" using disk(1) by (simp add: rooted_def view_def)
  have was: "view ?R (bs_disk s) [a, c] = Some Dir" "plainName a" "plainName c"
    using inv cont by (auto simp: blob_inv_def)
  have same: "view ?R d' [x, y] = view ?R (bs_disk s) [x, y]" for x y
    using outside_view(2) [OF disk(2), of x y] here was(1) by (cases "(x, y) = (a, c)") auto
  have others: "container_view s' k = container_view s k" if "k \<noteq> (a, c)" for k
    using outside_container [OF disk(2) that] by (simp add: container_view_def s' case_prod_beta)
  have mine: "container_view s' (a, c) = view (?R @ [a, c]) d'" by (simp add: container_view_def s')
  have "rooted ?R d'"
    using disk(1) inv outside_view(3) [OF disk(2)] by (simp add: rooted_def blob_inv_def)
  moreover have "nested_ok (bs_accounts s')" using inv by (simp add: s' blob_inv_def inv_intros)
  ultimately have "blob_inv s'"
    using inv ok was mine others unfolding blob_inv_def
    by (auto simp: s' same outside_view(1) [OF disk(2)] store_simps cont)
  moreover have "blob_abs s' = (blob_abs s)((a, c) \<mapsto> abs_container (view (?R @ [a, c]) d') cont')"
  proof
    fix k
    have "lookup2 (bs_accounts s') = (lookup2 (bs_accounts s))((a, c) \<mapsto> cont')" by (simp add: s' store_simps)
    then show "blob_abs s' k = ((blob_abs s)((a, c) \<mapsto> abs_container (view (?R @ [a, c]) d') cont')) k"
      using mine others [of k] by (cases "k = (a, c)") (simp_all add: blob_abs_def)
  qed
  ultimately show ?thesis by blast
qed

section \<open>Changes to one container\<close>

definition empty_container :: "containerInfo \<Rightarrow> acontainer" where
  "empty_container i = \<lparr>a_info = i, a_blobs = Map.empty, a_staged = (\<lambda>_ _. None)\<rparr>"

lemma payloadAt_upd: "payloadAt (w(p := v)) q = (if q = p then (case v of Some (File (Payload b)) \<Rightarrow> Some b | _ \<Rightarrow> None) else payloadAt w q)"
  by (simp add: payloadAt_def)

lemma mkdir_ok:
  assumes "container_ok w c cont" and "x \<in> {dataDir, metaDir, blocksDir}"
  shows "container_ok (w([x] \<mapsto> Dir)) c cont \<and> abs_container (w([x] \<mapsto> Dir)) cont = abs_container w cont"
  using assms unfolding container_ok_def abs_container_def blob_ok_def
  by (auto simp: payloadAt_upd)

lemma mkdir_block_ok:
  assumes "container_ok w c cont"
  shows "container_ok (w([blocksDir, x] \<mapsto> Dir)) c cont \<and>
    abs_container (w([blocksDir, x] \<mapsto> Dir)) cont = abs_container w cont"
  using assms unfolding container_ok_def abs_container_def blob_ok_def
  by (auto simp: payloadAt_upd)

definition with_blob :: "string \<Rightarrow> blobInfo \<Rightarrow> bytes \<Rightarrow> (path \<Rightarrow> content node option) \<Rightarrow> path \<Rightarrow> content node option" where
  "with_blob n i b w = w([dataDir, key n] \<mapsto> File (Payload b), [metaDir, key n @ ''.json''] \<mapsto> File (BlobJSON (jsonBlob i)))"

lemma commit_ok:
  assumes "container_ok w c cont" and "n \<noteq> []" and "bi_name i = n" and "bi_contentLength i = int (length b)"
  shows "container_ok (with_blob n i b w) c (cont\<lparr>c_blobs := AList.update n \<lparr>be_info = i\<rparr> (c_blobs cont)\<rparr>) \<and>
    abs_container (with_blob n i b w) (cont\<lparr>c_blobs := AList.update n \<lparr>be_info = i\<rparr> (c_blobs cont)\<rparr>) =
      (abs_container w cont)\<lparr>a_blobs := (a_blobs (abs_container w cont))(n \<mapsto> Committed i b)\<rparr>"
proof
  show "container_ok (with_blob n i b w) c (cont\<lparr>c_blobs := AList.update n \<lparr>be_info = i\<rparr> (c_blobs cont)\<rparr>)"
    using assms unfolding container_ok_def blob_ok_def with_blob_def by (auto simp: store_simps)
  show "abs_container (with_blob n i b w) (cont\<lparr>c_blobs := AList.update n \<lparr>be_info = i\<rparr> (c_blobs cont)\<rparr>) =
      (abs_container w cont)\<lparr>a_blobs := (a_blobs (abs_container w cont))(n \<mapsto> Committed i b)\<rparr>"
    by (auto simp: abs_container_def with_blob_def payloadAt_upd store_simps fun_eq_iff)
qed

lemma stage_ok:
  assumes "container_ok w c cont"
  shows "container_ok (w([blocksDir, key n, key i] \<mapsto> File (Payload b))) c cont \<and>
    abs_container (w([blocksDir, key n, key i] \<mapsto> File (Payload b))) cont =
      (abs_container w cont)\<lparr>a_staged := (a_staged (abs_container w cont))(n := (a_staged (abs_container w cont) n)(i \<mapsto> b))\<rparr>"
  using assms unfolding container_ok_def abs_container_def blob_ok_def
  by (auto simp: payloadAt_upd fun_eq_iff)

lemma placeholder_ok:
  assumes "container_ok w c cont" and "n \<noteq> []" and "map_of (c_blobs cont) n = None"
  shows "container_ok w c (cont\<lparr>c_blobs := AList.update n \<lparr>be_info = placeholder c n\<rparr> (c_blobs cont)\<rparr>) \<and>
    abs_container w (cont\<lparr>c_blobs := AList.update n \<lparr>be_info = placeholder c n\<rparr> (c_blobs cont)\<rparr>) =
      (abs_container w cont)\<lparr>a_blobs := (a_blobs (abs_container w cont))(n \<mapsto> Uncommitted)\<rparr>"
proof
  have none: "w [dataDir, key n] = None" "w [metaDir, key n @ ''.json''] = None"
    using assms by (auto simp: container_ok_def blob_ok_def)
  show "container_ok w c (cont\<lparr>c_blobs := AList.update n \<lparr>be_info = placeholder c n\<rparr> (c_blobs cont)\<rparr>)"
    using assms none unfolding container_ok_def blob_ok_def by (auto simp: store_simps)
  show "abs_container w (cont\<lparr>c_blobs := AList.update n \<lparr>be_info = placeholder c n\<rparr> (c_blobs cont)\<rparr>) =
      (abs_container w cont)\<lparr>a_blobs := (a_blobs (abs_container w cont))(n \<mapsto> Uncommitted)\<rparr>"
    using none(1) by (auto simp: abs_container_def payloadAt_def store_simps fun_eq_iff)
qed

definition without_blocks :: "string \<Rightarrow> (path \<Rightarrow> content node option) \<Rightarrow> path \<Rightarrow> content node option" where
  "without_blocks n w = (\<lambda>ys. if above [blocksDir, key n] ys then None else w ys)"

lemma unstage_ok:
  assumes "container_ok w c cont"
  shows "container_ok (without_blocks n w) c cont \<and>
    abs_container (without_blocks n w) cont =
      (abs_container w cont)\<lparr>a_staged := (a_staged (abs_container w cont))(n := Map.empty)\<rparr>"
proof
  have same: "without_blocks n w [x] = w [x]" "x \<noteq> blocksDir \<Longrightarrow> without_blocks n w (x # p) = w (x # p)"
      "without_blocks n w [x, y] = (if x = blocksDir \<and> y = key n then None else w [x, y])"
      "without_blocks n w [x, y, z] = (if x = blocksDir \<and> y = key n then None else w [x, y, z])" for x y z p
    by (auto simp: without_blocks_def)
  show "container_ok (without_blocks n w) c cont"
    using assms unfolding container_ok_def blob_ok_def by (auto simp: same split: if_splits)
  show "abs_container (without_blocks n w) cont =
      (abs_container w cont)\<lparr>a_staged := (a_staged (abs_container w cont))(n := Map.empty)\<rparr>"
    by (auto simp: abs_container_def payloadAt_def same fun_eq_iff)
qed

lemma unlink_ok:
  assumes "container_ok w c cont" and "n \<noteq> []"
  shows "container_ok (w([dataDir, key n] := None, [metaDir, key n @ ''.json''] := None)) c
      (cont\<lparr>c_blobs := AList.delete n (c_blobs cont)\<rparr>) \<and>
    abs_container (w([dataDir, key n] := None, [metaDir, key n @ ''.json''] := None))
      (cont\<lparr>c_blobs := AList.delete n (c_blobs cont)\<rparr>) =
      (abs_container w cont)\<lparr>a_blobs := (a_blobs (abs_container w cont))(n := None)\<rparr>"
proof
  let ?w = "w([dataDir, key n] := None, [metaDir, key n @ ''.json''] := None)"
  show "container_ok ?w c (cont\<lparr>c_blobs := AList.delete n (c_blobs cont)\<rparr>)"
    using assms unfolding container_ok_def blob_ok_def by (auto simp: store_simps)
  show "abs_container ?w (cont\<lparr>c_blobs := AList.delete n (c_blobs cont)\<rparr>) =
      (abs_container w cont)\<lparr>a_blobs := (a_blobs (abs_container w cont))(n := None)\<rparr>"
    by (auto simp: abs_container_def payloadAt_upd store_simps fun_eq_iff)
qed

section \<open>Calls inside a container\<close>

lemma streamToFile_healthy:
  assumes "healthy os" and "rooted root d" and "view root d (butlast xs) = Some Dir" and "xs \<noteq> []"
    and "view root d xs \<noteq> Some Dir"
  shows "streamToFile os (root @ xs) src d =
    (case snd src of
       Some e \<Rightarrow> (Inl e, d)
     | None \<Rightarrow> (Inr (md5 (fst src), int (length (fst src))), AList.update (root @ xs) (File (Payload (fst src))) d))"
  using createBeside_healthy [OF assms(1-4)] renameOnto_healthy [OF assms(1, 2, 5)] assms(1)
  by (simp add: streamToFile_def split: option.split)

text \<open>Making one of the directories of a container, or that of the blocks of a name.\<close>

lemma mkdir_here:
  assumes "healthy os" and "rooted R d" and "container_ok (view R d) c cont" and "x \<in> {dataDir, metaDir, blocksDir}"
  obtains d1 where "mkdirAll os (R @ [x]) d = (None, d1)" and "rooted R d1" and "outside R d d1"
    and "view R d1 = (view R d)([x] \<mapsto> Dir)" and "container_ok (view R d1) c cont"
    and "abs_container (view R d1) cont = abs_container (view R d) cont"
proof (rule view_mkdirAll [OF assms(1, 2), of "[x]"], goal_cases)
  case (1 ys f)
  then show ?case using assms(3, 4) by (cases ys) (auto simp: container_ok_def)
next
  case (2 d1)
  have above: "above ys [x] \<longleftrightarrow> ys = [] \<or> ys = [x]" for ys by (cases ys) auto
  have view: "view R d1 = (view R d)([x] \<mapsto> Dir)"
  proof
    show "view R d1 ys = ((view R d)([x] \<mapsto> Dir)) ys" for ys
      unfolding 2(4) above using rooted_view [OF assms(2)] by simp
  qed
  show thesis using that [OF 2(2, 3, 5) view] mkdir_ok [OF assms(3, 4)] by (simp add: view)
qed

lemma mkdir_blocks:
  assumes "healthy os" and "rooted R d" and "container_ok (view R d) c cont"
  obtains d1 where "mkdirAll os (R @ [blocksDir, x]) d = (None, d1)" and "rooted R d1" and "outside R d d1"
    and "view R d1 [blocksDir, x] = Some Dir" and "container_ok (view R d1) c cont"
    and "abs_container (view R d1) cont = abs_container (view R d) cont"
proof (rule view_mkdirAll [OF assms(1, 2), of "[blocksDir, x]"], goal_cases)
  case (1 ys f)
  then have "ys = [blocksDir] \<or> ys = [blocksDir, x]" by (auto simp: above_def Cons_eq_append_conv)
  then show ?case using assms(3) by (auto simp: container_ok_def)
next
  case (2 d1)
  have above: "above ys [blocksDir, x] \<longleftrightarrow> ys = [] \<or> ys = [blocksDir] \<or> ys = [blocksDir, x]" for ys
    by (auto simp: above_def Cons_eq_append_conv)
  have view: "view R d1 = (view R d)([blocksDir] \<mapsto> Dir, [blocksDir, x] \<mapsto> Dir)"
  proof
    show "view R d1 ys = ((view R d)([blocksDir] \<mapsto> Dir, [blocksDir, x] \<mapsto> Dir)) ys" for ys
      unfolding 2(4) above using rooted_view [OF assms(2)] by simp
  qed
  show thesis
    using that [OF 2(2, 3, 5)] mkdir_ok [OF assms(3), of blocksDir]
      mkdir_block_ok [of "(view R d)([blocksDir] \<mapsto> Dir)" c cont x]
    by (simp add: view)
qed

text \<open>Putting a payload in place and describing it, the end of every upload.\<close>

lemma data_not_dir: "container_ok w c cont \<Longrightarrow> n \<noteq> [] \<Longrightarrow> w [dataDir, key n] \<noteq> Some Dir"
  by (auto simp: container_ok_def blob_ok_def)

lemma meta_not_dir: "container_ok w c cont \<Longrightarrow> n \<noteq> [] \<Longrightarrow> w [metaDir, key n @ ''.json''] \<noteq> Some Dir"
  by (auto simp: container_ok_def blob_ok_def)

lemma commit_here:
  assumes "healthy os" and "rooted R d" and "container_ok (view R d) c cont" and "n \<noteq> []"
    and "view R d [dataDir] = Some Dir" and "bi_name i = n" and "bi_contentLength i = int (length b)"
    and "R = root @ [a, c]" and "plainName a" and "plainName c"
  obtains d1 where
    "persistBlobMeta os root a c i (AList.update (R @ [dataDir, key n]) (File (Payload b)) d) = (None, d1)"
    and "rooted R d1" and "outside R d d1"
    and "container_ok (view R d1) c (cont\<lparr>c_blobs := AList.update n \<lparr>be_info = i\<rparr> (c_blobs cont)\<rparr>)"
    and "abs_container (view R d1) (cont\<lparr>c_blobs := AList.update n \<lparr>be_info = i\<rparr> (c_blobs cont)\<rparr>) =
      (abs_container (view R d) cont)\<lparr>a_blobs := (a_blobs (abs_container (view R d) cont))(n \<mapsto> Committed i b)\<rparr>"
proof -
  let ?d0 = "AList.update (R @ [dataDir, key n]) (File (Payload b)) d"
  let ?files = "\<lambda>ys. if above ys [metaDir] then Some Dir else view R ?d0 ys"
  have d0: "rooted R ?d0" "outside R d ?d0" "view R ?d0 = (view R d)([dataDir, key n] \<mapsto> File (Payload b))"
    using rooted_update [OF assms(2), of "[dataDir, key n]"] assms(5) data_not_dir [OF assms(3, 4)]
    by (simp_all add: view_update)
  have no_file: "view R ?d0 ys \<noteq> Some (File f)" if "above ys [metaDir]" "ys \<noteq> []" for ys f
    using that assms(3) by (cases ys) (auto simp: d0(3) container_ok_def)
  obtain d1 where d1: "mkdirAll os (R @ [metaDir]) ?d0 = (None, d1)" "rooted R d1"
      "view R d1 = (\<lambda>ys. if above ys [metaDir] then Some Dir else view R ?d0 ys)" "outside R ?d0 d1"
    by (rule view_mkdirAll [OF assms(1) d0(1) no_file])
  have above: "above ys [metaDir] \<longleftrightarrow> ys = [] \<or> ys = [metaDir]" for ys by (cases ys) auto
  let ?w = "(view R d)([metaDir] \<mapsto> Dir)"
  have w1: "view R d1 = ?w([dataDir, key n] \<mapsto> File (Payload b))"
  proof
    show "view R d1 ys = (?w([dataDir, key n] \<mapsto> File (Payload b))) ys" for ys
      unfolding d1(3) above using rooted_view [OF assms(2)] by (simp add: d0(3))
  qed
  let ?d2 = "AList.update (R @ [metaDir, key n @ ''.json'']) (File (BlobJSON (jsonBlob i))) d1"
  have no_dir: "view R d1 [metaDir, key n @ ''.json''] \<noteq> Some Dir"
    using meta_not_dir [OF assms(3, 4)] by (simp add: w1)
  have written: "writeAtomic os (R @ [metaDir, key n @ ''.json'']) (BlobJSON (jsonBlob i)) d1 = (None, ?d2)"
    using no_dir by (intro writeAtomic_healthy [OF assms(1) d1(2)]) (simp_all add: w1)
  have saved: "persistBlobMeta os root a c i ?d0 = (None, ?d2)"
    using d1(1) written assms(6, 8) blob_paths [where root = root, OF assms(9, 10, 4)]
    by (simp add: persistBlobMeta_def)
  have d2: "rooted R ?d2" using rooted_update [OF d1(2), of "[metaDir, key n @ ''.json'']"] no_dir by (simp add: w1)
  have out: "outside R d ?d2" using d0(2) d1(4) outside_trans outside_update by blast
  have view: "view R ?d2 = with_blob n i b ?w" by (simp add: view_update w1 with_blob_def)
  have ok: "container_ok ?w c cont" "abs_container ?w cont = abs_container (view R d) cont"
    using mkdir_ok [OF assms(3), of metaDir] by simp_all
  show thesis
    using commit_ok [OF ok(1) assms(4, 6, 7)] unfolding ok(2)
    by (intro that [OF saved d2 out]) (simp_all only: view)
qed

section \<open>Operations\<close>

datatype blob_op =
    CreateContainer string string metadata
  | DeleteContainer string string
  | GetContainer string string
  | PutBlob string string string reader blobProps
  | GetBlob string string string
  | StatBlob string string string
  | DeleteBlob string string string
  | StageBlock string string string string reader
  | CommitBlockList string string string "string list" blobProps

text \<open>The text of an error from the operating system is not part of the contract.\<close>

datatype blob_result = RError blob_error | RFailed | RDone | RContainer containerInfo | RBlob blobInfo
  | RContent bytes blobInfo

fun refusal :: "blob_error \<Rightarrow> blob_result" where
  "refusal (ErrOther e) = RFailed"
| "refusal e = RError e"

definition b_value :: "('a \<Rightarrow> blob_result) \<Rightarrow> (blob_error + 'a) \<times> blob_store \<Rightarrow> blob_result \<times> blob_store" where
  "b_value f = (\<lambda>(r, s). (case r of Inl e \<Rightarrow> refusal e | Inr x \<Rightarrow> f x, s))"

definition b_error :: "blob_error option \<times> blob_store \<Rightarrow> blob_result \<times> blob_store" where
  "b_error = (\<lambda>(r, s). (case r of Some e \<Rightarrow> refusal e | None \<Rightarrow> RDone, s))"

fun blob_exec :: "blob_env \<Rightarrow> blob_op \<Rightarrow> blob_store \<Rightarrow> blob_result \<times> blob_store" where
  "blob_exec env (CreateContainer a c md) s = b_value RContainer (createContainer env a c md s)"
| "blob_exec env (DeleteContainer a c) s = b_error (deleteContainer env a c s)"
| "blob_exec env (GetContainer a c) s = b_value RContainer (getContainer a c s, s)"
| "blob_exec env (PutBlob a c n src props) s = b_value RBlob (putBlob env a c n src props s)"
| "blob_exec env (GetBlob a c n) s = b_value (\<lambda>(b, i). RContent b i) (getBlob env a c n s, s)"
| "blob_exec env (StatBlob a c n) s = b_value RBlob (statBlob a c n s, s)"
| "blob_exec env (DeleteBlob a c n) s = b_error (deleteBlob env a c n s)"
| "blob_exec env (StageBlock a c n i src) s = b_error (stageBlock env a c n i src s)"
| "blob_exec env (CommitBlockList a c n ids props) s = b_value RBlob (commitBlockList env a c n ids props s)"

text \<open>An operation on a container that is there, and one on a blob that is there.\<close>

definition on_container :: "string \<times> string \<Rightarrow> (acontainer \<Rightarrow> blob_result \<times> acontainer) \<Rightarrow> blob_spec \<Rightarrow> blob_result \<times> blob_spec" where
  "on_container k f m =
     (case m k of
        None \<Rightarrow> (RError ErrContainerNotFound, m)
      | Some t \<Rightarrow> (case f t of (r, t') \<Rightarrow> (r, m(k \<mapsto> t'))))"

definition commit :: "string \<Rightarrow> blobInfo \<Rightarrow> bytes \<Rightarrow> acontainer \<Rightarrow> acontainer" where
  "commit n i b t = t\<lparr>a_blobs := (a_blobs t)(n \<mapsto> Committed i b)\<rparr>"

definition unstage :: "string \<Rightarrow> acontainer \<Rightarrow> acontainer" where
  "unstage n t = t\<lparr>a_staged := (a_staged t)(n := Map.empty)\<rparr>"

definition open_blob :: "string \<Rightarrow> acontainer \<Rightarrow> acontainer" where
  "open_blob n t = (if a_blobs t n = None then t\<lparr>a_blobs := (a_blobs t)(n \<mapsto> Uncommitted)\<rparr> else t)"

fun blob_spec_exec :: "time \<Rightarrow> blob_op \<Rightarrow> blob_spec \<Rightarrow> blob_result \<times> blob_spec" where
  "blob_spec_exec now (CreateContainer a c md) m =
     (if m (a, c) \<noteq> None then (RError ErrContainerExists, m)
      else (RContainer (madeContainer c now md), m((a, c) \<mapsto> empty_container (madeContainer c now md))))"
| "blob_spec_exec now (DeleteContainer a c) m =
     (if m (a, c) = None then (RError ErrContainerNotFound, m) else (RDone, m((a, c) := None)))"
| "blob_spec_exec now (GetContainer a c) m = on_container (a, c) (\<lambda>t. (RContainer (a_info t), t)) m"
| "blob_spec_exec now (PutBlob a c n (b, err) props) m =
     on_container (a, c) (\<lambda>t.
       if err \<noteq> None then (RFailed, t)
       else let i = madeInfo c n now (props\<lparr>bp_contentMD5 := md5 b\<rparr>) b in (RBlob i, commit n i b t)) m"
| "blob_spec_exec now (GetBlob a c n) m =
     on_container (a, c) (\<lambda>t. (case a_blobs t n of
         None \<Rightarrow> RError ErrBlobNotFound
       | Some Uncommitted \<Rightarrow> RFailed
       | Some (Committed i b) \<Rightarrow> RContent b i, t)) m"
| "blob_spec_exec now (StatBlob a c n) m =
     on_container (a, c) (\<lambda>t. (case a_blobs t n of
         None \<Rightarrow> RError ErrBlobNotFound
       | Some b \<Rightarrow> RBlob (stateInfo c n b), t)) m"
| "blob_spec_exec now (DeleteBlob a c n) m =
     on_container (a, c) (\<lambda>t.
       if a_blobs t n = None then (RError ErrBlobNotFound, t)
       else (RDone, unstage n (t\<lparr>a_blobs := (a_blobs t)(n := None)\<rparr>))) m"
| "blob_spec_exec now (StageBlock a c n i (b, err)) m =
     on_container (a, c) (\<lambda>t. let t' = open_blob n t in
       if err \<noteq> None then (RFailed, t')
       else (RDone, t'\<lparr>a_staged := (a_staged t')(n := (a_staged t' n)(i \<mapsto> b))\<rparr>)) m"
| "blob_spec_exec now (CommitBlockList a c n ids props) m =
     on_container (a, c) (\<lambda>t.
       if a_blobs t n = None \<or> (\<exists>i \<in> set ids. a_staged t n i = None) then (RError ErrInvalidBlockList, t)
       else let b = concat (map (\<lambda>i. the (a_staged t n i)) ids); i = madeInfo c n now props b
            in (RBlob i, unstage n (commit n i b t))) m"

text \<open>The names a request can carry: accounts are path segments, and containers are checked when they
  are created.\<close>

fun op_ok :: "blob_op \<Rightarrow> bool" where
  "op_ok (CreateContainer a c md) = (plainName a \<and> plainName c \<and> CHR ''.'' \<notin> set c)"
| "op_ok (PutBlob a c n src props) = (n \<noteq> [])"
| "op_ok (GetBlob a c n) = (n \<noteq> [])"
| "op_ok (StatBlob a c n) = (n \<noteq> [])"
| "op_ok (DeleteBlob a c n) = (n \<noteq> [])"
| "op_ok (StageBlock a c n i src) = (n \<noteq> [] \<and> i \<noteq> [])"
| "op_ok (CommitBlockList a c n ids props) = (n \<noteq> [] \<and> [] \<notin> set ids)"
| "op_ok _ = True"

definition meets :: "blob_result \<times> blob_store \<Rightarrow> blob_result \<times> blob_spec \<Rightarrow> bool" where
  "meets x y \<longleftrightarrow> blob_inv (snd x) \<and> y = (fst x, blob_abs (snd x))"

lemma alist_update_same: "map_of m k = Some v \<Longrightarrow> AList.update k v m = m"
  by (induction m) auto

lemma update2_same: "lookup2 s k = Some v \<Longrightarrow> update2 k v s = s"
  by (cases k) (auto simp: lookup2_def update2_def inner_def alist_update_same split: option.splits)

lemma setBlobs_found:
  "lookup2 (bs_accounts s) (a, c) = Some cont \<Longrightarrow>
     setBlobs a c f (onDisk d s) = s\<lparr>bs_accounts := update2 (a, c) (cont\<lparr>c_blobs := f (c_blobs cont)\<rparr>) (bs_accounts s), bs_disk := d\<rparr>"
  by (simp add: setBlobs_def lookupContainer_eq onDisk_def)

text \<open>Every operation but creation and deletion of containers starts by finding the container.\<close>

lemma container_cases [consumes 1, case_names missing found]:
  assumes "blob_inv s"
  obtains (missing) "lookup2 (bs_accounts s) (a, c) = None" and "blob_abs s (a, c) = None"
      and "lookupContainer a c s = Inl ErrContainerNotFound"
  | (found) cont where "lookup2 (bs_accounts s) (a, c) = Some cont"
      and "blob_abs s (a, c) = Some (abs_container (view (bs_root s @ [a, c]) (bs_disk s)) cont)"
      and "lookupContainer a c s = Inr cont" and "plainName a" and "plainName c"
      and "container_ok (view (bs_root s @ [a, c]) (bs_disk s)) c cont"
      and "rooted (bs_root s @ [a, c]) (bs_disk s)"
proof (cases "lookup2 (bs_accounts s) (a, c)")
  case None
  then show thesis by (intro missing) (simp_all add: blob_abs_def lookupContainer_eq)
next
  case (Some cont)
  then show thesis
    using container_rooted [OF assms Some] assms
    by (intro found [OF Some]) (auto simp: blob_abs_def lookupContainer_eq blob_inv_def container_view_def)
qed

lemma meets_same: "blob_inv s \<Longrightarrow> y = (r, blob_abs s) \<Longrightarrow> meets (r, s) y"
  by (simp add: meets_def)

lemma meets_step:
  assumes "blob_inv s" and "lookup2 (bs_accounts s) (a, c) = Some cont" and "R = bs_root s @ [a, c]"
    and "rooted R d'" and "outside R (bs_disk s) d'" and "container_ok (view R d') c cont'"
    and "y = (r, (blob_abs s)((a, c) \<mapsto> abs_container (view R d') cont'))"
  shows "meets (r, s\<lparr>bs_accounts := update2 (a, c) cont' (bs_accounts s), bs_disk := d'\<rparr>) y"
  using container_step [OF assms(1, 2) assms(4-6) [unfolded assms(3)] refl] assms(3, 7) by (simp add: meets_def)

lemma meets_disk:
  assumes "blob_inv s" and "lookup2 (bs_accounts s) (a, c) = Some cont" and "R = bs_root s @ [a, c]"
    and "rooted R d'" and "outside R (bs_disk s) d'" and "container_ok (view R d') c cont"
    and "y = (r, (blob_abs s)((a, c) \<mapsto> abs_container (view R d') cont))"
  shows "meets (r, onDisk d' s) y"
  using meets_step [OF assms] by (simp add: update2_same [OF assms(2)] onDisk_def)

lemmas exec_simps = b_value_def b_error_def on_container_def Let_def

lemma abs_blob: "a_blobs (abs_container w cont) n = None \<longleftrightarrow> map_of (c_blobs cont) n = None"
  by (simp add: abs_container_def)

lemma abs_no_blob: "map_of (c_blobs cont) n = None \<Longrightarrow> a_blobs (abs_container w cont) n = None"
  by (simp add: abs_container_def)

lemma getContainer_meets:
  assumes "blob_inv s"
  shows "meets (blob_exec env (GetContainer a c) s) (blob_spec_exec now (GetContainer a c) (blob_abs s))"
  using assms by (cases rule: container_cases [where a = a and c = c])
    (simp_all add: exec_simps meets_def getContainer_def cloneMeta_def abs_container_def fun_upd_idem assms)

lemma committed_blob:
  assumes "container_ok w c cont" and "n \<noteq> []" and "map_of (c_blobs cont) n = Some e"
  shows "(\<exists>b. w [dataDir, key n] = Some (File (Payload b)) \<and>
      a_blobs (abs_container w cont) n = Some (Committed (be_info e) b) \<and>
      bi_contentLength (be_info e) = int (length b)) \<or>
    (w [dataDir, key n] = None \<and> e = \<lparr>be_info = placeholder c n\<rparr> \<and>
      a_blobs (abs_container w cont) n = Some Uncommitted)"
proof -
  have "blob_ok w c n (Some e)" using assms by (metis container_ok_def)
  then show ?thesis using assms(3) by (auto simp: blob_ok_def abs_container_def payloadAt_def)
qed

lemma getBlob_meets:
  assumes "blob_inv s" and "healthy (be_os env)" and "n \<noteq> []"
  shows "meets (blob_exec env (GetBlob a c n) s) (blob_spec_exec now (GetBlob a c n) (blob_abs s))"
  using assms(1)
proof (cases rule: container_cases [where a = a and c = c])
  case missing
  then show ?thesis using assms(1) by (simp add: exec_simps meets_def getBlob_def)
next
  case (found cont)
  note path = blob_paths [where root = "bs_root s", OF found(4, 5) assms(3)]
  show ?thesis
  proof (cases "map_of (c_blobs cont) n")
    case None
    then show ?thesis
      using assms(1) found by (simp add: exec_simps meets_def getBlob_def findBlob_def abs_no_blob fun_upd_idem)
  next
    case (Some e)
    then show ?thesis
      using committed_blob [OF found(6) assms(3) Some] assms(1) found openFile_healthy [OF assms(2) found(7)]
      by (auto simp: exec_simps meets_def getBlob_def findBlob_def cloneMeta_def path nodeBytes_def fun_upd_idem
          simp del: append_assoc append_Cons append_Nil)
  qed
qed

lemma statBlob_meets:
  assumes "blob_inv s" and "n \<noteq> []"
  shows "meets (blob_exec env (StatBlob a c n) s) (blob_spec_exec now (StatBlob a c n) (blob_abs s))"
  using assms(1)
proof (cases rule: container_cases [where a = a and c = c])
  case missing
  then show ?thesis using assms(1) by (simp add: exec_simps meets_def statBlob_def)
next
  case (found cont)
  show ?thesis
  proof (cases "map_of (c_blobs cont) n")
    case None
    then show ?thesis
      using assms(1) found by (simp add: exec_simps meets_def statBlob_def findBlob_def abs_no_blob fun_upd_idem)
  next
    case (Some e)
    then show ?thesis
      using committed_blob [OF found(6) assms(2) Some] assms(1) found
      by (auto simp: exec_simps meets_def statBlob_def findBlob_def cloneMeta_def stateInfo_def fun_upd_idem)
  qed
qed

lemma props_same: "p\<lparr>bp_metadata := bp_metadata p\<rparr> = p"
  by (cases p) simp

lemma commitWritten_meets:
  assumes "blob_inv s" and "healthy (be_os env)" and "n \<noteq> []"
    and "lookup2 (bs_accounts s) (a, c) = Some cont" and "plainName a" and "plainName c"
    and "R = bs_root s @ [a, c]" and "rooted R d" and "outside R (bs_disk s) d"
    and "container_ok (view R d) c cont" and "view R d [dataDir] = Some Dir"
    and "bi = madeInfo c n (be_now env) props b"
  obtains d1 where
    "commitWrittenBlob env a c cont n (int (length b)) props
       (onDisk (AList.update (R @ [dataDir, key n]) (File (Payload b)) d) s) =
       (Inr bi, s\<lparr>bs_accounts := update2 (a, c) (cont\<lparr>c_blobs := AList.update n \<lparr>be_info = bi\<rparr> (c_blobs cont)\<rparr>) (bs_accounts s),
          bs_disk := d1\<rparr>)"
    and "rooted R d1" and "outside R (bs_disk s) d1"
    and "container_ok (view R d1) c (cont\<lparr>c_blobs := AList.update n \<lparr>be_info = bi\<rparr> (c_blobs cont)\<rparr>)"
    and "abs_container (view R d1) (cont\<lparr>c_blobs := AList.update n \<lparr>be_info = bi\<rparr> (c_blobs cont)\<rparr>) =
      commit n bi b (abs_container (view R d) cont)"
proof -
  have made: "bi_name bi = n" "bi_contentLength bi = int (length b)" by (simp_all add: assms(12) madeInfo_def)
  have name: "ci_name (c_info cont) = c" using assms(10) by (simp add: container_ok_def)
  obtain d1 where d1:
      "persistBlobMeta (be_os env) (bs_root s) a c bi (AList.update (R @ [dataDir, key n]) (File (Payload b)) d) = (None, d1)"
      "rooted R d1" "outside R d d1"
      "container_ok (view R d1) c (cont\<lparr>c_blobs := AList.update n \<lparr>be_info = bi\<rparr> (c_blobs cont)\<rparr>)"
      "abs_container (view R d1) (cont\<lparr>c_blobs := AList.update n \<lparr>be_info = bi\<rparr> (c_blobs cont)\<rparr>) =
        (abs_container (view R d) cont)\<lparr>a_blobs := (a_blobs (abs_container (view R d) cont))(n \<mapsto> Committed bi b)\<rparr>"
    by (rule commit_here [OF assms(2, 8, 10, 3, 11) made assms(7, 5, 6)])
  let ?s = "onDisk (AList.update (R @ [dataDir, key n]) (File (Payload b)) d) s"
  have "commitWrittenBlob env a c cont n (int (length b)) props ?s =
      (case persistBlobMeta (be_os env) (bs_root s) a c bi (bs_disk ?s) of
         (Some e, d) \<Rightarrow> (Inl (ErrOther e), onDisk d ?s)
       | (None, d) \<Rightarrow> (Inr bi, setBlobs a c (AList.update n \<lparr>be_info = bi\<rparr>) (onDisk d ?s)))"
    unfolding commitWrittenBlob_def assms(12) madeInfo_def Let_def cloneMeta_def name onDisk_def props_same by simp
  also have "\<dots> = (Inr bi, setBlobs a c (AList.update n \<lparr>be_info = bi\<rparr>) (onDisk d1 s))"
    using d1(1) by (simp add: onDisk_def)
  finally show thesis
    using d1(2-5) outside_trans [OF assms(9) d1(3)]
    by (intro that [of d1]) (simp_all add: setBlobs_found [OF assms(4)] commit_def)
qed

lemma putBlob_meets:
  assumes "blob_inv s" and "healthy (be_os env)" and "n \<noteq> []"
  shows "meets (blob_exec env (PutBlob a c n src props) s) (blob_spec_exec (be_now env) (PutBlob a c n src props) (blob_abs s))"
  using assms(1)
proof (cases rule: container_cases [where a = a and c = c])
  case missing
  then show ?thesis using assms(1) by (cases src) (simp add: exec_simps meets_def putBlob_def)
next
  case (found cont)
  define R where "R = bs_root s @ [a, c]"
  note found = found [folded R_def]
  note path = blob_paths [where root = "bs_root s", OF found(4, 5) assms(3), folded R_def]
  obtain b err where src: "src = (b, err)" by (cases src)
  obtain d where d: "mkdirAll (be_os env) (R @ [dataDir]) (bs_disk s) = (None, d)" "rooted R d"
      "outside R (bs_disk s) d" "view R d = (view R (bs_disk s))([dataDir] \<mapsto> Dir)" "container_ok (view R d) c cont"
      "abs_container (view R d) cont = abs_container (view R (bs_disk s)) cont"
    by (rule mkdir_here [OF assms(2) found(7, 6), of dataDir]) simp
  have dir: "view R d [dataDir] = Some Dir" by (simp add: d(4))
  have stream: "streamToFile (be_os env) (R @ [dataDir, key n]) src d =
      (case err of
         Some e \<Rightarrow> (Inl e, d)
       | None \<Rightarrow> (Inr (md5 b, int (length b)), AList.update (R @ [dataDir, key n]) (File (Payload b)) d))"
    using streamToFile_healthy [OF assms(2) d(2), of "[dataDir, key n]" "(b, err)"] dir data_not_dir [OF d(5) assms(3)]
    unfolding src by (cases err) simp_all
  have put: "putBlob env a c n src props s =
      (case err of
         Some e \<Rightarrow> (Inl (ErrOther e), onDisk d s)
       | None \<Rightarrow> commitWrittenBlob env a c cont n (int (length b)) (props\<lparr>bp_contentMD5 := md5 b\<rparr>)
           (onDisk (AList.update (R @ [dataDir, key n]) (File (Payload b)) d) s))"
    using d(1) stream found(3) by (simp add: putBlob_def path split: option.split)
  show ?thesis
  proof (cases err)
    case (Some e)
    then show ?thesis
      using put meets_disk [OF assms(1) found(1) R_def d(2, 3, 5)] found(2) by (simp add: exec_simps src d(6))
  next
    case None
    let ?bi = "madeInfo c n (be_now env) (props\<lparr>bp_contentMD5 := md5 b\<rparr>) b"
    show ?thesis
    proof (rule commitWritten_meets [where b = b and props = "props\<lparr>bp_contentMD5 := md5 b\<rparr>",
          OF assms found(1, 4, 5) R_def d(2, 3, 5) dir refl], goal_cases)
      case (1 d1)
      then show ?thesis
        using put None meets_step [OF assms(1) found(1) R_def 1(2, 3, 4)] 1(1, 5) found(2) by (simp add: exec_simps src d(6))
    qed
  qed
qed

lemma open_blob_ok:
  assumes "container_ok w c cont" and "n \<noteq> []"
    and "cont1 = (if map_of (c_blobs cont) n = None
      then cont\<lparr>c_blobs := AList.update n \<lparr>be_info = placeholder c n\<rparr> (c_blobs cont)\<rparr> else cont)"
  shows "container_ok w c cont1 \<and> abs_container w cont1 = open_blob n (abs_container w cont)"
  using placeholder_ok [OF assms(1, 2)] assms by (simp add: open_blob_def abs_blob)

lemma stageBlock_meets:
  assumes "blob_inv s" and "healthy (be_os env)" and "n \<noteq> []" and "i \<noteq> []"
  shows "meets (blob_exec env (StageBlock a c n i src) s) (blob_spec_exec now (StageBlock a c n i src) (blob_abs s))"
  using assms(1)
proof (cases rule: container_cases [where a = a and c = c])
  case missing
  then show ?thesis using assms(1) by (cases src) (simp add: exec_simps meets_def stageBlock_def)
next
  case (found cont)
  define R where "R = bs_root s @ [a, c]"
  note found = found [folded R_def]
  note path = blob_paths [where root = "bs_root s", OF found(4, 5) assms(3), folded R_def]
  obtain b err where src: "src = (b, err)" by (cases src)
  define cont1 where "cont1 = (if map_of (c_blobs cont) n = None
    then cont\<lparr>c_blobs := AList.update n \<lparr>be_info = placeholder c n\<rparr> (c_blobs cont)\<rparr> else cont)"
  have opened: "container_ok (view R (bs_disk s)) c cont1"
      "abs_container (view R (bs_disk s)) cont1 = open_blob n (abs_container (view R (bs_disk s)) cont)"
    using open_blob_ok [OF found(6) assms(3) cont1_def] by simp_all
  let ?s1 = "s\<lparr>bs_accounts := update2 (a, c) cont1 (bs_accounts s)\<rparr>"
  have s1: "(if map_of (c_blobs cont) n = None
      then setBlobs a c (AList.update n \<lparr>be_info = placeholder c n\<rparr>) s else s) = ?s1"
    using setBlobs_found [OF found(1), of _ "bs_disk s"] update2_same [OF found(1)]
    by (simp add: cont1_def onDisk_def)
  obtain d where d: "mkdirAll (be_os env) (R @ [blocksDir, key n]) (bs_disk s) = (None, d)" "rooted R d"
      "outside R (bs_disk s) d" "view R d [blocksDir, key n] = Some Dir" "container_ok (view R d) c cont1"
      "abs_container (view R d) cont1 = abs_container (view R (bs_disk s)) cont1"
    by (rule mkdir_blocks [OF assms(2) found(7) opened(1)])
  let ?p = "[blocksDir, key n, key i]"
  have free: "view R d ?p \<noteq> Some Dir" using d(5) unfolding container_ok_def by blast
  have stream: "streamToFile (be_os env) (R @ ?p) src d =
      (case err of
         Some e \<Rightarrow> (Inl e, d)
       | None \<Rightarrow> (Inr (md5 b, int (length b)), AList.update (R @ ?p) (File (Payload b)) d))"
    using streamToFile_healthy [OF assms(2) d(2), of ?p "(b, err)"] d(4) free unfolding src by (cases err) simp_all
  have stage: "stageBlock env a c n i src s =
      (case err of
         Some e \<Rightarrow> (Some (ErrOther e), onDisk d ?s1)
       | None \<Rightarrow> (None, onDisk (AList.update (R @ ?p) (File (Payload b)) d) ?s1))"
    using d(1) stream unfolding stageBlock_def Let_def found(3) sum.case placeholder_def [symmetric] s1
    by (simp add: path(4, 5) assms(4) split: option.split)
  show ?thesis
  proof (cases err)
    case (Some e)
    then show ?thesis
      using stage meets_step [OF assms(1) found(1) R_def d(2, 3, 5)] found(2)
      by (simp add: exec_simps src d(6) opened(2) onDisk_def)
  next
    case None
    let ?d = "AList.update (R @ ?p) (File (Payload b)) d"
    have "rooted R ?d" "view R ?d = (view R d)(?p \<mapsto> File (Payload b))"
      using rooted_update [OF d(2), of ?p] d(4) free by (simp_all add: view_update)
    moreover have "outside R (bs_disk s) ?d" using d(3) outside_trans outside_update by blast
    moreover note stage_ok [OF d(5), of n i b]
    ultimately show ?thesis
      using stage None meets_step [OF assms(1) found(1) R_def, of ?d cont1] found(2)
      by (simp add: exec_simps src d(6) opened(2) onDisk_def)
  qed
qed

lemma deleteBlob_meets:
  assumes "blob_inv s" and "healthy (be_os env)" and "n \<noteq> []"
  shows "meets (blob_exec env (DeleteBlob a c n) s) (blob_spec_exec now (DeleteBlob a c n) (blob_abs s))"
  using assms(1)
proof (cases rule: container_cases [where a = a and c = c])
  case missing
  then show ?thesis using assms(1) by (simp add: exec_simps meets_def deleteBlob_def)
next
  case (found cont)
  define R where "R = bs_root s @ [a, c]"
  note found = found [folded R_def]
  note path = blob_paths [where root = "bs_root s", OF found(4, 5) assms(3), folded R_def]
  show ?thesis
  proof (cases "map_of (c_blobs cont) n")
    case None
    then show ?thesis
      using assms(1) found by (simp add: exec_simps meets_def deleteBlob_def abs_no_blob fun_upd_idem)
  next
    case (Some e)
    let ?data = "[dataDir, key n]" and ?meta = "[metaDir, key n @ ''.json'']"
    define d1 where "d1 = snd (removeFile (be_os env) (R @ ?data) (bs_disk s))"
    define d2 where "d2 = snd (removeFile (be_os env) (R @ ?meta) d1)"
    have d1: "rooted R d1" "view R d1 = (view R (bs_disk s))(?data := None)" "outside R (bs_disk s) d1"
      using removeFile_healthy [OF assms(2) found(7) data_not_dir [OF found(6) assms(3)]] by (simp_all add: d1_def)
    have "view R d1 ?meta \<noteq> Some Dir" using meta_not_dir [OF found(6) assms(3)] by (simp add: d1(2))
    from removeFile_healthy [OF assms(2) d1(1) this]
    have d2: "rooted R d2" "view R d2 = (view R (bs_disk s))(?data := None, ?meta := None)" "outside R d1 d2"
      by (simp_all add: d2_def d1(2))
    obtain d3 where d3: "removeAll (be_os env) (R @ [blocksDir, key n]) d2 = (None, d3)" "rooted R d3"
        "view R d3 = (\<lambda>ys. if above [blocksDir, key n] ys then None else view R d2 ys)" "outside R d2 d3"
      by (rule removeAll_healthy [OF assms(2) d2(1), of "[blocksDir, key n]"]) simp
    let ?cont = "cont\<lparr>c_blobs := AList.delete n (c_blobs cont)\<rparr>"
    have gone: "container_ok (view R d2) c ?cont"
        "abs_container (view R d2) ?cont =
          (abs_container (view R (bs_disk s)) cont)\<lparr>a_blobs := (a_blobs (abs_container (view R (bs_disk s)) cont))(n := None)\<rparr>"
      using unlink_ok [OF found(6) assms(3)] unfolding d2(2) by simp_all
    have cleared: "container_ok (view R d3) c ?cont"
        "abs_container (view R d3) ?cont = unstage n (abs_container (view R d2) ?cont)"
      using unstage_ok [OF gone(1), of n] unfolding d3(3) without_blocks_def unstage_def by simp_all
    have out: "outside R (bs_disk s) d3" using d1(3) d2(3) d3(4) outside_trans by blast
    have "deleteBlob env a c n s = (None, setBlobs a c (AList.delete n) (onDisk d3 s))"
      using Some found(3) d3(1) path(4) unfolding deleteBlob_def Let_def path(2, 3)
      by (simp add: d1_def [symmetric] d2_def [symmetric] blockDir_def)
    then show ?thesis
      using meets_step [OF assms(1) found(1) R_def d3(2) out cleared(1)] found(2) Some
      by (simp add: exec_simps setBlobs_found [OF found(1)] abs_blob cleared(2) gone(2))
  qed
qed

lemma copyBlocks_healthy:
  assumes "healthy os" and "rooted R d" and "\<forall>i \<in> set ids. payloadAt (view R d) (p i) \<noteq> None"
  shows "copyBlocks os dst d (map (\<lambda>i. R @ p i) ids) = Inr (concat (map (\<lambda>i. the (payloadAt (view R d) (p i))) ids))"
  using assms(3)
proof (induction ids)
  case (Cons i ids)
  then obtain b where "view R d (p i) = Some (File (Payload b))" "payloadAt (view R d) (p i) = Some b"
    by (auto simp: payloadAt_def split: option.splits node.splits content.splits)
  then show ?case
    using Cons openFile_healthy [OF assms(1, 2), of "p i"] assms(1) by (simp add: healthy_def nodeBytes_def)
qed simp

lemma assembleBlocks_healthy:
  assumes "healthy os" and "rooted R d" and "view R d (butlast xs) = Some Dir" and "xs \<noteq> []" and "view R d xs \<noteq> Some Dir"
    and "\<forall>i \<in> set ids. payloadAt (view R d) (p i) \<noteq> None"
    and "b = concat (map (\<lambda>i. the (payloadAt (view R d) (p i))) ids)"
  shows "assembleBlocks os (R @ xs) (map (\<lambda>i. R @ p i) ids) d =
    (Inr (int (length b)), AList.update (R @ xs) (File (Payload b)) d)"
  using createBeside_healthy [OF assms(1-4)] renameOnto_healthy [OF assms(1, 2, 5)] copyBlocks_healthy [OF assms(1, 2, 6)]
    assms(1, 7)
  by (simp add: assembleBlocks_def)

lemma staged_none:
  assumes "container_ok w c cont"
  shows "a_staged (abs_container w cont) n i = None \<longleftrightarrow> w [blocksDir, key n, key i] = None"
  using assms unfolding container_ok_def abs_container_def
  by (auto simp: payloadAt_def split: option.splits node.splits content.splits) blast+

lemma commitBlockList_meets:
  assumes "blob_inv s" and "healthy (be_os env)" and "n \<noteq> []" and "[] \<notin> set ids"
  shows "meets (blob_exec env (CommitBlockList a c n ids props) s)
    (blob_spec_exec (be_now env) (CommitBlockList a c n ids props) (blob_abs s))"
  using assms(1)
proof (cases rule: container_cases [where a = a and c = c])
  case missing
  then show ?thesis using assms(1) by (simp add: exec_simps meets_def commitBlockList_def)
next
  case (found cont)
  define R where "R = bs_root s @ [a, c]"
  note found = found [folded R_def]
  note path = blob_paths [where root = "bs_root s", OF found(4, 5) assms(3), folded R_def]
  let ?p = "\<lambda>i. [blocksDir, key n, key i]" and ?t = "abs_container (view R (bs_disk s)) cont"
  have blocks: "map (blockPath (bs_root s) a c n) ids = map (\<lambda>i. R @ ?p i) ids"
    by (intro map_cong refl) (metis assms(4) path(5))
  have stat: "list_ex (\<lambda>p. statFails (be_os env) p (bs_disk s)) (map (\<lambda>i. R @ ?p i) ids) \<longleftrightarrow>
      (\<exists>i \<in> set ids. a_staged ?t n i = None)"
    using statFails_healthy [OF assms(2) found(7)] staged_none [OF found(6)] by (auto simp: list_ex_iff)
  show ?thesis
  proof (cases "map_of (c_blobs cont) n = None \<or> (\<exists>i \<in> set ids. a_staged ?t n i = None)")
    case True
    then have "commitBlockList env a c n ids props s = (Inl ErrInvalidBlockList, s)"
      using found(3) stat by (auto simp: commitBlockList_def Let_def blocks)
    moreover have "a_blobs ?t n = None \<or> (\<exists>i \<in> set ids. a_staged ?t n i = None)" using True by (simp add: abs_blob)
    ultimately show ?thesis
      using assms(1) found(2) by (simp add: exec_simps meets_def fun_upd_idem)
  next
    case False
    obtain d where d: "mkdirAll (be_os env) (R @ [dataDir]) (bs_disk s) = (None, d)" "rooted R d"
        "outside R (bs_disk s) d" "view R d = (view R (bs_disk s))([dataDir] \<mapsto> Dir)" "container_ok (view R d) c cont"
        "abs_container (view R d) cont = ?t"
      by (rule mkdir_here [OF assms(2) found(7, 6), of dataDir]) simp
    have dir: "view R d [dataDir] = Some Dir" by (simp add: d(4))
    have same: "payloadAt (view R d) (?p i) = a_staged ?t n i" for i
      by (simp add: d(4) payloadAt_upd abs_container_def)
    define b where "b = concat (map (\<lambda>i. the (a_staged ?t n i)) ids)"
    have assembled: "assembleBlocks (be_os env) (R @ [dataDir, key n]) (map (\<lambda>i. R @ ?p i) ids) d =
        (Inr (int (length b)), AList.update (R @ [dataDir, key n]) (File (Payload b)) d)"
      using False dir data_not_dir [OF d(5) assms(3)] same
      by (intro assembleBlocks_healthy [OF assms(2) d(2)]) (simp_all add: b_def)
    let ?bi = "madeInfo c n (be_now env) props b" and ?s = "onDisk (AList.update (R @ [dataDir, key n]) (File (Payload b)) d) s"
    have there: "(map_of (c_blobs cont) n = None) = False" "(\<exists>i \<in> set ids. a_staged ?t n i = None) = False"
      using False by auto
    have start: "commitBlockList env a c n ids props s =
        (case commitWrittenBlob env a c cont n (int (length b)) props ?s of
           (Inl e, s2) \<Rightarrow> (Inl e, s2)
         | (Inr info, s2) \<Rightarrow>
             (Inr info, onDisk (snd (removeAll (be_os env) (R @ [blocksDir, key n]) (bs_disk s2))) s2))"
      using d(1) assembled unfolding commitBlockList_def Let_def found(3) sum.case blocks path(1, 2, 4) stat there if_False
      by simp
    show ?thesis
    proof (rule commitWritten_meets [where b = b and props = props, OF assms(1-3) found(1, 4, 5) R_def d(2, 3, 5) dir refl],
        goal_cases)
      case (1 d1)
      obtain d2 where d2: "removeAll (be_os env) (R @ [blocksDir, key n]) d1 = (None, d2)" "rooted R d2"
          "view R d2 = (\<lambda>ys. if above [blocksDir, key n] ys then None else view R d1 ys)" "outside R d1 d2"
        by (rule removeAll_healthy [OF assms(2) 1(2), of "[blocksDir, key n]"]) simp
      let ?cont = "cont\<lparr>c_blobs := AList.update n \<lparr>be_info = ?bi\<rparr> (c_blobs cont)\<rparr>"
      have cleared: "container_ok (view R d2) c ?cont"
          "abs_container (view R d2) ?cont = unstage n (abs_container (view R d1) ?cont)"
        using unstage_ok [OF 1(4), of n] unfolding d2(3) without_blocks_def unstage_def by simp_all
      have out: "outside R (bs_disk s) d2" using 1(3) d2(4) outside_trans by blast
      have "blob_spec_exec (be_now env) (CommitBlockList a c n ids props) (blob_abs s) =
          (RBlob ?bi, (blob_abs s)((a, c) \<mapsto> unstage n (commit n ?bi b ?t)))"
        using False found(2) by (simp add: exec_simps abs_blob b_def)
      moreover have "commitBlockList env a c n ids props s =
          (Inr ?bi, s\<lparr>bs_accounts := update2 (a, c) ?cont (bs_accounts s), bs_disk := d2\<rparr>)"
        using start 1(1) d2(1) by (simp add: onDisk_def)
      ultimately show ?thesis
        using meets_step [OF assms(1) found(1) R_def d2(2) out cleared(1)]
        by (simp add: b_value_def cleared(2) 1(5) d(6))
    qed
  qed
qed

section \<open>Creating and deleting containers\<close>

text \<open>Below a path that is not there is nothing.\<close>

lemma nothing_below:
  assumes "rooted root d" and "view root d xs \<noteq> Some Dir" and "xs \<noteq> []" and "ys \<noteq> []"
  shows "view root d (xs @ ys) = None"
proof (rule ccontr)
  assume "view root d (xs @ ys) \<noteq> None"
  then obtain n where "map_of d (root @ xs @ ys) = Some n" by (auto simp: view_def)
  then have "map_of d (root @ xs) = Some Dir"
    using tree_above [of d "root @ xs @ ys" n "root @ xs"] assms by (simp add: rooted_def)
  then show False using assms(2) by (simp add: view_def)
qed

lemma new_container_step:
  assumes inv: "blob_inv s" and new: "lookup2 (bs_accounts s) (a, c) = None" and names: "plainName a" "plainName c"
    and dirs: "view (bs_root s) d = (\<lambda>ys. if above ys [a, c] then Some Dir else view (bs_root s) (bs_disk s) ys)"
    and root: "map_of d (bs_root s) = Some Dir" and R: "R = bs_root s @ [a, c]"
    and disk': "rooted R d'" "outside R d d'" and ok': "container_ok (view R d') c cont"
    and s': "s' = s\<lparr>bs_accounts := update2 (a, c) cont (bs_accounts s), bs_disk := d'\<rparr>"
  shows "blob_inv s' \<and> blob_abs s' = (blob_abs s)((a, c) \<mapsto> abs_container (view R d') cont)"
proof -
  let ?R = "bs_root s"
  note disk = disk' [unfolded R] and ok = ok' [unfolded R]
  have one: "view ?R d' [x] = (if x = a then Some Dir else view ?R (bs_disk s) [x])" for x
    using outside_view(1) [OF disk(2), of x] by (simp add: dirs)
  have two: "view ?R d' [x, y] = (if (x, y) = (a, c) then Some Dir else view ?R (bs_disk s) [x, y])" for x y
    using outside_view(2) [OF disk(2), of x y] disk(1) by (auto simp: dirs rooted_def view_def)
  have below: "view (?R @ [fst k, snd k]) d = view (?R @ [fst k, snd k]) (bs_disk s)" if "k \<noteq> (a, c)" for k
  proof
    fix ys
    show "view (?R @ [fst k, snd k]) d ys = view (?R @ [fst k, snd k]) (bs_disk s) ys"
      using that fun_cong [OF dirs, of "[fst k, snd k] @ ys"] by (cases k) (auto simp: view_def)
  qed
  have others: "container_view s' k = container_view s k" if "k \<noteq> (a, c)" for k
    using outside_container [OF disk(2) that] below [OF that] by (simp add: container_view_def s' case_prod_beta)
  have mine: "container_view s' (a, c) = view (?R @ [a, c]) d'" by (simp add: container_view_def s')
  have lookups: "lookup2 (bs_accounts s') = (lookup2 (bs_accounts s))((a, c) \<mapsto> cont)" by (simp add: s' store_simps)
  have "rooted ?R d'"
    using disk(1) inv outside_view(3) [OF disk(2)] root by (simp add: rooted_def blob_inv_def)
  moreover have "nested_ok (bs_accounts s')" using inv by (simp add: s' blob_inv_def inv_intros)
  ultimately have "blob_inv s'"
    using inv ok mine others names unfolding blob_inv_def lookups
    by (auto simp: s' one two split: if_splits)
  moreover have "blob_abs s' k = ((blob_abs s)((a, c) \<mapsto> abs_container (view R d') cont)) k" for k
    using mine others [of k] lookups by (cases "k = (a, c)") (simp_all add: blob_abs_def R)
  ultimately show ?thesis by blast
qed

text \<open>The directory of a new container can be made, and there is nothing in it.\<close>

lemma new_container_dir:
  assumes "blob_inv s" and "plainName a" and "plainName c" and "CHR ''.'' \<notin> set c"
    and "lookup2 (bs_accounts s) (a, c) = None" and "mkdir_free os"
  obtains d where "mkdirAll os (bs_root s @ [a, c]) (bs_disk s) = (None, d)" and "rooted (bs_root s) d"
    and "view (bs_root s) d [a, c] = Some Dir" and "view (bs_root s) d [a, c, containerMetaFile] = None"
    and "view (bs_root s) d = (\<lambda>ys. if above ys [a, c] then Some Dir else view (bs_root s) (bs_disk s) ys)"
    and "view (bs_root s @ [a, c]) d = (\<lambda>ys. if ys = [] then Some Dir else None)"
proof -
  let ?root = "bs_root s"
  have rooted: "rooted ?root (bs_disk s)" using assms(1) by (simp add: blob_inv_def)
  have absent: "view ?root (bs_disk s) [a, c] = None"
  proof (rule ccontr)
    assume "view ?root (bs_disk s) [a, c] \<noteq> None"
    then obtain x where x: "view ?root (bs_disk s) [a, c] = Some x" by blast
    show False using x assms(1, 4, 5) unfolding blob_inv_def by (cases x) (metis option.distinct(1), metis)
  qed
  have top: "view ?root (bs_disk s) ys \<noteq> Some (File f)" if "above ys [a, c]" "ys \<noteq> []" for ys f
  proof -
    have "ys = [a] \<or> ys = [a, c]" using that by (auto simp: above_def Cons_eq_append_conv)
    then show ?thesis using assms(1) absent by (auto simp: blob_inv_def)
  qed
  obtain d where d: "mkdirAll os (?root @ [a, c]) (bs_disk s) = (None, d)" "rooted ?root d"
      "view ?root d = (\<lambda>ys. if above ys [a, c] then Some Dir else view ?root (bs_disk s) ys)"
    by (rule view_mkdirAll_free [OF assms(6) rooted, of "[a, c]"]) (use top in blast)+
  have below: "view (?root @ [a, c]) d ys = (if ys = [] then Some Dir else None)" for ys
  proof -
    have "view (?root @ [a, c]) d ys = view ?root d ([a, c] @ ys)" by (simp add: view_def)
    also have "\<dots> = (if ys = [] then Some Dir else view ?root (bs_disk s) ([a, c] @ ys))"
      using above_append [of "[a, c]" ys "[]"] unfolding d(3) by simp
    also have "\<dots> = (if ys = [] then Some Dir else None)"
      using nothing_below [OF rooted, of "[a, c]" ys] absent by simp
    finally show ?thesis .
  qed
  have "view ?root d [a, c] = Some Dir" "view ?root d [a, c, containerMetaFile] = None"
    using below [of "[]"] below [of "[containerMetaFile]"] by (simp_all add: view_def)
  then show thesis using that [OF d(1, 2) _ _ d(3)] below by (simp add: fun_eq_iff)
qed

lemma createContainer_meets:
  assumes "blob_inv s" and "healthy (be_os env)" and "plainName a" and "plainName c" and "CHR ''.'' \<notin> set c"
  shows "meets (blob_exec env (CreateContainer a c md) s) (blob_spec_exec (be_now env) (CreateContainer a c md) (blob_abs s))"
proof -
  let ?root = "bs_root s" and ?s1 = "getAccount a s"
  have look: "lookup2 (bs_accounts ?s1) = lookup2 (bs_accounts s)" and root: "bs_root ?s1 = ?root" "bs_disk ?s1 = bs_disk s"
    by (auto simp: getAccount_def lookup2_def inner_def store_simps fun_eq_iff split: option.split)
  have nested: "nested_ok (bs_accounts ?s1)"
    using assms(1) by (auto simp: getAccount_def blob_inv_def nested_ok_def inner_def store_simps split: option.splits)
  have cviews: "container_view ?s1 = container_view s" by (simp add: container_view_def root fun_eq_iff)
  have inv1: "blob_inv ?s1" using assms(1) nested unfolding blob_inv_def look root cviews by simp
  have abs1: "blob_abs ?s1 = blob_abs s" by (simp add: blob_abs_def look cviews)
  have seek: "map_of (inner a (bs_accounts ?s1)) c = lookup2 (bs_accounts s) (a, c)" using look by (simp add: lookup2_def fun_eq_iff)
  show ?thesis
  proof (cases "lookup2 (bs_accounts s) (a, c)")
    case (Some cont)
    then show ?thesis
      using inv1 abs1 blob_abs_lookup [of s "(a, c)"]
      by (auto simp: createContainer_def Let_def seek exec_simps meets_def)
  next
    case None
    let ?info = "madeContainer c (be_now env) md"
    let ?cont = "\<lparr>c_info = ?info, c_blobs = []\<rparr>"
    define R where "R = ?root @ [a, c]"
    obtain d where d: "mkdirAll (be_os env) R (bs_disk s) = (None, d)" "rooted ?root d"
        "view ?root d [a, c] = Some Dir" "view ?root d [a, c, containerMetaFile] = None"
        "view ?root d = (\<lambda>ys. if above ys [a, c] then Some Dir else view ?root (bs_disk s) ys)"
        "view R d = (\<lambda>ys. if ys = [] then Some Dir else None)"
      unfolding R_def by (rule new_container_dir [OF assms(1, 3-5) None healthy_mkdir_free [OF assms(2)]])
    have R: "rooted R d" using d(2, 3) by (simp add: R_def rooted_def view_def)
    note below = d(6)
    let ?d = "AList.update (R @ [containerMetaFile]) (File (ContainerJSON (jsonContainer ?info))) d"
    have written: "writeAtomic (be_os env) (R @ [containerMetaFile]) (ContainerJSON (jsonContainer ?info)) d = (None, ?d)"
      by (rule writeAtomic_healthy [OF assms(2) R]) (simp_all add: below)
    have Rd: "rooted R ?d" using rooted_update [OF R, of "[containerMetaFile]"] by (simp add: below)
    have viewd: "view R ?d = (\<lambda>ys. if ys = [] then Some Dir else if ys = [containerMetaFile]
        then Some (File (ContainerJSON (jsonContainer ?info))) else None)"
      by (auto simp: view_update below fun_eq_iff)
    have dir: "containerDir ?root a c = R" using assms(3, 4) by (simp add: R_def containerDir_def accountDir_def)
    have persist: "persistContainer (be_os env) ?root a ?info (bs_disk s) = (None, ?d)"
      using d(1) written by (simp add: persistContainer_def madeContainer_def dir)
    have create: "createContainer env a c md s =
        (Inr ?info, ?s1\<lparr>bs_accounts := update2 (a, c) ?cont (bs_accounts ?s1), bs_disk := ?d\<rparr>)"
      using persist None unfolding createContainer_def Let_def seek root cloneMeta_def madeContainer_def
      by (simp add: onDisk_def)
    have ok: "container_ok (view R ?d) c ?cont" "abs_container (view R ?d) ?cont = empty_container ?info"
      unfolding viewd container_ok_def abs_container_def blob_ok_def
      by (auto simp: madeContainer_def empty_container_def payloadAt_def fun_eq_iff)
    have new: "lookup2 (bs_accounts ?s1) (a, c) = None" "map_of d (bs_root ?s1) = Some Dir" "R = bs_root ?s1 @ [a, c]"
        "view (bs_root ?s1) d = (\<lambda>ys. if above ys [a, c] then Some Dir else view (bs_root ?s1) (bs_disk ?s1) ys)"
      using None d(2) by (simp_all only: look root d(5) R_def rooted_def)
    from new_container_step [OF inv1 new(1) assms(3, 4) new(4, 2, 3) Rd outside_update ok(1) refl]
    have "blob_inv (?s1\<lparr>bs_accounts := update2 (a, c) ?cont (bs_accounts ?s1), bs_disk := ?d\<rparr>) \<and>
        blob_abs (?s1\<lparr>bs_accounts := update2 (a, c) ?cont (bs_accounts ?s1), bs_disk := ?d\<rparr>) =
          (blob_abs ?s1)((a, c) \<mapsto> empty_container ?info)"
      by (simp only: ok(2))
    then show ?thesis
      using None abs1 blob_abs_lookup [of s "(a, c)"] by (simp add: exec_simps meets_def create)
  qed
qed

lemma deleteContainer_meets:
  assumes "blob_inv s" and "healthy (be_os env)"
  shows "meets (blob_exec env (DeleteContainer a c) s) (blob_spec_exec now (DeleteContainer a c) (blob_abs s))"
proof (cases "lookup2 (bs_accounts s) (a, c)")
  case None
  then have "deleteContainer env a c s = (Some ErrContainerNotFound, s)"
    by (auto simp: deleteContainer_def lookup2_def inner_def split: option.splits)
  then show ?thesis using None assms(1) blob_abs_lookup [of s "(a, c)"] by (simp add: exec_simps meets_def)
next
  case (Some cont)
  let ?root = "bs_root s"
  have rooted: "rooted ?root (bs_disk s)" and names: "plainName a" "plainName c"
    using assms(1) Some by (auto simp: blob_inv_def)
  obtain d where d: "removeAll (be_os env) (?root @ [a, c]) (bs_disk s) = (None, d)" "rooted ?root d"
      "view ?root d = (\<lambda>ys. if above [a, c] ys then None else view ?root (bs_disk s) ys)"
    by (rule removeAll_healthy [OF assms(2) rooted, of "[a, c]"]) simp
  let ?s = "s\<lparr>bs_accounts := delete2 (a, c) (bs_accounts s), bs_disk := d\<rparr>"
  have there: "map_of (bs_accounts s) a = Some (inner a (bs_accounts s))" "map_of (inner a (bs_accounts s)) c = Some cont"
    using Some by (auto simp: lookup2_def inner_def split: option.splits)
  have delete: "deleteContainer env a c s = (None, ?s)"
    using there d(1) names by (simp add: deleteContainer_def containerDir_def accountDir_def onDisk_def)
  have lookups: "lookup2 (bs_accounts ?s) = (lookup2 (bs_accounts s))((a, c) := None)" by (simp add: store_simps)
  have others: "container_view ?s k = container_view s k" if "k \<noteq> (a, c)" for k
  proof
    fix ys
    show "container_view ?s k ys = container_view s k ys"
      using that fun_cong [OF d(3), of "[fst k, snd k] @ ys"]
      by (cases k) (auto simp: container_view_def view_def)
  qed
  have "nested_ok (bs_accounts ?s)" using assms(1) by (simp add: blob_inv_def inv_intros)
  then have "blob_inv ?s"
    using assms(1) d(2) others unfolding blob_inv_def lookups by (auto simp: d(3) split: if_splits)
  moreover have "blob_abs ?s k = ((blob_abs s)((a, c) := None)) k" for k
    using others [of k] lookups by (cases "k = (a, c)") (simp_all add: blob_abs_def)
  ultimately show ?thesis
    using Some blob_abs_lookup [of s "(a, c)"] by (auto simp: exec_simps meets_def delete fun_eq_iff)
qed

section \<open>The refinement\<close>

lemma blob_step:
  assumes "blob_inv s" and "healthy (be_os env)" and "op_ok op"
  shows "meets (blob_exec env op s) (blob_spec_exec (be_now env) op (blob_abs s))"
  using assms
  by (cases op) (simp_all only: op_ok.simps simp_thms getContainer_meets getBlob_meets statBlob_meets putBlob_meets
    stageBlock_meets deleteBlob_meets commitBlockList_meets createContainer_meets deleteContainer_meets)

fun blob_run :: "('e \<Rightarrow> blob_op \<Rightarrow> 's \<Rightarrow> blob_result \<times> 's) \<Rightarrow> ('e \<times> blob_op) list \<Rightarrow> 's \<Rightarrow> blob_result list \<times> 's" where
  "blob_run f [] s = ([], s)"
| "blob_run f ((env, op) # ops) s =
     (case f env op s of (r, s1) \<Rightarrow> case blob_run f ops s1 of (rs, s2) \<Rightarrow> (r # rs, s2))"

definition blob_reference :: "blob_env \<Rightarrow> blob_op \<Rightarrow> blob_spec \<Rightarrow> blob_result \<times> blob_spec" where
  "blob_reference env = blob_spec_exec (be_now env)"

lemma blob_run_refines:
  assumes "blob_inv s" and "\<forall>(env, op) \<in> set ops. healthy (be_os env) \<and> op_ok op"
  shows "blob_inv (snd (blob_run blob_exec ops s)) \<and>
    blob_run blob_reference ops (blob_abs s) = (fst (blob_run blob_exec ops s), blob_abs (snd (blob_run blob_exec ops s)))"
  using assms
proof (induction ops arbitrary: s)
  case (Cons x ops)
  obtain env op where x: "x = (env, op)" by (cases x)
  obtain r s1 where exec: "blob_exec env op s = (r, s1)" by fastforce
  have "meets (r, s1) (blob_reference env op (blob_abs s))"
    using blob_step [of s env op] Cons.prems x exec by (simp add: blob_reference_def)
  then have "blob_inv s1" "blob_reference env op (blob_abs s) = (r, blob_abs s1)" by (simp_all add: meets_def)
  with Cons.IH [of s1] Cons.prems(2) show ?case
    by (cases "blob_run blob_exec ops s1") (simp add: x exec)
qed simp

text \<open>The store of a fresh data directory.\<close>

definition fresh_store :: "path \<Rightarrow> blob_store" where
  "fresh_store root = \<lparr>bs_root = root, bs_accounts = [], bs_disk = map (\<lambda>p. (p, Dir)) (waypoints root)\<rparr>"

definition quiet_os :: os where
  "quiet_os = \<lparr>os_fails = (\<lambda>_ _. False), os_text = (\<lambda>_ _. []), os_kept = (\<lambda>_. False)\<rparr>"

definition blob_env_at :: "time \<Rightarrow> blob_env" where
  "blob_env_at t = \<lparr>be_now = t, be_os = quiet_os\<rparr>"

lemma quiet_healthy [simp]: "healthy (be_os (blob_env_at t))"
  by (simp add: healthy_def quiet_os_def blob_env_at_def)

lemma fresh_inv: "blob_inv (fresh_store [''data''])"
  by (auto simp: blob_inv_def fresh_store_def waypoints_def rooted_def tree_def view_def distinct_keys_def lookup2_def)


lemma fresh_abs: "blob_abs (fresh_store root) = Map.empty"
  by (simp add: blob_abs_def fresh_store_def lookup2_def fun_eq_iff)


end
