(* ===== verification/Blob_Restart.thy ===== *)
theory Blob_Restart
  imports Blob_Spec
begin

text \<open>
  Restarting the blob store: \<open>New\<close> reads back from the files what the operations wrote. Shown here: every
  container and every committed blob comes back, with its bytes and staged blocks, uncommitted blobs do
  not, and the store that comes back is again one the contract of \<open>Blob_Spec\<close> describes.
\<close>

section \<open>Loops that fill a map\<close>

lemma fold_update_map:
  assumes "distinct (map f xs)"
  shows "map_of (fold (\<lambda>x. AList.update (f x) (g x)) xs m) y =
    (case find (\<lambda>x. f x = y) xs of None \<Rightarrow> map_of m y | Some x \<Rightarrow> Some (g x))"
  using assms
proof (induction xs arbitrary: m)
  case (Cons x xs)
  have "find (\<lambda>z. f z = y) xs = None" if "f x = y"
    using that Cons.prems by (auto simp: find_None_iff) (metis image_eqI)
  then show ?case using Cons by (auto simp: store_simps split: option.split)
qed simp

lemma fold_update_keys:
  "distinct_keys m \<Longrightarrow> distinct_keys (fold (\<lambda>x. AList.update (f x) (g x)) xs m)"
  by (induction xs arbitrary: m) simp_all

lemma loadBlobs_ok:
  assumes "\<forall>(x, n) \<in> set entries. n \<noteq> Dir \<and> hasSuffix x ''.json'' \<and> readBlobMeta os (joinPath dir x) d = Inr (info x)"
  shows "loadBlobs os dir d entries blobs =
    Inr (fold (\<lambda>e. AList.update (bi_name (info (fst e))) \<lparr>be_info = info (fst e)\<rparr>) entries blobs)"
  using assms by (induction entries arbitrary: blobs) auto

lemma loadContainers_ok:
  assumes "\<forall>(x, n) \<in> set entries. n = Dir \<longrightarrow> loadContainer os root a x d = Inr (cont x)"
  shows "loadContainers os root a d entries cs =
    Inr (fold (\<lambda>e. AList.update (fst e) (cont (fst e))) (filter (\<lambda>(x, n). n = Dir) entries) cs)"
  using assms by (induction entries arbitrary: cs) auto

lemma loadAccounts_ok:
  assumes "\<forall>(x, n) \<in> set entries. n = Dir \<longrightarrow>
      and_then (readDir os (accountDir root x) d) (\<lambda>conts. loadContainers os root x d conts []) = Inr (acct x)"
  shows "loadAccounts os root d entries accts =
    Inr (fold (\<lambda>e. AList.update (fst e) (acct (fst e))) (filter (\<lambda>(x, n). n = Dir) entries) accts)"
  using assms
proof (induction entries arbitrary: accts)
  case (Cons e entries)
  obtain x n where e: "e = (x, n)" by (cases e)
  have "loadAccounts os root d (e # entries) accts =
      (if n \<noteq> Dir then loadAccounts os root d entries accts
       else and_then (and_then (readDir os (accountDir root x) d) (\<lambda>conts. loadContainers os root x d conts []))
         (\<lambda>cs. loadAccounts os root d entries (AList.update x cs accts)))"
    by (simp add: e and_then_def split: sum.split)
  then show ?case using Cons by (simp add: e)
qed simp

section \<open>Loading a container\<close>

definition reloads :: "(path \<Rightarrow> content node option) \<Rightarrow> container \<Rightarrow> container \<Rightarrow> bool" where
  "reloads w cont cont' \<longleftrightarrow> c_info cont' = jsonContainer (c_info cont) \<and> distinct_keys (c_blobs cont') \<and>
     (\<forall>n. map_of (c_blobs cont') n =
       (if w [dataDir, key n] = None \<or> n = [] then None
        else map_option (\<lambda>e. \<lparr>be_info = jsonBlob (be_info e)\<rparr>) (map_of (c_blobs cont) n)))"

definition text_names :: "container \<Rightarrow> bool" where
  "text_names cont \<longleftrightarrow> (\<forall>n. map_of (c_blobs cont) n \<noteq> None \<longrightarrow> jsonString n = n) \<and>
     jsonString (ci_name (c_info cont)) = ci_name (c_info cont)"

lemma meta_file:
  assumes "container_ok w c cont" and "w [metaDir, x] = Some f"
  obtains n i b where "n \<noteq> []" and "x = key n @ ''.json''" and "map_of (c_blobs cont) n = Some \<lparr>be_info = i\<rparr>"
    and "f = File (BlobJSON (jsonBlob i))" and "bi_name i = n" and "w [dataDir, key n] = Some (File (Payload b))"
proof -
  obtain n where n: "n \<noteq> []" "x = key n @ ''.json''"
    using assms unfolding container_ok_def by (metis option.distinct(1))
  then have "blob_ok w c n (map_of (c_blobs cont) n)" using assms(1) by (simp add: container_ok_def)
  then show thesis using assms(2) n that by (auto simp: blob_ok_def)
qed

lemma load_container:
  assumes "healthy os" and "plainName a" and "plainName c" and "rooted (root @ [a, c]) d"
    and ok: "container_ok (view (root @ [a, c]) d) c cont" and names: "text_names cont"
  obtains cont' where "loadContainer os root a c d = Inr cont'" and "reloads (view (root @ [a, c]) d) cont cont'"
proof -
  define R where "R = root @ [a, c]"
  let ?w = "view R d" and ?meta = "R @ [metaDir]"
  note rooted = assms(4) [folded R_def] and ok = ok [folded R_def]
  have dir: "containerDir root a c = R" using assms(2, 3) by (simp add: R_def containerDir_def accountDir_def)
  have info: "readContainerMeta os (R @ [containerMetaFile]) d = Inr (jsonContainer (c_info cont))"
    using readFile_healthy [OF assms(1) rooted, of "[containerMetaFile]"] ok
    by (simp add: readContainerMeta_def container_ok_def)
  have load: "loadContainer os root a c d =
      (if ?w [metaDir] = None then Inr \<lparr>c_info = jsonContainer (c_info cont), c_blobs = []\<rparr>
       else and_then (readDir os ?meta d) (\<lambda>entries.
         and_then (loadBlobs os ?meta d entries []) (\<lambda>blobs. Inr \<lparr>c_info = jsonContainer (c_info cont), c_blobs = blobs\<rparr>)))"
    using info assms(1) by (simp add: loadContainer_def Let_def dir healthy_def view_def)
  show thesis
  proof (cases "?w [metaDir]")
    case None
    then have "?w [metaDir, x] = None" for x
      using view_parent [OF rooted, of "[metaDir]" x] by (cases "?w [metaDir, x]") auto
    then have "?w [dataDir, key n] = None \<or> n = []" for n
      using ok by (cases "n = []") (auto simp: container_ok_def blob_ok_def)
    then have "reloads ?w cont \<lparr>c_info = jsonContainer (c_info cont), c_blobs = []\<rparr>" by (auto simp: reloads_def)
    then show thesis using load None that unfolding R_def by simp
  next
    case (Some f)
    then have "?w [metaDir] = Some Dir" using ok by (cases f) (auto simp: container_ok_def)
    then obtain entries where entries: "readDir os ?meta d = Inr entries" "distinct (map fst entries)"
        "\<And>x n. (x, n) \<in> set entries \<longleftrightarrow> ?w [metaDir, x] = Some n"
      using readDir_healthy [OF assms(1) rooted, of "[metaDir]"] by auto
    define info where "info x = (case ?w [metaDir, x] of Some (File (BlobJSON i)) \<Rightarrow> i | _ \<Rightarrow> undefined)" for x
    have entry: "\<exists>n i b. n \<noteq> [] \<and> x = key n @ ''.json'' \<and> map_of (c_blobs cont) n = Some \<lparr>be_info = i\<rparr> \<and>
        f = File (BlobJSON (jsonBlob i)) \<and> info x = jsonBlob i \<and> bi_name (info x) = n \<and> ?w [dataDir, key n] = Some (File (Payload b))"
      if "(x, f) \<in> set entries" for x f
    proof -
      have f: "?w [metaDir, x] = Some f" using that entries(3) by simp
      from meta_file [OF ok this] obtain n i b where n: "n \<noteq> []" "x = key n @ ''.json''"
          "map_of (c_blobs cont) n = Some \<lparr>be_info = i\<rparr>" "f = File (BlobJSON (jsonBlob i))" "bi_name i = n"
          "?w [dataDir, key n] = Some (File (Payload b))" by metis
      moreover have "jsonString n = n" using names n(3) by (simp add: text_names_def)
      ultimately show ?thesis using f by (auto simp: info_def jsonBlob_def)
    qed
    let ?name = "\<lambda>e. bi_name (info (fst e))"
    let ?blobs = "fold (\<lambda>e. AList.update (?name e) \<lparr>be_info = info (fst e)\<rparr>) entries []"
    have "\<forall>(x, n) \<in> set entries. n \<noteq> Dir \<and> hasSuffix x ''.json'' \<and> readBlobMeta os (joinPath ?meta x) d = Inr (info x)"
    proof clarify
      fix x f assume xf: "(x, f) \<in> set entries"
      then obtain n i b where n: "x = key n @ ''.json''" "f = File (BlobJSON (jsonBlob i))" "info x = jsonBlob i"
        using entry by blast
      have "readFile os (R @ [metaDir, x]) d = Inr (BlobJSON (jsonBlob i))"
        using readFile_healthy [OF assms(1) rooted, of "[metaDir, x]"] entries(3) xf n(2) by simp
      then show "f \<noteq> Dir \<and> hasSuffix x ''.json'' \<and> readBlobMeta os (joinPath ?meta x) d = Inr (info x)"
        using n plain_meta [of "n"] by (simp add: readBlobMeta_def hasSuffix_iff)
    qed
    then have blobs: "loadBlobs os ?meta d entries [] = Inr ?blobs" by (rule loadBlobs_ok)
    have "inj_on ?name (set entries)"
    proof (rule inj_onI)
      fix e1 e2 assume e: "e1 \<in> set entries" "e2 \<in> set entries" "?name e1 = ?name e2"
      then have "fst e1 = fst e2" using entry [of "fst e1" "snd e1"] entry [of "fst e2" "snd e2"] by auto
      then show "e1 = e2" using e(1, 2) entries(2) by (metis eq_key_imp_eq_value prod.collapse)
    qed
    then have distinct: "distinct (map ?name entries)"
      using entries(2) by (simp add: distinct_map)
    have "map_of ?blobs n = (if ?w [dataDir, key n] = None \<or> n = [] then None
        else map_option (\<lambda>e. \<lparr>be_info = jsonBlob (be_info e)\<rparr>) (map_of (c_blobs cont) n))" for n
    proof (cases "find (\<lambda>e. ?name e = n) entries")
      case None
      have "?w [metaDir, key n @ ''.json''] = None" if "n \<noteq> []"
      proof (rule ccontr)
        assume "?w [metaDir, key n @ ''.json''] \<noteq> None"
        then obtain f where "(key n @ ''.json'', f) \<in> set entries" using entries(3) by auto
        moreover from this have "bi_name (info (key n @ ''.json'')) = n" using entry by fastforce
        ultimately show False using None by (auto simp: find_None_iff)
      qed
      then have "n \<noteq> [] \<Longrightarrow> ?w [dataDir, key n] = None" using ok by (auto simp: container_ok_def blob_ok_def)
      then show ?thesis using None fold_update_map [OF distinct, of "\<lambda>e. \<lparr>be_info = info (fst e)\<rparr>" "[]" n] by auto
    next
      case (Some e)
      then have e: "e \<in> set entries" "?name e = n" by (auto simp: find_Some_iff)
      then show ?thesis
        using entry [of "fst e" "snd e"] Some fold_update_map [OF distinct, of "\<lambda>e. \<lparr>be_info = info (fst e)\<rparr>" "[]" n]
        by auto
    qed
    then have "reloads ?w cont \<lparr>c_info = jsonContainer (c_info cont), c_blobs = ?blobs\<rparr>"
      by (simp add: reloads_def fold_update_keys)
    then show thesis using load Some entries(1) blobs that unfolding R_def by simp
  qed
qed

section \<open>Loading the store\<close>

lemma fold_dirs:
  assumes "distinct (map fst entries)"
  shows "map_of (fold (\<lambda>e. AList.update (fst e) (g (fst e))) (filter (\<lambda>(x, n). n = Dir) entries) []) y =
    (if (y, Dir) \<in> set entries then Some (g y) else None)"
proof -
  let ?dirs = "filter (\<lambda>(x, n). n = Dir) entries"
  have "distinct (map fst ?dirs)" using assms by (simp add: distinct_map_filter)
  note fill = fold_update_map [OF this, of "\<lambda>e. g (fst e)" "[]" y]
  show ?thesis
  proof (cases "find (\<lambda>e. fst e = y) ?dirs")
    case None
    then have "(y, Dir) \<notin> set entries" by (auto simp: find_None_iff)
    then show ?thesis using fill None by simp
  next
    case (Some e)
    then have "e \<in> set ?dirs" "fst e = y" by (metis (mono_tags, lifting) find_Some_iff nth_mem)+
    then show ?thesis using Some fill by auto
  qed
qed

definition loaded :: "os \<Rightarrow> path \<Rightarrow> content disk \<Rightarrow> string \<Rightarrow> string \<Rightarrow> container" where
  "loaded os root d a c = (case loadContainer os root a c d of Inr x \<Rightarrow> x | Inl _ \<Rightarrow> undefined)"

lemma mkdirs_there: "\<forall>p \<in> set ps. map_of d p = Some Dir \<Longrightarrow> mkdirs os ps d = (None, d)"
  by (induction ps) auto

lemma mkdirAll_root:
  assumes "rooted root d"
  shows "mkdirAll os root d = (None, d)"
proof -
  have "map_of d p = Some Dir" if "p \<in> set (waypoints root)" for p
    using that assms tree_above [of d root Dir p] by (cases "p = root") (auto simp: waypoints_above rooted_def)
  then show ?thesis by (simp add: mkdirAll_def mkdirs_there)
qed

lemma load_store:
  assumes inv: "blob_inv s" and os: "healthy os"
    and names: "\<forall>k cont. lookup2 (bs_accounts s) k = Some cont \<longrightarrow> text_names cont"
  obtains s' where "newStore os (bs_root s) (bs_disk s) = Inr s'" and "bs_root s' = bs_root s"
    and "bs_disk s' = bs_disk s" and "nested_ok (bs_accounts s')"
    and "\<And>k. rel_option (reloads (container_view s k)) (lookup2 (bs_accounts s) k) (lookup2 (bs_accounts s') k)"
proof -
  let ?root = "bs_root s" and ?d = "bs_disk s"
  let ?v = "view ?root ?d"
  have rooted: "rooted ?root ?d" using inv by (simp add: blob_inv_def)
  have found: "loadContainer os ?root a c ?d = Inr (loaded os ?root ?d a c) \<and>
      reloads (container_view s (a, c)) cont (loaded os ?root ?d a c)"
    if "lookup2 (bs_accounts s) (a, c) = Some cont" for a c cont
  proof -
    have ok: "plainName a" "plainName c" "container_ok (view (?root @ [a, c]) ?d) c cont"
      using inv that by (auto simp: blob_inv_def container_view_def)
    show ?thesis
      using load_container [OF os ok(1, 2) container_rooted [OF inv that] ok(3)] names that
      by (metis (no_types, lifting) container_view_def loaded_def old.prod.case sum.case(2))
  qed
  have dir: "?v [a, c] = Some Dir \<longleftrightarrow> lookup2 (bs_accounts s) (a, c) \<noteq> None" for a c
    using inv by (auto simp: blob_inv_def)
  define children where "children xs = (case readDir os (?root @ xs) ?d of Inr es \<Rightarrow> es | Inl _ \<Rightarrow> [])" for xs
  have children: "readDir os (?root @ xs) ?d = Inr (children xs)" "distinct (map fst (children xs))"
      "(x, n) \<in> set (children xs) \<longleftrightarrow> ?v (xs @ [x]) = Some n" if "?v xs = Some Dir" for xs x n
    using readDir_healthy [OF os rooted that] unfolding children_def
    by (metis sum.case(2))+
  have top: "?v [] = Some Dir" by (rule rooted_view [OF rooted])
  define acct where "acct a = fold (\<lambda>e. AList.update (fst e) (loaded os ?root ?d a (fst e)))
    (filter (\<lambda>(x, n). n = Dir) (children [a])) []" for a
  have account: "and_then (readDir os (accountDir ?root a) ?d) (\<lambda>conts. loadContainers os ?root a ?d conts []) = Inr (acct a)"
      "map_of (acct a) c = map_option (\<lambda>_. loaded os ?root ?d a c) (lookup2 (bs_accounts s) (a, c))" "distinct_keys (acct a)"
    if "?v [a] = Some Dir" for a c
  proof -
    have plain: "plainName a" using inv that by (auto simp: blob_inv_def)
    have "\<forall>(x, n) \<in> set (children [a]). n = Dir \<longrightarrow> loadContainer os ?root a x ?d = Inr (loaded os ?root ?d a x)"
      using children(3) [OF that] dir found by fastforce
    from loadContainers_ok [OF this]
    show "and_then (readDir os (accountDir ?root a) ?d) (\<lambda>conts. loadContainers os ?root a ?d conts []) = Inr (acct a)"
      using children(1) [OF that] plain by (simp add: accountDir_def acct_def)
    show "map_of (acct a) c = map_option (\<lambda>_. loaded os ?root ?d a c) (lookup2 (bs_accounts s) (a, c))"
      using fold_dirs [OF children(2) [OF that], of "loaded os ?root ?d a" c] children(3) [OF that, of c Dir] dir [of a c]
      by (cases "lookup2 (bs_accounts s) (a, c)") (auto simp: acct_def)
    show "distinct_keys (acct a)" unfolding acct_def by (rule fold_update_keys) simp
  qed
  let ?accts = "fold (\<lambda>e. AList.update (fst e) (acct (fst e))) (filter (\<lambda>(x, n). n = Dir) (children [])) []"
  have "\<forall>(x, n) \<in> set (children []). n = Dir \<longrightarrow>
      and_then (readDir os (accountDir ?root x) ?d) (\<lambda>conts. loadContainers os ?root x ?d conts []) = Inr (acct x)"
    using children(3) [OF top] account(1) by fastforce
  from loadAccounts_ok [OF this]
  have "loadStore os ?root ?d = Inr ?accts" using children(1) [OF top] by (simp add: loadStore_def)
  then have new: "newStore os ?root ?d = Inr \<lparr>bs_root = ?root, bs_accounts = ?accts, bs_disk = ?d\<rparr>"
    by (simp add: newStore_def mkdirAll_root [OF rooted])
  have outer: "map_of ?accts a = (if ?v [a] = Some Dir then Some (acct a) else None)" for a
    using fold_dirs [OF children(2) [OF top], of acct a] children(3) [OF top, of a Dir] by simp
  have account_dir: "?v [a] = Some Dir" if "lookup2 (bs_accounts s) (a, c) \<noteq> None" for a c
    using dir [of a c] that view_parent [OF rooted, of "[a]" c] by simp
  have look: "lookup2 ?accts (a, c) = map_option (\<lambda>_. loaded os ?root ?d a c) (lookup2 (bs_accounts s) (a, c))" for a c
  proof -
    have "lookup2 ?accts (a, c) = (if ?v [a] = Some Dir then map_of (acct a) c else None)"
      using outer [of a] by (simp add: lookup2_def [of ?accts] inner_def)
    then show ?thesis using account(2) [of a c] account_dir [of a c] by (cases "lookup2 (bs_accounts s) (a, c)"; cases "?v [a] = Some Dir") simp_all
  qed
  have "nested_ok ?accts"
    using outer account(3) fold_update_keys [of "[]" fst "\<lambda>e. acct (fst e)"] by (auto simp: nested_ok_def inner_def)
  moreover have "rel_option (reloads (container_view s k)) (lookup2 (bs_accounts s) k) (lookup2 ?accts k)" for k
    using found look by (cases k; cases "lookup2 (bs_accounts s) k") auto
  ultimately show thesis by (intro that [OF new]) simp_all
qed

section \<open>What comes back\<close>

definition restarted :: "acontainer \<Rightarrow> acontainer" where
  "restarted t = t\<lparr>a_info := jsonContainer (a_info t),
     a_blobs := (\<lambda>n. case a_blobs t n of Some (Committed i b) \<Rightarrow> Some (Committed (jsonBlob i) b) | _ \<Rightarrow> None)\<rparr>"

lemma jsonContainer_idem [simp]: "jsonContainer (jsonContainer i) = jsonContainer i"
  by (simp add: jsonContainer_def)

lemma jsonBlob_idem [simp]: "jsonBlob (jsonBlob i) = jsonBlob i"
  by (simp add: jsonBlob_def jsonProps_def)

lemma json_fields [simp]:
  "ci_name (jsonContainer ci) = jsonString (ci_name ci)" "bi_name (jsonBlob i) = jsonString (bi_name i)"
  "bi_contentLength (jsonBlob i) = bi_contentLength i"
  by (simp_all add: jsonContainer_def jsonBlob_def)

lemma reloads_ok:
  assumes ok: "container_ok w c cont" and names: "text_names cont" and r: "reloads w cont cont'"
  shows "container_ok w c cont' \<and> abs_container w cont' = restarted (abs_container w cont)"
proof
  have blob: "blob_ok w c n (map_of (c_blobs cont) n)" if "n \<noteq> []" for n
    using ok that by (simp add: container_ok_def)
  have "blob_ok w c n (map_of (c_blobs cont') n)" if n: "n \<noteq> []" for n
  proof -
    have "jsonString n = n" if "map_of (c_blobs cont) n \<noteq> None" using names that by (simp add: text_names_def)
    then show ?thesis using r n blob [OF n] by (auto simp: blob_ok_def reloads_def)
  qed
  then show "container_ok w c cont'"
    using ok r names unfolding container_ok_def reloads_def text_names_def by auto
  have "a_blobs (abs_container w cont') n = a_blobs (restarted (abs_container w cont)) n" for n
  proof (cases "n = []")
    case True
    then show ?thesis using ok r by (simp add: container_ok_def reloads_def abs_container_def restarted_def)
  next
    case False
    then show ?thesis
      using r blob [OF False] by (auto simp: blob_ok_def reloads_def abs_container_def restarted_def payloadAt_def)
  qed
  then show "abs_container w cont' = restarted (abs_container w cont)"
    using r by (auto simp: abs_container_def restarted_def reloads_def)
qed

definition json_names :: "blob_store \<Rightarrow> bool" where
  "json_names s \<longleftrightarrow> (\<forall>k t. blob_abs s k = Some t \<longrightarrow> jsonString (ci_name (a_info t)) = ci_name (a_info t) \<and>
     (\<forall>n. a_blobs t n \<noteq> None \<longrightarrow> jsonString n = n))"

lemma json_names_text:
  assumes "json_names s" and "lookup2 (bs_accounts s) k = Some cont"
  shows "text_names cont"
proof -
  let ?t = "abs_container (container_view s k) cont"
  have "blob_abs s k = Some ?t" using assms(2) by (simp add: blob_abs_def)
  then have "jsonString (ci_name (a_info ?t)) = ci_name (a_info ?t)" "\<forall>n. a_blobs ?t n \<noteq> None \<longrightarrow> jsonString n = n"
    using assms(1) unfolding json_names_def by blast+
  then show ?thesis by (simp add: text_names_def abs_container_def)
qed



section \<open>A creation that fails halfway\<close>

lemma loadContainers_fail:
  "(x, Dir) \<in> set entries \<Longrightarrow> loadContainer os root a x d = Inl e \<Longrightarrow>
     \<exists>e. loadContainers os root a d entries cs = Inl e"
  by (induction entries arbitrary: cs) (auto simp: and_then_def split: sum.split)

lemma loadAccounts_fail:
  "(x, Dir) \<in> set entries \<Longrightarrow>
     and_then (readDir os (accountDir root x) d) (\<lambda>conts. loadContainers os root x d conts []) = Inl e \<Longrightarrow>
     \<exists>e. loadAccounts os root d entries accts = Inl e"
  by (induction entries arbitrary: accts) (auto simp: and_then_def split: sum.splits)

text \<open>A directory where a container would be, without its metadata file, makes \<open>New\<close> fail.\<close>

lemma unreadable_container:
  assumes "healthy os" and "rooted root d" and "plainName a" and "plainName c"
    and "view root d [a, c] = Some Dir" and "view root d [a, c, containerMetaFile] = None"
  shows "\<exists>e. newStore os root d = Inl e"
proof -
  have above: "view root d [a] = Some Dir" using view_parent [OF assms(2), of "[a]" c] assms(5) by simp
  have dir: "containerDir root a c = root @ [a, c]" using assms(3, 4) by (simp add: containerDir_def accountDir_def)
  have "openFile os (root @ [a, c, containerMetaFile]) d = Inl (os_text os OsOpen (root @ [a, c, containerMetaFile]))"
    using openFile_healthy [OF assms(1, 2), of "[a, c, containerMetaFile]"] assms(6) by simp
  then obtain e where e: "loadContainer os root a c d = Inl e"
    by (simp add: loadContainer_def Let_def dir readContainerMeta_def readFile_def)
  obtain conts where conts: "readDir os (root @ [a]) d = Inr conts" "(c, Dir) \<in> set conts"
    using readDir_healthy [OF assms(1, 2) above] assms(5) by (metis append_Cons append_Nil)
  obtain e' where "loadContainers os root a d conts [] = Inl e'"
    using loadContainers_fail [OF conts(2) e] by blast
  then have fails: "and_then (readDir os (accountDir root a) d) (\<lambda>conts. loadContainers os root a d conts []) = Inl e'"
    using conts(1) assms(3) by (simp add: accountDir_def)
  obtain entries where "readDir os root d = Inr entries" "(a, Dir) \<in> set entries"
    using readDir_healthy [OF assms(1, 2) rooted_view [OF assms(2)]] above by (metis append_Nil append_Nil2)
  moreover from this obtain e'' where "loadAccounts os root d entries [] = Inl e''"
    using loadAccounts_fail [OF _ fails] by blast
  ultimately show ?thesis by (simp add: newStore_def mkdirAll_root [OF assms(2)] loadStore_def)
qed

lemma writeAtomic_fails:
  assumes "\<exists>call \<in> {OsCreate, OsWrite, OsSync, OsClose, OsRename}. os_fails os call p"
  shows "\<exists>e. writeAtomic os p c d = (Some e, d)"
  using assms by (auto simp: writeAtomic_def createBeside_def firstFailure_def renameOnto_def split: option.splits)

text \<open>Creating a container whose metadata file cannot be written (a full disk, or a crash at that
  point) answers with an error but leaves its directory behind, and from then on the store cannot be
  opened: every start of the emulator on that data directory fails.\<close>

lemma failed_create_blocks_restart:
  assumes "blob_inv s" and "plainName a" and "plainName c" and "CHR ''.'' \<notin> set c"
    and "lookup2 (bs_accounts s) (a, c) = None" and "mkdir_free (be_os env)"
    and "\<exists>call \<in> {OsCreate, OsWrite, OsSync, OsClose, OsRename}.
      os_fails (be_os env) call (bs_root s @ [a, c, containerMetaFile])"
    and "createContainer env a c md s = (r, s')" and "healthy os"
  shows "(\<exists>e. r = Inl (ErrOther e)) \<and> lookup2 (bs_accounts s') (a, c) = None \<and>
    (\<exists>e. newStore os (bs_root s') (bs_disk s') = Inl e)"
proof -
  let ?root = "bs_root s" and ?s1 = "getAccount a s" and ?i = "madeContainer c (be_now env) md"
  have same: "bs_root ?s1 = ?root" "bs_disk ?s1 = bs_disk s" "lookup2 (bs_accounts ?s1) = lookup2 (bs_accounts s)"
    by (auto simp: getAccount_def lookup2_def inner_def store_simps fun_eq_iff split: option.split)
  have seek: "map_of (inner a (bs_accounts ?s1)) c = None" using same(3) assms(5) by (simp add: lookup2_def fun_eq_iff)
  obtain d where d: "mkdirAll (be_os env) (?root @ [a, c]) (bs_disk s) = (None, d)" "rooted ?root d"
      "view ?root d [a, c] = Some Dir" "view ?root d [a, c, containerMetaFile] = None"
    by (rule new_container_dir [OF assms(1-6)]) blast
  have dir: "containerDir ?root a c = ?root @ [a, c]" using assms(2, 3) by (simp add: containerDir_def accountDir_def)
  obtain e where "writeAtomic (be_os env) (?root @ [a, c, containerMetaFile]) (ContainerJSON (jsonContainer ?i)) d = (Some e, d)"
    using writeAtomic_fails [OF assms(7), of "ContainerJSON (jsonContainer ?i)" d] by blast
  then have "persistContainer (be_os env) ?root a ?i (bs_disk s) = (Some e, d)"
    using d(1) by (simp add: persistContainer_def madeContainer_def dir)
  then have "createContainer env a c md s = (Inl (ErrOther e), onDisk d ?s1)"
    unfolding createContainer_def Let_def seek same cloneMeta_def madeContainer_def by simp
  then show ?thesis
    using assms(5, 8) same unreadable_container [OF assms(9) d(2) assms(2, 3) d(3, 4)] by (auto simp: onDisk_def)
qed

text \<open>A disk that takes directories but no bytes.\<close>

definition full_os :: os where
  "full_os = quiet_os\<lparr>os_fails := (\<lambda>call p. call = OsWrite)\<rparr>"

lemma failed_create_blocks_restart_witness:
  "\<exists>e s'. createContainer \<lparr>be_now = 1, be_os = full_os\<rparr> ''acct'' ''logs'' [] (fresh_store [''data'']) = (Inl (ErrOther e), s') \<and>
     (\<exists>e. newStore quiet_os (bs_root s') (bs_disk s') = Inl e)"
proof -
  let ?env = "\<lparr>be_now = 1, be_os = full_os\<rparr>"
  obtain r s' where made: "createContainer ?env ''acct'' ''logs'' [] (fresh_store [''data'']) = (r, s')" by fastforce
  have "mkdir_free (be_os ?env)" "os_fails (be_os ?env) OsWrite p" "healthy quiet_os" for p
    by (simp_all add: mkdir_free_def full_os_def quiet_os_def healthy_def)
  moreover have "plainName ''acct''" "plainName ''logs''" "CHR ''.'' \<notin> set ''logs''"
      "lookup2 (bs_accounts (fresh_store [''data''])) (''acct'', ''logs'') = None"
    by (simp_all add: plainName_def fresh_store_def lookup2_def)
  ultimately show ?thesis
    using failed_create_blocks_restart [OF fresh_inv _ _ _ _ _ _ made, of quiet_os] made by blast
qed

end
