(* ===== verification/Go_Quote.thy ===== *)
theory Go_Quote
  imports Go_Encoding Go_Strings
begin

text \<open>
  What messages use of \<open>fmt\<close> and \<open>strings\<close>: \<open>%q\<close>, which puts a string between quotes with escapes for
  what is not printable (\<open>printable\<close> is \<open>unicode.IsPrint\<close> beyond ASCII), and \<open>strings.Fields\<close>.
\<close>

definition hexDigits :: "nat \<Rightarrow> nat \<Rightarrow> string" where
  "hexDigits w n = map (\<lambda>i. hexChar (n div 16 ^ (w - 1 - i) mod 16)) [0..<w]"

definition quoteRune :: "(nat \<Rightarrow> bool) \<Rightarrow> nat \<Rightarrow> string" where
  "quoteRune printable r =
     (if r = 34 \<or> r = 92 then [CHR 92, char_of r]
      else if 32 \<le> r \<and> r < 127 \<or> 128 \<le> r \<and> printable r then encodeRune r
      else case map_of (zip [7, 8, 12, 10, 13, 9, 11] ''abfnrtv'') r of
             Some c \<Rightarrow> [CHR 92, c]
           | None \<Rightarrow>
               if r < 32 \<or> r = 127 then CHR 92 # CHR ''x'' # hexDigits 2 r
               else if r < 65536 then CHR 92 # CHR ''u'' # hexDigits 4 r
               else CHR 92 # CHR ''U'' # hexDigits 8 r)"

function quoteBody :: "(nat \<Rightarrow> bool) \<Rightarrow> string \<Rightarrow> string" where
  "quoteBody printable s =
     (case s of
        [] \<Rightarrow> []
      | c # _ \<Rightarrow>
          (case decodeRune s of (r, w) \<Rightarrow>
             (if r = runeError \<and> w = 1 then CHR 92 # CHR ''x'' # hexDigits 2 (of_char c) else quoteRune printable r) @
             quoteBody printable (drop (max 1 w) s)))"
  by pat_completeness auto
termination
  by (relation "measure (\<lambda>(_, s). length s)") auto

declare quoteBody.simps [simp del]

definition quoted :: "(nat \<Rightarrow> bool) \<Rightarrow> string \<Rightarrow> string" where
  "quoted printable s = [CHR 34] @ quoteBody printable s @ [CHR 34]"

text \<open>\<open>strings.Fields\<close>: \<open>cur\<close> is the field so far. No code of a space can start inside another rune.\<close>

function fieldsFrom :: "string \<Rightarrow> string \<Rightarrow> string list" where
  "fieldsFrom cur s =
     (case s of
        [] \<Rightarrow> if cur = [] then [] else [cur]
      | c # r \<Rightarrow>
          (case find (\<lambda>e. e \<noteq> [] \<and> hasPrefix s e) spaceCodes of
             Some e \<Rightarrow> (if cur = [] then [] else [cur]) @ fieldsFrom [] (drop (length e) s)
           | None \<Rightarrow> fieldsFrom (cur @ [c]) r))"
  by pat_completeness auto
termination
  by (relation "measure (\<lambda>(_, s). length s)") (auto dest!: find_code_shorter)

declare fieldsFrom.simps [simp del]

definition fieldsOf :: "string \<Rightarrow> string list" where
  "fieldsOf s = fieldsFrom [] s"

end
