(* ===== verification/Blob_Server.thy ===== *)
theory Blob_Server
  imports Blob_Restart Http Go_Quote
begin

text \<open>
  The HTTP surface of the Blob service, \<open>internal/servers/blobserver\<close>: routing, container names and
  metadata headers, uploads and downloads with ranges, block lists, and the XML of listings and errors.
  A request body is both the bytes that can be read from it, which may break off with an error, and the
  XML tokens that parsing those bytes yields; a handler uses one of the two. A response body is XML or
  the bytes of a blob. \<open>env\<close> is what a request draws: clock and operating system of the store's
  operation, clock and identifier of the response headers.
\<close>

datatype xml_token = StartElement string | CharData string | EndElement string | OtherToken

text \<open>The tokens end with the document, or with an error.\<close>

record upload =
  up_raw :: reader
  up_tokens :: "xml_token list"
  up_malformed :: bool

type_synonym blob_request = "upload request"

datatype blob_body = XmlBody xml | RawBody bytes

record blob_http = surroundings +
  bh_env :: blob_env
  bh_printable :: "nat \<Rightarrow> bool"

type_synonym blob_response = "blob_body response"
type_synonym blob_reply = "blob_response \<times> blob_store"

definition noUpload :: upload where
  "noUpload = \<lparr>up_raw = ([], None), up_tokens = [], up_malformed = False\<rparr>"

text \<open>The server hands the body on as it is; one that cannot be read breaks off at once.\<close>

definition uploadOf :: "blob_request \<Rightarrow> upload" where
  "uploadOf r = (case rq_body r of
       Body u \<Rightarrow> u
     | BodyError e \<Rightarrow> noUpload\<lparr>up_raw := ([], Some e), up_malformed := True\<rparr>
     | _ \<Rightarrow> noUpload)"

section \<open>Headers, errors\<close>

definition apiVersion :: string where "apiVersion = ''2021-08-06''"

definition commonHeaders :: "blob_http \<Rightarrow> header_list" where
  "commonHeaders env =
     setHeader ''Date'' (formatHTTP (now_http env))
       (setHeader ''x-ms-request-id'' (newRequestID (request_id env))
         (setHeader ''x-ms-version'' apiVersion (setHeader ''Server'' ''localaz'' [])))"

definition respond :: "blob_http \<Rightarrow> int \<Rightarrow> header_list \<Rightarrow> blob_body option \<Rightarrow> blob_response" where
  "respond env status hs b = \<lparr>rs_status = status, rs_headers = fold (\<lambda>(k, v). setHeader k v) hs (commonHeaders env),
     rs_body = b\<rparr>"

definition azureError :: "blob_http \<Rightarrow> blob_request \<Rightarrow> azure_error \<Rightarrow> blob_response" where
  "azureError env r e =
     respond env (ae_status e) [(''x-ms-error-code'', ae_code e), (''Content-Type'', ''application/xml'')]
       (if rq_method r \<noteq> ''HEAD'' then Some (XmlBody (azErrorXML e)) else None)"

definition storeError :: "blob_error \<Rightarrow> azure_error" where
  "storeError e = (case e of
       ErrContainerNotFound \<Rightarrow> containerNotFound
     | ErrContainerExists \<Rightarrow> containerAlreadyExists
     | ErrBlobNotFound \<Rightarrow> blobNotFound
     | ErrInvalidBlockList \<Rightarrow> invalidBlockList
     | ErrOther m \<Rightarrow> internalError m)"

definition methodNotAllowed :: azure_error where
  "methodNotAllowed = azError 405 codeUnsupportedHeader ''The HTTP method is not supported for this resource.''"

definition notImplemented :: azure_error where
  "notImplemented = azError 501 codeUnsupportedHeader ''The requested operation is not yet implemented by the emulator.''"

definition serviceEndpoint :: "blob_request \<Rightarrow> string \<Rightarrow> string" where
  "serviceEndpoint r account = scheme r @ ''://'' @ rq_host r @ ''/'' @ account"

definition xmlResponse :: "blob_http \<Rightarrow> xml \<Rightarrow> blob_response" where
  "xmlResponse env x = respond env 200 [(''Content-Type'', ''application/xml'')] (Some (XmlBody x))"

definition getServiceProperties :: "blob_http \<Rightarrow> blob_response" where
  "getServiceProperties env =
     xmlResponse env (Element ''StorageServiceProperties'' [] [leaf ''DefaultServiceVersion'' apiVersion])"

section \<open>Metadata and names\<close>

definition metaPrefix :: string where "metaPrefix = ''X-Ms-Meta-''"

definition readMetadata :: "(string \<times> string list) list \<Rightarrow> metadata" where
  "readMetadata hs =
     fold (\<lambda>(k, vals) meta.
        if length metaPrefix < length k \<and> equalFold (take (length metaPrefix) k) metaPrefix
        then AList.update (toLower (drop (length metaPrefix) k)) (joinWith '','' vals) meta else meta) hs []"

definition writeMetadata :: "metadata \<Rightarrow> header_list" where
  "writeMetadata meta = map (\<lambda>(k, v). (''x-ms-meta-'' @ k, v)) meta"

fun containerNameChars :: "bool \<Rightarrow> string \<Rightarrow> bool" where
  "containerNameChars prev [] = True"
| "containerNameChars prev (c # s) =
     (let n = (of_char c :: nat) in
      if 97 \<le> n \<and> n \<le> 122 \<or> 48 \<le> n \<and> n \<le> 57 then containerNameChars False s
      else if c = CHR ''-'' then \<not> prev \<and> containerNameChars True s
      else False)"

definition validContainerName :: "string \<Rightarrow> bool" where
  "validContainerName name =
     (\<not> (length name < 3 \<or> 63 < length name) \<and>
      \<not> (name ! 0 = CHR ''-'' \<or> name ! (length name - 1) = CHR ''-'') \<and> containerNameChars False name)"

section \<open>Listings\<close>

text \<open>\<open>strconv.Atoi\<close> with its error ignored: 0 for what is no number, the nearest integer for one out of
  range. Scanning stops at the digit that leaves the unsigned range.\<close>

fun scanDigits :: "int \<Rightarrow> string \<Rightarrow> int option" where
  "scanDigits n [] = Some n"
| "scanDigits n (c # s) =
     (if \<not> isDigit c then None
      else let m = n * 10 + (of_char c - 48) in
        if 2 ^ 64 \<le> m then Some (2 ^ 64) else scanDigits m s)"

definition atoiIgnoring :: "string \<Rightarrow> int" where
  "atoiIgnoring s =
     (let (neg, ds) = (case s of
            [] \<Rightarrow> (False, [])
          | c # cs \<Rightarrow> if c = CHR ''-'' then (True, cs) else if c = CHR ''+'' then (False, cs) else (False, s))
      in if ds = [] then 0
         else case scanDigits 0 ds of
                None \<Rightarrow> 0
              | Some n \<Rightarrow> if neg then max minInt (- n) else min maxInt n)"

definition integerLeaf :: "string \<Rightarrow> int \<Rightarrow> xml list" where
  "integerLeaf tag n = (if n = 0 then [] else [leaf tag (itoa n)])"

definition xmlContainer :: "containerInfo \<Rightarrow> xml" where
  "xmlContainer c = Element ''Container'' []
     [leaf ''Name'' (ci_name c),
      Element ''Properties'' [] [leaf ''Last-Modified'' (formatHTTP (ci_lastModified c)), leaf ''Etag'' (ci_etag c),
        leaf ''LeaseStatus'' ''unlocked'', leaf ''LeaseState'' ''available'']]"

definition marshalContainers :: "string \<Rightarrow> string \<Rightarrow> string \<Rightarrow> int \<Rightarrow> containerInfo list \<Rightarrow> string \<Rightarrow> xml" where
  "marshalContainers endpoint prefix marker maxResults items nextMarker =
     Element ''EnumerationResults'' [(''ServiceEndpoint'', endpoint)]
       (optionalLeaf ''Prefix'' prefix @ optionalLeaf ''Marker'' marker @ integerLeaf ''MaxResults'' maxResults @
        [Element ''Containers'' [] (map xmlContainer items), leaf ''NextMarker'' nextMarker])"

definition contentTypeOr :: "string \<Rightarrow> string" where
  "contentTypeOr ct = (if ct = [] then ''application/octet-stream'' else ct)"

definition xmlBlob :: "blobInfo \<Rightarrow> xml" where
  "xmlBlob b = Element ''Blob'' []
     [leaf ''Name'' (bi_name b),
      Element ''Properties'' []
        [leaf ''Last-Modified'' (formatHTTP (bi_lastModified b)), leaf ''Etag'' (bi_etag b),
         leaf ''Content-Length'' (itoa (bi_contentLength b)),
         leaf ''Content-Type'' (contentTypeOr (bp_contentType (bi_props b))), leaf ''BlobType'' (bi_blobType b),
         leaf ''LeaseStatus'' ''unlocked'', leaf ''LeaseState'' ''available'', leaf ''ServerEncrypted'' ''true'']]"

definition xmlBlobPrefix :: "string \<Rightarrow> xml" where
  "xmlBlobPrefix p = Element ''BlobPrefix'' [] [leaf ''Name'' p]"

definition marshalBlobs :: "string \<Rightarrow> string \<Rightarrow> string \<Rightarrow> string \<Rightarrow> string \<Rightarrow> int \<Rightarrow> blobInfo list \<Rightarrow> string list
    \<Rightarrow> string \<Rightarrow> xml" where
  "marshalBlobs endpoint containerName prefix delimiter marker maxResults blobs prefixes nextMarker =
     Element ''EnumerationResults'' [(''ServiceEndpoint'', endpoint), (''ContainerName'', containerName)]
       ([leaf ''Prefix'' prefix, leaf ''Marker'' marker] @ integerLeaf ''MaxResults'' maxResults @
        optionalLeaf ''Delimiter'' delimiter @
        [Element ''Blobs'' [] (map xmlBlob blobs @ map xmlBlobPrefix prefixes), leaf ''NextMarker'' nextMarker])"

definition handleListContainers :: "blob_http \<Rightarrow> blob_request \<Rightarrow> string \<Rightarrow> blob_store \<Rightarrow> blob_response" where
  "handleListContainers env r account s =
     (let prefix = queryGet r ''prefix''; marker = queryGet r ''marker'';
          maxResults = atoiIgnoring (queryGet r ''maxresults'')
      in case listContainers account prefix maxResults marker s of
           (items, nextMarker) \<Rightarrow>
             xmlResponse env (marshalContainers (serviceEndpoint r account) prefix marker maxResults items nextMarker))"

definition handleListBlobs :: "blob_http \<Rightarrow> blob_request \<Rightarrow> string \<Rightarrow> string \<Rightarrow> blob_store \<Rightarrow> blob_response" where
  "handleListBlobs env r account cname s =
     (let prefix = queryGet r ''prefix''; delimiter = queryGet r ''delimiter''; marker = queryGet r ''marker'';
          maxResults = atoiIgnoring (queryGet r ''maxresults'')
      in case listBlobs account cname prefix delimiter maxResults marker s of
           Inl e \<Rightarrow> azureError env r (storeError e)
         | Inr page \<Rightarrow>
             xmlResponse env (marshalBlobs (serviceEndpoint r account) cname prefix delimiter marker maxResults
               (pg_blobs page) (pg_prefixes page) (pg_next page)))"

section \<open>Containers\<close>

definition handleCreateContainer :: "blob_http \<Rightarrow> blob_request \<Rightarrow> string \<Rightarrow> string \<Rightarrow> blob_store \<Rightarrow> blob_reply" where
  "handleCreateContainer env r account cname s =
     (if \<not> validContainerName cname then (azureError env r invalidResourceName, s)
      else case createContainer (bh_env env) account cname (readMetadata (rq_headers r)) s of
             (Inl e, s1) \<Rightarrow> (azureError env r (storeError e), s1)
           | (Inr info, s1) \<Rightarrow>
               (respond env 201 [(''ETag'', ci_etag info), (''Last-Modified'', formatHTTP (ci_lastModified info))] None, s1))"

definition handleDeleteContainer :: "blob_http \<Rightarrow> blob_request \<Rightarrow> string \<Rightarrow> string \<Rightarrow> blob_store \<Rightarrow> blob_reply" where
  "handleDeleteContainer env r account cname s =
     (case deleteContainer (bh_env env) account cname s of
        (Some e, s1) \<Rightarrow> (azureError env r (storeError e), s1)
      | (None, s1) \<Rightarrow> (respond env 202 [] None, s1))"

definition getContainerProperties :: "blob_http \<Rightarrow> blob_request \<Rightarrow> string \<Rightarrow> string \<Rightarrow> blob_store \<Rightarrow> blob_response" where
  "getContainerProperties env r account cname s =
     (case getContainer account cname s of
        Inl e \<Rightarrow> azureError env r (storeError e)
      | Inr info \<Rightarrow>
          respond env 200
            ([(''ETag'', ci_etag info), (''Last-Modified'', formatHTTP (ci_lastModified info)),
              (''x-ms-lease-status'', ''unlocked''), (''x-ms-lease-state'', ''available''),
              (''x-ms-has-immutability-policy'', ''false''), (''x-ms-has-legal-hold'', ''false'')] @
             writeMetadata (ci_metadata info)) None)"

section \<open>Uploads\<close>

definition maxBlobBytes :: int where "maxBlobBytes = 5 * 2 ^ 30"

text \<open>\<open>io.LimitReader\<close>: end of file after so many bytes.\<close>

definition limitReader :: "reader \<Rightarrow> reader" where
  "limitReader src = (case src of (b, err) \<Rightarrow>
     if int (length b) < maxBlobBytes then (b, err) else (take (nat maxBlobBytes) b, None))"

definition readBlobProps :: "blob_request \<Rightarrow> blobProps" where
  "readBlobProps r =
     (let ct = headerGet r ''X-Ms-Blob-Content-Type'' in
      \<lparr>bp_contentType = (if ct = [] then headerGet r ''Content-Type'' else ct),
       bp_contentEncoding = headerGet r ''X-Ms-Blob-Content-Encoding'',
       bp_contentLanguage = headerGet r ''X-Ms-Blob-Content-Language'',
       bp_contentDisposition = headerGet r ''X-Ms-Blob-Content-Disposition'',
       bp_cacheControl = headerGet r ''X-Ms-Blob-Cache-Control'',
       bp_contentMD5 = [], bp_metadata = readMetadata (rq_headers r)\<rparr>)"

definition base64MD5 :: "bytes \<Rightarrow> string" where
  "base64MD5 d = (if d = [] then [] else stdEncode d)"

definition unsupportedBlobType :: "blob_http \<Rightarrow> string \<Rightarrow> azure_error" where
  "unsupportedBlobType env bt = azError 400 codeUnsupportedHeader
     (''Blob type '' @ quoted (bh_printable env) bt @ '' is not supported by the emulator.'')"

definition handlePutBlob :: "blob_http \<Rightarrow> blob_request \<Rightarrow> string \<Rightarrow> string \<Rightarrow> string \<Rightarrow> blob_store \<Rightarrow> blob_reply" where
  "handlePutBlob env r account cname name s =
     (let bt = headerGet r ''X-Ms-Blob-Type'' in
      if bt \<noteq> [] \<and> bt \<noteq> ''BlockBlob'' then (azureError env r (unsupportedBlobType env bt), s)
      else case putBlob (bh_env env) account cname name (limitReader (up_raw (uploadOf r))) (readBlobProps r) s of
             (Inl e, s1) \<Rightarrow> (azureError env r (storeError e), s1)
           | (Inr info, s1) \<Rightarrow>
               (respond env 201
                  [(''ETag'', bi_etag info), (''Last-Modified'', formatHTTP (bi_lastModified info)),
                   (''Content-MD5'', base64MD5 (bp_contentMD5 (bi_props info))),
                   (''x-ms-request-server-encrypted'', ''true'')] None, s1))"

definition putBlock :: "blob_http \<Rightarrow> blob_request \<Rightarrow> string \<Rightarrow> string \<Rightarrow> string \<Rightarrow> blob_store \<Rightarrow> blob_reply" where
  "putBlock env r account cname name s =
     (let blockID = queryGet r ''blockid''; src = limitReader (up_raw (uploadOf r)) in
      if blockID = []
      then (azureError env r (azError 400 codeInvalidQueryParameter ''blockid is required for Put Block.''), s)
      else case stageBlock (bh_env env) account cname name blockID src s of
             (Some e, s1) \<Rightarrow> (azureError env r (storeError e), s1)
           | (None, s1) \<Rightarrow>
               (respond env 201 [(''Content-MD5'', base64MD5 (md5 (fst src))), (''x-ms-request-server-encrypted'', ''true'')]
                  None, s1))"

text \<open>The loop of \<open>parseBlockList\<close>: the identifiers so far, whether text is collected, and the text.\<close>

definition blockTag :: "string \<Rightarrow> bool" where
  "blockTag t \<longleftrightarrow> t = ''Latest'' \<or> t = ''Committed'' \<or> t = ''Uncommitted''"

fun blockIDs :: "string list \<Rightarrow> bool \<Rightarrow> string \<Rightarrow> xml_token list \<Rightarrow> string list" where
  "blockIDs ids capture current [] = ids"
| "blockIDs ids capture current (StartElement t # ts) =
     (if blockTag t then blockIDs ids True [] ts else blockIDs ids capture current ts)"
| "blockIDs ids capture current (CharData t # ts) =
     blockIDs ids capture (if capture then current @ t else current) ts"
| "blockIDs ids capture current (EndElement t # ts) =
     (if blockTag t then blockIDs (ids @ [trimSpace current]) False current ts else blockIDs ids capture current ts)"
| "blockIDs ids capture current (OtherToken # ts) = blockIDs ids capture current ts"

definition parseBlockList :: "upload \<Rightarrow> string list option" where
  "parseBlockList u = (if up_malformed u then None else Some (blockIDs [] False [] (up_tokens u)))"

definition putBlockList :: "blob_http \<Rightarrow> blob_request \<Rightarrow> string \<Rightarrow> string \<Rightarrow> string \<Rightarrow> blob_store \<Rightarrow> blob_reply" where
  "putBlockList env r account cname name s =
     (case parseBlockList (uploadOf r) of
        None \<Rightarrow> (azureError env r invalidBlockList, s)
      | Some ids \<Rightarrow>
          (case commitBlockList (bh_env env) account cname name ids (readBlobProps r) s of
             (Inl e, s1) \<Rightarrow> (azureError env r (storeError e), s1)
           | (Inr info, s1) \<Rightarrow>
               (respond env 201
                  [(''ETag'', bi_etag info), (''Last-Modified'', formatHTTP (bi_lastModified info)),
                   (''x-ms-request-server-encrypted'', ''true'')] None, s1)))"

section \<open>Downloads\<close>

text \<open>The inclusive bounds of a single range. \<open>strconv.ParseInt\<close> in base 10 accepts what \<open>Atoi\<close> does.\<close>

definition parseRange :: "string \<Rightarrow> int \<Rightarrow> (int \<times> int) option" where
  "parseRange spec len =
     (if spec = [] \<or> len = 0 then None
      else let spec = trimSpace spec in
        if \<not> hasPrefix spec ''bytes='' then None
        else let spec = trimPrefix spec ''bytes='' in
          if CHR '','' \<in> set spec then None
          else case indexByte spec (CHR ''-'') of
                 None \<Rightarrow> None
               | Some dash \<Rightarrow>
                   let startStr = take dash spec; endStr = drop (dash + 1) spec in
                   if startStr = [] then
                     (case atoi endStr of
                        None \<Rightarrow> None
                      | Some n \<Rightarrow> if n \<le> 0 then None else let n = (if len < n then len else n) in Some (len - n, len - 1))
                   else case atoi startStr of
                          None \<Rightarrow> None
                        | Some first \<Rightarrow>
                            if first < 0 \<or> len \<le> first then None
                            else case (if endStr = [] then Some (len - 1) else atoi endStr) of
                                   None \<Rightarrow> None
                                 | Some lst \<Rightarrow>
                                     let lst = (if len \<le> lst then len - 1 else lst) in
                                     if lst < first then None else Some (first, lst))"

definition optionalHeader :: "string \<Rightarrow> string \<Rightarrow> header_list" where
  "optionalHeader k v = (if v = [] then [] else [(k, v)])"

definition blobHeaders :: "blobInfo \<Rightarrow> header_list" where
  "blobHeaders info =
     (let props = bi_props info in
      [(''Content-Type'', contentTypeOr (bp_contentType props)), (''ETag'', bi_etag info),
       (''Last-Modified'', formatHTTP (bi_lastModified info)), (''x-ms-blob-type'', bi_blobType info),
       (''x-ms-creation-time'', formatHTTP (bi_lastModified info)), (''x-ms-server-encrypted'', ''true''),
       (''Accept-Ranges'', ''bytes'')] @
      optionalHeader ''Content-MD5'' (base64MD5 (bp_contentMD5 props)) @
      optionalHeader ''Content-Encoding'' (bp_contentEncoding props) @
      optionalHeader ''Content-Language'' (bp_contentLanguage props) @
      optionalHeader ''Cache-Control'' (bp_cacheControl props) @
      optionalHeader ''Content-Disposition'' (bp_contentDisposition props) @
      writeMetadata (bp_metadata props))"

definition rangeHeader :: "blob_request \<Rightarrow> string" where
  "rangeHeader r = (let h = headerGet r ''X-Ms-Range'' in if h = [] then headerGet r ''Range'' else h)"

text \<open>What copying a range of the open file writes.\<close>

definition copyRange :: "int \<Rightarrow> int \<Rightarrow> bytes \<Rightarrow> bytes" where
  "copyRange first lst b = take (nat (lst - first + 1)) (drop (nat first) b)"

definition handleGetBlob ::
    "blob_http \<Rightarrow> blob_request \<Rightarrow> string \<Rightarrow> string \<Rightarrow> string \<Rightarrow> bool \<Rightarrow> blob_store \<Rightarrow> blob_response" where
  "handleGetBlob env r account cname name headOnly s =
     (case getBlob (bh_env env) account cname name s of
        Inl e \<Rightarrow> azureError env r (storeError e)
      | Inr (body, info) \<Rightarrow>
          (case parseRange (rangeHeader r) (bi_contentLength info) of
             Some (first, lst) \<Rightarrow>
               respond env 206
                 (blobHeaders info @
                  [(''Content-Range'', ''bytes '' @ itoa first @ ''-'' @ itoa lst @ ''/'' @ itoa (bi_contentLength info)),
                   (''Content-Length'', itoa (lst - first + 1))])
                 (if headOnly then None else Some (RawBody (copyRange first lst body)))
           | None \<Rightarrow>
               respond env 200 (blobHeaders info @ [(''Content-Length'', itoa (bi_contentLength info))])
                 (if headOnly then None else Some (RawBody body))))"

definition handleDeleteBlob :: "blob_http \<Rightarrow> blob_request \<Rightarrow> string \<Rightarrow> string \<Rightarrow> string \<Rightarrow> blob_store \<Rightarrow> blob_reply" where
  "handleDeleteBlob env r account cname name s =
     (case deleteBlob (bh_env env) account cname name s of
        (Some e, s1) \<Rightarrow> (azureError env r (storeError e), s1)
      | (None, s1) \<Rightarrow> (respond env 202 [] None, s1))"

section \<open>Routing\<close>

definition handleAccount :: "blob_http \<Rightarrow> blob_request \<Rightarrow> string \<Rightarrow> blob_store \<Rightarrow> blob_response" where
  "handleAccount env r account s =
     (if queryGet r ''comp'' = ''list'' then handleListContainers env r account s
      else if queryGet r ''restype'' = ''service'' \<and> queryGet r ''comp'' = ''properties'' then getServiceProperties env
      else azureError env r (azError 400 codeInvalidQueryParameter
             ''The requested account-level operation is not supported.''))"

definition handleContainer :: "blob_http \<Rightarrow> blob_request \<Rightarrow> string \<Rightarrow> string \<Rightarrow> blob_store \<Rightarrow> blob_reply" where
  "handleContainer env r account cname s =
     (let meth = rq_method r in
      if queryGet r ''restype'' \<noteq> ''container''
      then (azureError env r (azError 400 codeInvalidQueryParameter
              ''restype=container is required for container operations.''), s)
      else if meth = ''PUT'' then handleCreateContainer env r account cname s
      else if meth = ''DELETE'' then handleDeleteContainer env r account cname s
      else if meth = ''GET'' \<or> meth = ''HEAD'' then
        (if queryGet r ''comp'' = ''list'' then handleListBlobs env r account cname s
         else getContainerProperties env r account cname s, s)
      else (azureError env r methodNotAllowed, s))"

definition handleBlob :: "blob_http \<Rightarrow> blob_request \<Rightarrow> string \<Rightarrow> string \<Rightarrow> string \<Rightarrow> blob_store \<Rightarrow> blob_reply" where
  "handleBlob env r account cname name s =
     (let meth = rq_method r; comp = queryGet r ''comp'' in
      if meth = ''PUT'' then
        (if comp = ''block'' then putBlock env r account cname name s
         else if comp = ''blocklist'' then putBlockList env r account cname name s
         else if comp = [] then handlePutBlob env r account cname name s
         else (azureError env r notImplemented, s))
      else if meth = ''GET'' then (handleGetBlob env r account cname name False s, s)
      else if meth = ''HEAD'' then (handleGetBlob env r account cname name True s, s)
      else if meth = ''DELETE'' then handleDeleteBlob env r account cname name s
      else (azureError env r methodNotAllowed, s))"

text \<open>The struct \<open>request\<close>: account, container and blob of the path, empty where there is none.\<close>

definition requestOf :: "string \<Rightarrow> string \<times> string \<times> string" where
  "requestOf p =
     (let segments = splitOn (CHR ''/'') (trimPrefix p ''/'') in
      (segments ! 0, if 2 \<le> length segments then segments ! 1 else [],
       if 3 \<le> length segments then joinWith ''/'' (drop 2 segments) else []))"

definition serveBlobs :: "blob_http \<Rightarrow> blob_request \<Rightarrow> blob_store \<Rightarrow> blob_reply" where
  "serveBlobs env r s =
     (case requestOf (rq_path r) of (account, cname, name) \<Rightarrow>
         if account = []
         then (azureError env r (azError 400 codeInvalidInput ''Missing account in request URL.''), s)
         else if cname = [] then (handleAccount env r account s, s)
         else if name = [] then handleContainer env r account cname s
         else handleBlob env r account cname name s)"

end
