(* ===== verification/Blob_Http.thy ===== *)
theory Blob_Http
  imports Blob_Server
begin

text \<open>
  What a client of the Blob service sees: ranges of a download stay within the blob, what was uploaded
  in one piece or in blocks is what a download returns, a refused request changes no container and no
  blob, and a block upload that breaks off leaves an entry behind.
\<close>

section \<open>Ranges\<close>

lemma parseRange_request:
  assumes "a \<le> b" and "int a < len" and "int b \<le> maxInt"
  shows "parseRange (''bytes='' @ decimal a @ ''-'' @ decimal b) len = Some (int a, min (int b) (len - 1))"
proof -
  let ?spec = "''bytes='' @ decimal a @ ''-'' @ decimal b"
  have "last ?spec = last (decimal b)" using decimal_digits [of b] by simp
  then have "graphic (last ?spec)"
    using isDigit_special [OF decimal_chars [of "last (decimal b)" b]] decimal_digits [of b] by simp
  then have trim: "trimSpace ?spec = ?spec" by (intro trimSpace_graphic) (simp_all add: graphic_def)
  have plain: "CHR '','' \<notin> set (decimal a @ ''-'' @ decimal b)" "CHR ''-'' \<notin> set (decimal a)"
    using isDigit_special decimal_chars [of "CHR '',''" a] decimal_chars [of "CHR '',''" b] decimal_chars [of "CHR ''-''" a]
    by auto
  have dash: "indexByte (decimal a @ ''-'' @ decimal b) (CHR ''-'') = Some (length (decimal a))"
    using plain(2) indexByte_append [of "CHR ''-''" "decimal a" "decimal b"] by simp
  have prefix: "hasPrefix ?spec ''bytes=''" "trimPrefix ?spec ''bytes='' = decimal a @ ''-'' @ decimal b"
    by (rule hasPrefix_append, rule trimPrefix_append)
  have "int a \<le> maxInt" using assms(1, 3) by linarith
  note numbers = atoi_decimal [OF this] atoi_decimal [OF assms(3)]
  have "parseRange ?spec len = (if len \<le> int b then Some (int a, len - 1) else Some (int a, int b))"
    unfolding parseRange_def Let_def trim
    using assms plain dash numbers decimal_digits [of a] decimal_digits [of b] prefix by simp
  then show ?thesis by (simp add: min_def)
qed

text \<open>Whatever the range header of a download says, also with signs, overflowing numbers or a suffix
  longer than the blob, the range that is used lies within the blob and is not empty.\<close>

lemma parse_range_bounds:
  assumes "parseRange spec len = Some (first, lst)" and "0 \<le> len"
  shows "0 \<le> first \<and> first \<le> lst \<and> lst < len"
  using assms by (auto simp: parseRange_def Let_def split: if_splits option.splits)

lemma parse_range_bounds_witness:
  "parseRange (''bytes='' @ decimal 2 @ ''-'' @ decimal 9) 7 = Some (2, 6) \<and> (0 :: int) \<le> 2 \<and> (2 :: int) \<le> 6 \<and> (6 :: int) < 7"
proof -
  have "parseRange (''bytes='' @ decimal 2 @ ''-'' @ decimal 9) 7 = Some (2, 6)"
    using parseRange_request [of 2 9 7] by (simp add: maxInt_def)
  with parse_range_bounds [OF this] show ?thesis by simp
qed

text \<open>A download is given the range it asks for: a header with two bounds, the first within the
  blob, selects those bytes, the second cut off at the end of the blob.\<close>

lemma parse_range_request:
  assumes "a \<le> b" and "int a < len" and "int b \<le> maxInt"
  shows "parseRange (''bytes='' @ decimal a @ ''-'' @ decimal b) len = Some (int a, min (int b) (len - 1))"
  using assms by (rule parseRange_request)

lemma parse_range_request_witness:
  "parseRange (''bytes='' @ decimal 2 @ ''-'' @ decimal 9) 7 = Some (int 2, min (int 9) (7 - 1))"
  by (rule parse_range_request) (simp_all add: maxInt_def)

section \<open>Paths of requests\<close>

definition blobPath :: "string \<Rightarrow> string \<Rightarrow> string \<Rightarrow> string" where
  "blobPath a c n = ''/'' @ a @ ''/'' @ c @ ''/'' @ n"

definition segment :: "string \<Rightarrow> bool" where
  "segment x \<longleftrightarrow> x \<noteq> [] \<and> CHR ''/'' \<notin> set x"

lemma requestOf_blob:
  assumes "segment a" and "segment c"
  shows "requestOf (blobPath a c n) = (a, c, n)"
proof -
  have "trimPrefix (blobPath a c n) ''/'' = a @ CHR ''/'' # c @ CHR ''/'' # n"
    using trimPrefix_append [of "''/''" "a @ ''/'' @ c @ ''/'' @ n"] by (simp add: blobPath_def)
  moreover have "1 \<le> length (splitOn (CHR ''/'') n)" using splitOn_not_Nil [of "CHR ''/''" n] by (cases "splitOn (CHR ''/'') n") auto
  ultimately show ?thesis
    using assms join_split [of "CHR ''/''" n] by (simp add: requestOf_def segment_def splitOn_append Let_def)
qed

lemma serve_blob:
  assumes "rq_path r = blobPath a c n" and "segment a" and "segment c" and "n \<noteq> []"
  shows "serveBlobs env r s = handleBlob env r a c n s"
  using assms by (simp add: serveBlobs_def requestOf_blob segment_def)

section \<open>Uploads and downloads\<close>

lemma refusal_error [simp]:
  "refusal e \<noteq> RContent b i" "refusal e \<noteq> RBlob i" "refusal e \<noteq> RDone" "refusal e \<noteq> RContainer ci"
  by (cases e; simp)+

lemmas error_refusal [simp] = refusal_error [symmetric]

lemma putBlob_done:
  assumes "blob_inv s" and "healthy (be_os env)" and "n \<noteq> []" and "putBlob env a c n (b, None) props s = (Inr info, s1)"
  shows "\<exists>t. blob_inv s1 \<and> blob_abs s (a, c) = Some t \<and>
    info = madeInfo c n (be_now env) (props\<lparr>bp_contentMD5 := md5 b\<rparr>) b \<and>
    blob_abs s1 = (blob_abs s)((a, c) \<mapsto> commit n info b t)"
  using blob_step [OF assms(1, 2), of "PutBlob a c n (b, None) props"] assms(3, 4)
  by (auto simp: meets_def exec_simps split: option.splits)

lemma getBlob_committed:
  assumes "blob_inv s" and "healthy (be_os env)" and "n \<noteq> []"
    and "blob_abs s (a, c) = Some t" and "a_blobs t n = Some (Committed i b)"
  shows "getBlob env a c n s = Inr (b, i)"
  using blob_step [OF assms(1, 2), of "GetBlob a c n"] assms(3-5)
  by (auto simp: meets_def exec_simps split: sum.splits)

text \<open>What the response to a download of the bytes \<open>b\<close> must be.\<close>

definition downloads :: "bytes \<Rightarrow> blob_request \<Rightarrow> blob_response \<Rightarrow> bool" where
  "downloads b r resp \<longleftrightarrow>
     (case parseRange (rangeHeader r) (int (length b)) of
        None \<Rightarrow> rs_status resp = 200 \<and> rs_body resp = Some (RawBody b) \<and>
          map_of (rs_headers resp) ''Content-Length'' = Some (itoa (int (length b)))
      | Some (first, lst) \<Rightarrow> rs_status resp = 206 \<and>
          (\<exists>p. rs_body resp = Some (RawBody p) \<and> p = take (nat (lst + 1 - first)) (drop (nat first) b) \<and>
             int (length p) = lst - first + 1 \<and>
             map_of (rs_headers resp) ''Content-Length'' = Some (itoa (int (length p)))))"

lemma respond_last: "map_of (rs_headers (respond env st (hs @ [(k, v)]) x)) k = Some v"
  by (simp add: respond_def setHeader_def map_of_update)

lemma respond_simps [simp]: "rs_status (respond env st hs x) = st" "rs_body (respond env st hs x) = x"
  by (simp_all add: respond_def)

lemma parseRange_bounds:
  "parseRange spec len = Some (first, lst) \<Longrightarrow> 0 \<le> len \<Longrightarrow> 0 \<le> first \<and> first \<le> lst \<and> lst < len"
  by (auto simp: parseRange_def Let_def split: if_splits option.splits)

lemma get_downloads:
  assumes "getBlob (bh_env env) a c n s = Inr (b, i)" and "bi_contentLength i = int (length b)"
  shows "downloads b r (handleGetBlob env r a c n False s)"
proof (cases "parseRange (rangeHeader r) (int (length b))")
  case None
  then show ?thesis
    using assms by (simp add: downloads_def handleGetBlob_def respond_last)
next
  case (Some x)
  obtain first lst where x: "x = (first, lst)" by (cases x)
  have bounds: "0 \<le> first" "first \<le> lst" "lst < int (length b)"
    using parseRange_bounds [of "rangeHeader r" "int (length b)" first lst] Some x by simp_all
  let ?hs = "blobHeaders i @ [(''Content-Range'', ''bytes '' @ itoa first @ ''-'' @ itoa lst @ ''/'' @ itoa (int (length b)))]"
  have "handleGetBlob env r a c n False s =
      respond env 206 (?hs @ [(''Content-Length'', itoa (lst - first + 1))]) (Some (RawBody (copyRange first lst b)))"
    using assms Some x by (simp add: handleGetBlob_def)
  moreover have "int (length (copyRange first lst b)) = lst - first + 1"
    using bounds by (simp add: copyRange_def)
  ultimately show ?thesis
    using Some x respond_last [where hs = ?hs] by (simp add: downloads_def copyRange_def algebra_simps)
qed

lemma limitReader_whole: "int (length b) < maxBlobBytes \<Longrightarrow> limitReader (b, None) = (b, None)"
  by (simp add: limitReader_def)

lemma limitReader_unbroken: "snd src = None \<Longrightarrow> \<exists>b. limitReader src = (b, None)"
  by (cases src) (simp add: limitReader_def)

text \<open>C17: An upload is what a download returns: when a Put Blob of fewer than 5 GiB is answered with 201,
  a Get Blob of the same path, by any later request, is answered with the bytes uploaded, or with exactly
  the part of them a range header selects, and with their number as the content length.\<close>

theorem upload_download:
  assumes "blob_inv s" and "healthy (be_os (bh_env env))" and "healthy (be_os (bh_env env'))"
    and "segment a" and "segment c" and "n \<noteq> []" and "rq_path p = blobPath a c n" and "rq_path g = rq_path p"
    and "rq_method p = ''PUT''" and "queryGet p ''comp'' = []" and "rq_method g = ''GET''"
    and "rq_body p = Body u" and "up_raw u = (b, None)" and "int (length b) < maxBlobBytes"
    and "serveBlobs env p s = (resp, s1)" and "rs_status resp = 201"
  shows "\<exists>resp'. serveBlobs env' g s1 = (resp', s1) \<and> downloads b g resp'"
proof -
  have raw: "limitReader (up_raw (uploadOf p)) = (b, None)"
    using assms(12-14) by (simp add: uploadOf_def limitReader_whole)
  have put: "handlePutBlob env p a c n s = (resp, s1)"
    using assms(15) assms(9, 10) serve_blob [OF assms(7, 4-6)] by (simp add: handleBlob_def Let_def)
  have failed: "rs_status (azureError env p (storeError e)) \<noteq> 201" for e
    by (cases e) (simp_all add: azureError_def storeError_def containerNotFound_def containerAlreadyExists_def
      blobNotFound_def invalidBlockList_def internalError_def azError_def)
  obtain info where "putBlob (bh_env env) a c n (b, None) (readBlobProps p) s = (Inr info, s1)"
    using put assms(16) failed unfolding handlePutBlob_def Let_def raw
    by (auto simp: azureError_def unsupportedBlobType_def azError_def split: if_splits prod.splits sum.splits)
  from putBlob_done [OF assms(1, 2, 6) this] obtain t where
      "blob_inv s1" "blob_abs s1 (a, c) = Some (commit n info b t)" "bi_contentLength info = int (length b)"
    by (auto simp: madeInfo_def)
  moreover from this have "getBlob (bh_env env') a c n s1 = Inr (b, info)"
    using getBlob_committed [OF _ assms(3, 6), of s1 a c "commit n info b t" info b] by (simp add: commit_def)
  ultimately have "downloads b g (handleGetBlob env' g a c n False s1)" by (simp add: get_downloads)
  then show ?thesis
    using assms(7, 8, 11) serve_blob [OF _ assms(4-6), of g] by (simp add: handleBlob_def Let_def)
qed

text \<open>A store with an empty container, and requests on a blob in it.\<close>

definition logs_store :: blob_store where
  "logs_store = snd (createContainer (blob_env_at 1) ''acct'' ''logs'' [] (fresh_store [''data'']))"

definition blob_http_at :: "time \<Rightarrow> blob_http" where
  "blob_http_at t = \<lparr>now_http = t, request_id = [], bh_env = blob_env_at t, bh_printable = (\<lambda>_. True)\<rparr>"

definition blob_call :: "string \<Rightarrow> (string \<times> string) list \<Rightarrow> (string \<times> string list) list \<Rightarrow> upload \<Rightarrow> blob_request" where
  "blob_call meth query headers u = \<lparr>rq_method = meth, rq_path = blobPath ''acct'' ''logs'' ''b'', rq_query = query,
     rq_headers = headers, rq_host = ''host'', rq_tls = False, rq_body = Body u\<rparr>"

definition sending :: "bytes \<Rightarrow> upload" where
  "sending b = \<lparr>up_raw = (b, None), up_tokens = [], up_malformed = False\<rparr>"

lemma logs_store_ok:
  "blob_inv logs_store"
  "blob_abs logs_store = [(''acct'', ''logs'') \<mapsto> empty_container (madeContainer ''logs'' 1 [])]"
proof -
  have "meets (blob_exec (blob_env_at 1) (CreateContainer ''acct'' ''logs'' []) (fresh_store [''data'']))
      (blob_spec_exec 1 (CreateContainer ''acct'' ''logs'' []) Map.empty)"
    using blob_step [OF fresh_inv quiet_healthy, of "CreateContainer ''acct'' ''logs'' []"]
    by (simp add: plainName_def fresh_abs blob_env_at_def)
  then show "blob_inv logs_store"
      "blob_abs logs_store = [(''acct'', ''logs'') \<mapsto> empty_container (madeContainer ''logs'' 1 [])]"
    by (simp_all add: meets_def logs_store_def b_value_def case_prod_beta)
qed

lemma http_healthy [simp]: "healthy (be_os (bh_env (blob_http_at t)))"
  by (simp add: blob_http_at_def)

lemma call_simps [simp]:
  "rq_method (blob_call m q h u) = m" "rq_path (blob_call m q h u) = blobPath ''acct'' ''logs'' ''b''"
  "rq_body (blob_call m q h u) = Body u" "queryGet (blob_call m [] h u) k = []"
  "up_raw (sending b) = (b, None)" "segment ''acct''" "segment ''logs''"
  by (simp_all add: blob_call_def queryGet_def sending_def segment_def)

text \<open>The bodies and identifiers of a Put Blob request go to the store as the contract says.\<close>

lemma put_blob_created:
  assumes "blob_inv s" and "healthy (be_os (bh_env env))" and "blob_abs s (a, c) = Some t" and "n \<noteq> []"
    and "headerGet p ''X-Ms-Blob-Type'' = []" and "limitReader (up_raw (uploadOf p)) = (b, None)"
  obtains resp s1 where "handlePutBlob env p a c n s = (resp, s1)" and "rs_status resp = 201"
proof -
  obtain r s1 where put: "putBlob (bh_env env) a c n (b, None) (readBlobProps p) s = (r, s1)" by fastforce
  have "meets (blob_exec (bh_env env) (PutBlob a c n (b, None) (readBlobProps p)) s)
      (blob_spec_exec (be_now (bh_env env)) (PutBlob a c n (b, None) (readBlobProps p)) (blob_abs s))"
    using blob_step [OF assms(1, 2), of "PutBlob a c n (b, None) (readBlobProps p)"] assms(4) by simp
  then obtain i where "r = Inr i" using assms(3) put by (cases r) (auto simp: meets_def exec_simps)
  then show thesis using that put assms(5, 6) by (simp add: handlePutBlob_def Let_def)
qed

theorem upload_download_witness:
  "\<exists>resp s1 resp'. serveBlobs (blob_http_at 2) (blob_call ''PUT'' [] [] (sending [1, 2, 3])) logs_store = (resp, s1) \<and>
     serveBlobs (blob_http_at 3) (blob_call ''GET'' [] [] (sending [])) s1 = (resp', s1) \<and>
     rs_status resp' = 200 \<and> rs_body resp' = Some (RawBody [1, 2, 3])"
proof -
  let ?p = "blob_call ''PUT'' [] [] (sending [1, 2, 3])" and ?g = "blob_call ''GET'' [] [] (sending [])"
  have raw: "limitReader (up_raw (uploadOf ?p)) = ([1, 2, 3], None)"
    by (simp add: uploadOf_def limitReader_def maxBlobBytes_def)
  have found: "blob_abs logs_store (''acct'', ''logs'') = Some (empty_container (madeContainer ''logs'' 1 []))"
    and plain: "headerGet ?p ''X-Ms-Blob-Type'' = []"
    by (simp_all add: logs_store_ok(2) headerGet_def blob_call_def)
  obtain resp s1 where put: "handlePutBlob (blob_http_at 2) ?p ''acct'' ''logs'' ''b'' logs_store = (resp, s1)"
      and created: "rs_status resp = 201"
    by (rule put_blob_created [where n = "''b''" and env = "blob_http_at 2",
        OF logs_store_ok(1) http_healthy found _ plain raw]) auto
  have served: "serveBlobs (blob_http_at 2) ?p logs_store = (resp, s1)"
    using put serve_blob [of ?p "''acct''" "''logs''" "''b''"] by (simp add: handleBlob_def Let_def)
  have "\<exists>resp'. serveBlobs (blob_http_at 3) ?g s1 = (resp', s1) \<and> downloads [1, 2, 3] ?g resp'"
    by (rule upload_download [OF logs_store_ok(1) http_healthy http_healthy, where a = "''acct''" and c = "''logs''"
        and n = "''b''" and p = ?p and u = "sending [1, 2, 3]", OF _ _ _ _ _ _ _ _ _ _ _ served created])
      (simp_all add: maxBlobBytes_def)
  moreover have "rangeHeader ?g = []" by (simp add: rangeHeader_def headerGet_def blob_call_def)
  ultimately show ?thesis using served by (auto simp: downloads_def parseRange_def)
qed

section \<open>Refused requests\<close>

text \<open>A block upload whose body breaks off is the one refused operation that is not without effect.\<close>

fun unbroken :: "blob_op \<Rightarrow> bool" where
  "unbroken (StageBlock a c n i (b, err)) = (err = None)"
| "unbroken op = True"

lemma spec_refused:
  assumes "blob_spec_exec now op m = (refusal e, m')" and "unbroken op"
  shows "m' = m"
  using assms
  by (induction now op m rule: blob_spec_exec.induct)
    (auto simp: on_container_def Let_def map_upd_triv split: if_splits option.splits prod.splits blob_state.splits)

lemma store_refused:
  assumes "blob_inv s" and "healthy (be_os env)" and "op_ok op" and "unbroken op" and "blob_exec env op s = (refusal e, s1)"
  shows "blob_inv s1 \<and> blob_abs s1 = blob_abs s"
  using blob_step [OF assms(1-3)] assms(4, 5) spec_refused [of "be_now env" op "blob_abs s" e "blob_abs s1"]
  by (simp add: meets_def)

lemma valid_name_chars: "containerNameChars prev s \<Longrightarrow> c \<in> set s \<Longrightarrow> c \<noteq> CHR ''.'' \<and> c \<noteq> CHR ''/''"
  by (induction prev s rule: containerNameChars.induct) (auto simp: Let_def split: if_splits)

lemma valid_name_plain: "validContainerName c \<Longrightarrow> plainName c \<and> CHR ''.'' \<notin> set c"
  using valid_name_chars [of False c] by (auto simp: validContainerName_def plainName_def)

definition blob_harmless :: "blob_store \<Rightarrow> blob_reply \<Rightarrow> bool" where
  "blob_harmless s reply \<longleftrightarrow> (400 \<le> rs_status (fst reply) \<longrightarrow> blob_inv (snd reply) \<and> blob_abs (snd reply) = blob_abs s)"

lemma blob_harmless_same [intro]: "blob_inv s \<Longrightarrow> blob_harmless s (resp, s)"
  by (simp add: blob_harmless_def)

lemma blob_harmless_done [intro]: "rs_status resp < 400 \<Longrightarrow> blob_harmless s (resp, s1)"
  by (simp add: blob_harmless_def)

lemma harmless_refused:
  "blob_inv s \<Longrightarrow> healthy (be_os env) \<Longrightarrow> op_ok op \<Longrightarrow> unbroken op \<Longrightarrow> blob_exec env op s = (refusal e, s1) \<Longrightarrow>
     blob_harmless s (resp, s1)"
  using store_refused [of s env op e s1] by (simp add: blob_harmless_def)

lemma blob_handlers_harmless:
  assumes "blob_inv s" and "healthy (be_os (bh_env env))"
  shows "plainName a \<Longrightarrow> blob_harmless s (handleCreateContainer env r a c s)"
    and "blob_harmless s (handleDeleteContainer env r a c s)"
    and "n \<noteq> [] \<Longrightarrow> blob_harmless s (handlePutBlob env r a c n s)"
    and "n \<noteq> [] \<Longrightarrow> snd (up_raw (uploadOf r)) = None \<Longrightarrow> blob_harmless s (putBlock env r a c n s)"
    and "n \<noteq> [] \<Longrightarrow> [] \<notin> set (blockIDs [] False [] (up_tokens (uploadOf r))) \<Longrightarrow> blob_harmless s (putBlockList env r a c n s)"
    and "n \<noteq> [] \<Longrightarrow> blob_harmless s (handleDeleteBlob env r a c n s)"
proof -
  note refused = harmless_refused [OF assms]
  show "blob_harmless s (handleCreateContainer env r a c s)" if "plainName a"
    using assms(1) that valid_name_plain [of c] refused [of "CreateContainer a c (readMetadata (rq_headers r))"]
    by (auto simp: handleCreateContainer_def exec_simps split: prod.splits sum.splits)
  show "blob_harmless s (handleDeleteContainer env r a c s)"
    using assms(1) refused [of "DeleteContainer a c"]
    by (auto simp: handleDeleteContainer_def exec_simps split: prod.splits option.splits)
  show "blob_harmless s (handlePutBlob env r a c n s)" if "n \<noteq> []"
    using assms(1) that refused [of "PutBlob a c n (limitReader (up_raw (uploadOf r))) (readBlobProps r)"]
    by (auto simp: handlePutBlob_def exec_simps split: prod.splits sum.splits)
  show "blob_harmless s (putBlock env r a c n s)" if name: "n \<noteq> []" "snd (up_raw (uploadOf r)) = None"
  proof -
    obtain b where "limitReader (up_raw (uploadOf r)) = (b, None)"
      using name(2) limitReader_unbroken by blast
    then show ?thesis
      using assms(1) name(1) refused [of "StageBlock a c n (queryGet r ''blockid'') (b, None)"]
      by (auto simp: putBlock_def exec_simps split: prod.splits option.splits)
  qed
  show "blob_harmless s (putBlockList env r a c n s)"
    if "n \<noteq> []" "[] \<notin> set (blockIDs [] False [] (up_tokens (uploadOf r)))"
    using assms(1) that refused [of "CommitBlockList a c n (blockIDs [] False [] (up_tokens (uploadOf r))) (readBlobProps r)"]
    by (auto simp: putBlockList_def parseBlockList_def exec_simps split: prod.splits sum.splits)
  show "blob_harmless s (handleDeleteBlob env r a c n s)" if "n \<noteq> []"
    using assms(1) that refused [of "DeleteBlob a c n"]
    by (auto simp: handleDeleteBlob_def exec_simps split: prod.splits option.splits)
qed

text \<open>A request to the Blob service that is answered with an error has changed no container, no blob
  and no staged block, whatever the request was: the exceptions are a block upload whose body breaks off
  and a block list with an empty identifier.\<close>

lemma refused_blob_request:
  assumes "blob_inv s" and "healthy (be_os (bh_env env))" and "plainName (fst (requestOf (rq_path r)))"
    and "snd (up_raw (uploadOf r)) = None" and "[] \<notin> set (blockIDs [] False [] (up_tokens (uploadOf r)))"
    and "serveBlobs env r s = (resp, s')" and "400 \<le> rs_status resp"
  shows "blob_inv s' \<and> blob_abs s' = blob_abs s"
proof -
  obtain a c n where req: "requestOf (rq_path r) = (a, c, n)" by (cases "requestOf (rq_path r)")
  have "blob_harmless s (serveBlobs env r s)"
    using assms(1, 3-5) blob_handlers_harmless [OF assms(1, 2)] unfolding serveBlobs_def req
    by (auto simp: handleContainer_def handleBlob_def Let_def)
  then show ?thesis using assms(6, 7) by (simp add: blob_harmless_def)
qed

lemma refused_blob_request_witness:
  "\<exists>resp s'. serveBlobs (blob_http_at 2) (blob_call ''PATCH'' [] [] (sending [])) logs_store = (resp, s') \<and>
     rs_status resp = 405 \<and> blob_abs s' = blob_abs logs_store"
proof -
  let ?r = "blob_call ''PATCH'' [] [] (sending [])"
  have req: "requestOf (rq_path ?r) = (''acct'', ''logs'', ''b'')"
    using requestOf_blob [of "''acct''" "''logs''" "''b''"] by simp
  have run: "serveBlobs (blob_http_at 2) ?r logs_store = (azureError (blob_http_at 2) ?r methodNotAllowed, logs_store)"
    unfolding serveBlobs_def req by (simp add: handleBlob_def Let_def)
  have "rs_status (azureError (blob_http_at 2) ?r methodNotAllowed) = 405"
    by (simp add: azureError_def methodNotAllowed_def azError_def)
  moreover have "blob_abs logs_store = blob_abs logs_store"
    using refused_blob_request [OF logs_store_ok(1) http_healthy _ _ _ run] calculation req
    by (simp add: plainName_def uploadOf_def sending_def)
  ultimately show ?thesis using run by blast
qed

section \<open>Uploads in blocks\<close>

lemma meets_iff: "meets (r, s1) (r', m) \<longleftrightarrow> blob_inv s1 \<and> r' = r \<and> blob_abs s1 = m"
  by (auto simp: meets_def)

lemma stageBlock_done:
  assumes "blob_inv s" and "healthy (be_os env)" and "n \<noteq> []" and "i \<noteq> []" and "blob_abs s (a, c) = Some t"
  obtains s1 where "stageBlock env a c n i (b, None) s = (None, s1)" and "blob_inv s1"
    and "blob_abs s1 (a, c) =
      Some ((open_blob n t)\<lparr>a_staged := (a_staged (open_blob n t))(n := (a_staged (open_blob n t) n)(i \<mapsto> b))\<rparr>)"
proof -
  obtain x s1 where run: "stageBlock env a c n i (b, None) s = (x, s1)" by fastforce
  show thesis
    using blob_step [OF assms(1, 2), of "StageBlock a c n i (b, None)"] assms(3-5) run that [of s1]
    by (cases x) (auto simp: meets_iff exec_simps)
qed

lemma open_blob_fields: "a_staged (open_blob n t) = a_staged t" "a_blobs (open_blob n t) n \<noteq> None"
  by (simp_all add: open_blob_def)

lemma commit_done:
  assumes "blob_inv s" and "healthy (be_os env)" and "n \<noteq> []" and "[] \<notin> set ids"
    and "blob_abs s (a, c) = Some t" and "a_blobs t n \<noteq> None" and "\<forall>i \<in> set ids. a_staged t n i \<noteq> None"
  obtains info s1 t1 where "commitBlockList env a c n ids props s = (Inr info, s1)" and "blob_inv s1"
    and "blob_abs s1 (a, c) = Some t1"
    and "a_blobs t1 n = Some (Committed info (concat (map (\<lambda>i. the (a_staged t n i)) ids)))"
    and "bi_contentLength info = int (length (concat (map (\<lambda>i. the (a_staged t n i)) ids)))"
proof -
  obtain x s1 where run: "commitBlockList env a c n ids props s = (x, s1)" by fastforce
  show thesis
    using blob_step [OF assms(1, 2), of "CommitBlockList a c n ids props"] assms(3-7) run that
    by (cases x) (auto simp: meets_iff exec_simps commit_def unstage_def madeInfo_def)
qed

fun serveRun :: "(blob_http \<times> blob_request) list \<Rightarrow> blob_store \<Rightarrow> blob_response list \<times> blob_store" where
  "serveRun [] s = ([], s)"
| "serveRun ((env, r) # rs) s =
     (case serveBlobs env r s of (resp, s1) \<Rightarrow> case serveRun rs s1 of (resps, s2) \<Rightarrow> (resp # resps, s2))"

text \<open>A well-formed Put Block request for a path, and the block it sends.\<close>

definition sends_block :: "string \<Rightarrow> blob_http \<times> blob_request \<Rightarrow> bool" where
  "sends_block path x \<longleftrightarrow> (case x of (env, r) \<Rightarrow>
     healthy (be_os (bh_env env)) \<and> rq_path r = path \<and> rq_method r = ''PUT'' \<and> queryGet r ''comp'' = ''block'' \<and>
     queryGet r ''blockid'' \<noteq> [] \<and> snd (up_raw (uploadOf r)) = None \<and>
     int (length (fst (up_raw (uploadOf r)))) < maxBlobBytes)"

definition sent_block :: "blob_http \<times> blob_request \<Rightarrow> string \<times> bytes" where
  "sent_block x = (queryGet (snd x) ''blockid'', fst (up_raw (uploadOf (snd x))))"

lemma stage_run:
  assumes "blob_inv s" and "blob_abs s (a, c) = Some t" and "segment a" and "segment c" and "n \<noteq> []"
    and "\<forall>x \<in> set puts. sends_block (blobPath a c n) x"
  shows "\<exists>resps s1 t1. serveRun puts s = (resps, s1) \<and> (\<forall>r \<in> set resps. rs_status r = 201) \<and> blob_inv s1 \<and>
    blob_abs s1 (a, c) = Some t1 \<and> a_staged t1 n = a_staged t n ++ map_of (rev (map sent_block puts)) \<and>
    (puts \<noteq> [] \<or> a_blobs t n \<noteq> None \<longrightarrow> a_blobs t1 n \<noteq> None)"
  using assms(1, 2, 6)
proof (induction puts arbitrary: s t)
  case (Cons x puts)
  obtain env r where x: "x = (env, r)" by (cases x)
  let ?i = "queryGet r ''blockid''" and ?b = "fst (up_raw (uploadOf r))"
  let ?T = "(open_blob n t)\<lparr>a_staged := (a_staged (open_blob n t))(n := (a_staged (open_blob n t) n)(?i \<mapsto> ?b))\<rparr>"
  have ok: "healthy (be_os (bh_env env))" "?i \<noteq> []" "limitReader (up_raw (uploadOf r)) = (?b, None)"
      "rq_path r = blobPath a c n" "rq_method r = ''PUT''" "queryGet r ''comp'' = ''block''"
    using Cons.prems(3) limitReader_whole [of ?b] by (cases "up_raw (uploadOf r)"; auto simp: x sends_block_def)+
  obtain s1 where s1: "stageBlock (bh_env env) a c n ?i (?b, None) s = (None, s1)" "blob_inv s1"
      "blob_abs s1 (a, c) = Some ?T"
    by (rule stageBlock_done [OF Cons.prems(1) ok(1) assms(5) ok(2) Cons.prems(2)])
  obtain resp where served: "serveBlobs env r s = (resp, s1)" "rs_status resp = 201"
    using s1(1) ok(2, 3, 5, 6) serve_blob [OF ok(4) assms(3-5)] by (simp add: handleBlob_def putBlock_def Let_def)
  have "\<forall>x \<in> set puts. sends_block (blobPath a c n) x" using Cons.prems(3) by simp
  moreover have opened: "a_blobs ?T n \<noteq> None" using open_blob_fields(2) by simp
  ultimately obtain resps s2 t1 where run: "serveRun puts s1 = (resps, s2)"
      "\<forall>r \<in> set resps. rs_status r = 201" "blob_inv s2" "blob_abs s2 (a, c) = Some t1" "a_blobs t1 n \<noteq> None"
    and rest: "a_staged t1 n = a_staged ?T n ++ map_of (rev (map sent_block puts))"
    using Cons.IH [OF s1(2, 3)] by blast
  have "a_staged ?T n = (a_staged t n)(?i \<mapsto> ?b)" by (simp add: open_blob_fields(1) fun_eq_iff)
  then have staged: "a_staged t1 n = (a_staged t n)(?i \<mapsto> ?b) ++ map_of (rev (map sent_block puts))" using rest by simp
  have "(a_staged t n)(?i \<mapsto> ?b) ++ m = a_staged t n ++ ([?i \<mapsto> ?b] ++ m)" for m by simp
  then have "a_staged t1 n = a_staged t n ++ map_of (rev (map sent_block (x # puts)))"
    unfolding staged by (simp add: x sent_block_def)
  then show ?case using served run by (simp add: x)
qed simp

lemma block_upload_run:
  assumes "blob_inv s" and "blob_abs s (a, c) = Some t" and "segment a" and "segment c" and "n \<noteq> []"
    and "\<forall>x \<in> set puts. sends_block (blobPath a c n) x" and "puts \<noteq> []"
    and "healthy (be_os (bh_env env))" and "rq_path l = blobPath a c n" and "rq_method l = ''PUT''"
    and "queryGet l ''comp'' = ''blocklist''" and "parseBlockList (uploadOf l) = Some ids"
    and "set ids \<subseteq> fst ` sent_block ` set puts"
    and "healthy (be_os (bh_env env'))" and "rq_path g = blobPath a c n" and "rq_method g = ''GET''"
  shows "\<exists>resps s1 resp s2 resp'. serveRun puts s = (resps, s1) \<and> (\<forall>r \<in> set resps. rs_status r = 201) \<and>
    serveBlobs env l s1 = (resp, s2) \<and> rs_status resp = 201 \<and> serveBlobs env' g s2 = (resp', s2) \<and>
    downloads (concat (map (\<lambda>i. the (map_of (rev (map sent_block puts)) i)) ids)) g resp'"
proof -
  let ?sent = "map_of (rev (map sent_block puts))"
  let ?b = "concat (map (\<lambda>i. the (?sent i)) ids)"
  obtain resps s1 t1 where s1: "serveRun puts s = (resps, s1)" "\<forall>r \<in> set resps. rs_status r = 201" "blob_inv s1"
      "blob_abs s1 (a, c) = Some t1" "a_staged t1 n = a_staged t n ++ ?sent" "a_blobs t1 n \<noteq> None"
    using stage_run [OF assms(1-6)] assms(7) by blast
  have sent: "?sent i \<noteq> None" if "i \<in> set ids" for i
    using that assms(13) by (auto simp: map_of_eq_None_iff image_image)
  have staged: "a_staged t1 n i = ?sent i" if "i \<in> set ids" for i
    using that sent [OF that] by (auto simp: s1(5) map_add_def split: option.splits)
  have named: "[] \<notin> set ids"
  proof
    assume "[] \<in> set ids"
    then have "[] \<in> fst ` sent_block ` set puts" using assms(13) by blast
    then obtain x where "x \<in> set puts" "fst (sent_block x) = []" by fastforce
    then show False using assms(6) by (fastforce simp: sent_block_def sends_block_def)
  qed
  have same: "concat (map (\<lambda>i. the (a_staged t1 n i)) ids) = ?b" by (simp add: staged cong: map_cong)
  have all: "\<forall>i \<in> set ids. a_staged t1 n i \<noteq> None" using staged sent by auto
  obtain info s2 t2 where s2: "commitBlockList (bh_env env) a c n ids (readBlobProps l) s1 = (Inr info, s2)" "blob_inv s2"
      "blob_abs s2 (a, c) = Some t2" "a_blobs t2 n = Some (Committed info ?b)" "bi_contentLength info = int (length ?b)"
    using commit_done [OF s1(3) assms(8, 5) named s1(4, 6) all] unfolding same by metis
  obtain resp where commit: "serveBlobs env l s1 = (resp, s2)" "rs_status resp = 201"
    using s2(1) assms(10-12) serve_blob [OF assms(9) assms(3-5)] by (simp add: handleBlob_def putBlockList_def Let_def)
  have "downloads ?b g (handleGetBlob env' g a c n False s2)"
    using getBlob_committed [OF s2(2) assms(14, 5) s2(3, 4)] s2(5) by (rule get_downloads)
  then show ?thesis
    using s1(1, 2) commit assms(16) serve_blob [OF assms(15) assms(3-5)] by (simp add: handleBlob_def Let_def)
qed

text \<open>C16: A blob uploaded in blocks is what a download returns: any number of Put Block requests, each
  answered with 201, and then a Put Block List naming some of their blocks, in any order and with
  repetitions, is answered with 201; a later Get Blob returns the named blocks one after the other (the
  last version of a block that was sent twice), or the part of that a range header selects.\<close>

theorem block_upload:
  assumes "blob_inv s" and "blob_abs s (a, c) = Some t" and "segment a" and "segment c" and "n \<noteq> []"
    and "\<forall>x \<in> set puts. sends_block (blobPath a c n) x" and "puts \<noteq> []"
    and "healthy (be_os (bh_env env))" and "rq_path l = blobPath a c n" and "rq_method l = ''PUT''"
    and "queryGet l ''comp'' = ''blocklist''" and "parseBlockList (uploadOf l) = Some ids"
    and "set ids \<subseteq> fst ` sent_block ` set puts"
    and "healthy (be_os (bh_env env'))" and "rq_path g = blobPath a c n" and "rq_method g = ''GET''"
  shows "\<exists>resps s1 resp s2 resp'. serveRun puts s = (resps, s1) \<and> (\<forall>r \<in> set resps. rs_status r = 201) \<and>
    serveBlobs env l s1 = (resp, s2) \<and> rs_status resp = 201 \<and> serveBlobs env' g s2 = (resp', s2) \<and>
    downloads (concat (map (\<lambda>i. the (map_of (rev (map sent_block puts)) i)) ids)) g resp'"
  using assms by (rule block_upload_run)

theorem block_upload_witness:
  "\<exists>resps s1 resp s2 resp'.
     serveRun [(blob_http_at 2, blob_call ''PUT'' [(''comp'', ''block''), (''blockid'', ''x'')] [] (sending [1, 2])),
       (blob_http_at 3, blob_call ''PUT'' [(''comp'', ''block''), (''blockid'', ''y'')] [] (sending [3]))] logs_store = (resps, s1) \<and>
     serveBlobs (blob_http_at 4) (blob_call ''PUT'' [(''comp'', ''blocklist'')] []
       (noUpload\<lparr>up_tokens := [StartElement ''Latest'', CharData ''y'', EndElement ''Latest'',
          StartElement ''Latest'', CharData ''x'', EndElement ''Latest'']\<rparr>)) s1 = (resp, s2) \<and>
     rs_status resp = 201 \<and>
     serveBlobs (blob_http_at 5) (blob_call ''GET'' [] [] noUpload) s2 = (resp', s2) \<and> rs_body resp' = Some (RawBody [3, 1, 2])"
proof -
  let ?puts = "[(blob_http_at 2, blob_call ''PUT'' [(''comp'', ''block''), (''blockid'', ''x'')] [] (sending [1, 2])),
    (blob_http_at 3, blob_call ''PUT'' [(''comp'', ''block''), (''blockid'', ''y'')] [] (sending [3]))]"
  let ?l = "blob_call ''PUT'' [(''comp'', ''blocklist'')] [] (noUpload\<lparr>up_tokens := [StartElement ''Latest'',
    CharData ''y'', EndElement ''Latest'', StartElement ''Latest'', CharData ''x'', EndElement ''Latest'']\<rparr>)"
  let ?g = "blob_call ''GET'' [] [] noUpload"
  have found: "blob_abs logs_store (''acct'', ''logs'') = Some (empty_container (madeContainer ''logs'' 1 []))"
    by (simp add: logs_store_ok(2))
  have sent: "map sent_block ?puts = [(''x'', [1, 2]), (''y'', [3])]"
    by (simp add: sent_block_def blob_call_def queryGet_def uploadOf_def sending_def)
  have puts: "\<forall>x \<in> set ?puts. sends_block (blobPath ''acct'' ''logs'' ''b'') x"
    by (simp add: sends_block_def uploadOf_def maxBlobBytes_def) (simp add: blob_call_def queryGet_def)
  have "trimSpace ''x'' = ''x''" "trimSpace ''y'' = ''y''" by (simp_all add: trimSpace_graphic graphic_def)
  then have ids: "parseBlockList (uploadOf ?l) = Some [''y'', ''x'']"
    by (simp add: parseBlockList_def uploadOf_def noUpload_def blockTag_def)
  have named: "set [''y'', ''x''] \<subseteq> fst ` sent_block ` set ?puts"
    unfolding set_map [symmetric] sent by simp
  have "queryGet ?l ''comp'' = ''blocklist''" by (simp add: blob_call_def queryGet_def)
  from block_upload [where env = "blob_http_at 4" and env' = "blob_http_at 5" and g = ?g,
      OF logs_store_ok(1) found _ _ _ puts _ http_healthy _ _ this ids named http_healthy]
  have "\<exists>resps s1 resp s2 resp'. serveRun ?puts logs_store = (resps, s1) \<and>
      (\<forall>r \<in> set resps. rs_status r = 201) \<and> serveBlobs (blob_http_at 4) ?l s1 = (resp, s2) \<and> rs_status resp = 201 \<and>
      serveBlobs (blob_http_at 5) ?g s2 = (resp', s2) \<and> downloads [3, 1, 2] ?g resp'"
    unfolding sent by simp
  moreover have "downloads x ?g resp' \<Longrightarrow> rs_body resp' = Some (RawBody x)" for x resp'
    by (simp add: downloads_def parseRange_def rangeHeader_def headerGet_def blob_call_def)
  ultimately show ?thesis by blast
qed

section \<open>A block upload that breaks off\<close>

text \<open>C19: A block upload that breaks off leaves an entry behind: for a blob that did not exist, a download
  was answered with 404; the upload is answered with 500, and from then on the blob is found without
  content and its download is answered with 500.\<close>

theorem broken_block_leaves_entry:
  assumes "blob_inv s" and "healthy (be_os (bh_env env))" and "healthy (be_os (bh_env env'))"
    and "segment a" and "segment c" and "n \<noteq> []" and "rq_path p = blobPath a c n" and "rq_path g = blobPath a c n"
    and "rq_method p = ''PUT''" and "queryGet p ''comp'' = ''block''" and "queryGet p ''blockid'' \<noteq> []"
    and "rq_method g = ''GET''" and "up_raw (uploadOf p) = (b, Some e)" and "int (length b) < maxBlobBytes"
    and "blob_abs s (a, c) = Some t" and "a_blobs t n = None"
  shows "rs_status (fst (serveBlobs env' g s)) = 404 \<and>
    (\<exists>resp s1. serveBlobs env p s = (resp, s1) \<and> rs_status resp = 500 \<and>
       statBlob a c n s1 = Inr (placeholder c n) \<and> rs_status (fst (serveBlobs env' g s1)) = 500)"
proof -
  obtain x s1 where stage: "stageBlock (bh_env env) a c n (queryGet p ''blockid'') (b, Some e) s = (x, s1)" by fastforce
  have raw: "limitReader (up_raw (uploadOf p)) = (b, Some e)" using assms(13, 14) by (simp add: limitReader_def)
  have s1: "\<exists>m. x = Some (ErrOther m)" "blob_inv s1" "blob_abs s1 (a, c) = Some (open_blob n t)"
    using blob_step [OF assms(1, 2), of "StageBlock a c n (queryGet p ''blockid'') (b, Some e)"] assms(6, 11, 15) stage
    by (cases x; cases "the x"; auto simp: meets_iff exec_simps)+
  have before: "getBlob (bh_env env') a c n s = Inl ErrBlobNotFound"
    using blob_step [OF assms(1, 3), of "GetBlob a c n"] assms(6, 15, 16)
    by (cases "getBlob (bh_env env') a c n s"; cases "projl (getBlob (bh_env env') a c n s)") (auto simp: meets_iff exec_simps)
  have opened: "a_blobs (open_blob n t) n = Some Uncommitted" using assms(16) by (simp add: open_blob_def)
  have after: "\<exists>m. getBlob (bh_env env') a c n s1 = Inl (ErrOther m)"
    using blob_step [OF s1(2) assms(3), of "GetBlob a c n"] assms(6) s1(3) opened
    by (cases "getBlob (bh_env env') a c n s1"; cases "projl (getBlob (bh_env env') a c n s1)") (auto simp: meets_iff exec_simps)
  have stat: "statBlob a c n s1 = Inr (placeholder c n)"
    using blob_step [OF s1(2) assms(3), of "StatBlob a c n"] assms(6) s1(3) opened
    by (cases "statBlob a c n s1") (auto simp: meets_iff exec_simps stateInfo_def)
  have get: "serveBlobs env' g u = (handleGetBlob env' g a c n False u, u)" for u
    using assms(12) serve_blob [OF assms(8) assms(4-6)] by (simp add: handleBlob_def Let_def)
  have "rs_status (fst (serveBlobs env' g s)) = 404" "rs_status (fst (serveBlobs env' g s1)) = 500"
    using before after unfolding get
    by (auto simp: handleGetBlob_def azureError_def storeError_def blobNotFound_def internalError_def azError_def)
  moreover have "\<exists>resp. serveBlobs env p s = (resp, s1) \<and> rs_status resp = 500"
    using s1(1) stage assms(9-11) serve_blob [OF assms(7) assms(4-6)]
    by (auto simp: handleBlob_def putBlock_def raw Let_def azureError_def storeError_def internalError_def azError_def)
  ultimately show ?thesis using stat by blast
qed

definition breaking_off :: upload where
  "breaking_off = \<lparr>up_raw = ([7], Some ''unexpected EOF''), up_tokens = [], up_malformed = True\<rparr>"

theorem broken_block_leaves_entry_witness:
  "\<exists>resp s1. serveBlobs (blob_http_at 2) (blob_call ''PUT'' [(''comp'', ''block''), (''blockid'', ''x'')] [] breaking_off) logs_store =
       (resp, s1) \<and> rs_status resp = 500 \<and> statBlob ''acct'' ''logs'' ''b'' s1 = Inr (placeholder ''logs'' ''b'')"
proof -
  let ?p = "blob_call ''PUT'' [(''comp'', ''block''), (''blockid'', ''x'')] [] breaking_off"
  have call: "queryGet ?p ''comp'' = ''block''" "queryGet ?p ''blockid'' \<noteq> []"
      "up_raw (uploadOf ?p) = ([7], Some ''unexpected EOF'')"
    by (simp_all add: blob_call_def queryGet_def uploadOf_def breaking_off_def)
  have found: "blob_abs logs_store (''acct'', ''logs'') = Some (empty_container (madeContainer ''logs'' 1 []))"
    by (simp add: logs_store_ok(2))
  from broken_block_leaves_entry [OF logs_store_ok(1) http_healthy http_healthy _ _ _ _ _ _ call(1, 2) _ call(3) _ found,
      of "''b''" "blob_call ''GET'' [] [] noUpload" 3 2]
  show ?thesis by (auto simp: maxBlobBytes_def empty_container_def)
qed

end
