(* ===== verification/Blob_Listing.thy ===== *)
theory Blob_Listing
  imports Blob_Spec "HOL-Library.Multiset"
begin

text \<open>
  Listings in pages. Containers and blobs are listed with a limit and a marker that names the entry to
  go on after; blobs whose names share a virtual directory collapse into one entry. Shown here: a client
  that follows the markers gets every entry exactly once, in order, in pages within the limit, whatever
  the prefix and the delimiter. Both listings interpret one locale of cursor paging.
\<close>

section \<open>Following markers\<close>

text \<open>What a client does: ask for a page, go on with its marker until there is none.\<close>

fun follow :: "(string \<Rightarrow> 'e + 'p) \<Rightarrow> ('p \<Rightarrow> string) \<Rightarrow> nat \<Rightarrow> string \<Rightarrow> 'p list option" where
  "follow ask next_of 0 m = None"
| "follow ask next_of (Suc n) m =
     (case ask m of
        Inl e \<Rightarrow> None
      | Inr p \<Rightarrow> if next_of p = [] then Some [p] else map_option ((#) p) (follow ask next_of n (next_of p)))"

definition beyond :: "('a \<Rightarrow> string) \<Rightarrow> string \<Rightarrow> 'a list \<Rightarrow> 'a list" where
  "beyond name_of r es = filter (\<lambda>e. r = [] \<or> r < name_of e) es"

lemma marker_roundtrip: "decodeMarker (encodeMarker x) = x"
  by (simp add: decodeMarker_def encodeMarker_def rawURL_roundtrip rawURLEncode_Nil)

lemma encodeMarker_Nil: "encodeMarker x = [] \<longleftrightarrow> x = []"
  by (simp add: encodeMarker_def rawURLEncode_Nil)

lemma beyond_last:
  assumes "sorted_wrt (<) (map name_of es)" and "[] \<notin> name_of ` set es" and "n < length (beyond name_of r es)" and "0 < n"
  shows "beyond name_of (name_of (last (take n (beyond name_of r es)))) es = drop n (beyond name_of r es)"
proof -
  let ?rest = "beyond name_of r es"
  let ?e = "last (take n ?rest)"
  have sorted: "sorted_wrt (\<lambda>x y. name_of x < name_of y) ?rest"
    using assms(1) by (simp add: beyond_def sorted_wrt_filter sorted_wrt_map)
  have e: "?e = ?rest ! (n - 1)" using assms(3, 4) by (subst last_conv_nth) auto
  then have "?e \<in> set ?rest" using assms(3, 4) by simp
  then have "?e \<in> set es" and past: "r = [] \<or> r < name_of ?e" by (simp_all add: beyond_def)
  then have name_of: "name_of ?e \<noteq> []" "r = [] \<or> r < name_of ?e" using assms(2) by (metis imageI, metis)
  have "beyond name_of (name_of ?e) es = filter (\<lambda>x. name_of ?e < name_of x) ?rest"
    using name_of by (auto simp: beyond_def intro!: filter_cong)
  also have "\<dots> = filter (\<lambda>x. name_of ?e < name_of x) (take n ?rest) @ filter (\<lambda>x. name_of ?e < name_of x) (drop n ?rest)"
    by (metis append_take_drop_id filter_append)
  also have "filter (\<lambda>x. name_of ?e < name_of x) (take n ?rest) = []"
  proof -
    have "\<not> name_of ?e < name_of x" if x: "x \<in> set (take n ?rest)" for x
    proof -
      obtain i where i: "i < n" "x = ?rest ! i" using x assms(3) by (auto simp: in_set_conv_nth)
      then have "i = n - 1 \<or> name_of x < name_of ?e" using sorted_wrt_nth_less [OF sorted, of i "n - 1"] assms(3) e by force
      then show ?thesis using e i(2) by auto
    qed
    then show ?thesis by (simp add: filter_empty_conv)
  qed
  also have "filter (\<lambda>x. name_of ?e < name_of x) (drop n ?rest) = drop n ?rest"
  proof -
    have "name_of ?e < name_of x" if x: "x \<in> set (drop n ?rest)" for x
    proof -
      obtain i where "i < length ?rest - n" "x = ?rest ! (n + i)" using x by (auto simp: in_set_conv_nth)
      then show ?thesis using sorted_wrt_nth_less [OF sorted, of "n - 1" "n + i"] assms(4) e by simp
    qed
    then show ?thesis by simp
  qed
  finally show ?thesis by simp
qed

text \<open>Cursor paging: the query fixes a list of entries with increasing keys and a limit; a page holds the
  first entries beyond the marker, and its own marker names the last of them when there are more.\<close>

locale cursor_paging =
  fixes ok :: "'q \<Rightarrow> bool" and entries :: "'q \<Rightarrow> 'e list" and name_of :: "'e \<Rightarrow> string" and limit :: "'q \<Rightarrow> nat"
    and ask :: "'q \<Rightarrow> string \<Rightarrow> 'f + 'p" and items :: "'q \<Rightarrow> 'p \<Rightarrow> 'e list" and next_of :: "'p \<Rightarrow> string"
  assumes increasing: "ok q \<Longrightarrow> sorted_wrt (<) (map name_of (entries q))"
    and named: "ok q \<Longrightarrow> [] \<notin> name_of ` set (entries q)"
    and limited: "ok q \<Longrightarrow> 0 < limit q"
    and answers: "ok q \<Longrightarrow> \<exists>p. ask q m = Inr p \<and>
      items q p = take (limit q) (beyond name_of (decodeMarker m) (entries q)) \<and>
      next_of p = (if length (beyond name_of (decodeMarker m) (entries q)) \<le> limit q then []
        else encodeMarker (name_of (last (items q p))))"
begin

lemma follow_from:
  assumes "ok q" and "length (beyond name_of (decodeMarker m) (entries q)) < n"
  shows "\<exists>ps. follow (ask q) next_of n m = Some ps \<and>
    concat (map (items q) ps) = beyond name_of (decodeMarker m) (entries q) \<and>
    (\<forall>p \<in> set ps. length (items q p) \<le> limit q \<and> (\<exists>m. ask q m = Inr p))"
  using assms(2)
proof (induction n arbitrary: m)
  case (Suc n)
  let ?rest = "beyond name_of (decodeMarker m) (entries q)"
  obtain p where p: "ask q m = Inr p" "items q p = take (limit q) ?rest"
      "next_of p = (if length ?rest \<le> limit q then [] else encodeMarker (name_of (last (items q p))))"
    using answers [OF assms(1)] by blast
  show ?case
  proof (cases "length ?rest \<le> limit q")
    case True
    then show ?thesis using p by auto
  next
    case False
    let ?e = "last (take (limit q) ?rest)"
    have "?e \<in> set (take (limit q) ?rest)" using False limited [OF assms(1)] by (intro last_in_set) auto
    then have "?e \<in> set (entries q)" by (auto simp: beyond_def dest!: in_set_takeD)
    then have name_of: "name_of ?e \<noteq> []" using named [OF assms(1)] by (metis imageI)
    have rest: "beyond name_of (decodeMarker (next_of p)) (entries q) = drop (limit q) ?rest"
      using beyond_last [OF increasing named _ limited, OF assms(1) assms(1) _ assms(1), of "decodeMarker m"] False p
      by (simp add: marker_roundtrip)
    have "length (drop (limit q) ?rest) < n" using Suc.prems False limited [OF assms(1)] by simp
    then obtain ps where "follow (ask q) next_of n (next_of p) = Some ps"
        "concat (map (items q) ps) = drop (limit q) ?rest"
        "\<forall>p \<in> set ps. length (items q p) \<le> limit q \<and> (\<exists>m. ask q m = Inr p)"
      using Suc.IH [of "next_of p"] unfolding rest by blast
    then show ?thesis using p False name_of by (auto simp: encodeMarker_Nil)
  qed
qed simp

lemma follow_all:
  assumes "ok q"
  shows "\<exists>ps. follow (ask q) next_of (Suc (length (entries q))) [] = Some ps \<and>
    concat (map (items q) ps) = entries q \<and>
    (\<forall>p \<in> set ps. length (items q p) \<le> limit q \<and> (\<exists>m. ask q m = Inr p))"
proof -
  have "beyond name_of (decodeMarker []) (entries q) = entries q" by (simp add: beyond_def decodeMarker_def)
  then show ?thesis using follow_from [OF assms, of "[]" "Suc (length (entries q))"] by simp
qed

end

lemma increasing_distinct: "sorted_wrt (<) (map f xs :: string list) \<Longrightarrow> distinct xs"
  by (simp add: strict_sorted_iff distinct_map)

section \<open>Virtual directories\<close>

lemma append_less_iff: "p @ x < p @ y \<longleftrightarrow> x < (y :: string)"
  by (induction p) simp_all

lemma append_le_iff: "p @ x \<le> p @ y \<longleftrightarrow> x \<le> (y :: string)"
  by (induction p) simp_all

lemma le_append: "x \<le> x @ (y :: string)"
  using append_le_iff [of x "[]" y] by simp

lemma less_extend:
  assumes "u < (v :: string)" and "\<nexists>w. v = u @ w"
  shows "u @ s < v @ t"
  using assms
proof (induction u arbitrary: v)
  case (Cons c u)
  then show ?case by (cases v) auto
qed simp

lemma indexOf_least: "j \<le> length s \<Longrightarrow> hasPrefix (drop j s) p \<Longrightarrow> \<exists>i \<le> j. indexOf s p = Some i"
proof (induction s arbitrary: j)
  case (Cons c s)
  show ?case
  proof (cases "hasPrefix (c # s) p")
    case False
    then obtain j' where "j = Suc j'" using Cons.prems(2) by (cases j) auto
    then show ?thesis using Cons False by fastforce
  qed simp
qed (simp add: hasPrefix_iff)

text \<open>The virtual directory of what follows the prefix.\<close>

definition directory :: "string \<Rightarrow> string \<Rightarrow> string option" where
  "directory d x = map_option (\<lambda>i. take (i + length d) x) (if d = [] then None else indexOf x d)"

lemma collapse_eq:
  "hasPrefix name prefix \<Longrightarrow> collapse prefix d name =
     (case directory d (drop (length prefix) name) of None \<Rightarrow> (name, False) | Some k \<Rightarrow> (prefix @ k, True))"
  by (auto simp: collapse_def directory_def split: option.split)

lemma directory_prefix: "directory d x = Some k \<Longrightarrow> \<exists>t. x = k @ t \<and> directory d k = Some k \<and> k \<noteq> []"
proof -
  assume "directory d x = Some k"
  then obtain i where i: "d \<noteq> []" "indexOf x d = Some i" "k = take (i + length d) x"
    by (auto simp: directory_def split: if_splits)
  have bound: "i + length d \<le> length x" and at: "hasPrefix (drop i x) d"
    using indexOf_bound [OF i(2)] indexOf_prefix [OF i(2)] by simp_all
  then have "hasPrefix (drop i k) d" by (simp add: hasPrefix_def i(3) drop_take min_def)
  moreover have "i \<le> length k" using bound by (simp add: i(3))
  ultimately obtain j where j: "j \<le> i" "indexOf k d = Some j" using indexOf_least by blast
  have "hasPrefix (drop j x) d"
    using indexOf_prefix [OF j(2)] indexOf_bound [OF j(2)] bound by (simp add: hasPrefix_def i(3) drop_take min_def split: if_splits)
  moreover have "j \<le> length x" using j(1) bound by simp
  ultimately have "i \<le> j" using indexOf_least i(2) by fastforce
  then have "directory d k = Some k" using j i(1, 3) bound by (simp add: directory_def)
  moreover have "k \<noteq> []" using i(1, 3) bound by auto
  moreover have "x = k @ drop (i + length d) x" by (simp add: i(3))
  ultimately show ?thesis by blast
qed

lemma directory_longer: "directory d k = Some k \<Longrightarrow> \<exists>k'. directory d (k @ t) = Some k' \<and> length k' \<le> length k"
proof -
  assume k: "directory d k = Some k"
  then obtain i where i: "d \<noteq> []" "indexOf k d = Some i" by (auto simp: directory_def split: if_splits)
  have bound: "i + length d \<le> length k" and "hasPrefix (drop i k) d"
    using indexOf_bound [OF i(2)] indexOf_prefix [OF i(2)] by simp_all
  then have "hasPrefix (drop i (k @ t)) d" by (auto simp: hasPrefix_iff)
  then obtain j where "j \<le> i" "indexOf (k @ t) d = Some j"
    using indexOf_least [of i "k @ t" d] bound by auto
  then show ?thesis using i(1) bound by (simp add: directory_def)
qed

definition shown :: "string \<Rightarrow> string \<Rightarrow> string" where
  "shown d x = (case directory d x of None \<Rightarrow> x | Some k \<Rightarrow> k)"

lemma shown_prefix: "\<exists>t. x = shown d x @ t"
  using directory_prefix [of d x] by (cases "directory d x") (auto simp: shown_def)

text \<open>Collapsing keeps the order.\<close>

lemma shown_mono:
  assumes "x < y"
  shows "shown d x \<le> shown d y"
proof (rule ccontr)
  assume "\<not> shown d x \<le> shown d y"
  then have less: "shown d y < shown d x" by simp
  obtain s t where s: "x = shown d x @ s" and t: "y = shown d y @ t" using shown_prefix by metis
  show False
  proof (cases "\<exists>w. shown d x = shown d y @ w")
    case False
    then show False using less_extend [OF less, of t s] s t assms by simp
  next
    case True
    then obtain w where w: "shown d x = shown d y @ w" by blast
    then have "w \<noteq> []" using less by auto
    show False
    proof (cases "directory d y")
      case None
      then have "x = y @ (w @ s)" using s w by (simp add: shown_def)
      then show False using assms le_append [of y "w @ s"] by simp
    next
      case (Some k)
      then have k: "shown d y = k" "directory d k = Some k" using directory_prefix [OF Some] by (auto simp: shown_def)
      have "x = k @ (w @ s)" using s w k(1) by simp
      with directory_longer [OF k(2), of "w @ s"] have "length (shown d x) \<le> length k" by (auto simp: shown_def)
      then show False using w k(1) \<open>w \<noteq> []\<close> by simp
    qed
  qed
qed

lemma shown_same: "shown d x = shown d y \<Longrightarrow> (directory d x = None \<longleftrightarrow> directory d y = None)"
  using directory_prefix [of d x] directory_prefix [of d y]
  by (cases "directory d x"; cases "directory d y") (auto simp: shown_def)

section \<open>The entries of a listing of blobs\<close>

text \<open>The entries the loop meets after \<open>r\<close>: those that go beyond the last one.\<close>

fun fresh :: "string \<Rightarrow> (string \<times> bool) list \<Rightarrow> (string \<times> bool) list" where
  "fresh r [] = []"
| "fresh r ((k, p) # es) = (if r \<noteq> [] \<and> k \<le> r then fresh r es else (k, p) # fresh k es)"

lemma fresh_above: "e \<in> set (fresh r es) \<Longrightarrow> r \<noteq> [] \<Longrightarrow> r < fst e"
proof (induction r es rule: fresh.induct)
  case (2 r k p es)
  show ?case
  proof (cases "k \<le> r")
    case True
    then show ?thesis using 2 by simp
  next
    case False
    then have "r < k" "k \<noteq> []" by auto
    then show ?thesis using 2 False by (auto dest: order.strict_trans)
  qed
qed simp

lemma fresh_subset: "set (fresh r es) \<subseteq> set es"
  by (induction r es rule: fresh.induct) auto

lemma fresh_increasing: "[] \<notin> fst ` set es \<Longrightarrow> sorted_wrt (<) (map fst (fresh r es))"
proof (induction r es rule: fresh.induct)
  case (2 r k p es)
  then show ?case using fresh_above [of _ k es] by auto
qed simp

lemma fresh_beyond:
  assumes "[] \<notin> fst ` set es" and "r' = [] \<or> r \<noteq> [] \<and> r' \<le> r"
  shows "fresh r es = beyond fst r (fresh r' es)"
  using assms
proof (induction es arbitrary: r r')
  case (Cons e es)
  obtain k p where e: "e = (k, p)" by (cases e)
  have k: "k \<noteq> []" and es: "[] \<notin> fst ` set es" using Cons.prems(1) by (auto simp: e)
  show ?case
  proof (cases "r \<noteq> [] \<and> k \<le> r")
    case True
    show ?thesis
    proof (cases "r' \<noteq> [] \<and> k \<le> r'")
      case skipped: True
      then show ?thesis using Cons.IH [OF es Cons.prems(2)] True by (simp add: e)
    next
      case False
      have "fresh r es = beyond fst r (fresh k es)" using True by (intro Cons.IH [OF es]) simp
      moreover have "\<not> r < k" using True by auto
      ultimately show ?thesis using False True by (cases "r' = []") (simp_all add: e beyond_def)
    qed
  next
    case False
    then have "r = [] \<or> r < k" by auto
    then have "r = [] \<or> r < fst x" if "x \<in> set (fresh k es)" for x
      using fresh_above [OF that k] by (auto dest: order.strict_trans)
    then have "beyond fst r (fresh k es) = fresh k es" by (simp add: beyond_def)
    moreover have "\<not> (r' \<noteq> [] \<and> k \<le> r')" using False Cons.prems(2) by auto
    ultimately show ?thesis using False by (auto simp: e beyond_def)
  qed
qed (simp add: beyond_def)

lemma fresh_complete:
  assumes "sorted (map fst es)" and "inj_on fst (set es)" and "e \<in> set es" and "r = [] \<or> r < fst e" and "[] \<notin> fst ` set es"
  shows "e \<in> set (fresh r es)"
  using assms
proof (induction r es rule: fresh.induct)
  case (2 r k p es)
  have rest: "sorted (map fst es)" "inj_on fst (set es)" "[] \<notin> fst ` set es"
    using "2.prems"(1, 2, 5) by simp_all
  show ?case
  proof (cases "r \<noteq> [] \<and> k \<le> r")
    case True
    then have "e \<noteq> (k, p)" using "2.prems"(4) by auto
    then have "e \<in> set es" using "2.prems"(3) by simp
    then have "e \<in> set (fresh r es)" using "2.IH"(1) [OF True rest(1, 2) _ "2.prems"(4) rest(3)] by simp
    then show ?thesis using True by simp
  next
    case False
    show ?thesis
    proof (cases "e = (k, p)")
      case other: False
      then have mem: "e \<in> set es" and "k \<le> fst e" "k \<noteq> fst e"
        using "2.prems"(1-3) by auto
      then have "k < fst e" by simp
      then have "e \<in> set (fresh k es)" using "2.IH"(2) [OF False rest(1, 2) mem _ rest(3)] by simp
      then show ?thesis using False by auto
    qed (use False in auto)
  qed
qed simp

text \<open>The loop over the names adds the next entries to the page.\<close>

lemma pageLoop_fresh:
  assumes "\<forall>k \<in> set seen. r \<noteq> [] \<and> k \<le> r" and "\<forall>n \<in> set names. fst (f n) \<noteq> []"
    and "\<forall>n \<in> set names. \<not> snd (f n) \<longrightarrow> fst (f n) = n" and "pg_next page = []"
  shows "pageLoop f info (c0 + int m) seen page c0 r names =
    (let es = fresh r (map f names); added = take m es in
     \<lparr>pg_blobs = pg_blobs page @ map (\<lambda>e. info (fst e)) (filter (\<lambda>e. \<not> snd e) added),
      pg_prefixes = pg_prefixes page @ map fst (filter snd added),
      pg_next = (if length es \<le> m then [] else encodeMarker (if added = [] then r else fst (last added)))\<rparr>)"
  using assms
proof (induction names arbitrary: seen r page c0 m)
  case (Cons n names)
  obtain k p where f: "f n = (k, p)" by (cases "f n")
  have k: "k \<noteq> []" "\<not> p \<longrightarrow> k = n" using Cons.prems(2, 3) f by auto
  have rest: "\<forall>n \<in> set names. fst (f n) \<noteq> []" "\<forall>n \<in> set names. \<not> snd (f n) \<longrightarrow> fst (f n) = n"
    using Cons.prems(2, 3) by simp_all
  show ?case
  proof (cases "r \<noteq> [] \<and> k \<le> r")
    case True
    have "pageLoop f info (c0 + int m) seen page c0 r (n # names) =
        pageLoop f info (c0 + int m) (if p \<and> k \<notin> set seen then k # seen else seen) page c0 r names"
      using True by (simp add: f)
    then show ?thesis
      using Cons.IH [OF _ rest Cons.prems(4), of "if p \<and> k \<notin> set seen then k # seen else seen"] Cons.prems(1) True
      by (simp add: f)
  next
    case False
    then have unseen: "k \<notin> set seen" using Cons.prems(1) by auto
    show ?thesis
    proof (cases m)
      case 0
      then show ?thesis using False unseen Cons.prems(4) by (cases "r = []") (simp_all add: f)
    next
      case (Suc m')
      let ?page = "if p then page\<lparr>pg_prefixes := pg_prefixes page @ [k]\<rparr> else page\<lparr>pg_blobs := pg_blobs page @ [info n]\<rparr>"
      have seen: "\<forall>k' \<in> set (if p then k # seen else seen). k \<noteq> [] \<and> k' \<le> k"
        using Cons.prems(1) k(1) False by (auto intro: order.trans less_imp_le)
      have "pageLoop f info (c0 + int m) seen page c0 r (n # names) =
          pageLoop f info (c0 + 1 + int m') (if p then k # seen else seen) ?page (c0 + 1) k names"
        using False unseen by (cases "r = []") (simp_all add: f Suc add.assoc)
      also have "\<dots> = (let es = fresh k (map f names); added = take m' es in
         \<lparr>pg_blobs = pg_blobs ?page @ map (\<lambda>e. info (fst e)) (filter (\<lambda>e. \<not> snd e) added),
          pg_prefixes = pg_prefixes ?page @ map fst (filter snd added),
          pg_next = (if length es \<le> m' then [] else encodeMarker (if added = [] then k else fst (last added)))\<rparr>)"
        using Cons.IH [OF seen rest, of ?page "c0 + 1" m'] Cons.prems(4) by simp
      finally show ?thesis using False k(2) by (auto simp: f Suc Let_def)
    qed
  qed
qed (simp add: Let_def)

section \<open>Listing blobs\<close>

lemma collapse_shown:
  "hasPrefix name prefix \<Longrightarrow> collapse prefix d name =
     (prefix @ shown d (drop (length prefix) name), directory d (drop (length prefix) name) \<noteq> None)"
  by (auto simp: collapse_eq shown_def hasPrefix_iff split: option.split)

lemma blobNames_props:
  "distinct_keys m \<Longrightarrow> sorted (blobNames prefix m) \<and> distinct (blobNames prefix m)"
  "n \<in> set (blobNames prefix m) \<longleftrightarrow> map_of m n \<noteq> None \<and> hasPrefix n prefix"
  by (auto simp: blobNames_def distinct_keys_def hasPrefix_def map_of_eq_None_iff)

text \<open>The keys of the collapsed names: in order, not empty, and each with one kind.\<close>

lemma collapsed_names:
  assumes "distinct_keys m" and "map_of m [] = None"
  shows "sorted (map fst (map (collapse prefix d) (blobNames prefix m)))"
    and "inj_on fst (set (map (collapse prefix d) (blobNames prefix m)))"
    and "[] \<notin> fst ` set (map (collapse prefix d) (blobNames prefix m))"
    and "n \<in> set (blobNames prefix m) \<Longrightarrow> \<not> snd (collapse prefix d n) \<Longrightarrow> fst (collapse prefix d n) = n"
proof -
  let ?names = "blobNames prefix m" and ?f = "collapse prefix d"
  have f: "?f n = (prefix @ shown d (drop (length prefix) n), directory d (drop (length prefix) n) \<noteq> None)"
    and n: "n = prefix @ drop (length prefix) n" "n \<noteq> []" if "n \<in> set ?names" for n
    using that collapse_shown [of n prefix d] assms(2) blobNames_props(2) [of n prefix m] by (auto simp: hasPrefix_iff)
  have mono: "fst (?f x) \<le> fst (?f y)" if h: "x \<in> set ?names" "y \<in> set ?names" and "x \<le> y" for x y
  proof (cases "x = y")
    case False
    obtain x' y' where split: "x = prefix @ x'" "y = prefix @ y'" using n(1) [OF h(1)] n(1) [OF h(2)] by blast
    then have "drop (length prefix) x < drop (length prefix) y"
      using \<open>x \<le> y\<close> False by (simp add: append_less_iff append_le_iff)
    then show ?thesis using f [OF h(1)] f [OF h(2)] shown_mono by (simp add: append_le_iff)
  qed simp
  have "sorted ?names" using blobNames_props(1) [OF assms(1)] by blast
  then show "sorted (map fst (map ?f ?names))"
    unfolding sorted_map sorted_wrt_map by (rule sorted_wrt_mono_rel [rotated]) (simp add: mono)
  show "inj_on fst (set (map ?f ?names))"
  proof (rule inj_onI)
    fix e e' assume "e \<in> set (map ?f ?names)" "e' \<in> set (map ?f ?names)" and same: "fst e = fst e'"
    then obtain x y where xy: "x \<in> set ?names" "e = ?f x" "y \<in> set ?names" "e' = ?f y" by auto
    then show "e = e'"
      using same shown_same [of d "drop (length prefix) x" "drop (length prefix) y"] by (simp add: f del: not_None_eq)
  qed
  have "fst (?f n) \<noteq> []" if "n \<in> set ?names" for n
    using f [OF that] n [OF that] directory_prefix [of d "drop (length prefix) n"]
    by (cases "directory d (drop (length prefix) n)") (auto simp: shown_def)
  then show "[] \<notin> fst ` set (map ?f ?names)" by (metis (no_types, lifting) imageE list.set_map)
  show "fst (?f n) = n" if "n \<in> set ?names" "\<not> snd (?f n)" for n
    using f [OF that(1)] n [OF that(1)] that(2) by (auto simp: shown_def)
qed

type_synonym blob_query = "string \<times> string \<times> string \<times> string \<times> int \<times> blob_store"

definition queryBlobs :: "blob_query \<Rightarrow> (string, blobEntry) go_map" where
  "queryBlobs q = (case q of (a, c, prefix, d, most, s) \<Rightarrow>
     (case lookupContainer a c s of Inl e \<Rightarrow> [] | Inr cont \<Rightarrow> c_blobs cont))"

definition blobEntries :: "blob_query \<Rightarrow> (string \<times> bool) list" where
  "blobEntries q = (case q of (a, c, prefix, d, most, s) \<Rightarrow>
     fresh [] (map (collapse prefix d) (blobNames prefix (queryBlobs q))))"

definition askBlobs :: "blob_query \<Rightarrow> string \<Rightarrow> blob_error + blobPage" where
  "askBlobs q m = (case q of (a, c, prefix, d, most, s) \<Rightarrow> listBlobs a c prefix d most m s)"

definition blobLimit :: "blob_query \<Rightarrow> nat" where
  "blobLimit q = (case q of (a, c, prefix, d, most, s) \<Rightarrow> nat (clampResults maxListResults most))"

definition listable :: "blob_query \<Rightarrow> bool" where
  "listable q \<longleftrightarrow> (case q of (a, c, prefix, d, most, s) \<Rightarrow> \<exists>cont. lookupContainer a c s = Inr cont) \<and>
     distinct_keys (queryBlobs q) \<and> map_of (queryBlobs q) [] = None \<and>
     (\<forall>n e. map_of (queryBlobs q) n = Some e \<longrightarrow> bi_name (be_info e) = n)"

text \<open>The entries of a page in the order of their names: blobs, and directories marked \<open>True\<close>.\<close>

definition pageEntries :: "blobPage \<Rightarrow> (string \<times> bool) list" where
  "pageEntries p = sort_key fst (map (\<lambda>b. (bi_name b, False)) (pg_blobs p) @ map (\<lambda>k. (k, True)) (pg_prefixes p))"

lemma clamp_positive: "0 < most \<Longrightarrow> 0 < clampResults most n \<and> clampResults most n \<le> most"
  by (simp add: clampResults_def)

lemma blob_answers:
  assumes "listable q"
  shows "\<exists>p. askBlobs q m = Inr p \<and> pageEntries p = take (blobLimit q) (beyond fst (decodeMarker m) (blobEntries q)) \<and>
    pg_next p = (if length (beyond fst (decodeMarker m) (blobEntries q)) \<le> blobLimit q then []
      else encodeMarker (fst (last (pageEntries p))))"
proof -
  obtain a c prefix d most s where q: "q = (a, c, prefix, d, most, s)" by (cases q) auto
  let ?m = "queryBlobs q" and ?f = "collapse prefix d"
  let ?names = "blobNames prefix ?m" and ?r = "decodeMarker m"
  have ok: "distinct_keys ?m" "map_of ?m [] = None" "\<And>n e. map_of ?m n = Some e \<Longrightarrow> bi_name (be_info e) = n"
    and found: "\<exists>cont. lookupContainer a c s = Inr cont \<and> c_blobs cont = ?m"
    using assms by (auto simp: listable_def q queryBlobs_def)
  note keys = collapsed_names [OF ok(1, 2), where prefix = prefix and d = d]
  let ?es = "fresh ?r (map ?f ?names)"
  let ?added = "take (blobLimit q) ?es"
  have limit: "clampResults maxListResults most = 0 + int (blobLimit q)" "0 < blobLimit q"
    using clamp_positive [of maxListResults most] by (simp_all add: blobLimit_def q maxListResults_def)
  have beyond: "beyond fst ?r (blobEntries q) = ?es"
    using fresh_beyond [OF keys(3), of "[]" ?r] by (simp add: blobEntries_def q)
  have "sorted_wrt (<) (map fst ?es)" using fresh_increasing [OF keys(3)] .
  then have "sorted_wrt (<) (map fst ?added)" by (simp add: sorted_wrt_take flip: take_map)
  then have sorted: "sorted (map fst ?added)" "inj_on fst (set ?added)"
    by (auto simp: strict_sorted_iff distinct_map)
  have mem: "e \<in> set ?added \<Longrightarrow> \<not> snd e \<Longrightarrow> bi_name (infoOf ?m (fst e)) = fst e" for e
  proof -
    assume e: "e \<in> set ?added" "\<not> snd e"
    then obtain n where n: "n \<in> set ?names" "e = ?f n" using fresh_subset [of ?r "map ?f ?names"] by (auto dest: in_set_takeD)
    then have "fst e = n" "map_of ?m n \<noteq> None" using keys(4) e(2) blobNames_props(2) by auto
    then show ?thesis using ok(3) by (auto simp: infoOf_def)
  qed
  let ?page = "\<lparr>pg_blobs = map (\<lambda>e. infoOf ?m (fst e)) (filter (\<lambda>e. \<not> snd e) ?added),
    pg_prefixes = map fst (filter snd ?added),
    pg_next = (if length ?es \<le> blobLimit q then [] else encodeMarker (if ?added = [] then ?r else fst (last ?added)))\<rparr>"
  have loop: "pageLoop ?f (infoOf ?m) (clampResults maxListResults most) [] emptyPage 0 ?r ?names = ?page"
    unfolding limit(1) using keys(3, 4)
    by (subst pageLoop_fresh) (auto simp: emptyPage_def Let_def image_iff)
  let ?p = "?page\<lparr>pg_prefixes := sort (pg_prefixes ?page)\<rparr>"
  have "askBlobs q m = Inr ?p" using found loop by (auto simp: askBlobs_def q listBlobs_def Let_def)
  moreover have entries: "pageEntries ?p = ?added"
  proof -
    have blobs: "map (\<lambda>b. (bi_name b, False)) (pg_blobs ?p) = filter (\<lambda>e. \<not> snd e) ?added"
      using mem by (auto intro!: map_idI)
    have "map (\<lambda>k. (k, True)) (map fst (filter snd ?added)) = filter snd ?added" by (auto intro!: map_idI)
    moreover have "mset (map (\<lambda>k. (k, True)) (pg_prefixes ?p)) = mset (map (\<lambda>k. (k, True)) (map fst (filter snd ?added)))"
      by (simp only: mset_map blobPage.simps mset_sort)
    ultimately have "mset (map (\<lambda>b. (bi_name b, False)) (pg_blobs ?p) @ map (\<lambda>k. (k, True)) (pg_prefixes ?p)) =
        mset (filter (\<lambda>e. \<not> snd e) ?added) + mset (filter snd ?added)"
      unfolding mset_append blobs by (simp only:)
    also have "\<dots> = mset ?added" by (simp add: add.commute flip: multiset_partition)
    finally have same: "mset (map (\<lambda>b. (bi_name b, False)) (pg_blobs ?p) @ map (\<lambda>k. (k, True)) (pg_prefixes ?p)) = mset ?added" .
    show ?thesis
      unfolding pageEntries_def
      using sort_key_inj_key_eq [OF same _ sorted(1)] sorted(2) mset_eq_setD [OF same] by simp
  qed
  moreover have "pg_next ?p = (if length ?es \<le> blobLimit q then [] else encodeMarker (fst (last (pageEntries ?p))))"
    unfolding entries using limit(2) by auto
  ultimately show ?thesis unfolding beyond by blast
qed

interpretation blobs: cursor_paging listable blobEntries fst blobLimit askBlobs "\<lambda>_. pageEntries" pg_next
proof
  fix q m assume ok: "listable q"
  obtain a c prefix d most s where q: "q = (a, c, prefix, d, most, s)" by (cases q) auto
  have names: "[] \<notin> fst ` set (map (collapse prefix d) (blobNames prefix (queryBlobs q)))"
    using ok by (intro collapsed_names(3)) (simp_all add: listable_def)
  show "sorted_wrt (<) (map fst (blobEntries q))" using fresh_increasing [OF names] by (simp add: blobEntries_def q)
  show "[] \<notin> fst ` set (blobEntries q)"
    using names fresh_subset [of "[]" "map (collapse prefix d) (blobNames prefix (queryBlobs q))"]
    by (auto simp: blobEntries_def q)
  show "0 < blobLimit q" using clamp_positive [of maxListResults most] by (simp add: blobLimit_def q maxListResults_def)
  show "\<exists>p. askBlobs q m = Inr p \<and> pageEntries p = take (blobLimit q) (beyond fst (decodeMarker m) (blobEntries q)) \<and>
      pg_next p = (if length (beyond fst (decodeMarker m) (blobEntries q)) \<le> blobLimit q then []
        else encodeMarker (fst (last (pageEntries p))))"
    by (rule blob_answers [OF ok])
qed

lemma blobEntries_set:
  assumes "listable (a, c, prefix, d, most, s)"
  shows "set (blobEntries (a, c, prefix, d, most, s)) =
    collapse prefix d ` {n. map_of (queryBlobs (a, c, prefix, d, most, s)) n \<noteq> None \<and> hasPrefix n prefix}"
proof -
  let ?q = "(a, c, prefix, d, most, s)"
  let ?es = "map (collapse prefix d) (blobNames prefix (queryBlobs ?q))"
  have "distinct_keys (queryBlobs ?q)" "map_of (queryBlobs ?q) [] = None" using assms by (simp_all add: listable_def)
  note keys = collapsed_names [OF this, where prefix = prefix and d = d]
  have "set (fresh [] ?es) = set ?es"
    using fresh_subset [of "[]" ?es] fresh_complete [OF keys(1, 2) _ _ keys(3), of _ "[]"] by blast
  also have "\<dots> = collapse prefix d ` {n. map_of (queryBlobs ?q) n \<noteq> None \<and> hasPrefix n prefix}"
    by (auto simp: blobNames_props(2))
  finally show ?thesis by (simp add: blobEntries_def)
qed

lemma listable_inv:
  assumes "blob_inv s" and "blob_abs s (a, c) = Some t"
  shows "listable (a, c, prefix, d, most, s)"
    and "map_of (queryBlobs (a, c, prefix, d, most, s)) n \<noteq> None \<longleftrightarrow> a_blobs t n \<noteq> None"
proof -
  obtain cont where cont: "lookupContainer a c s = Inr cont" "t = abs_container (view (bs_root s @ [a, c]) (bs_disk s)) cont"
      "container_ok (view (bs_root s @ [a, c]) (bs_disk s)) c cont"
    using assms(1) assms(2) by (cases rule: container_cases [where a = a and c = c]) auto
  have blobs: "queryBlobs (a, c, prefix, d, most, s) = c_blobs cont" for prefix d most by (simp add: queryBlobs_def cont(1))
  have named: "bi_name (be_info e) = n" if "map_of (c_blobs cont) n = Some e" for n e
  proof (cases "n = []")
    case True
    then show ?thesis using that cont(3) by (simp add: container_ok_def)
  next
    case False
    then have "blob_ok (view (bs_root s @ [a, c]) (bs_disk s)) c n (Some e)" using that cont(3) unfolding container_ok_def by metis
    then show ?thesis by (auto simp: blob_ok_def placeholder_def)
  qed
  show "listable (a, c, prefix, d, most, s)"
    using cont named by (auto simp: listable_def blobs container_ok_def)
  show "map_of (queryBlobs (a, c, prefix, d, most, s)) n \<noteq> None \<longleftrightarrow> a_blobs t n \<noteq> None"
    by (simp add: blobs cont(2) abs_blob)
qed

text \<open>C15: Listing a container page by page gives every entry exactly once and in order: a client that
  follows the markers, with any prefix, delimiter and page size (also zero, negative or too large),
  comes to an end after at most one page per entry; its pages together hold, in increasing order and
  without repetition, the blobs and the virtual directories of the names with the prefix, and no page
  has more entries than the page size.\<close>

theorem list_blobs_pages:
  assumes "blob_inv s" and "blob_abs s (a, c) = Some t"
  shows "\<exists>pages. follow (\<lambda>m. listBlobs a c prefix d most m s) pg_next
      (Suc (card (collapse prefix d ` {n. a_blobs t n \<noteq> None \<and> hasPrefix n prefix}))) [] = Some pages \<and>
    sorted_wrt (<) (map fst (concat (map pageEntries pages))) \<and>
    set (concat (map pageEntries pages)) = collapse prefix d ` {n. a_blobs t n \<noteq> None \<and> hasPrefix n prefix} \<and>
    (\<forall>p \<in> set pages. int (length (pg_blobs p) + length (pg_prefixes p)) \<le> clampResults maxListResults most)"
proof -
  let ?q = "(a, c, prefix, d, most, s)"
  have ok: "listable ?q" using listable_inv(1) [OF assms] .
  have entries: "set (blobEntries ?q) = collapse prefix d ` {n. a_blobs t n \<noteq> None \<and> hasPrefix n prefix}"
    using blobEntries_set [OF ok] listable_inv(2) [OF assms] by simp
  have sorted: "sorted_wrt (<) (map fst (blobEntries ?q))" using blobs.increasing [OF ok] .
  then have "distinct (blobEntries ?q)" by (rule increasing_distinct)
  then have len: "length (blobEntries ?q) = card (set (blobEntries ?q))" by (simp add: distinct_card)
  obtain pages where pages: "follow (askBlobs ?q) pg_next (Suc (length (blobEntries ?q))) [] = Some pages"
      "concat (map pageEntries pages) = blobEntries ?q" "\<forall>p \<in> set pages. length (pageEntries p) \<le> blobLimit ?q"
    using blobs.follow_all [OF ok] by blast
  have "int (length (pg_blobs p) + length (pg_prefixes p)) \<le> clampResults maxListResults most" if "p \<in> set pages" for p
    using pages(3) that clamp_positive [of maxListResults most]
    by (auto simp: pageEntries_def blobLimit_def maxListResults_def)
  moreover have ask: "askBlobs ?q = (\<lambda>m. listBlobs a c prefix d most m s)" by (simp add: askBlobs_def fun_eq_iff)
  ultimately show ?thesis
    using pages(1) [unfolded len entries ask] sorted entries unfolding pages(2) [symmetric] by blast
qed

theorem list_blobs_pages_witness:
  "\<exists>s pages. follow (\<lambda>m. listBlobs ''acct'' ''logs'' [] ''/'' 1 m (s :: blob_store)) pg_next 3 [] = Some pages \<and>
     set (concat (map pageEntries pages)) = {(''a/'', True), (''b'', False)} \<and>
     (\<forall>p \<in> set pages. int (length (pg_blobs p) + length (pg_prefixes p)) \<le> 1)"
proof -
  let ?ops = "[(blob_env_at 1, CreateContainer ''acct'' ''logs'' []),
    (blob_env_at 2, StageBlock ''acct'' ''logs'' ''a/1'' ''x'' ([1], None)),
    (blob_env_at 3, StageBlock ''acct'' ''logs'' ''a/2'' ''x'' ([2], None)),
    (blob_env_at 4, StageBlock ''acct'' ''logs'' ''b'' ''x'' ([3], None))]"
  have "\<forall>(env, op) \<in> set ?ops. healthy (be_os env) \<and> op_ok op" by (simp add: plainName_def)
  from blob_run_refines [OF fresh_inv this] obtain s where inv: "blob_inv s"
      and "blob_abs s = snd (blob_run blob_reference ?ops Map.empty)"
    by (auto simp: fresh_abs)
  then obtain t where t: "blob_abs s (''acct'', ''logs'') = Some t"
      "a_blobs t = [''a/1'' \<mapsto> Uncommitted, ''a/2'' \<mapsto> Uncommitted, ''b'' \<mapsto> Uncommitted]"
    by (simp add: blob_reference_def blob_env_at_def on_container_def empty_container_def open_blob_def Let_def)
  have names: "{n. a_blobs t n \<noteq> None \<and> hasPrefix n []} = {''a/1'', ''a/2'', ''b''}"
    by (auto simp: t(2) hasPrefix_def split: if_splits)
  have "collapse [] ''/'' ''a/1'' = (''a/'', True)" "collapse [] ''/'' ''a/2'' = (''a/'', True)" "collapse [] ''/'' ''b'' = (''b'', False)"
    by (simp_all add: collapse_def hasPrefix_def)
  then have entries: "collapse [] ''/'' ` {n. a_blobs t n \<noteq> None \<and> hasPrefix n []} = {(''a/'', True), (''b'', False)}"
    unfolding names by simp
  from list_blobs_pages [OF inv t(1), of "[]" "''/''" 1] show ?thesis
    unfolding entries by (auto simp: clampResults_def maxListResults_def numeral_3_eq_3)
qed

section \<open>Listing containers\<close>

type_synonym container_query = "string \<times> string \<times> int \<times> blob_store"

definition containerEntries :: "container_query \<Rightarrow> containerInfo list" where
  "containerEntries q = (case q of (a, prefix, most, s) \<Rightarrow>
     sort_key ci_name (map (\<lambda>(n, c). c_info c) (filter (\<lambda>(n, c). hasPrefix n prefix) (inner a (bs_accounts s)))))"

definition askContainers :: "container_query \<Rightarrow> string \<Rightarrow> unit + containerInfo list \<times> string" where
  "askContainers q m = (case q of (a, prefix, most, s) \<Rightarrow> Inr (listContainers a prefix most m s))"

definition containerLimit :: "container_query \<Rightarrow> nat" where
  "containerLimit q = (case q of (a, prefix, most, s) \<Rightarrow> nat (clampResults maxListContainersResults most))"

definition account_ok :: "container_query \<Rightarrow> bool" where
  "account_ok q = (case q of (a, prefix, most, s) \<Rightarrow> distinct_keys (inner a (bs_accounts s)) \<and>
     (\<forall>(n, c) \<in> set (inner a (bs_accounts s)). n \<noteq> [] \<and> ci_name (c_info c) = n))"

lemma containerPage_eq:
  assumes "m = decodeMarker marker" and "sorted_wrt (<) (map ci_name infos)" and "length out \<le> n" and "0 < n"
  shows "containerPage m (int n) out infos =
    (let rest = beyond ci_name m infos; page = out @ take (n - length out) rest in
     (page, if length out + length rest \<le> n then [] else encodeMarker (ci_name (last page))))"
  using assms(2-4)
proof (induction infos arbitrary: out)
  case (Cons i infos)
  show ?case
  proof (cases "m \<noteq> [] \<and> ci_name i \<le> m")
    case True
    then have "beyond ci_name m (i # infos) = beyond ci_name m infos" by (auto simp: beyond_def)
    then show ?thesis using Cons True by simp
  next
    case False
    then have rest: "beyond ci_name m (i # infos) = i # beyond ci_name m infos" by (auto simp: beyond_def not_le)
    show ?thesis
    proof (cases "length out = n")
      case full: True
      then have "containerPage m (int n) out (i # infos) = (out, encodeMarker (ci_name (last out)))"
        using False by (cases "m = []") simp_all
      then show ?thesis using full unfolding rest by (simp add: Let_def)
    next
      case room: False
      have step: "containerPage m (int n) out (i # infos) = containerPage m (int n) (out @ [i]) infos"
        using False room by (cases "m = []") simp_all
      have "n - length out = Suc (n - Suc (length out))" using room Cons.prems(2) by simp
      then show ?thesis
        using Cons.IH [of "out @ [i]"] Cons.prems room unfolding step rest by (simp add: Let_def)
    qed
  qed
qed (simp add: beyond_def)

lemma containerEntries_props:
  assumes "account_ok (a, prefix, most, s)"
  shows "sorted_wrt (<) (map ci_name (containerEntries (a, prefix, most, s)))"
    and "set (containerEntries (a, prefix, most, s)) =
      {c_info c | n c. map_of (inner a (bs_accounts s)) n = Some c \<and> hasPrefix n prefix}"
    and "\<forall>i \<in> set (containerEntries (a, prefix, most, s)). ci_name i \<noteq> []"
proof -
  let ?m = "filter (\<lambda>(n, c). hasPrefix n prefix) (inner a (bs_accounts s))"
  have ok: "distinct_keys (inner a (bs_accounts s))"
      "\<And>n c. (n, c) \<in> set (inner a (bs_accounts s)) \<Longrightarrow> n \<noteq> [] \<and> ci_name (c_info c) = n"
    using assms by (auto simp: account_ok_def)
  have names: "map ci_name (map (\<lambda>(n, c). c_info c) ?m) = map fst ?m" using ok(2) by auto
  have "distinct (map fst ?m)" using ok(1) by (simp add: distinct_keys_def distinct_map_filter)
  then have "distinct (map ci_name (containerEntries (a, prefix, most, s)))"
    unfolding containerEntries_def prod.case distinct_map_sort_key names .
  then show "sorted_wrt (<) (map ci_name (containerEntries (a, prefix, most, s)))"
    by (simp add: strict_sorted_iff containerEntries_def)
  show "set (containerEntries (a, prefix, most, s)) =
      {c_info c | n c. map_of (inner a (bs_accounts s)) n = Some c \<and> hasPrefix n prefix}"
    using map_of_in_set [OF ok(1)] by (force simp: containerEntries_def)
  show "\<forall>i \<in> set (containerEntries (a, prefix, most, s)). ci_name i \<noteq> []"
    using ok(2) by (auto simp: containerEntries_def)
qed

interpretation containers: cursor_paging account_ok containerEntries ci_name containerLimit askContainers "\<lambda>_. fst" snd
proof
  fix q m assume ok: "account_ok q"
  obtain a prefix most s where q: "q = (a, prefix, most, s)" by (cases q) auto
  note props = containerEntries_props [OF ok [unfolded q], folded q]
  show "sorted_wrt (<) (map ci_name (containerEntries q))" by (rule props(1))
  show "[] \<notin> ci_name ` set (containerEntries q)" using props(3) by auto
  have limit: "0 < containerLimit q" "clampResults maxListContainersResults most = int (containerLimit q)"
    using clamp_positive [of maxListContainersResults most] by (simp_all add: containerLimit_def q maxListContainersResults_def)
  then show "0 < containerLimit q" by simp
  have same: "askContainers q m = Inr (containerPage (decodeMarker m) (int (containerLimit q)) [] (containerEntries q))"
  proof (cases "map_of (bs_accounts s) a")
    case None
    then show ?thesis by (simp add: askContainers_def q listContainers_def containerEntries_def inner_def)
  next
    case (Some x)
    have "hasPrefix n [] = True" and "i\<lparr>ci_metadata := ci_metadata i\<rparr> = i" for n and i :: containerInfo
      by (simp_all add: hasPrefix_def)
    then have "(prefix = [] \<or> hasPrefix n prefix) = hasPrefix n prefix" and "i\<lparr>ci_metadata := cloneMeta (ci_metadata i)\<rparr> = i"
      for n and i :: containerInfo
      by (auto simp: cloneMeta_def)
    then show ?thesis
      unfolding askContainers_def q listContainers_def containerEntries_def inner_def prod.case Some option.case Let_def
        limit(2) [unfolded q] by simp
  qed
  show "\<exists>p. askContainers q m = Inr p \<and> fst p = take (containerLimit q) (beyond ci_name (decodeMarker m) (containerEntries q)) \<and>
      snd p = (if length (beyond ci_name (decodeMarker m) (containerEntries q)) \<le> containerLimit q then []
        else encodeMarker (ci_name (last (fst p))))"
    unfolding same using containerPage_eq [OF refl props(1), of "[]" "containerLimit q" m] limit(1) by (simp add: Let_def)
qed

text \<open>Listing the containers of an account page by page gives every container with the prefix exactly
  once, with its current description and in the order of the names, in pages within the page size.\<close>

lemma list_containers_pages:
  assumes "blob_inv s"
  shows "\<exists>pages. follow (\<lambda>m. Inr (listContainers a prefix most m s) :: unit + _) snd
      (Suc (card {a_info t | c t. blob_abs s (a, c) = Some t \<and> hasPrefix c prefix})) [] = Some pages \<and>
    sorted_wrt (<) (map ci_name (concat (map fst pages))) \<and>
    set (concat (map fst pages)) = {a_info t | c t. blob_abs s (a, c) = Some t \<and> hasPrefix c prefix} \<and>
    (\<forall>p \<in> set pages. int (length (fst p)) \<le> clampResults maxListContainersResults most)"
proof -
  let ?q = "(a, prefix, most, s)"
  have found: "lookup2 (bs_accounts s) (a, c) = map_of (inner a (bs_accounts s)) c" for c by (simp add: lookup2_def)
  have nested: "distinct_keys (inner a (bs_accounts s))"
    using assms by (auto simp: blob_inv_def nested_ok_def inner_def split: option.split dest: map_of_SomeD)
  have ok: "account_ok ?q"
    unfolding account_ok_def prod.case
  proof (intro conjI nested ballI)
    fix x assume "x \<in> set (inner a (bs_accounts s))"
    moreover obtain n c where x: "x = (n, c)" by (cases x)
    ultimately have "lookup2 (bs_accounts s) (a, n) = Some c" using map_of_in_set [OF nested] by (simp add: found)
    then have "plainName n" "container_ok (container_view s (a, n)) n c" using assms by (auto simp: blob_inv_def)
    then show "case x of (n, c) \<Rightarrow> n \<noteq> [] \<and> ci_name (c_info c) = n" by (simp add: x plainName_def container_ok_def)
  qed
  have entries: "set (containerEntries ?q) = {a_info t | c t. blob_abs s (a, c) = Some t \<and> hasPrefix c prefix}"
    unfolding containerEntries_props(2) [OF ok]
    by (force simp: blob_abs_def found abs_container_def)
  have sorted: "sorted_wrt (<) (map ci_name (containerEntries ?q))" using containers.increasing [OF ok] .
  then have "distinct (containerEntries ?q)" by (rule increasing_distinct)
  then have len: "length (containerEntries ?q) = card (set (containerEntries ?q))" by (simp add: distinct_card)
  obtain pages where pages: "follow (askContainers ?q) snd (Suc (length (containerEntries ?q))) [] = Some pages"
      "concat (map fst pages) = containerEntries ?q" "\<forall>p \<in> set pages. length (fst p) \<le> containerLimit ?q"
    using containers.follow_all [OF ok] by blast
  have "int (length (fst p)) \<le> clampResults maxListContainersResults most" if "p \<in> set pages" for p
    using pages(3) that clamp_positive [of maxListContainersResults most]
    by (auto simp: containerLimit_def maxListContainersResults_def)
  moreover have ask: "askContainers ?q = (\<lambda>m. Inr (listContainers a prefix most m s))" by (simp add: askContainers_def fun_eq_iff)
  ultimately show ?thesis
    using pages(1) [unfolded len entries ask] sorted entries unfolding pages(2) [symmetric] by blast
qed

end
