(* ===== verification/Go_Any.thy ===== *)
theory Go_Any
  imports Go_Float Go_Json Go_Maps
begin

text \<open>
  What \<open>encoding/json\<close> decodes into an \<open>any\<close>: maps, slices, strings, floats, truth values and nil. A number
  out of range is an error; a later member of an object overwrites an earlier one of the same name.
\<close>

datatype anyval = ANull | ABool bool | ANumber f64 | AString string | AArray "anyval list"
  | AObject "(string \<times> anyval) list"

fun anyOf :: "json \<Rightarrow> anyval option"
  and anyList :: "json list \<Rightarrow> anyval list option"
  and anyMembers :: "(string \<times> json) list \<Rightarrow> (string, anyval) go_map \<Rightarrow> (string, anyval) go_map option" where
  "anyOf JNull = Some ANull"
| "anyOf (JBool b) = Some (ABool b)"
| "anyOf (JNumber t) = map_option ANumber (parseFloat t)"
| "anyOf (JString t) = Some (AString t)"
| "anyOf (JArray js) = map_option AArray (anyList js)"
| "anyOf (JObject kvs) = map_option AObject (anyMembers kvs [])"
| "anyList [] = Some []"
| "anyList (j # js) = (case anyOf j of None \<Rightarrow> None | Some v \<Rightarrow> map_option ((#) v) (anyList js))"
| "anyMembers [] m = Some m"
| "anyMembers ((k, j) # kvs) m = (case anyOf j of None \<Rightarrow> None | Some v \<Rightarrow> anyMembers kvs (AList.update k v m))"

end
