(* ===== verification/Kql.thy ===== *)
theory Kql
  imports Go_Any Go_Quote
begin

text \<open>
  The query language of the Monitor logs service, \<open>internal/servers/monitorserver\<close> (\<open>kql.go\<close>,
  \<open>predicate.go\<close>, \<open>comparison.go\<close>, \<open>literal.go\<close>), over the rows of \<open>internal/stores/monitorstore\<close>: a
  table name and a pipeline of operators, each applied to the working table.
\<close>

type_synonym row = "(string, anyval) go_map"

text \<open>A missing column reads as \<open>nil\<close>.\<close>

definition cell :: "row \<Rightarrow> string \<Rightarrow> anyval" where
  "cell r c = (case map_of r c of None \<Rightarrow> ANull | Some v \<Rightarrow> v)"

record resultTable =
  rt_columns :: "string list"
  rt_rows :: "row list"

text \<open>The errors of a query with what their messages quote.\<close>

datatype kql_error = MissingTable | UnknownTable string | UnsupportedOperator string | EmptyWhere
  | MalformedComparison string | NoOperator string | UnsupportedLiteral string | BoolOperator string
  | EmptyProject | BadTake | SortSyntax | SortDirection

definition kqlMessage :: "(nat \<Rightarrow> bool) \<Rightarrow> kql_error \<Rightarrow> string" where
  "kqlMessage p e =
     (case e of
        MissingTable \<Rightarrow> ''missing table name''
      | UnknownTable t \<Rightarrow> ''unknown table '' @ quoted p t
      | UnsupportedOperator t \<Rightarrow> ''unsupported operator '' @ quoted p t
      | EmptyWhere \<Rightarrow> ''empty where expression''
      | MalformedComparison t \<Rightarrow> ''malformed comparison '' @ quoted p t
      | NoOperator t \<Rightarrow> ''no comparison operator in '' @ quoted p t
      | UnsupportedLiteral t \<Rightarrow>
          ''unsupported literal '' @ quoted p t @ '' (use a quoted string, number, or true/false)''
      | BoolOperator t \<Rightarrow> ''operator '' @ t @ '' not supported for boolean literals''
      | EmptyProject \<Rightarrow> ''project requires at least one column''
      | BadTake \<Rightarrow> ''take requires a non-negative integer''
      | SortSyntax \<Rightarrow> ''sort must be written as '' @ [CHR 39] @ ''sort by <col> [asc|desc]'' @ [CHR 39]
      | SortDirection \<Rightarrow> ''sort direction must be asc or desc'')"

section \<open>Literals and values\<close>

datatype lit = LitString string | LitNumber f64 | LitBool bool

definition isQuote :: "char \<Rightarrow> bool" where
  "isQuote c \<longleftrightarrow> c = CHR 39 \<or> c = CHR 34"

definition parseLiteral :: "string \<Rightarrow> kql_error + lit" where
  "parseLiteral s =
     (if 2 \<le> length s \<and> isQuote (hd s) \<and> last s = hd s then Inr (LitString (butlast (tl s)))
      else if toLower s = ''true'' then Inr (LitBool True)
      else if toLower s = ''false'' then Inr (LitBool False)
      else case parseFloat s of Some x \<Rightarrow> Inr (LitNumber x) | None \<Rightarrow> Inl (UnsupportedLiteral s))"

text \<open>Unlike values are neither smaller nor larger.\<close>

fun compareValues :: "anyval \<Rightarrow> anyval \<Rightarrow> int" where
  "compareValues (ANumber a) (ANumber b) = (if f64_less a b then - 1 else if f64_less b a then 1 else 0)"
| "compareValues (AString a) (AString b) = (if a < b then - 1 else if b < a then 1 else 0)"
| "compareValues _ _ = 0"

section \<open>Comparisons\<close>

record cmp =
  cm_column :: string
  cm_op :: string
  cm_lit :: lit

text \<open>Where an operator starts, outside quoted strings; \<open>quote\<close> is the one that is open.\<close>

fun findOperator :: "string \<Rightarrow> nat \<Rightarrow> char option \<Rightarrow> string \<Rightarrow> nat option" where
  "findOperator op i quote [] = None"
| "findOperator op i quote (c # s) =
     (if length (c # s) < length op then None
      else case quote of
             Some q \<Rightarrow> findOperator op (Suc i) (if c = q then None else Some q) s
           | None \<Rightarrow>
               if isQuote c then findOperator op (Suc i) (Some c) s
               else if hasPrefix (c # s) op then Some i
               else findOperator op (Suc i) None s)"

definition indexOperator :: "string \<Rightarrow> string \<Rightarrow> nat option" where
  "indexOperator s op = findOperator op 0 None s"

definition operators :: "string list" where
  "operators = [''=='', ''!='', ''<='', ''>='', ''<'', ''>'']"

fun tryOperators :: "string \<Rightarrow> string list \<Rightarrow> kql_error + cmp" where
  "tryOperators s [] = Inl (NoOperator s)"
| "tryOperators s (op # ops) =
     (case indexOperator s op of
        None \<Rightarrow> tryOperators s ops
      | Some idx \<Rightarrow>
          let col = trimSpace (take idx s); rhs = trimSpace (drop (idx + length op) s) in
          if col = [] \<or> rhs = [] then Inl (MalformedComparison s)
          else and_then (parseLiteral rhs) (\<lambda>l. Inr \<lparr>cm_column = col, cm_op = op, cm_lit = l\<rparr>))"

definition parseComparison :: "string \<Rightarrow> kql_error + cmp" where
  "parseComparison s = tryOperators (trimSpace s) operators"

definition numericResult :: "f64 \<Rightarrow> string \<Rightarrow> f64 \<Rightarrow> bool" where
  "numericResult a op b =
     (if op = ''=='' then f64_eq a b
      else if op = ''!='' then \<not> f64_eq a b
      else if op = ''<'' then f64_less a b
      else if op = ''<='' then f64_less a b \<or> f64_eq a b
      else if op = ''>'' then f64_less b a
      else if op = ''>='' then f64_less b a \<or> f64_eq a b
      else False)"

definition stringResult :: "string \<Rightarrow> string \<Rightarrow> string \<Rightarrow> bool" where
  "stringResult a op b =
     (if op = ''=='' then a = b
      else if op = ''!='' then a \<noteq> b
      else if op = ''<'' then a < b
      else if op = ''<='' then a \<le> b
      else if op = ''>'' then b < a
      else if op = ''>='' then b \<le> a
      else False)"

definition evalComparison :: "cmp \<Rightarrow> row \<Rightarrow> kql_error + bool" where
  "evalComparison c r =
     (case cm_lit c of
        LitBool b \<Rightarrow>
          (case cell r (cm_column c) of
             ABool v \<Rightarrow>
               if cm_op c = ''=='' then Inr (v = b)
               else if cm_op c = ''!='' then Inr (v \<noteq> b)
               else Inl (BoolOperator (cm_op c))
           | _ \<Rightarrow> Inr False)
      | LitNumber n \<Rightarrow> (case cell r (cm_column c) of ANumber v \<Rightarrow> Inr (numericResult v (cm_op c) n) | _ \<Rightarrow> Inr False)
      | LitString t \<Rightarrow> (case cell r (cm_column c) of AString v \<Rightarrow> Inr (stringResult v (cm_op c) t) | _ \<Rightarrow> Inr False))"

section \<open>Predicates\<close>

text \<open>The quote that is open after a token.\<close>

fun quoteAfter :: "char option \<Rightarrow> string \<Rightarrow> char option" where
  "quoteAfter quote [] = quote"
| "quoteAfter quote (c # s) =
     quoteAfter (case quote of
         None \<Rightarrow> if isQuote c then Some c else None
       | Some q \<Rightarrow> if c = q then None else Some q) s"

fun splitTokens :: "string \<Rightarrow> string \<Rightarrow> char option \<Rightarrow> string list \<Rightarrow> string list" where
  "splitTokens keyword buf quote [] = [trimSpace buf]"
| "splitTokens keyword buf quote (tok # toks) =
     (if quote = None \<and> equalFold tok keyword then trimSpace buf # splitTokens keyword [] None toks
      else splitTokens keyword ((if buf = [] then [] else buf @ '' '') @ tok) (quoteAfter quote tok) toks)"

definition splitKeyword :: "string \<Rightarrow> string \<Rightarrow> string list" where
  "splitKeyword s keyword = splitTokens keyword [] None (fieldsOf s)"

fun eachInr :: "('a \<Rightarrow> 'e + 'b) \<Rightarrow> 'a list \<Rightarrow> 'e + 'b list" where
  "eachInr f [] = Inr []"
| "eachInr f (x # xs) = and_then (f x) (\<lambda>y. and_then (eachInr f xs) (\<lambda>ys. Inr (y # ys)))"

type_synonym pred = "cmp list list"

definition parsePredicate :: "string \<Rightarrow> kql_error + pred" where
  "parsePredicate expr =
     (let e = trimSpace expr in
      if e = [] then Inl EmptyWhere
      else eachInr (\<lambda>orPart. eachInr parseComparison (splitKeyword orPart ''and'')) (splitKeyword e ''or''))"

fun evalGroup :: "cmp list \<Rightarrow> row \<Rightarrow> kql_error + bool" where
  "evalGroup [] r = Inr True"
| "evalGroup (c # cs) r = and_then (evalComparison c r) (\<lambda>ok. if ok then evalGroup cs r else Inr False)"

fun evalPredicate :: "pred \<Rightarrow> row \<Rightarrow> kql_error + bool" where
  "evalPredicate [] r = Inr False"
| "evalPredicate (g # gs) r = and_then (evalGroup g r) (\<lambda>ok. if ok then Inr True else evalPredicate gs r)"

section \<open>Operators\<close>

fun filterRows :: "('a \<Rightarrow> 'e + bool) \<Rightarrow> 'a list \<Rightarrow> 'e + 'a list" where
  "filterRows f [] = Inr []"
| "filterRows f (r # rs) =
     and_then (f r) (\<lambda>ok. and_then (filterRows f rs) (\<lambda>kept. Inr (if ok then r # kept else kept)))"

definition applyWhere :: "resultTable \<Rightarrow> string \<Rightarrow> kql_error + resultTable" where
  "applyWhere tbl expr =
     and_then (parsePredicate expr) (\<lambda>p.
       and_then (filterRows (evalPredicate p) (rt_rows tbl)) (\<lambda>kept. Inr (tbl\<lparr>rt_rows := kept\<rparr>)))"

definition splitCSV :: "string \<Rightarrow> string list" where
  "splitCSV s = filter (\<lambda>p. p \<noteq> []) (map trimSpace (splitOn (CHR '','') s))"

definition projectRow :: "string list \<Rightarrow> row \<Rightarrow> row" where
  "projectRow cols r = fold (\<lambda>c nr. AList.update c (cell r c) nr) cols []"

definition applyProject :: "resultTable \<Rightarrow> string \<Rightarrow> kql_error + resultTable" where
  "applyProject tbl lst =
     (let cols = splitCSV lst in
      if cols = [] then Inl EmptyProject
      else Inr \<lparr>rt_columns = cols, rt_rows = map (projectRow cols) (rt_rows tbl)\<rparr>)"

definition applyTake :: "resultTable \<Rightarrow> string \<Rightarrow> kql_error + resultTable" where
  "applyTake tbl arg =
     (case atoi (trimSpace arg) of
        None \<Rightarrow> Inl BadTake
      | Some n \<Rightarrow>
          if n < 0 then Inl BadTake
          else Inr (if n < int (length (rt_rows tbl)) then tbl\<lparr>rt_rows := take (nat n) (rt_rows tbl)\<rparr> else tbl))"

definition applyCount :: "resultTable \<Rightarrow> resultTable" where
  "applyCount tbl = \<lparr>rt_columns = [''Count''], rt_rows = [[(''Count'', ANumber (Fin (of_nat (length (rt_rows tbl)))))]]\<rparr>"

text \<open>\<open>sort.SliceStable\<close> as an insertion sort: each element moves left past those it is less than. This is
  what the library runs on up to twenty rows, and where \<open>lt\<close> is a strict weak order every stable
  sort gives the same result. The sorted part is kept in reverse.\<close>

fun moveLeft :: "('a \<Rightarrow> 'a \<Rightarrow> bool) \<Rightarrow> 'a \<Rightarrow> 'a list \<Rightarrow> 'a list" where
  "moveLeft lt x [] = [x]"
| "moveLeft lt x (y # ys) = (if lt x y then y # moveLeft lt x ys else x # y # ys)"

definition sliceStable :: "('a \<Rightarrow> 'a \<Rightarrow> bool) \<Rightarrow> 'a list \<Rightarrow> 'a list" where
  "sliceStable lt xs = rev (fold (moveLeft lt) xs [])"

definition sortLess :: "string \<Rightarrow> bool \<Rightarrow> row \<Rightarrow> row \<Rightarrow> bool" where
  "sortLess col desc r r' =
     (let c = compareValues (cell r col) (cell r' col) in if desc then \<not> c < 0 \<and> c \<noteq> 0 else c < 0)"

definition sortDirection :: "string list \<Rightarrow> kql_error + bool" where
  "sortDirection fs =
     (if length fs < 4 then Inr True
      else if toLower (fs ! 3) = ''asc'' then Inr False
      else if toLower (fs ! 3) = ''desc'' then Inr True
      else Inl SortDirection)"

definition applySort :: "resultTable \<Rightarrow> string list \<Rightarrow> kql_error + resultTable" where
  "applySort tbl fs =
     (if length fs < 3 \<or> toLower (fs ! 1) \<noteq> ''by'' then Inl SortSyntax
      else and_then (sortDirection fs) (\<lambda>desc.
        Inr (tbl\<lparr>rt_rows := sliceStable (sortLess (trimSuffix (fs ! 2) '','') desc) (rt_rows tbl)\<rparr>)))"

section \<open>Pipelines\<close>

definition applyStage :: "resultTable \<Rightarrow> string \<Rightarrow> kql_error + resultTable" where
  "applyStage tbl stage =
     (case fieldsOf stage of
        [] \<Rightarrow> Inr tbl
      | f # fs \<Rightarrow>
          let op = toLower f; rest = trimSpace (drop (length f) stage) in
          if op = ''where'' \<or> op = ''filter'' then applyWhere tbl rest
          else if op = ''project'' then applyProject tbl rest
          else if op = ''take'' \<or> op = ''limit'' then applyTake tbl rest
          else if op = ''count'' then Inr (applyCount tbl)
          else if op = ''sort'' \<or> op = ''order'' then applySort tbl (f # fs)
          else Inl (UnsupportedOperator f))"

definition splitPipeline :: "string \<Rightarrow> string list" where
  "splitPipeline query = map trimSpace (splitOn (CHR ''|'') query)"

fun applyStages :: "resultTable \<Rightarrow> string list \<Rightarrow> kql_error + resultTable" where
  "applyStages tbl [] = Inr tbl"
| "applyStages tbl (stage # stages) = and_then (applyStage tbl stage) (\<lambda>t. applyStages t stages)"

text \<open>\<open>rows\<close> is what the store has under a name. There is always a first part of the pipeline.\<close>

definition evalKQL :: "(string \<Rightarrow> row list option) \<Rightarrow> string \<Rightarrow> kql_error + resultTable" where
  "evalKQL rows query =
     (let stages = splitPipeline query; name = trimSpace (hd stages) in
      if name = [] then Inl MissingTable
      else case rows name of
             None \<Rightarrow> Inl (UnknownTable name)
           | Some rs \<Rightarrow> applyStages \<lparr>rt_columns = [], rt_rows = rs\<rparr> (tl stages))"

end
