(* ===== verification/Monitor.thy ===== *)
theory Monitor
  imports Kql Http
begin

text \<open>
  The Monitor logs service: the store of tables (\<open>internal/stores/monitorstore\<close>), ingestion of records
  and queries over HTTP (\<open>internal/servers/monitorserver\<close>: \<open>ingestion.go\<close>, \<open>query.go\<close>, \<open>server.go\<close>,
  \<open>types.go\<close>). A request body is what can be read from it. \<open>env\<close> has the clock and the library
  functions a request meets: inflating \<open>gzip\<close> and parsing JSON text.
\<close>

section \<open>The store\<close>

record monitor_store =
  ms_tables :: "(string, row list) go_map"

definition newMonitorStore :: monitor_store where
  "newMonitorStore = \<lparr>ms_tables = []\<rparr>"

definition columnTimeGenerated :: string where "columnTimeGenerated = ''TimeGenerated''"

definition tableName :: "string \<Rightarrow> string" where
  "tableName stream = trimPrefix stream ''Custom-''"

text \<open>The layout \<open>2006-01-02T15:04:05.999999999Z\<close> of UTC times: no trailing zeros in the fraction.\<close>

definition rfc3339Nano :: "time \<Rightarrow> string" where
  "rfc3339Nano t =
     (let secs = t div second; day = secs div 86400; s = nat (secs mod 86400);
          frac = rev (dropWhile (\<lambda>c. c = CHR ''0'') (rev (digits 9 (nat (t mod second)))))
      in case civil day of (y, m, d) \<Rightarrow>
        padded 4 (nat y) @ ''-'' @ digits 2 m @ ''-'' @ digits 2 d @ ''T'' @
        digits 2 (s div 3600) @ '':'' @ digits 2 (s div 60 mod 60) @ '':'' @ digits 2 (s mod 60) @
        (if frac = [] then [] else ''.'' @ frac) @ ''Z'')"

text \<open>A record that is \<open>null\<close> becomes an empty row.\<close>

definition stampRecord :: "string \<Rightarrow> row option \<Rightarrow> row" where
  "stampRecord now rec =
     (let r = (case rec of None \<Rightarrow> [] | Some r \<Rightarrow> r) in
      if map_of r columnTimeGenerated = None then AList.update columnTimeGenerated (AString now) r else r)"

definition tableRows :: "string \<Rightarrow> monitor_store \<Rightarrow> row list" where
  "tableRows name s = (case map_of (ms_tables s) name of None \<Rightarrow> [] | Some rs \<Rightarrow> rs)"

definition ingest :: "time \<Rightarrow> string \<Rightarrow> row option list \<Rightarrow> monitor_store \<Rightarrow> monitor_store" where
  "ingest now stream records s =
     (let name = tableName stream in
      fold (\<lambda>rec s. s\<lparr>ms_tables := AList.update name (tableRows name s @ [stampRecord (rfc3339Nano now) rec]) (ms_tables s)\<rparr>)
        records s)"

definition storedRows :: "monitor_store \<Rightarrow> string \<Rightarrow> row list option" where
  "storedRows s name = map_of (ms_tables s) name"

definition monitorTables :: "monitor_store \<Rightarrow> string list" where
  "monitorTables s = sort (map fst (ms_tables s))"

section \<open>Values\<close>

fun decodeRecord :: "json \<Rightarrow> row option option" where
  "decodeRecord JNull = Some None"
| "decodeRecord (JObject kvs) = map_option Some (anyMembers kvs [])"
| "decodeRecord _ = None"

fun decodeRecordList :: "json list \<Rightarrow> row option list option" where
  "decodeRecordList [] = Some []"
| "decodeRecordList (j # js) =
     (case decodeRecord j of None \<Rightarrow> None | Some r \<Rightarrow> map_option ((#) r) (decodeRecordList js))"

fun decodeRecords :: "json \<Rightarrow> row option list option" where
  "decodeRecords JNull = Some []"
| "decodeRecords (JArray js) = decodeRecordList js"
| "decodeRecords _ = None"

section \<open>Requests\<close>

type_synonym monitor_request = "(bytes \<times> string option) request"

record monitor_env =
  me_now :: time
  me_inflate :: "bytes \<Rightarrow> (bytes \<times> string option) option"
  me_json :: "bytes \<Rightarrow> json option"
  me_printable :: "nat \<Rightarrow> bool"

record column =
  co_name :: string
  co_type :: string

record wire_table =
  wt_name :: string
  wt_columns :: "column list"
  wt_rows :: "anyval list list"

datatype monitor_body = ErrorJSON json | TablesJSON "wire_table list"

type_synonym monitor_reply = "monitor_body response \<times> monitor_store"

definition jsonHeaders :: header_list where
  "jsonHeaders = setHeader ''Content-Type'' ''application/json'' []"

definition monitorError :: "int \<Rightarrow> string \<Rightarrow> string \<Rightarrow> monitor_body response" where
  "monitorError status code message =
     \<lparr>rs_status = status, rs_headers = jsonHeaders, rs_body = Some (ErrorJSON (errorEnvelope code message))\<rparr>"

text \<open>What can be read from the body, and the error that ends it.\<close>

definition readable :: "monitor_request \<Rightarrow> bytes \<times> string option" where
  "readable r = (case rq_body r of Body x \<Rightarrow> x | BodyError e \<Rightarrow> ([], Some e) | _ \<Rightarrow> ([], None))"

section \<open>Ingestion\<close>

definition maxIngestBytes :: int where "maxIngestBytes = 64 * 2 ^ 20"

definition maxDecompressedBytes :: int where "maxDecompressedBytes = 256 * 2 ^ 20"

datatype read_error = ErrBodyTooLarge | ErrUnreadable

text \<open>\<open>io.LimitReader\<close>: end of file after \<open>n\<close> bytes.\<close>

definition limited :: "int \<Rightarrow> bytes \<times> string option \<Rightarrow> bytes \<times> string option" where
  "limited n src = (case src of (b, err) \<Rightarrow> if int (length b) < n then (b, err) else (take (nat n) b, None))"

definition readBody :: "monitor_env \<Rightarrow> monitor_request \<Rightarrow> read_error + bytes" where
  "readBody env r =
     (case readable r of (raw, err) \<Rightarrow>
        if maxIngestBytes < int (length raw) then Inl ErrBodyTooLarge
        else if err \<noteq> None then Inl ErrUnreadable
        else if headerGet r ''Content-Encoding'' \<noteq> ''gzip'' then Inr raw
        else case me_inflate env raw of
               None \<Rightarrow> Inl ErrUnreadable
             | Some stream \<Rightarrow>
                 (case limited (maxDecompressedBytes + 1) stream of (decompressed, err) \<Rightarrow>
                    if err \<noteq> None then Inl ErrUnreadable
                    else if maxDecompressedBytes < int (length decompressed) then Inl ErrBodyTooLarge
                    else Inr decompressed))"

definition handleIngest :: "monitor_env \<Rightarrow> monitor_request \<Rightarrow> string \<Rightarrow> monitor_store \<Rightarrow> monitor_reply" where
  "handleIngest env r stream s =
     (if rq_method r \<noteq> ''POST'' then (monitorError 405 ''MethodNotAllowed'' ''Only POST is supported.'', s)
      else case readBody env r of
             Inl ErrBodyTooLarge \<Rightarrow>
               (monitorError 413 ''RequestEntityTooLarge'' ''Request body exceeds the maximum allowed size.'', s)
           | Inl ErrUnreadable \<Rightarrow> (monitorError 400 ''BadRequest'' ''Could not read request body.'', s)
           | Inr body \<Rightarrow>
               (case Option.bind (me_json env body) decodeRecords of
                  None \<Rightarrow> (monitorError 400 ''InvalidContent'' ''Request body must be a JSON array of log records.'', s)
                | Some records \<Rightarrow>
                    (\<lparr>rs_status = 204, rs_headers = [], rs_body = None\<rparr>, ingest (me_now env) stream records s)))"

section \<open>Results\<close>

definition columnNames :: "row list \<Rightarrow> string list" where
  "columnNames rows = remdups (concat (map (map fst) rows))"

definition inferColumns :: "row list \<Rightarrow> string list" where
  "inferColumns rows =
     (let seen = columnNames rows; cols = sort (filter (\<lambda>k. k \<noteq> ''TimeGenerated'') seen) in
      if ''TimeGenerated'' \<in> set seen then ''TimeGenerated'' # cols else cols)"

text \<open>\<open>time.Parse\<close> with the layout of RFC 3339: the digits of the parts, a one-digit hour, any fraction, and
  \<open>Z\<close> or an offset.\<close>

fun takeDigits :: "nat \<Rightarrow> string \<Rightarrow> (nat \<times> string) option" where
  "takeDigits 0 s = Some (0, s)"
| "takeDigits (Suc n) [] = None"
| "takeDigits (Suc n) (c # s) =
     (if 48 \<le> (of_char c :: nat) \<and> (of_char c :: nat) \<le> 57
      then map_option (\<lambda>(m, r). ((of_char c - 48) * 10 ^ n + m, r)) (takeDigits n s) else None)"

definition skipChar :: "char \<Rightarrow> string \<Rightarrow> string option" where
  "skipChar c s = (case s of [] \<Rightarrow> None | d # r \<Rightarrow> if d = c then Some r else None)"

definition skipFraction :: "string \<Rightarrow> string" where
  "skipFraction s =
     (case s of
        p # d # r \<Rightarrow>
          if (p = CHR ''.'' \<or> p = CHR '','') \<and> Go_Json.isDigit d then dropWhile Go_Json.isDigit (d # r) else s
      | _ \<Rightarrow> s)"

definition zoneOK :: "string \<Rightarrow> bool" where
  "zoneOK s =
     (s = ''Z'' \<or>
      (length s = 6 \<and> (hd s = CHR ''+'' \<or> hd s = CHR ''-'') \<and> s ! 3 = CHR '':'' \<and>
       (case (takeDigits 2 (take 2 (tl s)), takeDigits 2 (drop 4 s)) of
          (Some (h, _), Some (m, _)) \<Rightarrow> h \<le> 24 \<and> m \<le> 60
        | _ \<Rightarrow> False)))"

definition daysIn :: "nat \<Rightarrow> nat \<Rightarrow> nat" where
  "daysIn y m =
     (if m = 2 then if (4 dvd y \<and> \<not> 100 dvd y) \<or> 400 dvd y then 29 else 28
      else if m \<in> {4, 6, 9, 11} then 30 else 31)"

definition isRFC3339 :: "string \<Rightarrow> bool" where
  "isRFC3339 s =
     (case Option.bind (takeDigits 4 s) (\<lambda>(y, s1). Option.bind (skipChar (CHR ''-'') s1) (\<lambda>s1.
        Option.bind (takeDigits 2 s1) (\<lambda>(mo, s2). Option.bind (skipChar (CHR ''-'') s2) (\<lambda>s2.
        Option.bind (takeDigits 2 s2) (\<lambda>(d, s3). Option.bind (skipChar (CHR ''T'') s3) (\<lambda>s3.
        Option.bind (case takeDigits 2 s3 of Some x \<Rightarrow> Some x | None \<Rightarrow> takeDigits 1 s3) (\<lambda>(h, s4).
        Option.bind (skipChar (CHR '':'') s4) (\<lambda>s4.
        Option.bind (takeDigits 2 s4) (\<lambda>(mi, s5). Option.bind (skipChar (CHR '':'') s5) (\<lambda>s5.
        map_option (\<lambda>(sec, s6). (y, mo, d, h, mi, sec, s6)) (takeDigits 2 s5))))))))))) of
        None \<Rightarrow> False
      | Some (y, mo, d, h, mi, sec, rest) \<Rightarrow>
          1 \<le> mo \<and> mo \<le> 12 \<and> 1 \<le> d \<and> d \<le> daysIn y mo \<and> h < 24 \<and> mi < 60 \<and> sec < 60 \<and> zoneOK (skipFraction rest))"

text \<open>A float that is an integer of 64 bits: the conversion of one out of range gives the least integer.\<close>

definition isLong :: "f64 \<Rightarrow> bool" where
  "isLong x = (case x of Fin q \<Rightarrow> of_int \<lfloor>q\<rfloor> = q \<and> - (2 ^ 63) \<le> q \<and> q < 2 ^ 63 | _ \<Rightarrow> False)"

fun inferType :: "string \<Rightarrow> row list \<Rightarrow> string" where
  "inferType name [] = (if name = ''TimeGenerated'' then ''datetime'' else ''string'')"
| "inferType name (r # rs) =
     (case cell r name of
        ANull \<Rightarrow> inferType name rs
      | ABool b \<Rightarrow> ''bool''
      | ANumber x \<Rightarrow> if isLong x then ''long'' else ''real''
      | AString s \<Rightarrow> if name = ''TimeGenerated'' \<or> isRFC3339 s then ''datetime'' else ''string''
      | _ \<Rightarrow> ''dynamic'')"

definition materialize :: "resultTable \<Rightarrow> wire_table" where
  "materialize res =
     (let cols = (if rt_columns res = [] then inferColumns (rt_rows res) else rt_columns res) in
      \<lparr>wt_name = ''PrimaryResult'',
       wt_columns = map (\<lambda>c. \<lparr>co_name = c, co_type = inferType c (rt_rows res)\<rparr>) cols,
       wt_rows = map (\<lambda>r. map (cell r) cols) (rt_rows res)\<rparr>)"

definition decodeQuery :: "json \<Rightarrow> string option" where
  "decodeQuery j =
     Option.bind (structField ''query'' intoString j []) (\<lambda>q.
       map_option (\<lambda>_. q) (structField ''timespan'' intoString j []))"

definition handleQuery :: "monitor_env \<Rightarrow> monitor_request \<Rightarrow> monitor_store \<Rightarrow> monitor_body response" where
  "handleQuery env r s =
     (if rq_method r \<noteq> ''POST'' then monitorError 405 ''MethodNotAllowed'' ''Only POST is supported.''
      else case readable r of (raw, err) \<Rightarrow>
        if err \<noteq> None then monitorError 400 ''BadRequest'' ''Could not read request body.''
        else case Option.bind (me_json env raw) decodeQuery of
               None \<Rightarrow> monitorError 400 ''BadArgumentError'' (''Request body must contain a '' @ [CHR 39] @ ''query'' @ [CHR 39] @ '' string.'')
             | Some q \<Rightarrow>
                 if q = [] then monitorError 400 ''BadArgumentError'' (''Request body must contain a '' @ [CHR 39] @ ''query'' @ [CHR 39] @ '' string.'')
                 else case evalKQL (storedRows s) q of
                        Inl e \<Rightarrow> monitorError 400 ''BadArgumentError'' (kqlMessage (me_printable env) e)
                      | Inr t \<Rightarrow> \<lparr>rs_status = 200, rs_headers = jsonHeaders, rs_body = Some (TablesJSON [materialize t])\<rparr>)"

section \<open>Routing\<close>

definition serveMonitor :: "monitor_env \<Rightarrow> monitor_request \<Rightarrow> monitor_store \<Rightarrow> monitor_reply" where
  "serveMonitor env r s =
     (let segs = splitOn (CHR ''/'') (trimPrefix (rq_path r) ''/'') in
      if 4 \<le> length segs \<and> segs ! 0 = ''dataCollectionRules'' \<and> segs ! 2 = ''streams'' then handleIngest env r (segs ! 3) s
      else if 4 \<le> length segs \<and> segs ! 0 = ''v1'' \<and> segs ! 1 = ''workspaces'' \<and> segs ! 3 = ''query''
        then (handleQuery env r s, s)
      else (monitorError 404 ''NotFound'' ''Unknown operation.'', s))"

end
