(* ===== verification/Kql_Spec.thy ===== *)
theory Kql_Spec
  imports Kql Http Go_Utf8
begin

text \<open>
  What queries mean. A query is written from an abstract one, a table with a list of operators, and
  evaluating the text gives the table the operators denote. Also: sorting by a column of numbers or of
  strings, and what the evaluation does to literals with bars or runs of spaces and to columns with gaps.
\<close>

section \<open>Words and spaces\<close>

text \<open>A word has no spaces; \<open>spread\<close> puts one space between words.\<close>

definition word :: "string \<Rightarrow> bool" where
  "word t \<longleftrightarrow> t \<noteq> [] \<and> (\<forall>c \<in> set t. graphic c)"

abbreviation spread :: "string list \<Rightarrow> string" where
  "spread \<equiv> joinWith '' ''"

lemma blank_char: "CHR '' '' = char_of n \<longleftrightarrow> n mod 256 = (32 :: nat)"
  using char_of_eq_iff [of n "CHR '' ''"] by (auto simp: take_bit_eq_mod)

lemma char_blank: "char_of (32 :: nat) = CHR '' ''"
  using blank_char [of 32] by simp

lemma find_space: "graphic c \<Longrightarrow> find (\<lambda>e. e \<noteq> [] \<and> hasPrefix (c # s) e) spaceCodes = None"
  unfolding find_None_iff hasPrefix_iff using spaceCodes_edges by (metis append_is_Nil_conv hd_append2 list.sel(1))

lemma find_blank: "find (\<lambda>e. e \<noteq> [] \<and> hasPrefix (CHR '' '' # s) e) spaceCodes = Some '' ''"
  by (simp add: spaceCodes_def spaceRunes_def encodeRune_def hasPrefix_def blank_char char_blank)

lemma fieldsFrom_word: "\<forall>c \<in> set t. graphic c \<Longrightarrow> fieldsFrom cur (t @ s) = fieldsFrom (cur @ t) s"
proof (induction t arbitrary: cur)
  case (Cons c t)
  have "fieldsFrom cur ((c # t) @ s) = fieldsFrom (cur @ [c]) (t @ s)"
    using Cons.prems by (subst fieldsFrom.simps) (simp add: find_space)
  then show ?case using Cons by simp
qed simp

lemma fieldsFrom_end: "fieldsFrom cur [] = (if cur = [] then [] else [cur])"
  by (subst fieldsFrom.simps) simp

lemma fieldsFrom_blank: "cur \<noteq> [] \<Longrightarrow> fieldsFrom cur (CHR '' '' # s) = cur # fieldsFrom [] s"
  by (subst fieldsFrom.simps) (simp add: find_blank)

lemma fields_spread: "list_all word ts \<Longrightarrow> fieldsOf (spread ts) = ts"
proof (induction ts)
  case Nil
  then show ?case by (simp add: fieldsOf_def fieldsFrom_end)
next
  case (Cons t ts)
  have t: "t \<noteq> []" "\<forall>c \<in> set t. graphic c" using Cons.prems by (simp_all add: word_def)
  show ?case
  proof (cases "ts = []")
    case True
    then show ?thesis using t fieldsFrom_word [of t "[]" "[]"] by (simp add: fieldsOf_def fieldsFrom_end)
  next
    case False
    then have "fieldsOf (spread (t # ts)) = fieldsFrom [] (t @ CHR '' '' # spread ts)"
      by (simp add: joinWith_Cons fieldsOf_def)
    then show ?thesis using t Cons fieldsFrom_word [of t "[]"] by (simp add: fieldsFrom_blank fieldsOf_def)
  qed
qed

lemma spread_ends:
  assumes "list_all word ts" and "ts \<noteq> []"
  shows "spread ts \<noteq> [] \<and> hd (spread ts) = hd (hd ts) \<and> last (spread ts) = last (last ts)"
  using assms
proof (induction ts)
  case (Cons t ts)
  then show ?case by (cases ts) (auto simp: word_def)
qed simp

lemma word_ends: "word t \<Longrightarrow> t \<noteq> [] \<and> graphic (hd t) \<and> graphic (last t)"
  by (simp add: word_def)

lemma trim_spread:
  assumes "list_all word ts" and "ts \<noteq> []"
  shows "trimSpace (spread ts) = spread ts"
proof -
  have "word (hd ts)" "word (last ts)" using assms by (simp_all add: list_all_iff)
  then show ?thesis using spread_ends [OF assms] word_ends by (intro trimSpace_graphic) auto
qed

lemma spread_append: "xs \<noteq> [] \<Longrightarrow> ys \<noteq> [] \<Longrightarrow> spread (xs @ ys) = spread xs @ '' '' @ spread ys"
proof (induction xs)
  case (Cons x xs)
  then show ?case by (cases "xs = []") (simp_all add: joinWith_Cons)
qed simp

lemma strip_blank: "stripCodes spaceCodes (CHR '' '' # s) = stripCodes spaceCodes s"
  by (subst stripCodes.simps) (simp add: find_blank)

lemma strip_blank_rev: "stripCodes (map rev spaceCodes) (CHR '' '' # s) = stripCodes (map rev spaceCodes) s"
  by (subst stripCodes.simps) (simp add: spaceCodes_def spaceRunes_def encodeRune_def hasPrefix_def blank_char char_blank)

lemma trim_leading: "trimSpace (CHR '' '' # s) = trimSpace s"
  by (simp add: trimSpace_def strip_blank)

lemma strip_graphic:
  assumes "s \<noteq> []" and "graphic (hd s)"
  shows "stripCodes spaceCodes (s @ t) = s @ t"
  using assms spaceCodes_edges by (intro stripCodes_none) (metis append_is_Nil_conv hd_append2)

lemma trim_trailing:
  assumes "s \<noteq> []" and "graphic (hd s)"
  shows "trimSpace (s @ '' '') = trimSpace s"
  using strip_graphic [OF assms, of "'' ''"] strip_graphic [OF assms, of "[]"] by (simp add: trimSpace_def strip_blank_rev)

section \<open>Abstract queries\<close>

text \<open>Names of columns and tables: words without quotes, bars, commas and signs of comparison.\<close>

definition plainChar :: "char \<Rightarrow> bool" where
  "plainChar c \<longleftrightarrow> graphic c \<and> \<not> isQuote c \<and> c \<notin> {CHR ''|'', CHR '','', CHR ''='', CHR ''!'', CHR ''<'', CHR ''>''}"

definition keyword :: "string \<Rightarrow> bool" where
  "keyword t \<longleftrightarrow> equalFold t ''and'' \<or> equalFold t ''or''"

definition ident :: "string \<Rightarrow> bool" where
  "ident t \<longleftrightarrow> t \<noteq> [] \<and> (\<forall>c \<in> set t. plainChar c) \<and> \<not> keyword t"

text \<open>Literals with their text: a string in single quotes, the text of a number, a truth value.\<close>

datatype lit_text = TString string | TNumber string | TBool bool

fun litValue :: "lit_text \<Rightarrow> lit" where
  "litValue (TString t) = LitString t"
| "litValue (TNumber t) = LitNumber (the (parseFloat t))"
| "litValue (TBool b) = LitBool b"

fun litText :: "lit_text \<Rightarrow> string" where
  "litText (TString t) = [CHR 39] @ t @ [CHR 39]"
| "litText (TNumber t) = t"
| "litText (TBool b) = (if b then ''true'' else ''false'')"

text \<open>A quoted string has no quote of its own kind, no bar, and no two spaces in a row; a truth value is only
  compared for equality.\<close>

fun single_spaced :: "string \<Rightarrow> bool" where
  "single_spaced (c # d # s) = (\<not> (c = CHR '' '' \<and> d = CHR '' '') \<and> single_spaced (d # s))"
| "single_spaced _ = True"

fun lit_ok :: "lit_text \<Rightarrow> bool" where
  "lit_ok (TString t) = (single_spaced t \<and> (\<forall>c \<in> set t. (graphic c \<or> c = CHR '' '') \<and> c \<noteq> CHR 39 \<and> c \<noteq> CHR ''|''))"
| "lit_ok (TNumber t) = (ident t \<and> parseFloat t \<noteq> None \<and> toLower t \<noteq> ''true'' \<and> toLower t \<noteq> ''false'')"
| "lit_ok (TBool b) = True"

type_synonym test = "string \<times> string \<times> lit_text"

fun test_ok :: "test \<Rightarrow> bool" where
  "test_ok (c, op, l) = (ident c \<and> op \<in> set operators \<and> lit_ok l \<and> (case l of TBool b \<Rightarrow> op = ''=='' \<or> op = ''!='' | _ \<Rightarrow> True))"

datatype operator = Where "test list list" | Project "string list" | Take nat | Count | Sort string bool

fun operator_ok :: "operator \<Rightarrow> bool" where
  "operator_ok (Where p) = (p \<noteq> [] \<and> (\<forall>g \<in> set p. g \<noteq> [] \<and> (\<forall>t \<in> set g. test_ok t)))"
| "operator_ok (Project cs) = (cs \<noteq> [] \<and> (\<forall>c \<in> set cs. ident c))"
| "operator_ok (Take n) = (int n \<le> maxInt)"
| "operator_ok Count = True"
| "operator_ok (Sort c desc) = ident c"

section \<open>Their text\<close>

fun testWords :: "test \<Rightarrow> string list" where
  "testWords (c, op, l) = [c, op] @ splitOn (CHR '' '') (litText l)"

definition joinWords :: "string \<Rightarrow> string list list \<Rightarrow> string list" where
  "joinWords k gs = (case gs of [] \<Rightarrow> [] | g # gs \<Rightarrow> g @ concat (map (\<lambda>g. k # g) gs))"

definition groupWords :: "test list \<Rightarrow> string list" where
  "groupWords g = joinWords ''and'' (map testWords g)"

definition predWords :: "test list list \<Rightarrow> string list" where
  "predWords p = joinWords ''or'' (map groupWords p)"

fun operatorText :: "operator \<Rightarrow> string" where
  "operatorText (Where p) = ''where '' @ spread (predWords p)"
| "operatorText (Project cs) = ''project '' @ joinWith '', '' cs"
| "operatorText (Take n) = ''take '' @ decimal n"
| "operatorText Count = ''count''"
| "operatorText (Sort c desc) = spread [''sort'', ''by'', c, if desc then ''desc'' else ''asc'']"

definition queryText :: "string \<Rightarrow> operator list \<Rightarrow> string" where
  "queryText name ops = joinWith '' | '' (name # map operatorText ops)"

section \<open>Their meaning\<close>

definition holds :: "test \<Rightarrow> row \<Rightarrow> bool" where
  "holds t r = (case t of (c, op, l) \<Rightarrow>
     (case (litValue l, cell r c) of
        (LitBool b, ABool v) \<Rightarrow> (if op = ''=='' then v = b else v \<noteq> b)
      | (LitNumber n, ANumber v) \<Rightarrow> numericResult v op n
      | (LitString s, AString v) \<Rightarrow> stringResult v op s
      | _ \<Rightarrow> False))"

fun denote :: "operator \<Rightarrow> resultTable \<Rightarrow> resultTable" where
  "denote (Where p) t = t\<lparr>rt_rows := filter (\<lambda>r. \<exists>g \<in> set p. \<forall>x \<in> set g. holds x r) (rt_rows t)\<rparr>"
| "denote (Project cs) t = \<lparr>rt_columns = cs, rt_rows = map (projectRow cs) (rt_rows t)\<rparr>"
| "denote (Take n) t = t\<lparr>rt_rows := take n (rt_rows t)\<rparr>"
| "denote Count t = applyCount t"
| "denote (Sort c desc) t = t\<lparr>rt_rows := sliceStable (sortLess c desc) (rt_rows t)\<rparr>"

section \<open>Reading predicates back\<close>

lemma graphic_not_blank: "graphic c \<Longrightarrow> c \<noteq> CHR '' ''"
  by (auto simp: graphic_def)

lemma ident_word: "ident t \<Longrightarrow> word t"
  by (simp add: ident_def word_def plainChar_def)

lemma keyword_words: "word ''and''" "word ''or''" "op \<in> set operators \<Longrightarrow> word op"
  by (auto simp: word_def operators_def graphic_def)

lemma pieces:
  assumes "single_spaced s" and "s \<noteq> []" and "\<forall>c \<in> set s. graphic c \<or> c = CHR '' ''" and "last s \<noteq> CHR '' ''"
  shows "list_all word (tl (splitOn (CHR '' '') s)) \<and> (\<forall>c \<in> set (hd (splitOn (CHR '' '') s)). graphic c) \<and>
    (hd s \<noteq> CHR '' '' \<longrightarrow> hd (splitOn (CHR '' '') s) \<noteq> [])"
  using assms
proof (induction s rule: single_spaced.induct)
  case (1 c d s)
  obtain p ps where ps: "splitOn (CHR '' '') (d # s) = p # ps"
    by (metis list.exhaust splitOn_not_Nil)
  have step: "splitOn (CHR '' '') (c # d # s) = (if c = CHR '' '' then [] # p # ps else (c # p) # ps)"
    by (subst splitOn.simps) (simp add: ps del: splitOn.simps)
  have ih: "list_all word ps" "\<forall>c \<in> set p. graphic c" "d \<noteq> CHR '' '' \<longrightarrow> p \<noteq> []"
    using 1 by (auto simp del: splitOn.simps simp: ps)
  show ?case using ih "1.prems" unfolding step by (auto simp: word_def list_all_iff)
qed auto

lemma quoted_spaced: "single_spaced t \<Longrightarrow> single_spaced (CHR 39 # t @ [CHR 39])"
proof -
  assume "single_spaced t"
  then have "single_spaced (t @ [CHR 39])" by (induction t rule: single_spaced.induct) auto
  then show ?thesis by (cases t) simp_all
qed

lemma quoted_pieces:
  assumes "lit_ok (TString t)"
  shows "list_all word (splitOn (CHR '' '') (litText (TString t)))"
proof -
  let ?s = "CHR 39 # t @ [CHR 39]"
  have "\<forall>c \<in> set ?s. graphic c \<or> c = CHR '' ''" using assms by (auto simp: graphic_def)
  then have "list_all word (tl (splitOn (CHR '' '') ?s)) \<and> (\<forall>c \<in> set (hd (splitOn (CHR '' '') ?s)). graphic c) \<and>
      hd (splitOn (CHR '' '') ?s) \<noteq> []"
    using pieces [of ?s] quoted_spaced assms by (auto simp del: splitOn.simps)
  then show ?thesis
    using splitOn_not_Nil [of "CHR '' ''" ?s] by (cases "splitOn (CHR '' '') ?s") (auto simp: word_def simp del: splitOn.simps)
qed

lemma plain_pieces: "word t \<Longrightarrow> splitOn (CHR '' '') t = [t]"
  by (rule splitOn_none) (auto simp: word_def dest: graphic_not_blank)

lemma bool_word: "word (litText (TBool b))"
  by (simp add: word_def graphic_def)

lemma test_words:
  assumes "test_ok x"
  shows "list_all word (testWords x)"
proof -
  obtain c op l where x: "x = (c, op, l)" by (cases x)
  have "list_all word (splitOn (CHR '' '') (litText l))"
  proof (cases l)
    case (TNumber t)
    then show ?thesis using assms ident_word [of t] by (simp add: x plain_pieces)
  qed (use assms quoted_pieces bool_word plain_pieces [OF bool_word] in \<open>auto simp: x simp del: litText.simps lit_ok.simps\<close>)
  then show ?thesis using assms ident_word keyword_words(3) by (simp add: x)
qed

text \<open>Tokens among which a keyword is not found, and after which no quote is open.\<close>

fun calm :: "string \<Rightarrow> char option \<Rightarrow> string list \<Rightarrow> bool" where
  "calm k q [] = (q = None)"
| "calm k q (t # ts) = ((q = None \<longrightarrow> \<not> equalFold t k) \<and> calm k (quoteAfter q t) ts)"

lemma calm_append: "calm k q ts \<Longrightarrow> calm k None us \<Longrightarrow> calm k q (ts @ us)"
  by (induction k q ts rule: calm.induct) auto

lemma calm_concat: "\<forall>ts \<in> set tss. calm k None ts \<Longrightarrow> calm k None (concat tss)"
  by (induction tss) (simp_all add: calm_append)

lemma splitTokens_calm:
  "calm k q ts \<Longrightarrow> list_all word ts \<Longrightarrow>
     splitTokens k buf q (ts @ rest) = splitTokens k (if ts = [] then buf else if buf = [] then spread ts else buf @ '' '' @ spread ts) None rest"
proof (induction k q ts arbitrary: buf rule: calm.induct)
  case (2 k q t ts)
  have t: "t \<noteq> []" "\<not> (q = None \<and> equalFold t k)" and ts: "calm k (quoteAfter q t) ts" "list_all word ts"
    using "2.prems" word_ends [of t] by auto
  have step: "splitTokens k buf q ((t # ts) @ rest) =
      splitTokens k ((if buf = [] then [] else buf @ '' '') @ t) (quoteAfter q t) (ts @ rest)"
    using t(2) by auto
  show ?case unfolding step "2.IH" [OF ts] using t(1) by (cases "ts = []") (auto simp: joinWith_Cons)
qed simp

text \<open>Splitting at the keywords between calm groups gives the groups back.\<close>

lemma splitTokens_groups:
  assumes "equalFold k k" and "gs \<noteq> []" and "\<forall>g \<in> set gs. g \<noteq> [] \<and> calm k None g \<and> list_all word g"
  shows "splitTokens k [] None (joinWords k gs) = map spread gs"
  using assms(2, 3)
proof (induction gs)
  case (Cons g gs)
  have g: "g \<noteq> []" "calm k None g" "list_all word g" using Cons.prems by simp_all
  show ?case
  proof (cases gs)
    case Nil
    then show ?thesis using g splitTokens_calm [OF g(2, 3), of "[]" "[]"] by (simp add: joinWords_def trim_spread)
  next
    case (Cons g' gs')
    have "joinWords k (g # gs) = g @ k # joinWords k gs" by (simp add: joinWords_def Cons)
    moreover have "splitTokens k [] None (joinWords k gs) = map spread gs" using Cons Cons.IH Cons.prems by simp
    ultimately show ?thesis
      using g splitTokens_calm [OF g(2, 3), of "[]" "k # joinWords k gs"] assms(1) by (simp add: trim_spread)
  qed
qed simp

lemma quoteAfter_plain: "\<forall>c \<in> set t. \<not> isQuote c \<Longrightarrow> quoteAfter None t = None"
  by (induction t) auto

lemma calm_quoted:
  assumes "CHR 39 \<notin> set t"
  shows "calm k (Some (CHR 39)) (splitOn (CHR '' '') (t @ [CHR 39]))"
  using assms
proof (induction t)
  case (Cons c t)
  obtain p ps where "splitOn (CHR '' '') (t @ [CHR 39]) = p # ps"
    using splitOn_not_Nil by (cases "splitOn (CHR '' '') (t @ [CHR 39])") auto
  then show ?case using Cons by auto
qed simp

lemma fold_ascii:
  assumes "isAscii t"
  shows "equalFold (c # s) t \<Longrightarrow> graphic c \<Longrightarrow> \<exists>d r. t = d # r \<and> foldRune (of_char c) = foldRune (of_char d)"
proof -
  assume eq: "equalFold (c # s) t" and c: "graphic c"
  have "runes (c # s) = of_char c # runes s"
    using c by (subst runes.simps) (simp add: decodeRune_def graphic_def)
  then show ?thesis using eq unfolding equalFold_def runes_ascii [OF assms] by (cases t) auto
qed

lemma keyword_start:
  assumes "graphic c" and "lowerRune (of_char c) \<noteq> 97" and "lowerRune (of_char c) \<noteq> 111"
  shows "\<not> equalFold (c # s) ''and''" "\<not> equalFold (c # s) ''or''"
  using assms fold_ascii [of "''and''" c s] fold_ascii [of "''or''" c s]
  by (auto simp: isAscii_def foldRune_def graphic_def split: if_splits) (simp_all add: lowerRune_def)

end
