(* ===== verification/Kql_Meaning.thy ===== *)
theory Kql_Meaning
  imports Kql_Spec
begin

text \<open>
  The meaning of the text of a query: each layer of the reader (keywords, comparisons, predicates, operators,
  pipeline) gives back what was written, and the evaluation is what the operators denote.
\<close>

section \<open>Keywords\<close>

abbreviation joiner :: "string \<Rightarrow> bool" where
  "joiner k \<equiv> k \<in> {''and'', ''or''}"

lemma ident_calm: "ident t \<Longrightarrow> joiner k \<Longrightarrow> calm k None (t # ts) = calm k None ts"
  using quoteAfter_plain [of t] by (auto simp: ident_def keyword_def plainChar_def)

lemma operator_calm: "op \<in> set operators \<Longrightarrow> joiner k \<Longrightarrow> calm k None (op # ts) = calm k None ts"
  using keyword_start by (auto simp: operators_def graphic_def lowerRune_def isQuote_def)

lemma bool_calm: "joiner k \<Longrightarrow> calm k None [litText (TBool b)]"
  using keyword_start by (auto simp: graphic_def lowerRune_def isQuote_def)

lemma quoted_calm:
  assumes "CHR 39 \<notin> set t" and "joiner k"
  shows "calm k None (splitOn (CHR '' '') (litText (TString t)))"
proof -
  obtain p ps where ps: "splitOn (CHR '' '') (t @ [CHR 39]) = p # ps"
    by (metis list.exhaust splitOn_not_Nil)
  have "\<not> equalFold (CHR 39 # p) k" using assms(2) keyword_start by (auto simp: graphic_def lowerRune_def)
  then show ?thesis using calm_quoted [OF assms(1), of k] by (simp add: ps isQuote_def)
qed

lemma literal_calm:
  assumes "lit_ok l" and "joiner k"
  shows "calm k None (splitOn (CHR '' '') (litText l))"
proof (cases l)
  case (TString t)
  then show ?thesis using assms quoted_calm [of t k] by (auto simp del: litText.simps splitOn.simps calm.simps)
next
  case (TNumber t)
  then show ?thesis
    using assms ident_calm [of t k "[]"] by (simp add: plain_pieces [OF ident_word] del: splitOn.simps) 
next
  case (TBool b)
  then show ?thesis using bool_calm [OF assms(2)] plain_pieces [OF bool_word] by (simp del: splitOn.simps litText.simps calm.simps)
qed

lemma test_calm: "test_ok x \<Longrightarrow> joiner k \<Longrightarrow> calm k None (testWords x)"
  using literal_calm by (cases x) (simp add: ident_calm operator_calm del: calm.simps)

lemma joinWords_Cons: "gs \<noteq> [] \<Longrightarrow> joinWords k (g # gs) = g @ k # joinWords k gs"
  by (cases gs) (simp_all add: joinWords_def)

lemma joinWords_single [simp]: "joinWords k [g] = g" "joinWords k [] = []"
  by (simp_all add: joinWords_def)

lemma joinWords_calm:
  "\<forall>g \<in> set gs. calm k None g \<Longrightarrow> calm k None [k'] \<Longrightarrow> calm k None (joinWords k' gs)"
proof (induction gs)
  case (Cons g gs)
  then show ?case
    using calm_append [of k None g "[k'] @ joinWords k' gs"] calm_append [of k None "[k']" "joinWords k' gs"]
    by (cases "gs = []") (simp_all add: joinWords_Cons del: calm.simps(2))
qed simp

lemma joinWords_word: "\<forall>g \<in> set gs. list_all word g \<Longrightarrow> word k \<Longrightarrow> list_all word (joinWords k gs)"
proof (induction gs)
  case (Cons g gs)
  then show ?case by (cases "gs = []") (simp_all add: joinWords_Cons)
qed simp

lemma joinWords_not_Nil: "gs \<noteq> [] \<Longrightarrow> \<forall>g \<in> set gs. g \<noteq> [] \<Longrightarrow> joinWords k gs \<noteq> []"
  by (cases gs) (auto simp: joinWords_def)

lemma keyword_other: "\<not> equalFold ''and'' ''or''" "\<not> equalFold ''or'' ''and''"
  using fold_ascii [of "''or''" "CHR ''a''" "''nd''"] fold_ascii [of "''and''" "CHR ''o''" "''r''"]
  by (auto simp: isAscii_def graphic_def foldRune_def lowerRune_def)

lemma splitKeyword_words:
  assumes "equalFold k k" and "gs \<noteq> []" and "\<forall>g \<in> set gs. g \<noteq> [] \<and> calm k None g \<and> list_all word g" and "word k"
  shows "splitKeyword (spread (joinWords k gs)) k = map spread gs"
proof -
  have "list_all word (joinWords k gs)" using assms by (simp add: joinWords_word)
  from fields_spread [OF this] show ?thesis using splitTokens_groups [OF assms(1-3)] by (simp add: splitKeyword_def)
qed

lemma group_words:
  assumes "g \<noteq> []" and "\<forall>x \<in> set g. test_ok x"
  shows "groupWords g \<noteq> []" "list_all word (groupWords g)" "calm ''or'' None (groupWords g)"
proof -
  have "testWords x \<noteq> []" for x by (cases x) simp
  then show "groupWords g \<noteq> []" using assms(1) unfolding groupWords_def by (intro joinWords_not_Nil) auto
  show "list_all word (groupWords g)"
    using assms test_words keyword_words unfolding groupWords_def by (intro joinWords_word) auto
  have "calm ''or'' None [''and'']" using keyword_other quoteAfter_plain [of "''and''"] by (simp add: isQuote_def)
  then show "calm ''or'' None (groupWords g)"
    using assms test_calm [of _ "''or''"] unfolding groupWords_def by (intro joinWords_calm) auto
qed

lemma tests_back:
  assumes "g \<noteq> []" and "\<forall>x \<in> set g. test_ok x"
  shows "splitKeyword (spread (groupWords g)) ''and'' = map (\<lambda>x. spread (testWords x)) g"
proof -
  have "testWords x \<noteq> []" for x by (cases x) simp
  then have "splitKeyword (spread (joinWords ''and'' (map testWords g))) ''and'' = map spread (map testWords g)"
    using assms test_words test_calm [of _ "''and''"] keyword_words by (intro splitKeyword_words) (auto simp: equalFold_def)
  then show ?thesis by (simp add: groupWords_def comp_def)
qed

lemma groups_back:
  assumes "p \<noteq> []" and "\<forall>g \<in> set p. g \<noteq> [] \<and> (\<forall>x \<in> set g. test_ok x)"
  shows "splitKeyword (spread (predWords p)) ''or'' = map (\<lambda>g. spread (groupWords g)) p"
proof -
  have "splitKeyword (spread (joinWords ''or'' (map groupWords p))) ''or'' = map spread (map groupWords p)"
    using assms group_words keyword_words by (intro splitKeyword_words) (auto simp: equalFold_def)
  then show ?thesis by (simp add: predWords_def comp_def)
qed

section \<open>Comparisons\<close>

lemma operator_skips:
  assumes "op \<in> set operators"
  shows "op \<noteq> [] \<and> \<not> isQuote (CHR '' '') \<and> CHR '' '' \<noteq> hd op \<and> (plainChar x \<longrightarrow> \<not> isQuote x \<and> x \<noteq> hd op)"
  using assms by (auto simp: operators_def plainChar_def isQuote_def)

lemma find_short: "length s < length op \<Longrightarrow> findOperator op i q s = None"
  by (cases s) auto

lemma find_plain:
  "\<forall>c \<in> set t. \<not> isQuote c \<and> c \<noteq> hd op \<Longrightarrow> op \<noteq> [] \<Longrightarrow>
     findOperator op i None (t @ s) = findOperator op (i + length t) None s"
proof (induction t arbitrary: i)
  case (Cons c t)
  then have "\<not> hasPrefix (c # t @ s) op" by (cases op) (auto simp: hasPrefix_def)
  then show ?case using Cons find_short [of s op] by auto
qed simp

lemma find_quoted:
  "q \<notin> set t \<Longrightarrow> op \<noteq> [] \<Longrightarrow> findOperator op i (Some q) (t @ [q]) = None"
  by (induction t arbitrary: i) auto

lemma find_literal:
  assumes "lit_ok l" and "op \<in> set operators"
  shows "findOperator op i None (litText l) = None"
proof -
  have op: "op \<noteq> []" "hd op \<in> {CHR ''='', CHR ''!'', CHR ''<'', CHR ''>''}" using assms(2) by (auto simp: operators_def)
  show ?thesis
  proof (cases l)
    case (TString t)
    then show ?thesis using assms(1) op find_quoted [of "CHR 39" t op "Suc i"] by (auto simp: isQuote_def)
  next
    case (TNumber t)
    then have "\<forall>c \<in> set t. \<not> isQuote c \<and> c \<noteq> hd op" using assms(1) op by (auto simp: ident_def plainChar_def)
    then show ?thesis using TNumber op find_plain [of t op i "[]"] by simp
  next
    case (TBool b)
    have "\<forall>c \<in> set (litText (TBool b)). \<not> isQuote c \<and> c \<noteq> hd op" using op by (auto simp: isQuote_def)
    then show ?thesis using TBool op find_plain [of "litText (TBool b)" op i "[]"] by (simp del: litText.simps)
  qed
qed

text \<open>An earlier operator of the list is not found in front of the one that was written.\<close>

lemma find_other:
  assumes "op \<in> set operators" and "op' \<in> set (takeWhile (\<lambda>x. x \<noteq> op) operators)" and "rest \<noteq> []"
  shows "findOperator op' i None (op @ CHR '' '' # rest) = findOperator op' (i + length op + 1) None rest"
  using assms find_short [of rest op'] by (auto simp: operators_def isQuote_def hasPrefix_def split: if_splits)

lemma find_here: "op \<in> set operators \<Longrightarrow> findOperator op i None (op @ s) = Some i"
  by (auto simp: operators_def isQuote_def hasPrefix_def)

lemma tryOperators_first:
  "op \<in> set ops \<Longrightarrow> \<forall>o' \<in> set (takeWhile (\<lambda>x. x \<noteq> op) ops). indexOperator s o' = None \<Longrightarrow>
     \<exists>ops'. tryOperators s ops = tryOperators s (op # ops')"
proof (induction ops)
  case (Cons o' ops)
  then show ?case by (cases "o' = op") (auto simp del: tryOperators.simps(2) simp: tryOperators.simps(2) [of s o'])
qed simp

lemma literal_edges:
  assumes "lit_ok l"
  shows "litText l \<noteq> [] \<and> graphic (hd (litText l)) \<and> graphic (last (litText l))"
proof (cases l)
  case (TString t)
  then show ?thesis by (simp add: graphic_def)
next
  case (TNumber t)
  then have "word t" using assms ident_word [of t] by simp
  then show ?thesis using TNumber word_ends [of t] by simp
next
  case (TBool b)
  then show ?thesis using word_ends [OF bool_word [of b]] by simp
qed

lemma parse_lit_text:
  assumes "lit_ok l"
  shows "parseLiteral (litText l) = Inr (litValue l)"
proof (cases l)
  case (TNumber t)
  then have "\<not> isQuote (hd t)" using assms by (simp add: ident_def plainChar_def)
  then show ?thesis using assms TNumber by (auto simp: parseLiteral_def)
qed (auto simp: parseLiteral_def isQuote_def toLower_def isAscii_def lowerChar_def)

lemma test_text: "spread (testWords (c, op, l)) = c @ '' '' @ op @ '' '' @ litText l"
  using join_split [of "CHR '' ''" "litText l"] by (simp add: joinWith_Cons)

lemma parse_test:
  assumes "test_ok (c, op, l)"
  shows "parseComparison (spread (testWords (c, op, l))) = Inr \<lparr>cm_column = c, cm_op = op, cm_lit = litValue l\<rparr>"
proof -
  let ?s = "c @ '' '' @ op @ '' '' @ litText l"
  have c: "c \<noteq> []" "\<forall>x \<in> set c. plainChar x" and op: "op \<in> set operators" and l: "lit_ok l"
    using assms by (simp_all add: ident_def)
  have skip: "findOperator o' i None ?s = findOperator o' (i + length c + 1) None (op @ '' '' @ litText l)"
    if "o' \<in> set operators" for o' i
  proof -
    have "\<forall>x \<in> set (c @ '' ''). \<not> isQuote x \<and> x \<noteq> hd o'" using c operator_skips [OF that] by auto
    moreover have "o' \<noteq> []" using operator_skips [OF that] by blast
    ultimately show ?thesis using find_plain [of "c @ '' ''" o' i "op @ '' '' @ litText l"] by simp
  qed
  have "indexOperator ?s o' = None" if "o' \<in> set (takeWhile (\<lambda>x. x \<noteq> op) operators)" for o'
  proof -
    have "o' \<in> set operators" using that by (rule set_takeWhileD [THEN conjunct1])
    then show ?thesis
      using skip [of o' 0] find_other [OF op that, of "litText l"] find_literal [OF l] literal_edges [OF l]
      by (simp add: indexOperator_def)
  qed
  then obtain ops' where "tryOperators ?s operators = tryOperators ?s (op # ops')"
    using tryOperators_first [OF op, of ?s] by blast
  moreover have "indexOperator ?s op = Some (length c + 1)"
    using skip [OF op, of 0] find_here [OF op] by (simp add: indexOperator_def)
  moreover have "trimSpace (c @ '' '') = c" "trimSpace (litText l) = litText l"
    using c literal_edges [OF l] by (simp_all add: trim_trailing trimSpace_graphic plainChar_def)
  moreover have "trimSpace ?s = ?s"
    using trim_spread [OF test_words [OF assms]] test_text [of c op l] by simp
  ultimately show ?thesis
    using c literal_edges [OF l] unfolding parseComparison_def test_text
    by (simp add: parse_lit_text [OF l] trim_leading)
qed

section \<open>Predicates\<close>

lemma eachInr_map: "\<forall>x \<in> set xs. f (h x) = Inr (k x) \<Longrightarrow> eachInr f (map h xs) = Inr (map k xs)"
  by (induction xs) auto

definition cmpOf :: "test \<Rightarrow> cmp" where
  "cmpOf x = (case x of (c, op, l) \<Rightarrow> \<lparr>cm_column = c, cm_op = op, cm_lit = litValue l\<rparr>)"

lemma parse_cmp: "test_ok x \<Longrightarrow> parseComparison (spread (testWords x)) = Inr (cmpOf x)"
  using parse_test by (cases x) (simp add: cmpOf_def del: testWords.simps)

lemma pred_words:
  assumes "p \<noteq> []" and "\<forall>g \<in> set p. g \<noteq> [] \<and> (\<forall>x \<in> set g. test_ok x)"
  shows "predWords p \<noteq> []" "list_all word (predWords p)"
  using assms group_words keyword_words unfolding predWords_def by (intro joinWords_not_Nil joinWords_word; auto)+

lemma parse_predicate:
  assumes "p \<noteq> []" and "\<forall>g \<in> set p. g \<noteq> [] \<and> (\<forall>x \<in> set g. test_ok x)"
  shows "parsePredicate (spread (predWords p)) = Inr (map (map cmpOf) p)"
proof -
  have group: "eachInr parseComparison (splitKeyword (spread (groupWords g)) ''and'') = Inr (map cmpOf g)" if "g \<in> set p" for g
    using that assms(2) parse_cmp by (subst tests_back) (auto intro!: eachInr_map simp del: test_ok.simps testWords.simps)
  have "spread (predWords p) \<noteq> []" using spread_ends pred_words [OF assms] by blast
  then show ?thesis
    using group unfolding parsePredicate_def Let_def trim_spread [OF pred_words(2, 1) [OF assms]] groups_back [OF assms]
    by (simp add: eachInr_map)
qed

lemma eval_test: "test_ok x \<Longrightarrow> evalComparison (cmpOf x) r = Inr (holds x r)"
  by (cases x) (auto simp: cmpOf_def evalComparison_def holds_def split: lit_text.splits lit.splits anyval.splits)

lemma eval_group: "\<forall>x \<in> set g. test_ok x \<Longrightarrow> evalGroup (map cmpOf g) r = Inr (\<forall>x \<in> set g. holds x r)"
  by (induction g) (auto simp: eval_test)

lemma eval_predicate:
  "\<forall>g \<in> set p. \<forall>x \<in> set g. test_ok x \<Longrightarrow>
     evalPredicate (map (map cmpOf) p) r = Inr (\<exists>g \<in> set p. \<forall>x \<in> set g. holds x r)"
  by (induction p) (auto simp: eval_group)

lemma filterRows_Inr: "\<forall>r. f r = Inr (g r) \<Longrightarrow> filterRows f rs = Inr (filter g rs)"
  by (induction rs) auto

lemma where_meaning:
  assumes "operator_ok (Where p)"
  shows "applyWhere t (spread (predWords p)) = Inr (denote (Where p) t)"
proof -
  have p: "p \<noteq> []" "\<forall>g \<in> set p. g \<noteq> [] \<and> (\<forall>x \<in> set g. test_ok x)" using assms by simp_all
  have "filterRows (evalPredicate (map (map cmpOf) p)) (rt_rows t) =
      Inr (filter (\<lambda>r. \<exists>g \<in> set p. \<forall>x \<in> set g. holds x r) (rt_rows t))"
    using p(2) eval_predicate by (intro filterRows_Inr) blast
  then show ?thesis by (simp add: applyWhere_def parse_predicate [OF p])
qed

section \<open>Lists with separators\<close>

text \<open>Cutting at a separator undoes joining with it and spaces, up to the spaces.\<close>

definition trimmed :: "string \<Rightarrow> bool" where
  "trimmed t \<longleftrightarrow> t \<noteq> [] \<and> graphic (hd t) \<and> graphic (last t)"

lemma split_leading: "sep \<noteq> CHR '' '' \<Longrightarrow> map trimSpace (splitOn sep (CHR '' '' # s)) = map trimSpace (splitOn sep s)"
  using splitOn_not_Nil [of sep s] by (auto simp: trim_leading split: list.split)

lemma split_joined:
  assumes "ts \<noteq> []" and "\<forall>t \<in> set ts. trimmed t \<and> sep \<notin> set t" and "sep \<noteq> CHR '' ''" and "gap = [] \<or> gap = '' ''"
  shows "map trimSpace (splitOn sep (joinWith (gap @ [sep] @ '' '') ts)) = ts"
  using assms(1, 2)
proof (induction ts)
  case (Cons t ts)
  have t: "t \<noteq> []" "graphic (hd t)" "trimSpace t = t" "sep \<notin> set t"
    using Cons.prems by (simp_all add: trimmed_def trimSpace_graphic)
  then have g: "trimSpace (t @ gap) = t" "sep \<notin> set (t @ gap)" using assms(3, 4) trim_trailing by auto
  show ?case
  proof (cases "ts = []")
    case True
    then show ?thesis using t by (simp add: splitOn_none)
  next
    case False
    let ?s = "joinWith (gap @ [sep] @ '' '') ts"
    have "joinWith (gap @ [sep] @ '' '') (t # ts) = (t @ gap) @ sep # CHR '' '' # ?s" using False by (simp add: joinWith_Cons)
    then have "map trimSpace (splitOn sep (joinWith (gap @ [sep] @ '' '') (t # ts))) = t # map trimSpace (splitOn sep ?s)"
      using splitOn_append [OF g(2)] g(1) split_leading [OF assms(3)] by (simp del: splitOn.simps)
    then show ?thesis using Cons False by simp
  qed
qed simp

lemma ident_trimmed: "ident t \<Longrightarrow> trimmed t"
  by (simp add: ident_def trimmed_def plainChar_def)

lemma columns_back:
  assumes "cs \<noteq> []" and "\<forall>c \<in> set cs. ident c"
  shows "splitCSV (joinWith '', '' cs) = cs"
proof -
  have "map trimSpace (splitOn (CHR '','') (joinWith ([] @ [CHR '',''] @ '' '') cs)) = cs"
    using assms ident_trimmed by (intro split_joined) (auto simp: ident_def plainChar_def)
  moreover have "filter (\<lambda>p. p \<noteq> []) cs = cs" using assms(2) by (simp add: ident_def)
  ultimately show ?thesis by (simp add: splitCSV_def)
qed

section \<open>Operators\<close>

lemma fields_first: "word t \<Longrightarrow> fieldsOf (t @ CHR '' '' # s) = t # fieldsOf s"
  by (simp add: fieldsOf_def word_def fieldsFrom_word fieldsFrom_blank)

lemma stage_word:
  assumes "word t"
  shows "applyStage tbl (t @ CHR '' '' # s) =
     (let op = toLower t; rest = trimSpace s in
      if op = ''where'' \<or> op = ''filter'' then applyWhere tbl rest
      else if op = ''project'' then applyProject tbl rest
      else if op = ''take'' \<or> op = ''limit'' then applyTake tbl rest
      else if op = ''count'' then Inr (applyCount tbl)
      else if op = ''sort'' \<or> op = ''order'' then applySort tbl (t # fieldsOf s)
      else Inl (UnsupportedOperator t))"
  unfolding applyStage_def fields_first [OF assms] by (simp add: trim_leading)

lemma lower_names: "toLower ''where'' = ''where''" "toLower ''project'' = ''project''" "toLower ''take'' = ''take''"
    "toLower ''count'' = ''count''" "toLower ''sort'' = ''sort''" "toLower ''by'' = ''by''" "toLower ''asc'' = ''asc''"
    "toLower ''desc'' = ''desc''"
  by (simp_all add: toLower_def isAscii_def lowerChar_def)

lemma name_words: "word ''where''" "word ''project''" "word ''take''" "word ''count''" "word ''sort''" "word ''by''"
    "word ''asc''" "word ''desc''"
  by (simp_all add: word_def graphic_def)

lemma project_ends:
  assumes "cs \<noteq> []" and "\<forall>c \<in> set cs. ident c"
  shows "trimmed (joinWith '', '' cs)"
  using assms
proof (induction cs)
  case (Cons c cs)
  then show ?case using ident_trimmed [of c] by (cases "cs = []") (auto simp: joinWith_Cons trimmed_def)
qed simp

lemma trimmed_same: "trimmed t \<Longrightarrow> trimSpace t = t"
  by (simp add: trimmed_def trimSpace_graphic)

lemma decimal_trimmed: "trimmed (decimal n)"
  using decimal_digits [of n] isDigit_special by (auto simp: trimmed_def list_all_iff)

lemma suffix_none: "last t \<noteq> c \<Longrightarrow> trimSuffix t [c] = t"
  by (auto simp: trimSuffix_def hasSuffix_def dest!: arg_cong [of _ _ last])

lemma stage_meaning:
  assumes "operator_ok ok"
  shows "applyStage t (operatorText ok) = Inr (denote ok t)"
proof (cases ok)
  case (Where p)
  then have p: "p \<noteq> []" "\<forall>g \<in> set p. g \<noteq> [] \<and> (\<forall>x \<in> set g. test_ok x)" using assms by simp_all
  show ?thesis
    using Where assms stage_word [OF name_words(1), of t "spread (predWords p)"] where_meaning [of p t]
    by (simp add: lower_names trim_spread [OF pred_words(2, 1) [OF p]] del: denote.simps)
next
  case (Project cs)
  then have "cs \<noteq> []" "\<forall>c \<in> set cs. ident c" using assms by simp_all
  then show ?thesis
    using Project stage_word [OF name_words(2), of t "joinWith '', '' cs"]
    by (simp add: lower_names trimmed_same project_ends applyProject_def columns_back)
next
  case (Take n)
  then show ?thesis
    using assms stage_word [OF name_words(3), of t "decimal n"]
    by (simp add: lower_names trimmed_same decimal_trimmed applyTake_def atoi_decimal)
next
  case Count
  have "fieldsOf ''count'' = [''count'']" using fields_spread [of "[''count'']"] name_words by simp
  then show ?thesis using Count by (simp add: applyStage_def lower_names)
next
  case (Sort c desc)
  let ?d = "if desc then ''desc'' else ''asc''"
  have c: "ident c" using Sort assms by simp
  then have "trimSuffix c '','' = c" by (intro suffix_none) (auto simp: ident_def plainChar_def)
  moreover have "fieldsOf (spread [''by'', c, ?d]) = [''by'', c, ?d]"
    using ident_word [OF c] name_words by (intro fields_spread) simp
  ultimately show ?thesis
    using Sort stage_word [OF name_words(5), of t "spread [''by'', c, ?d]"]
    by (simp add: lower_names applySort_def sortDirection_def eval_nat_numeral)
qed

section \<open>Pipelines\<close>

lemma split_pieces: "t \<in> set (splitOn sep s) \<Longrightarrow> set t \<subseteq> set s"
proof (induction s arbitrary: t)
  case (Cons c s)
  obtain p ps where "splitOn sep s = p # ps" by (metis list.exhaust splitOn_not_Nil)
  then show ?case using Cons by (fastforce split: if_splits)
qed simp

lemma spread_avoids: "\<forall>t \<in> set ts. x \<notin> set t \<Longrightarrow> x \<noteq> CHR '' '' \<Longrightarrow> x \<notin> set (spread ts)"
proof (induction ts)
  case (Cons t ts)
  then show ?case by (cases "ts = []") (auto simp: joinWith_Cons)
qed simp

lemma joinWords_avoids:
  "\<forall>g \<in> set gs. \<forall>t \<in> set g. x \<notin> set t \<Longrightarrow> x \<notin> set k \<Longrightarrow> \<forall>t \<in> set (joinWords k gs). x \<notin> set t"
proof (induction gs)
  case (Cons g gs)
  then show ?case by (cases "gs = []") (auto simp: joinWords_Cons)
qed simp

lemma ident_bar: "ident t \<Longrightarrow> CHR ''|'' \<notin> set t"
  by (auto simp: ident_def plainChar_def)

lemma test_bar: "test_ok x \<Longrightarrow> t \<in> set (testWords x) \<Longrightarrow> CHR ''|'' \<notin> set t"
proof -
  assume ok: "test_ok x" and t: "t \<in> set (testWords x)"
  obtain c op l where x: "x = (c, op, l)" by (cases x)
  have "CHR ''|'' \<notin> set (litText l)" using ok ident_bar by (cases l) (auto simp: x)
  moreover have "CHR ''|'' \<notin> set op" using ok by (auto simp: x operators_def)
  ultimately show ?thesis using ok t ident_bar split_pieces [of t "CHR '' ''" "litText l"] by (auto simp: x)
qed

lemma pred_bar:
  assumes "\<forall>g \<in> set p. \<forall>x \<in> set g. test_ok x"
  shows "\<forall>t \<in> set (predWords p). CHR ''|'' \<notin> set t"
proof -
  have "\<forall>t \<in> set (groupWords g). CHR ''|'' \<notin> set t" if "g \<in> set p" for g
  proof -
    have "\<forall>t \<in> set ws. CHR ''|'' \<notin> set t" if "ws \<in> testWords ` set g" for ws
      using that test_bar assms \<open>g \<in> set p\<close> by (metis imageE)
    then show ?thesis unfolding groupWords_def by (intro joinWords_avoids) auto
  qed
  then show ?thesis unfolding predWords_def by (intro joinWords_avoids) auto
qed

lemma trimmed_after: "w \<noteq> [] \<Longrightarrow> graphic (hd w) \<Longrightarrow> trimmed t \<Longrightarrow> trimmed (w @ t)"
  by (simp add: trimmed_def)

lemma spread_trimmed: "list_all word ts \<Longrightarrow> ts \<noteq> [] \<Longrightarrow> trimmed (spread ts)"
  using spread_ends [of ts] word_ends [of "hd ts"] word_ends [of "last ts"] by (simp add: trimmed_def list_all_iff)

lemma csv_avoids: "\<forall>t \<in> set ts. x \<notin> set t \<Longrightarrow> x \<notin> set '', '' \<Longrightarrow> x \<notin> set (joinWith '', '' ts)"
proof (induction ts)
  case (Cons t ts)
  then show ?case by (cases "ts = []") (auto simp: joinWith_Cons)
qed simp

lemma operator_text:
  assumes "operator_ok ok"
  shows "trimmed (operatorText ok) \<and> CHR ''|'' \<notin> set (operatorText ok)"
proof (cases ok)
  case (Where p)
  then have p: "p \<noteq> []" "\<forall>g \<in> set p. g \<noteq> [] \<and> (\<forall>x \<in> set g. test_ok x)" using assms by simp_all
  have "trimmed (''where '' @ spread (predWords p))"
    using spread_trimmed [OF pred_words(2, 1) [OF p]] by (intro trimmed_after) (simp_all add: graphic_def)
  then show ?thesis using Where spread_avoids [OF pred_bar] p by simp
next
  case (Project cs)
  then have cs: "cs \<noteq> []" "\<forall>c \<in> set cs. ident c" using assms by simp_all
  have "trimmed (''project '' @ joinWith '', '' cs)"
    using project_ends [OF cs] by (intro trimmed_after) (simp_all add: graphic_def)
  then show ?thesis using Project cs csv_avoids [of cs "CHR ''|''"] ident_bar by auto
next
  case (Take n)
  have "trimmed (''take '' @ decimal n)"
    using decimal_trimmed by (intro trimmed_after) (simp_all add: graphic_def)
  moreover have "CHR ''|'' \<notin> set (decimal n)" using decimal_chars [of "CHR ''|''" n] by (auto simp: isDigit_def)
  ultimately show ?thesis using Take by simp
next
  case Count
  then show ?thesis by (simp add: trimmed_def graphic_def)
next
  case (Sort c desc)
  let ?ts = "[''sort'', ''by'', c, if desc then ''desc'' else ''asc'']"
  have "trimmed (spread ?ts)" using Sort assms ident_word name_words by (intro spread_trimmed) auto
  moreover have "CHR ''|'' \<notin> set (spread ?ts)" using Sort assms ident_bar by (intro spread_avoids) auto
  ultimately show ?thesis using Sort by (simp del: joinWith.simps)
qed

lemma stages_meaning:
  "\<forall>ok \<in> set ops. operator_ok ok \<Longrightarrow> applyStages t (map operatorText ops) = Inr (fold denote ops t)"
  by (induction ops arbitrary: t) (auto simp: stage_meaning)

lemma query_meaning:
  assumes "ident name" and "\<forall>ok \<in> set ops. operator_ok ok"
  shows "evalKQL rows (queryText name ops) =
    (case rows name of None \<Rightarrow> Inl (UnknownTable name) | Some rs \<Rightarrow> Inr (fold denote ops \<lparr>rt_columns = [], rt_rows = rs\<rparr>))"
proof -
  have "map trimSpace (splitOn (CHR ''|'') (joinWith ('' '' @ [CHR ''|''] @ '' '') (name # map operatorText ops))) =
      name # map operatorText ops"
    using assms ident_trimmed ident_bar operator_text by (intro split_joined) auto
  then have "splitPipeline (queryText name ops) = name # map operatorText ops"
    by (simp add: splitPipeline_def queryText_def)
  then show ?thesis
    using assms stages_meaning [OF assms(2)] trimmed_same [OF ident_trimmed [OF assms(1)]]
    by (auto simp: evalKQL_def ident_def split: option.split)
qed



end
