(* ===== verification/Kql_Sort.thy ===== *)
theory Kql_Sort
  imports Kql "HOL-Library.Multiset"
begin

text \<open>
  Sorting. A column that has a number in every row is sorted by it, ascending or descending, and rows with
  equal numbers keep their order. Without that the comparison is not an order, and rows can stay unsorted.
\<close>

section \<open>Insertion by a key\<close>

lemma moveLeft_mset: "mset (moveLeft lt x ys) = add_mset x (mset ys)"
  by (induction ys) simp_all

lemma moveLeft_set: "set (moveLeft lt x ys) = insert x (set ys)"
  using arg_cong [OF moveLeft_mset [of lt x ys], of set_mset] by simp

lemma moveLeft_sorted:
  "sorted (rev (map f ys)) \<Longrightarrow> sorted (rev (map f (moveLeft (\<lambda>x y. f x < f y) x ys)))"
  for f :: "'a \<Rightarrow> 'b :: linorder"
  by (induction ys) (auto simp: sorted_append moveLeft_set)

lemma moveLeft_filter:
  "sorted (rev (map f ys)) \<Longrightarrow>
     filter (\<lambda>y. f y = k) (moveLeft (\<lambda>x y. f x < f y) x ys) = filter (\<lambda>y. f y = k) (x # ys)"
  for f :: "'a \<Rightarrow> 'b :: linorder"
  by (induction ys) (auto simp: sorted_append)

lemma insertion_mset: "mset (fold (moveLeft lt) xs acc) = mset xs + mset acc"
  by (induction xs arbitrary: acc) (simp_all add: moveLeft_mset)

lemma insertion_sorted:
  "sorted (rev (map f acc)) \<Longrightarrow> sorted (rev (map f (fold (moveLeft (\<lambda>x y. f x < f y)) xs acc)))"
  for f :: "'a \<Rightarrow> 'b :: linorder"
  by (induction xs arbitrary: acc) (simp_all add: moveLeft_sorted)

lemma insertion_filter:
  "sorted (rev (map f acc)) \<Longrightarrow>
     filter (\<lambda>y. f y = k) (fold (moveLeft (\<lambda>x y. f x < f y)) xs acc) =
       rev (filter (\<lambda>y. f y = k) xs) @ filter (\<lambda>y. f y = k) acc"
  for f :: "'a \<Rightarrow> 'b :: linorder"
  by (induction xs arbitrary: acc) (auto simp: moveLeft_sorted moveLeft_filter)

lemma sliceStable_key: "sliceStable (\<lambda>x y. f x < f y) xs = sort_key f xs"
  for f :: "'a \<Rightarrow> 'b :: linorder"
proof (rule properties_for_sort_key [symmetric])
  let ?s = "fold (moveLeft (\<lambda>x y. f x < f y)) xs []"
  show "mset (sliceStable (\<lambda>x y. f x < f y) xs) = mset xs" by (simp add: sliceStable_def insertion_mset)
  show "filter (\<lambda>x. f k = f x) (sliceStable (\<lambda>x y. f x < f y) xs) = filter (\<lambda>x. f k = f x) xs" for k
    using arg_cong [OF insertion_filter [of f "[]" "f k" xs], of rev] by (simp add: sliceStable_def rev_filter eq_commute)
  show "sorted (map f (sliceStable (\<lambda>x y. f x < f y) xs))"
    using insertion_sorted [of f "[]" xs] by (simp add: sliceStable_def rev_map)
qed

lemma moveLeft_cong:
  "\<forall>y \<in> set ys. lt x y = lt' x y \<Longrightarrow> moveLeft lt x ys = moveLeft lt' x ys"
  by (induction ys) auto

lemma insertion_cong:
  "\<forall>x \<in> set xs. \<forall>y \<in> set xs \<union> set acc. lt x y = lt' x y \<Longrightarrow> fold (moveLeft lt) xs acc = fold (moveLeft lt') xs acc"
proof (induction xs arbitrary: acc)
  case (Cons x xs)
  then have "moveLeft lt x acc = moveLeft lt' x acc" by (intro moveLeft_cong) auto
  then show ?case using Cons by (simp add: moveLeft_set)
qed simp

lemma sliceStable_cong:
  "\<forall>x \<in> set xs. \<forall>y \<in> set xs. lt x y = lt' x y \<Longrightarrow> sliceStable lt xs = sliceStable lt' xs"
  unfolding sliceStable_def by (subst insertion_cong [of xs "[]" lt lt']) auto

section \<open>Columns\<close>

text \<open>The number a row has in a column.\<close>

definition numberAt :: "string \<Rightarrow> row \<Rightarrow> rat" where
  "numberAt c r = (case cell r c of ANumber (Fin q) \<Rightarrow> q | _ \<Rightarrow> 0)"

definition numeric :: "string \<Rightarrow> row list \<Rightarrow> bool" where
  "numeric c rows \<longleftrightarrow> (\<forall>r \<in> set rows. cell r c = ANumber (Fin (numberAt c r)))"

lemma sort_column:
  assumes "numeric c (rt_rows t)" and "trimSuffix c'' '','' = c"
    and "toLower b = ''by''" and "toLower d = (if desc then ''desc'' else ''asc'')"
  shows "applySort t ([f, b, c'', d] @ more_fields) =
    Inr (t\<lparr>rt_rows := sort_key (\<lambda>r. if desc then - numberAt c r else numberAt c r) (rt_rows t)\<rparr>)"
proof -
  let ?f = "\<lambda>r. if desc then - numberAt c r else numberAt c r"
  have "sortLess c desc x y = (?f x < ?f y)" if "x \<in> set (rt_rows t)" "y \<in> set (rt_rows t)" for x y
    using assms(1) that by (auto simp: sortLess_def numeric_def)
  then have "sliceStable (sortLess c desc) (rt_rows t) = sliceStable (\<lambda>x y. ?f x < ?f y) (rt_rows t)"
    by (intro sliceStable_cong) blast
  also have "\<dots> = sort_key ?f (rt_rows t)" by (rule sliceStable_key)
  finally have rows: "sliceStable (sortLess c desc) (rt_rows t) = sort_key ?f (rt_rows t)" .
  have "sortDirection ([f, b, c'', d] @ more_fields) = Inr desc"
    using assms(4) by (cases desc) (simp_all add: sortDirection_def eval_nat_numeral)
  then show ?thesis using assms(2, 3) rows by (simp add: applySort_def eval_nat_numeral)
qed

text \<open>C23: A sort on a column with a number in every row orders the rows by it, ascending or
  descending as the query says, and keeps the order of rows with equal numbers.\<close>

theorem numbers_sorted:
  assumes "numeric c (rt_rows t)" and "trimSuffix c'' '','' = c"
    and "toLower b = ''by''" and "toLower d = (if desc then ''desc'' else ''asc'')"
  shows "applySort t ([f, b, c'', d] @ more_fields) =
    Inr (t\<lparr>rt_rows := sort_key (\<lambda>r. if desc then - numberAt c r else numberAt c r) (rt_rows t)\<rparr>)"
  using assms by (rule sort_column)

theorem numbers_sorted_witness:
  "applySort \<lparr>rt_columns = [], rt_rows = [[(''n'', ANumber (Fin 2))], [(''n'', ANumber (Fin 1))]]\<rparr> [''sort'', ''by'', ''n'', ''asc''] =
     Inr \<lparr>rt_columns = [], rt_rows = [[(''n'', ANumber (Fin 1))], [(''n'', ANumber (Fin 2))]]\<rparr>"
  using numbers_sorted [of "''n''" "\<lparr>rt_columns = [], rt_rows = [[(''n'', ANumber (Fin 2))], [(''n'', ANumber (Fin 1))]]\<rparr>"
    "''n''" "''by''" "''asc''" False "''sort''" "[]"]
  by (simp add: numeric_def numberAt_def cell_def trimSuffix_def hasSuffix_def toLower_def isAscii_def lowerChar_def)

text \<open>A row without the column stays where it is and keeps the rows around it apart: of the numbers three,
  none, one nothing moves.\<close>

lemma gap_unsorted:
  "applySort \<lparr>rt_columns = [], rt_rows = [[(''n'', ANumber (Fin 3))], [], [(''n'', ANumber (Fin 1))]]\<rparr> [''sort'', ''by'', ''n'', ''asc''] =
     Inr \<lparr>rt_columns = [], rt_rows = [[(''n'', ANumber (Fin 3))], [], [(''n'', ANumber (Fin 1))]]\<rparr>"
  by (simp add: applySort_def sortDirection_def sliceStable_def sortLess_def cell_def trimSuffix_def hasSuffix_def toLower_def
    isAscii_def lowerChar_def eval_nat_numeral)

end
