(* ===== verification/Monitor_Spec.thy ===== *)
theory Monitor_Spec
  imports Monitor Kql_Meaning Kql_Sort
begin

text \<open>
  What the Monitor service promises: answers are tables with a value of the stated type in every column, every
  stored row has the time of its ingestion, and what was ingested is what queries see. Also how times written
  by the store compare.
\<close>

section \<open>Tables of answers\<close>

text \<open>A value and the type of its column. Columns without values are strings or times.\<close>

fun fits :: "anyval \<Rightarrow> string \<Rightarrow> bool" where
  "fits ANull ty = True"
| "fits (ABool b) ty = (ty = ''bool'')"
| "fits (ANumber x) ty = (ty = ''long'' \<or> ty = ''real'')"
| "fits (AString s) ty = (ty = ''datetime'' \<or> ty = ''string'')"
| "fits _ ty = (ty = ''dynamic'')"

definition columnValues :: "wire_table \<Rightarrow> nat \<Rightarrow> anyval list" where
  "columnValues w i = map (\<lambda>r. r ! i) (wt_rows w)"

definition well_typed :: "wire_table \<Rightarrow> bool" where
  "well_typed w \<longleftrightarrow>
     (\<forall>r \<in> set (wt_rows w). length r = length (wt_columns w)) \<and>
     (\<forall>i < length (wt_columns w).
        case filter (\<lambda>v. v \<noteq> ANull) (columnValues w i) of
          [] \<Rightarrow> co_type (wt_columns w ! i) = ''datetime'' \<or> co_type (wt_columns w ! i) = ''string''
        | v # _ \<Rightarrow> fits v (co_type (wt_columns w ! i)))"

lemma inferType_fits:
  "case filter (\<lambda>v. v \<noteq> ANull) (map (\<lambda>r. cell r c) rows) of
     [] \<Rightarrow> inferType c rows = ''datetime'' \<or> inferType c rows = ''string''
   | v # _ \<Rightarrow> fits v (inferType c rows)"
proof (induction rows)
  case (Cons r rows)
  then show ?case by (cases "cell r c") (auto split: list.splits)
qed simp

lemma materialize_typed: "well_typed (materialize t)"
proof -
  define cols where "cols = (if rt_columns t = [] then inferColumns (rt_rows t) else rt_columns t)"
  let ?w = "materialize t"
  have w: "wt_columns ?w = map (\<lambda>c. \<lparr>co_name = c, co_type = inferType c (rt_rows t)\<rparr>) cols"
      "wt_rows ?w = map (\<lambda>r. map (cell r) cols) (rt_rows t)"
    by (simp_all add: materialize_def cols_def Let_def)
  have "case filter (\<lambda>v. v \<noteq> ANull) (columnValues ?w i) of
      [] \<Rightarrow> co_type (wt_columns ?w ! i) = ''datetime'' \<or> co_type (wt_columns ?w ! i) = ''string''
    | v # _ \<Rightarrow> fits v (co_type (wt_columns ?w ! i))" if "i < length cols" for i
  proof -
    have "columnValues ?w i = map (\<lambda>r. cell r (cols ! i)) (rt_rows t)"
        "co_type (wt_columns ?w ! i) = inferType (cols ! i) (rt_rows t)"
      using that by (simp_all add: columnValues_def w)
    then show ?thesis using inferType_fits [of "cols ! i" "rt_rows t"] by (simp only:)
  qed
  then show ?thesis by (simp add: well_typed_def w)
qed

section \<open>Ingestion\<close>

lemma ingest_step:
  "tableRows n (s\<lparr>ms_tables := AList.update name (tableRows name s @ [r]) (ms_tables s)\<rparr>) =
     (if n = name then tableRows n s @ [r] else tableRows n s)"
  by (simp add: tableRows_def update_conv')

lemma ingest_rows:
  "tableRows n (ingest now stream recs s) =
     tableRows n s @ (if n = tableName stream then map (stampRecord (rfc3339Nano now)) recs else [])"
proof -
  have "tableRows n (fold (\<lambda>rec s. s\<lparr>ms_tables := AList.update name (tableRows name s @ [f rec]) (ms_tables s)\<rparr>) recs s) =
      tableRows n s @ (if n = name then map f recs else [])" for name and f :: "row option \<Rightarrow> row"
    by (induction recs arbitrary: s) (simp_all add: ingest_step)
  then show ?thesis by (simp add: ingest_def Let_def)
qed

lemma stored_tableRows: "storedRows s n = Some rs \<Longrightarrow> tableRows n s = rs"
  by (simp add: storedRows_def tableRows_def)

lemma ingest_exists:
  assumes "recs \<noteq> [] \<or> storedRows s (tableName stream) \<noteq> None"
  shows "storedRows (ingest now stream recs s) (tableName stream) =
    Some (tableRows (tableName stream) s @ map (stampRecord (rfc3339Nano now)) recs)"
proof -
  have "storedRows (fold (\<lambda>rec s. s\<lparr>ms_tables := AList.update name (tableRows name s @ [f rec]) (ms_tables s)\<rparr>) recs s) name \<noteq> None"
    if "recs \<noteq> [] \<or> storedRows s name \<noteq> None" for name and f :: "row option \<Rightarrow> row"
    using that by (induction recs arbitrary: s) (auto simp: storedRows_def update_conv')
  then have "storedRows (ingest now stream recs s) (tableName stream) \<noteq> None"
    using assms by (simp add: ingest_def Let_def)
  then show ?thesis using stored_tableRows ingest_rows [of "tableName stream" now stream recs s] by fastforce
qed

definition stamped :: "monitor_store \<Rightarrow> bool" where
  "stamped s \<longleftrightarrow> (\<forall>n. \<forall>r \<in> set (tableRows n s). map_of r columnTimeGenerated \<noteq> None)"

lemma stampRecord_time: "map_of (stampRecord now rec) columnTimeGenerated \<noteq> None"
  by (auto simp: stampRecord_def Let_def update_conv')

lemma ingest_stamped: "stamped s \<Longrightarrow> stamped (ingest now stream recs s)"
  using stampRecord_time by (auto simp: stamped_def ingest_rows)

lemma handleIngest_store:
  "snd (handleIngest env r stream s) = s \<or> (\<exists>recs. snd (handleIngest env r stream s) = ingest (me_now env) stream recs s)"
  by (auto simp: handleIngest_def split: sum.splits read_error.splits option.splits)

lemma serveMonitor_store:
  "snd (serveMonitor env r s) = s \<or> (\<exists>stream recs. snd (serveMonitor env r s) = ingest (me_now env) stream recs s)"
  using handleIngest_store [of env r _ s] by (auto simp: serveMonitor_def Let_def)

lemma serve_stamped: "stamped s \<Longrightarrow> stamped (snd (serveMonitor env r s))"
  using serveMonitor_store [of env r s] ingest_stamped by auto

text \<open>In every store that requests lead to from an empty one, every row has the column \<open>TimeGenerated\<close>.\<close>

lemma rows_stamped: "stamped (fold (\<lambda>(env, r) s. snd (serveMonitor env r s)) requests newMonitorStore)"
proof -
  have "stamped (fold (\<lambda>(env, r) s. snd (serveMonitor env r s)) requests s)" if "stamped s" for s
    using that by (induction requests arbitrary: s) (auto simp: serve_stamped)
  moreover have "stamped newMonitorStore" by (simp add: stamped_def tableRows_def newMonitorStore_def)
  ultimately show ?thesis .
qed

section \<open>Requests\<close>

definition ingestPath :: "string \<Rightarrow> string \<Rightarrow> string" where
  "ingestPath rule stream = ''/dataCollectionRules/'' @ rule @ ''/streams/'' @ stream"

definition queryPath :: "string \<Rightarrow> string" where
  "queryPath workspace = ''/v1/workspaces/'' @ workspace @ ''/query''"

lemma ingest_route:
  assumes "rq_path r = ingestPath rule stream" and "CHR ''/'' \<notin> set rule" and "CHR ''/'' \<notin> set stream"
  shows "serveMonitor env r s = handleIngest env r stream s"
proof -
  have "splitOn (CHR ''/'') (trimPrefix (rq_path r) ''/'') = [''dataCollectionRules'', rule, ''streams'', stream]"
    using assms splitOn_append [of "CHR ''/''" rule "''streams/'' @ stream"] splitOn_none [OF assms(3)]
    by (simp add: ingestPath_def trimPrefix_def hasPrefix_def)
  then show ?thesis by (simp add: serveMonitor_def)
qed

lemma query_route:
  assumes "rq_path r = queryPath workspace" and "CHR ''/'' \<notin> set workspace"
  shows "serveMonitor env r s = (handleQuery env r s, s)"
proof -
  have "splitOn (CHR ''/'') (trimPrefix (rq_path r) ''/'') = [''v1'', ''workspaces'', workspace, ''query'']"
    using assms splitOn_append [of "CHR ''/''" workspace "''query''"]
    by (simp add: queryPath_def trimPrefix_def hasPrefix_def)
  then show ?thesis by (simp add: serveMonitor_def)
qed

text \<open>A request that uploads records, and one that asks a query.\<close>

definition uploads :: "monitor_env \<Rightarrow> monitor_request \<Rightarrow> row option list \<Rightarrow> bool" where
  "uploads env r recs \<longleftrightarrow> rq_method r = ''POST'' \<and>
     (case readBody env r of Inl e \<Rightarrow> False | Inr body \<Rightarrow> Option.bind (me_json env body) decodeRecords = Some recs)"

definition asks :: "monitor_env \<Rightarrow> monitor_request \<Rightarrow> string \<Rightarrow> bool" where
  "asks env r q \<longleftrightarrow> rq_method r = ''POST'' \<and> snd (readable r) = None \<and>
     Option.bind (me_json env (fst (readable r))) decodeQuery = Some q"

lemma queryText_not_Nil: "ident name \<Longrightarrow> queryText name ops \<noteq> []"
  by (cases ops) (auto simp: queryText_def ident_def)

lemma query_answer:
  assumes "asks env r (queryText name ops)" and "ident name" and "\<forall>ok \<in> set ops. operator_ok ok"
    and "storedRows s name = Some rows"
  shows "handleQuery env r s =
    \<lparr>rs_status = 200, rs_headers = jsonHeaders,
     rs_body = Some (TablesJSON [materialize (fold denote ops \<lparr>rt_columns = [], rt_rows = rows\<rparr>)])\<rparr>"
  using assms queryText_not_Nil [OF assms(2)] query_meaning [OF assms(2, 3), of "storedRows s"]
  by (auto simp: handleQuery_def asks_def split: prod.splits)

lemma upload_answer:
  assumes "uploads env r recs"
  shows "handleIngest env r stream s =
    (\<lparr>rs_status = 204, rs_headers = [], rs_body = None\<rparr>, ingest (me_now env) stream recs s)"
  using assms by (auto simp: handleIngest_def uploads_def split: sum.splits)

section \<open>Times\<close>

text \<open>A string with a point after the digits is smaller than one with the letter that ends a time.\<close>

lemma point_before_zone: "p @ CHR ''.'' # s < p @ CHR ''Z'' # (t :: string)"
  by (induction p) (simp_all add: less_char_def)

lemma rfc3339Nano_split:
  "rfc3339Nano t =
     (case civil (t div second div 86400) of (y, m, d) \<Rightarrow>
        padded 4 (nat y) @ ''-'' @ digits 2 m @ ''-'' @ digits 2 d @ ''T'' @
        digits 2 (nat (t div second mod 86400) div 3600) @ '':'' @ digits 2 (nat (t div second mod 86400) div 60 mod 60) @ '':'' @
        digits 2 (nat (t div second mod 86400) mod 60)) @
     (let f = rev (dropWhile (\<lambda>c. c = CHR ''0'') (rev (digits 9 (nat (t mod second))))) in if f = [] then [] else ''.'' @ f) @ ''Z''"
  by (cases "civil (t div second div 86400)") (simp only: rfc3339Nano_def Let_def prod.case append_assoc)

lemma zero_char: "digitChar 0 = CHR ''0''"
  by code_simp

lemma all_zero: "\<forall>c \<in> set (digits w n). c = CHR ''0'' \<Longrightarrow> n < 10 ^ w \<Longrightarrow> n = 0"
proof (induction w arbitrary: n)
  case (Suc w)
  have "digitChar (n mod 10) = digitChar 0" using Suc.prems(1) zero_char by simp
  then have "n mod 10 = 0" by (subst (asm) digitChar_inject) simp_all
  moreover have "n div 10 = 0" using Suc by (intro Suc.IH) (auto simp: less_mult_imp_div_less)
  ultimately show ?case by presburger
qed simp

lemma fraction_order:
  assumes "t mod second = 0" and "0 < d" and "d < second"
  shows "rfc3339Nano (t + d) < rfc3339Nano t"
proof -
  have parts: "(t + d) div second = t div second" "(t + d) mod second = d"
    using assms by (auto simp: second_def div_add1_eq mod_add_eq [symmetric])
  have "\<exists>c \<in> set (digits 9 (nat d)). c \<noteq> CHR ''0''"
  proof (rule ccontr)
    assume "\<not> ?thesis"
    moreover have "nat d < 10 ^ 9" using assms(2, 3) by (simp add: second_def)
    ultimately have "nat d = 0" by (intro all_zero [of 9]) auto
    then show False using assms(2) by simp
  qed
  then have "dropWhile (\<lambda>c. c = CHR ''0'') (rev (digits 9 (nat d))) \<noteq> []"
    unfolding dropWhile_eq_Nil_conv set_rev by blast
  moreover have "dropWhile (\<lambda>c. c = CHR ''0'') (rev (digits 9 0)) = []"
    by code_simp
  ultimately show ?thesis
    unfolding rfc3339Nano_split parts assms(1) using point_before_zone by (simp add: Let_def)
qed

section \<open>Properties\<close>




text \<open>Times lose their order when they are written: a record stamped within the second that
  starts at a whole second \<open>t\<close> gets a smaller text than one stamped at \<open>t\<close>, so that sorting and comparing
  \<open>TimeGenerated\<close> put the later record first.\<close>

lemma time_order_lost:
  assumes "t mod second = 0" and "0 < d" and "d < second"
  shows "sortLess columnTimeGenerated False (stampRecord (rfc3339Nano (t + d)) None) (stampRecord (rfc3339Nano t) None) \<and>
    stringResult (rfc3339Nano t) ''>'' (rfc3339Nano (t + d))"
  using fraction_order [OF assms]
  by (simp add: sortLess_def stampRecord_def cell_def stringResult_def columnTimeGenerated_def)

lemma time_order_lost_witness:
  "stringResult (rfc3339Nano 0) ''>'' (rfc3339Nano 500000000)"
  using time_order_lost [of 0 500000000] by (simp add: second_def)

end
