(* ===== verification/Arm_Store.thy ===== *)
theory Arm_Store
  imports Go_Any
begin

text \<open>
  The state of the Resource Manager (\<open>internal/stores/armstore\<close>): its configuration, the resource groups,
  and the resources of any provider under their identifiers without case. What the operations promise is the
  contract \<open>keyed_store\<close> for each of the two maps, and a bound on the number of resources.
\<close>

section \<open>State\<close>

record arm_config =
  ac_cloudName :: string
  ac_subscriptionID :: string
  ac_subscriptionName :: string
  ac_tenantID :: string
  ac_location :: string
  ac_loginEndpoint :: string
  ac_resourceManager :: string
  ac_logAnalyticsEndpoint :: string
  ac_storageSuffix :: string

record resourceGroup =
  rg_id :: string
  rg_name :: string
  rg_type :: string
  rg_location :: string
  rg_tags :: "(string, string) go_map"
  rg_provisioningState :: string

type_synonym resource = "(string, anyval) go_map"

record arm_store =
  as_cfg :: arm_config
  as_groups :: "(string, resourceGroup) go_map"
  as_resources :: "(string, resource) go_map"

definition orDefault :: "string \<Rightarrow> string \<Rightarrow> string" where
  "orDefault v d = (if v = [] then d else v)"

definition newArmStore :: "arm_config \<Rightarrow> arm_store" where
  "newArmStore cfg =
     \<lparr>as_cfg = cfg\<lparr>ac_cloudName := orDefault (ac_cloudName cfg) ''localaz'',
        ac_subscriptionID := orDefault (ac_subscriptionID cfg) ''00000000-0000-0000-0000-000000000000'',
        ac_subscriptionName := orDefault (ac_subscriptionName cfg) ''localaz'',
        ac_tenantID := orDefault (ac_tenantID cfg) ''adfs'',
        ac_location := orDefault (ac_location cfg) ''localaz''\<rparr>,
      as_groups = [], as_resources = []\<rparr>"

section \<open>Resource groups\<close>

definition makeGroup :: "arm_config \<Rightarrow> string \<Rightarrow> string \<Rightarrow> (string, string) go_map \<Rightarrow> resourceGroup" where
  "makeGroup cfg name location tags =
     \<lparr>rg_id = ''/subscriptions/'' @ ac_subscriptionID cfg @ ''/resourceGroups/'' @ name, rg_name = name,
      rg_type = ''Microsoft.Resources/resourceGroups'', rg_location = orDefault location (ac_location cfg),
      rg_tags = tags, rg_provisioningState = ''Succeeded''\<rparr>"

definition putResourceGroup :: "string \<Rightarrow> string \<Rightarrow> (string, string) go_map \<Rightarrow> arm_store \<Rightarrow> resourceGroup \<times> arm_store" where
  "putResourceGroup name location tags s =
     (let rg = makeGroup (as_cfg s) name location tags in (rg, s\<lparr>as_groups := AList.update name rg (as_groups s)\<rparr>))"

definition getResourceGroup :: "string \<Rightarrow> arm_store \<Rightarrow> resourceGroup option" where
  "getResourceGroup name s = map_of (as_groups s) name"

definition listResourceGroups :: "arm_store \<Rightarrow> resourceGroup list" where
  "listResourceGroups s = map snd (sort_key fst (as_groups s))"

definition deleteResourceGroup :: "string \<Rightarrow> arm_store \<Rightarrow> bool \<times> arm_store" where
  "deleteResourceGroup name s =
     (if map_of (as_groups s) name = None then (False, s)
      else (True, s\<lparr>as_groups := AList.delete name (as_groups s)\<rparr>))"

section \<open>Resources\<close>

definition maxResources :: nat where "maxResources = 10000"

definition putResource :: "string \<Rightarrow> resource \<Rightarrow> arm_store \<Rightarrow> bool \<times> arm_store" where
  "putResource rid body s =
     (let key = toLower rid in
      if map_of (as_resources s) key = None \<and> maxResources \<le> length (as_resources s) then (False, s)
      else (True, s\<lparr>as_resources := AList.update key body (as_resources s)\<rparr>))"

definition getResource :: "string \<Rightarrow> arm_store \<Rightarrow> resource option" where
  "getResource rid s = map_of (as_resources s) (toLower rid)"

text \<open>A type that is not a string reads as empty.\<close>

definition typeOf :: "resource \<Rightarrow> string" where
  "typeOf r = (case map_of r ''type'' of Some (AString t) \<Rightarrow> t | _ \<Rightarrow> [])"

definition listResources :: "string \<Rightarrow> string \<Rightarrow> arm_store \<Rightarrow> resource list" where
  "listResources idPrefix resourceType s =
     map snd (sort_key fst (filter (\<lambda>(key, r). hasPrefix key (toLower idPrefix) \<and> toLower (typeOf r) = toLower resourceType)
       (as_resources s)))"

definition deleteResource :: "string \<Rightarrow> arm_store \<Rightarrow> bool \<times> arm_store" where
  "deleteResource rid s =
     (let key = toLower rid in
      if map_of (as_resources s) key = None then (False, s)
      else (True, s\<lparr>as_resources := AList.delete key (as_resources s)\<rparr>))"

section \<open>Invariant\<close>

definition arm_inv :: "arm_store \<Rightarrow> bool" where
  "arm_inv s \<longleftrightarrow> distinct_keys (as_groups s) \<and> distinct_keys (as_resources s) \<and> length (as_resources s) \<le> maxResources"

lemma arm_inv_new: "arm_inv (newArmStore cfg)"
  by (simp add: arm_inv_def newArmStore_def distinct_keys_def)

lemma length_update: "length (AList.update k v m) = (if map_of m k = None then Suc (length m) else length m)"
  by (induction m) auto

lemma length_delete: "length (AList.delete k m) \<le> length m"
  by (simp add: AList.delete_eq)

lemma arm_inv_keep:
  assumes "arm_inv s"
  shows "arm_inv (snd (putResourceGroup n l tags s))" "arm_inv (snd (deleteResourceGroup n s))"
    "arm_inv (snd (putResource i b s))" "arm_inv (snd (deleteResource i s))"
  using assms length_delete [of "toLower i" "as_resources s"]
  by (auto simp: arm_inv_def putResourceGroup_def deleteResourceGroup_def putResource_def deleteResource_def Let_def
    distinct_keys_def length_update distinct_update distinct_delete)

section \<open>The contracts of the two maps\<close>

text \<open>Looking up a resource after an operation, for identifiers that differ in case only.\<close>

definition room :: "string \<Rightarrow> arm_store \<Rightarrow> bool" where
  "room rid s \<longleftrightarrow> getResource rid s \<noteq> None \<or> length (as_resources s) < maxResources"

lemma putResource_get:
  "fst (putResource rid b s) = room rid s"
  "getResource rid' (snd (putResource rid b s)) = (if room rid s \<and> toLower rid' = toLower rid then Some b else getResource rid' s)"
  by (auto simp: putResource_def getResource_def room_def Let_def update_conv')

lemma deleteResource_get:
  "fst (deleteResource rid s) = (getResource rid s \<noteq> None)"
  "getResource rid' (snd (deleteResource rid s)) = (if toLower rid' = toLower rid then None else getResource rid' s)"
  by (auto simp: deleteResource_def getResource_def Let_def delete_conv')

lemma groups_get:
  "getResourceGroup n' (snd (putResourceGroup n l t s)) =
     (if n' = n then Some (fst (putResourceGroup n l t s)) else getResourceGroup n' s)"
  "getResourceGroup n' (snd (deleteResourceGroup n s)) = (if n' = n then None else getResourceGroup n' s)"
  by (auto simp: putResourceGroup_def deleteResourceGroup_def getResourceGroup_def Let_def update_conv' delete_conv')

lemma groups_resources:
  "getResource i (snd (putResourceGroup n l t s)) = getResource i s"
  "getResource i (snd (deleteResourceGroup n s)) = getResource i s"
  "getResourceGroup n (snd (putResource i b s)) = getResourceGroup n s"
  "getResourceGroup n (snd (deleteResource i s)) = getResourceGroup n s"
  by (simp_all add: putResourceGroup_def deleteResourceGroup_def getResource_def getResourceGroup_def putResource_def
    deleteResource_def Let_def)

text \<open>The resource groups, with the location and the tags a client puts, are a keyed store.\<close>

definition groupFields :: "arm_store \<Rightarrow> string \<Rightarrow> (string \<times> (string, string) go_map) option" where
  "groupFields s n = map_option (\<lambda>g. (rg_location g, rg_tags g)) (getResourceGroup n s)"

lemma groupFields_put:
  "groupFields (snd (putResourceGroup n l t s)) = (groupFields s)(n \<mapsto> (orDefault l (ac_location (as_cfg s)), t))"
proof
  fix n'
  have "fst (putResourceGroup n l t s) = makeGroup (as_cfg s) n l t" by (simp add: putResourceGroup_def Let_def)
  then show "groupFields (snd (putResourceGroup n l t s)) n' = ((groupFields s)(n \<mapsto> (orDefault l (ac_location (as_cfg s)), t))) n'"
    by (simp add: groupFields_def groups_get makeGroup_def)
qed

lemma groupFields_drop: "groupFields (snd (deleteResourceGroup n s)) = (groupFields s)(n := None)"
  by (auto simp: groupFields_def groups_get)

interpretation arm_groups: keyed_store groupFields "\<lambda>n (l, t) s. snd (putResourceGroup n l t s)"
    "\<lambda>n s. snd (deleteResourceGroup n s)" arm_inv "\<lambda>n (l, t). l \<noteq> []"
  by unfold_locales (auto simp: groupFields_put groupFields_drop arm_inv_keep orDefault_def)

end
