(* ===== verification/Arm_Server.thy ===== *)
theory Arm_Server
  imports Arm_Store Http
begin

text \<open>
  The HTTP surface of the Resource Manager, \<open>internal/servers/armserver\<close>: the metadata, tenant and
  subscription documents, resource groups, and the resources of any provider. A panic ends the request
  without a response. The body of a request is the first JSON value in it; the limit of one mebibyte on the
  bodies of resources is the case \<open>BodyTooLarge\<close>, which the bodies of resource groups do not have.
\<close>

section \<open>Responses\<close>

datatype arm_panic = SliceBounds | NilMap

datatype arm_body = Doc json | GroupDoc resourceGroup | GroupList "resourceGroup list" | ResourceDoc resource
  | ResourceList "resource list"

type_synonym arm_reply = "(arm_panic + arm_body response) \<times> arm_store"

definition answer :: "int \<Rightarrow> arm_body \<Rightarrow> arm_store \<Rightarrow> arm_reply" where
  "answer status body s =
     (Inr \<lparr>rs_status = status, rs_headers = setHeader ''Content-Type'' ''application/json'' [], rs_body = Some body\<rparr>, s)"

definition bare :: "int \<Rightarrow> arm_store \<Rightarrow> arm_reply" where
  "bare status s = (Inr \<lparr>rs_status = status, rs_headers = [], rs_body = None\<rparr>, s)"

definition armError :: "int \<Rightarrow> string \<Rightarrow> string \<Rightarrow> arm_store \<Rightarrow> arm_reply" where
  "armError status code message s = answer status (Doc (errorEnvelope code message)) s"

definition unsupportedMethod :: "arm_store \<Rightarrow> arm_reply" where
  "unsupportedMethod s = armError 405 ''MethodNotAllowed'' ''unsupported method'' s"

definition listEnvelope :: "json list \<Rightarrow> json" where
  "listEnvelope items = JObject [(''value'', JArray items)]"

section \<open>Metadata, tenants, subscriptions\<close>

definition cloudMetadata :: "arm_config \<Rightarrow> json" where
  "cloudMetadata cfg = JObject
     [(''portal'', JString (ac_resourceManager cfg)),
      (''authentication'', JObject [(''loginEndpoint'', JString (ac_loginEndpoint cfg)),
         (''audiences'', JArray [JString (ac_resourceManager cfg)])]),
      (''name'', JString (ac_cloudName cfg)),
      (''suffixes'', JObject [(''storageEndpoint'', JString (ac_storageSuffix cfg))]),
      (''resourceManager'', JString (ac_resourceManager cfg)),
      (''logAnalyticslogAnalyticsResourceId'', JString (ac_logAnalyticsEndpoint cfg))]"

definition handleMetadata :: "arm_store \<Rightarrow> arm_reply" where
  "handleMetadata s = answer 200 (Doc (JArray [cloudMetadata (as_cfg s)])) s"

definition armSubscription :: "arm_config \<Rightarrow> json" where
  "armSubscription cfg = JObject
     [(''id'', JString (''/subscriptions/'' @ ac_subscriptionID cfg)),
      (''subscriptionId'', JString (ac_subscriptionID cfg)), (''displayName'', JString (ac_subscriptionName cfg)),
      (''state'', JString ''Enabled''), (''tenantId'', JString (ac_tenantID cfg)),
      (''authorizationSource'', JString ''RoleBased'')]"

definition handleSubscriptions :: "arm_store \<Rightarrow> arm_reply" where
  "handleSubscriptions s = answer 200 (Doc (listEnvelope [armSubscription (as_cfg s)])) s"

definition handleSubscription :: "arm_store \<Rightarrow> arm_reply" where
  "handleSubscription s = answer 200 (Doc (armSubscription (as_cfg s))) s"

definition armTenant :: "arm_config \<Rightarrow> json" where
  "armTenant cfg = JObject [(''id'', JString (''/tenants/'' @ ac_tenantID cfg)), (''tenantId'', JString (ac_tenantID cfg))]"

definition handleTenants :: "arm_store \<Rightarrow> arm_reply" where
  "handleTenants s = answer 200 (Doc (listEnvelope [armTenant (as_cfg s)])) s"

section \<open>Resource groups\<close>

text \<open>The error of decoding is ignored; an entry of the tags of the wrong type is empty.\<close>

definition tagsFrom :: "json \<Rightarrow> (string, string) go_map \<Rightarrow> (string, string) go_map" where
  "tagsFrom j tags =
     (case j of
        JObject kvs \<Rightarrow> fold (\<lambda>(k, v) m. AList.update k (stringOr v []) m) kvs tags
      | JNull \<Rightarrow> []
      | _ \<Rightarrow> tags)"

definition groupRequest :: "json body \<Rightarrow> string \<times> (string, string) go_map" where
  "groupRequest b =
     (case b of
        Body j \<Rightarrow> (fold stringOr (membersNamed ''location'' j) [], fold tagsFrom (membersNamed ''tags'' j) [])
      | _ \<Rightarrow> ([], []))"

definition handleResourceGroups :: "json request \<Rightarrow> string list \<Rightarrow> arm_store \<Rightarrow> arm_reply" where
  "handleResourceGroups r segments s =
     (if length segments = 3 then
        if rq_method r \<noteq> ''GET'' then unsupportedMethod s
        else answer 200 (GroupList (listResourceGroups s)) s
      else let name = segments ! 3 in
        if rq_method r = ''PUT'' then
          (case groupRequest (rq_body r) of (location, tags) \<Rightarrow>
             (case putResourceGroup name location tags s of (rg, s') \<Rightarrow> answer 201 (GroupDoc rg) s'))
        else if rq_method r = ''GET'' then
          (case getResourceGroup name s of
             None \<Rightarrow> armError 404 ''ResourceGroupNotFound''
               (''Resource group '' @ [CHR 39] @ name @ [CHR 39] @ '' could not be found.'') s
           | Some rg \<Rightarrow> answer 200 (GroupDoc rg) s)
        else if rq_method r = ''DELETE'' then
          (case deleteResourceGroup name s of (ok, s') \<Rightarrow> bare (if ok then 200 else 204) s')
        else unsupportedMethod s)"

section \<open>Resources of providers\<close>

fun everyOther :: "'a list \<Rightarrow> 'a list" where
  "everyOther (x # _ # xs) = x # everyOther xs"
| "everyOther xs = xs"

definition providerType :: "string \<Rightarrow> string list \<Rightarrow> string" where
  "providerType provider rest = joinWith ''/'' (provider # everyOther rest)"

definition pathOf :: "string list \<Rightarrow> string" where
  "pathOf segments = ''/'' @ joinWith ''/'' segments"

definition containsFold :: "string list \<Rightarrow> string \<Rightarrow> bool" where
  "containsFold segments target \<longleftrightarrow> (\<exists>seg \<in> set segments. equalFold seg target)"

definition serviceBusEndpoint :: "arm_store \<Rightarrow> string \<Rightarrow> string" where
  "serviceBusEndpoint s ns = ''sb://'' @ ns @ ''.'' @ ac_storageSuffix (as_cfg s) @ ''/''"

definition provisioned :: "arm_store \<Rightarrow> string \<Rightarrow> string \<Rightarrow> string \<Rightarrow> resource \<Rightarrow> resource" where
  "provisioned s rid resourceType name body =
     (let body = AList.update ''type'' (AString resourceType)
                   (AList.update ''name'' (AString name) (AList.update ''id'' (AString rid) body));
          props = (case map_of body ''properties'' of Some (AObject m) \<Rightarrow> m | _ \<Rightarrow> []);
          props = AList.update ''provisioningState'' (AString ''Succeeded'') props;
          props = (if equalFold resourceType ''Microsoft.ServiceBus/namespaces''
                   then AList.update ''status'' (AString ''Active'')
                          (AList.update ''serviceBusEndpoint'' (AString (serviceBusEndpoint s name)) props)
                   else props)
      in AList.update ''properties'' (AObject props) body)"

text \<open>What the body of a resource decodes into, from an empty map: \<open>null\<close> makes it nil.\<close>

datatype resource_body = BadBody | NilBody | Members resource

definition resourceBody :: "json body \<Rightarrow> resource_body" where
  "resourceBody b =
     (case b of
        BodyEmpty \<Rightarrow> Members []
      | Body JNull \<Rightarrow> NilBody
      | Body (JObject kvs) \<Rightarrow> (case anyMembers kvs [] of None \<Rightarrow> BadBody | Some m \<Rightarrow> Members m)
      | _ \<Rightarrow> BadBody)"

definition handleProviderItem :: "json request \<Rightarrow> string list \<Rightarrow> string \<Rightarrow> string \<Rightarrow> arm_store \<Rightarrow> arm_reply" where
  "handleProviderItem r segments resourceType name s =
     (let rid = pathOf segments in
      if rq_method r = ''PUT'' then
        (case resourceBody (rq_body r) of
           BadBody \<Rightarrow> armError 400 ''InvalidRequestBody'' ''request body could not be read or exceeds the size limit'' s
         | NilBody \<Rightarrow> (Inl NilMap, s)
         | Members m \<Rightarrow>
             let body = provisioned s rid resourceType name m in
             (case putResource rid body s of
                (False, s') \<Rightarrow> armError 409 ''ResourceLimitExceeded'' ''the resource store is full'' s'
              | (True, s') \<Rightarrow> answer 200 (ResourceDoc body) s'))
      else if rq_method r = ''GET'' then
        (case getResource rid s of
           None \<Rightarrow> armError 404 ''ResourceNotFound'' (''The resource '' @ [CHR 39] @ name @ [CHR 39] @ '' could not be found.'') s
         | Some res \<Rightarrow> answer 200 (ResourceDoc res) s)
      else if rq_method r = ''DELETE'' then
        (case deleteResource rid s of (ok, s') \<Rightarrow> bare (if ok then 200 else 204) s')
      else unsupportedMethod s)"

definition collectionPrefix :: "string list \<Rightarrow> string" where
  "collectionPrefix segments =
     (if \<not> containsFold segments ''resourcegroups'' \<and> 2 \<le> length segments
      then ''/'' @ segments ! 0 @ ''/'' @ segments ! 1
      else pathOf segments @ ''/'')"

definition handleProviderCollection :: "json request \<Rightarrow> string list \<Rightarrow> string \<Rightarrow> arm_store \<Rightarrow> arm_reply" where
  "handleProviderCollection r segments resourceType s =
     (if rq_method r \<noteq> ''GET'' then unsupportedMethod s
      else answer 200 (ResourceList (listResources (collectionPrefix segments) resourceType s)) s)"

definition writeListKeys :: "string list \<Rightarrow> arm_store \<Rightarrow> arm_reply" where
  "writeListKeys rest s =
     (let ns = (if 2 \<le> length rest \<and> equalFold (rest ! 0) ''namespaces'' then rest ! 1 else []);
          accessKey = ''localaz-shared-access-key'';
          conn = ''Endpoint='' @ serviceBusEndpoint s ns @ '';SharedAccessKeyName=RootManageSharedAccessKey;SharedAccessKey='' @ accessKey
      in answer 200 (Doc (JObject
        [(''keyName'', JString ''RootManageSharedAccessKey''), (''primaryKey'', JString accessKey),
         (''secondaryKey'', JString accessKey), (''primaryConnectionString'', JString conn),
         (''secondaryConnectionString'', JString conn)])) s)"

fun providerIndex :: "string list \<Rightarrow> nat option" where
  "providerIndex [] = None"
| "providerIndex (seg # segments) =
     (if equalFold seg ''providers'' then Some 0 else map_option Suc (providerIndex segments))"

text \<open>The rest of the path after the provider: slicing beyond the end of the path panics.\<close>

definition handleProvider :: "json request \<Rightarrow> string list \<Rightarrow> nat \<Rightarrow> arm_store \<Rightarrow> arm_reply" where
  "handleProvider r segments pix s =
     (let provider = (if pix + 1 < length segments then segments ! (pix + 1) else []) in
      if length segments < pix + 2 then (Inl SliceBounds, s)
      else let rest = drop (pix + 2) segments in
        if rq_method r = ''POST'' \<and> rest \<noteq> [] \<and> toLower (last rest) = ''checknameavailability''
          then answer 200 (Doc (JObject [(''nameAvailable'', JBool True), (''reason'', JString ''None'')])) s
        else if rq_method r = ''POST'' \<and> rest \<noteq> [] \<and> toLower (last rest) = ''listkeys'' then writeListKeys rest s
        else if rest = [] then
          if rq_method r \<noteq> ''GET'' then unsupportedMethod s
          else answer 200 (Doc (JObject [(''id'', JString (pathOf segments)), (''namespace'', JString provider),
            (''registrationState'', JString ''Registered'')])) s
        else let resourceType = providerType provider rest in
          if odd (length rest) then handleProviderCollection r segments resourceType s
          else handleProviderItem r segments resourceType (last rest) s)"

section \<open>Routing\<close>

definition serveArm :: "json request \<Rightarrow> arm_store \<Rightarrow> arm_reply" where
  "serveArm r s =
     (let path = trimSlashes (rq_path r); segments = splitOn (CHR ''/'') path; lower = toLower path in
      if lower = ''metadata/endpoints'' then handleMetadata s
      else if lower = ''tenants'' then handleTenants s
      else if lower = ''subscriptions'' then handleSubscriptions s
      else case providerIndex segments of
             Some pix \<Rightarrow> handleProvider r segments pix s
           | None \<Rightarrow>
               if 3 \<le> length segments \<and> equalFold (segments ! 0) ''subscriptions'' \<and> equalFold (segments ! 2) ''resourcegroups''
                 then handleResourceGroups r segments s
               else if length segments = 2 \<and> equalFold (segments ! 0) ''subscriptions'' then handleSubscription s
               else armError 404 ''NotFound'' (''Unknown operation: '' @ rq_path r) s)"

end
