(* ===== verification/Arm_Spec.thy ===== *)
theory Arm_Spec
  imports Arm_Server
begin

text \<open>
  What the Resource Manager promises: a resource that was put is read back, whatever the case of its
  identifier, until a request puts or deletes it; the number of resources is bounded; and which requests panic.
\<close>

section \<open>Routes\<close>

abbreviation segmentsOf :: "json request \<Rightarrow> string list" where
  "segmentsOf r \<equiv> splitOn (CHR ''/'') (trimSlashes (rq_path r))"

definition fixed_route :: "json request \<Rightarrow> bool" where
  "fixed_route r \<longleftrightarrow> toLower (trimSlashes (rq_path r)) \<in> {''metadata/endpoints'', ''tenants'', ''subscriptions''}"

text \<open>A path that names a single resource of a provider: types and names alternate after the provider.\<close>

definition item_route :: "json request \<Rightarrow> bool" where
  "item_route r \<longleftrightarrow> \<not> fixed_route r \<and>
     (case providerIndex (segmentsOf r) of
        None \<Rightarrow> False
      | Some pix \<Rightarrow> pix + 2 < length (segmentsOf r) \<and> even (length (segmentsOf r) - (pix + 2)))"

text \<open>A path that ends in \<open>providers\<close>.\<close>

definition bare_providers :: "json request \<Rightarrow> bool" where
  "bare_providers r \<longleftrightarrow> \<not> fixed_route r \<and>
     (case providerIndex (segmentsOf r) of None \<Rightarrow> False | Some pix \<Rightarrow> length (segmentsOf r) < pix + 2)"

definition resourceID :: "json request \<Rightarrow> string" where
  "resourceID r = ''/'' @ trimSlashes (rq_path r)"

lemma pathOf_segments: "pathOf (segmentsOf r) = resourceID r"
  by (simp add: pathOf_def resourceID_def join_split)

lemma item_served:
  assumes "item_route r" and "rq_method r \<noteq> ''POST''"
  obtains ty name where "serveArm r s = handleProviderItem r (segmentsOf r) ty name s"
proof -
  obtain pix where pix: "providerIndex (segmentsOf r) = Some pix" "pix + 2 < length (segmentsOf r)"
      "even (length (segmentsOf r) - (pix + 2))"
    using assms(1) by (auto simp: item_route_def split: option.splits)
  have "serveArm r s = handleProvider r (segmentsOf r) pix s"
    using assms(1) pix(1) by (auto simp: serveArm_def item_route_def fixed_route_def Let_def)
  then show ?thesis using that pix(2, 3) assms(2) by (auto simp: handleProvider_def Let_def)
qed

section \<open>What requests change\<close>

definition touches :: "json request \<Rightarrow> string \<Rightarrow> bool" where
  "touches r i \<longleftrightarrow> rq_method r \<in> {''PUT'', ''DELETE''} \<and> toLower (resourceID r) = toLower i"

lemma answers_keep:
  "snd (answer st b s) = s" "snd (bare st s) = s" "snd (armError st c m s) = s" "snd (unsupportedMethod s) = s"
  by (simp_all add: answer_def bare_def armError_def unsupportedMethod_def)

lemma documents_keep:
  "snd (handleMetadata s) = s" "snd (handleTenants s) = s" "snd (handleSubscriptions s) = s" "snd (handleSubscription s) = s"
  "snd (writeListKeys rest s) = s" "snd (handleProviderCollection r segs ty s) = s"
  by (simp_all add: handleMetadata_def handleTenants_def handleSubscriptions_def handleSubscription_def writeListKeys_def
    handleProviderCollection_def answers_keep Let_def)

lemma groups_store:
  "snd (handleResourceGroups r segs s) = s \<or>
   (\<exists>n l t. snd (handleResourceGroups r segs s) = snd (putResourceGroup n l t s)) \<or>
   (\<exists>n. snd (handleResourceGroups r segs s) = snd (deleteResourceGroup n s))"
  by (simp add: handleResourceGroups_def Let_def answers_keep split: prod.split option.split) (metis snd_conv)

lemma item_store:
  "snd (handleProviderItem r segs ty n s) = s \<or>
   (rq_method r = ''PUT'' \<and> (\<exists>b. snd (handleProviderItem r segs ty n s) = snd (putResource (pathOf segs) b s))) \<or>
   (rq_method r = ''DELETE'' \<and> snd (handleProviderItem r segs ty n s) = snd (deleteResource (pathOf segs) s))"
  by (auto simp: handleProviderItem_def Let_def answers_keep split: prod.split option.split resource_body.split bool.split)
    (metis snd_conv)+

lemma provider_store:
  "snd (handleProvider r segs pix s) = s \<or> (\<exists>ty n. snd (handleProvider r segs pix s) = snd (handleProviderItem r segs ty n s))"
  by (auto simp: handleProvider_def Let_def answers_keep documents_keep)

lemma serve_store:
  "snd (serveArm r s) = s \<or>
   (\<exists>n l t. snd (serveArm r s) = snd (putResourceGroup n l t s)) \<or> (\<exists>n. snd (serveArm r s) = snd (deleteResourceGroup n s)) \<or>
   (rq_method r = ''PUT'' \<and> (\<exists>b. snd (serveArm r s) = snd (putResource (resourceID r) b s))) \<or>
   (rq_method r = ''DELETE'' \<and> snd (serveArm r s) = snd (deleteResource (resourceID r) s))"
proof (cases "fixed_route r")
  case True
  then show ?thesis by (auto simp: serveArm_def fixed_route_def Let_def documents_keep)
next
  case nf: False
  show ?thesis
  proof (cases "providerIndex (segmentsOf r)")
    case (Some pix)
    then have "serveArm r s = handleProvider r (segmentsOf r) pix s"
      using nf by (simp add: serveArm_def fixed_route_def Let_def)
    then show ?thesis
      using provider_store [of r "segmentsOf r" pix s] item_store [of r "segmentsOf r" _ _ s] unfolding pathOf_segments by metis
  next
    case None
    then have "serveArm r s = handleResourceGroups r (segmentsOf r) s \<or> snd (serveArm r s) = s"
      using nf by (auto simp: serveArm_def fixed_route_def Let_def documents_keep answers_keep)
    then show ?thesis using groups_store [of r "segmentsOf r" s] by metis
  qed
qed

lemma serve_untouched: "\<not> touches r i \<Longrightarrow> getResource i (snd (serveArm r s)) = getResource i s"
  using serve_store [of r s] by (auto simp: touches_def groups_resources putResource_get deleteResource_get)

lemma serve_inv: "arm_inv s \<Longrightarrow> arm_inv (snd (serveArm r s))"
  using serve_store [of r s] arm_inv_keep by metis

lemma serve_all_untouched:
  "\<forall>r \<in> set rs. \<not> touches r i \<Longrightarrow> getResource i (fold (\<lambda>r s. snd (serveArm r s)) rs s) = getResource i s"
  by (induction rs arbitrary: s) (simp_all add: serve_untouched)

lemma putResource_stored: "putResource i b s = (True, s') \<Longrightarrow> getResource i s' = Some b"
  using putResource_get(1) [of i b s] putResource_get(2) [where rid = i and rid' = i and b = b and s = s] by simp

lemma put_stores:
  assumes "item_route p" and "rq_method p = ''PUT''"
    and "fst (serveArm p s) = Inr \<lparr>rs_status = 200, rs_headers = h, rs_body = Some (ResourceDoc doc)\<rparr>"
  shows "getResource (resourceID p) (snd (serveArm p s)) = Some doc"
proof -
  obtain ty name where p: "serveArm p s = handleProviderItem p (segmentsOf p) ty name s"
    using item_served [OF assms(1)] assms(2) by auto
  show ?thesis
    using assms(2, 3) unfolding p handleProviderItem_def pathOf_segments Let_def
    by (auto simp: answer_def armError_def dest: putResource_stored split: resource_body.splits prod.splits bool.splits)
qed

section \<open>Properties\<close>

text \<open>C32: A resource that was put, and answered with a document, is answered with that document by every
  GET of its path, in any case, until a request puts or deletes it.\<close>

theorem resource_read_back:
  assumes "item_route p" and "rq_method p = ''PUT''"
    and "fst (serveArm p s) = Inr \<lparr>rs_status = 200, rs_headers = h, rs_body = Some (ResourceDoc doc)\<rparr>"
    and "\<forall>r \<in> set rs. \<not> touches r (resourceID p)"
    and "item_route g" and "rq_method g = ''GET''" and "toLower (resourceID g) = toLower (resourceID p)"
  shows "fst (serveArm g (fold (\<lambda>r s. snd (serveArm r s)) rs (snd (serveArm p s)))) =
    Inr \<lparr>rs_status = 200, rs_headers = h, rs_body = Some (ResourceDoc doc)\<rparr>"
proof -
  let ?s = "fold (\<lambda>r s. snd (serveArm r s)) rs (snd (serveArm p s))"
  obtain ty name where p: "serveArm p s = handleProviderItem p (segmentsOf p) ty name s"
    using item_served [OF assms(1)] assms(2) by auto
  then have h: "h = setHeader ''Content-Type'' ''application/json'' []"
    using assms(2, 3) by (auto simp: handleProviderItem_def Let_def answer_def armError_def
      split: resource_body.splits prod.splits bool.splits)
  obtain ty' name' where g: "serveArm g ?s = handleProviderItem g (segmentsOf g) ty' name' ?s"
    using item_served [OF assms(5)] assms(6) by auto
  have "getResource (resourceID p) ?s = Some doc"
    using serve_all_untouched [OF assms(4)] put_stores [OF assms(1-3)] by simp
  then have "getResource (resourceID g) ?s = Some doc" using assms(7) by (simp add: getResource_def)
  then show ?thesis unfolding g handleProviderItem_def pathOf_segments using assms(6) by (simp add: answer_def h)
qed

theorem resource_read_back_witness:
  "\<exists>(cfg :: arm_config) p g h doc.
     fst (serveArm g (snd (serveArm p (newArmStore cfg)))) =
       Inr \<lparr>rs_status = 200, rs_headers = h, rs_body = Some (ResourceDoc doc)\<rparr> \<and> rq_path p \<noteq> rq_path g"
proof -
  obtain cfg :: arm_config where True by blast
  define req :: "string \<Rightarrow> string \<Rightarrow> json request" where
    "req m path = \<lparr>rq_method = m, rq_path = path, rq_query = [], rq_headers = [], rq_host = [], rq_tls = False, rq_body = BodyEmpty\<rparr>"
    for m path
  let ?p = "req ''PUT'' ''/providers/A/b/c''" and ?g = "req ''GET'' ''/providers/A/b/C''"
  have segs: "segmentsOf ?p = [''providers'', ''A'', ''b'', ''c'']" "segmentsOf ?g = [''providers'', ''A'', ''b'', ''C'']"
    by (simp_all add: req_def trimSlashes_def)
  have lower: "toLower ''providers/A/b/c'' = ''providers/a/b/c''" "toLower ''providers/A/b/C'' = ''providers/a/b/c''"
      "toLower ''/providers/A/b/c'' = toLower ''/providers/A/b/C''"
    by (code_simp)+
  have same: "equalFold ''providers'' ''providers''" by (simp add: equalFold_def)
  have routes: "item_route ?p" "item_route ?g"
    unfolding item_route_def fixed_route_def segs by (simp_all add: req_def trimSlashes_def lower same)
  have ids: "resourceID ?p = ''/providers/A/b/c''" "resourceID ?g = ''/providers/A/b/C''"
    by (simp_all add: resourceID_def req_def trimSlashes_def)
  obtain ty name where "serveArm ?p (newArmStore cfg) = handleProviderItem ?p (segmentsOf ?p) ty name (newArmStore cfg)"
    using item_served [OF routes(1)] by (auto simp: req_def)
  then obtain h doc where put: "fst (serveArm ?p (newArmStore cfg)) =
      Inr \<lparr>rs_status = 200, rs_headers = h, rs_body = Some (ResourceDoc doc)\<rparr>"
    by (simp add: handleProviderItem_def req_def resourceBody_def putResource_def newArmStore_def maxResources_def answer_def Let_def)
  have "fst (serveArm ?g (fold (\<lambda>r s. snd (serveArm r s)) [] (snd (serveArm ?p (newArmStore cfg))))) =
      Inr \<lparr>rs_status = 200, rs_headers = h, rs_body = Some (ResourceDoc doc)\<rparr>"
    by (rule resource_read_back [OF routes(1) _ put _ routes(2)]) (simp_all add: ids lower(3), simp_all add: req_def)
  moreover have "rq_path ?p \<noteq> rq_path ?g" by (simp add: req_def)
  ultimately show ?thesis
    by - (rule exI [where x = cfg], rule exI [where x = ?p], rule exI [where x = ?g], rule exI [where x = h],
      rule exI [where x = doc], simp)
qed

text \<open>No sequence of requests makes the store hold more resources than its limit, nor two under
  identifiers that differ in case only.\<close>

lemma resources_bounded:
  "length (as_resources (fold (\<lambda>r s. snd (serveArm r s)) rs (newArmStore cfg))) \<le> 10000 \<and>
   distinct (map fst (as_resources (fold (\<lambda>r s. snd (serveArm r s)) rs (newArmStore cfg))))"
proof -
  have "arm_inv (fold (\<lambda>r s. snd (serveArm r s)) rs s)" if "arm_inv s" for s
    using that by (induction rs arbitrary: s) (simp_all add: serve_inv)
  then show ?thesis using arm_inv_new by (simp add: arm_inv_def maxResources_def distinct_keys_def)
qed

text \<open>C33: Exactly two requests panic: one whose path ends in its first segment \<open>providers\<close>, and a PUT of
  a resource with the body \<open>null\<close>.\<close>

theorem arm_panics_iff:
  "(\<exists>e. fst (serveArm r s) = Inl e) \<longleftrightarrow>
     bare_providers r \<or> (item_route r \<and> rq_method r = ''PUT'' \<and> rq_body r = Body JNull)"
proof (cases "fixed_route r \<or> providerIndex (segmentsOf r) = None")
  case True
  then show ?thesis
    by (auto simp: serveArm_def Let_def fixed_route_def bare_providers_def item_route_def handleMetadata_def handleTenants_def
      handleSubscriptions_def handleSubscription_def handleResourceGroups_def unsupportedMethod_def armError_def answer_def bare_def
      split: option.splits prod.splits)
next
  case False
  then obtain pix where pix: "\<not> fixed_route r" "providerIndex (segmentsOf r) = Some pix" by auto
  have nil: "resourceBody b = NilBody \<longleftrightarrow> b = Body JNull" for b
    by (auto simp: resourceBody_def split: body.splits json.splits option.splits)
  have item: "(\<exists>e. fst (handleProviderItem r segs ty n s) = Inl e) \<longleftrightarrow> rq_method r = ''PUT'' \<and> rq_body r = Body JNull" for segs ty n
    using nil [of "rq_body r"]
    by (auto simp: handleProviderItem_def Let_def unsupportedMethod_def armError_def answer_def bare_def
      split: option.splits prod.splits resource_body.splits bool.splits)
  have "serveArm r s = handleProvider r (segmentsOf r) pix s"
    using pix by (simp add: serveArm_def fixed_route_def Let_def)
  moreover have "(\<exists>e. fst (handleProvider r (segmentsOf r) pix s) = Inl e) \<longleftrightarrow>
      length (segmentsOf r) < pix + 2 \<or>
      (pix + 2 < length (segmentsOf r) \<and> even (length (segmentsOf r) - (pix + 2)) \<and> rq_method r = ''PUT'' \<and> rq_body r = Body JNull)"
    using item by (auto simp: handleProvider_def Let_def handleProviderCollection_def writeListKeys_def unsupportedMethod_def
      armError_def answer_def dest: item [THEN iffD1, OF exI])
  ultimately show ?thesis using pix by (simp add: bare_providers_def item_route_def)
qed

end
