(* ===== verification/Pubsub.thy ===== *)
theory Pubsub
  imports Http Go_Utf8
begin

text \<open>
  The Web PubSub service (\<open>internal/servers/wpsserver\<close>): hubs with their connections and groups (\<open>hub.go\<close>,
  \<open>manager.go\<close>), the outbound queue of a connection and the client protocol (\<open>conn.go\<close>, \<open>protocol.go\<close>), the
  REST interface (\<open>rest.go\<close>, \<open>server.go\<close>). A connection object is named by its number in the list of all
  objects made so far; a frame is the JSON document it carries. The hub methods hold the hub's lock, so
  each is one step; two fan-outs may hold it for reading together and are taken one after the other.
\<close>

section \<open>State\<close>

record ws_conn =
  wc_id :: string
  wc_user :: string
  wc_hub :: string
  wc_outbound :: "json list"
  wc_quit :: bool

text \<open>Connections by their identifiers, and the identifiers in each group.\<close>

record hub =
  hb_conns :: "(string, nat) go_map"
  hb_groups :: "(string, string list) go_map"

record pubsub =
  ps_hubs :: "(string, hub) go_map"
  ps_conns :: "ws_conn list"

definition newPubsub :: pubsub where
  "newPubsub = \<lparr>ps_hubs = [], ps_conns = []\<rparr>"

definition newHub :: hub where
  "newHub = \<lparr>hb_conns = [], hb_groups = []\<rparr>"

text \<open>The hub of a name, made when it is missing.\<close>

definition hubOf :: "string \<Rightarrow> pubsub \<Rightarrow> hub" where
  "hubOf name s = (case map_of (ps_hubs s) name of None \<Rightarrow> newHub | Some h \<Rightarrow> h)"

definition ensureHub :: "string \<Rightarrow> pubsub \<Rightarrow> pubsub" where
  "ensureHub name s = (if map_of (ps_hubs s) name = None then s\<lparr>ps_hubs := AList.update name newHub (ps_hubs s)\<rparr> else s)"

definition setHub :: "string \<Rightarrow> hub \<Rightarrow> pubsub \<Rightarrow> pubsub" where
  "setHub name h s = s\<lparr>ps_hubs := AList.update name h (ps_hubs s)\<rparr>"

section \<open>The outbound queue\<close>

definition outboundBuffer :: nat where "outboundBuffer = 64"

definition newWSConn :: "string \<Rightarrow> string \<Rightarrow> string \<Rightarrow> ws_conn" where
  "newWSConn connID user hubName = \<lparr>wc_id = connID, wc_user = user, wc_hub = hubName, wc_outbound = [], wc_quit = False\<rparr>"

definition closeNow :: "ws_conn \<Rightarrow> ws_conn" where
  "closeNow c = c\<lparr>wc_quit := True\<rparr>"

text \<open>When the connection is closing and there is room, either case of the \<open>select\<close> may be taken: \<open>late\<close> says
  whether the frame is queued. A full queue closes the connection.\<close>

definition sendFrame :: "bool \<Rightarrow> json \<Rightarrow> ws_conn \<Rightarrow> ws_conn" where
  "sendFrame late frame c =
     (if wc_quit c then
        if late \<and> length (wc_outbound c) < outboundBuffer then c\<lparr>wc_outbound := wc_outbound c @ [frame]\<rparr> else c
      else if length (wc_outbound c) < outboundBuffer then c\<lparr>wc_outbound := wc_outbound c @ [frame]\<rparr>
      else closeNow c)"

definition onConn :: "nat \<Rightarrow> (ws_conn \<Rightarrow> ws_conn) \<Rightarrow> pubsub \<Rightarrow> pubsub" where
  "onConn i f s = (if i < length (ps_conns s) then s\<lparr>ps_conns := (ps_conns s)[i := f (ps_conns s ! i)]\<rparr> else s)"

text \<open>The choices of a step, one for each connection.\<close>

type_synonym choices = "nat \<Rightarrow> bool"

definition sendTo :: "choices \<Rightarrow> json \<Rightarrow> nat \<Rightarrow> pubsub \<Rightarrow> pubsub" where
  "sendTo late frame i s = onConn i (sendFrame (late i) frame) s"

section \<open>Hubs\<close>

definition addConn :: "string \<Rightarrow> nat \<Rightarrow> hub \<Rightarrow> hub" where
  "addConn connID i h = h\<lparr>hb_conns := AList.update connID i (hb_conns h)\<rparr>"

definition removeConn :: "string \<Rightarrow> hub \<Rightarrow> hub" where
  "removeConn connID h =
     h\<lparr>hb_conns := AList.delete connID (hb_conns h),
       hb_groups := map (apsnd (removeAll connID)) (hb_groups h)\<rparr>"

definition members :: "string \<Rightarrow> hub \<Rightarrow> string list" where
  "members grp h = (case map_of (hb_groups h) grp of None \<Rightarrow> [] | Some ids \<Rightarrow> ids)"

definition joinGroup :: "string \<Rightarrow> string \<Rightarrow> hub \<Rightarrow> hub" where
  "joinGroup grp connID h =
     h\<lparr>hb_groups := AList.update grp (List.insert connID (members grp h)) (hb_groups h)\<rparr>"

definition leaveGroup :: "string \<Rightarrow> string \<Rightarrow> hub \<Rightarrow> hub" where
  "leaveGroup grp connID h =
     (case map_of (hb_groups h) grp of
        None \<Rightarrow> h
      | Some ids \<Rightarrow> h\<lparr>hb_groups := AList.update grp (removeAll connID ids) (hb_groups h)\<rparr>)"

definition groupExists :: "string \<Rightarrow> hub \<Rightarrow> bool" where
  "groupExists grp h \<longleftrightarrow> 0 < length (members grp h)"

definition connExists :: "string \<Rightarrow> hub \<Rightarrow> bool" where
  "connExists connID h \<longleftrightarrow> map_of (hb_conns h) connID \<noteq> None"

definition broadcast :: "choices \<Rightarrow> string \<Rightarrow> json \<Rightarrow> pubsub \<Rightarrow> pubsub" where
  "broadcast late hubName frame s = fold (sendTo late frame) (map snd (hb_conns (hubOf hubName s))) s"

definition sendGroup :: "choices \<Rightarrow> string \<Rightarrow> string \<Rightarrow> json \<Rightarrow> pubsub \<Rightarrow> pubsub" where
  "sendGroup late hubName grp frame s =
     (let h = hubOf hubName s in
      fold (sendTo late frame) (List.map_filter (map_of (hb_conns h)) (members grp h)) s)"

definition userOf :: "pubsub \<Rightarrow> nat \<Rightarrow> string" where
  "userOf s i = wc_user (ps_conns s ! i)"

definition sendUser :: "choices \<Rightarrow> string \<Rightarrow> string \<Rightarrow> json \<Rightarrow> pubsub \<Rightarrow> pubsub" where
  "sendUser late hubName user frame s =
     fold (sendTo late frame) (filter (\<lambda>i. userOf s i = user) (map snd (hb_conns (hubOf hubName s)))) s"

definition sendConn :: "choices \<Rightarrow> string \<Rightarrow> string \<Rightarrow> json \<Rightarrow> pubsub \<Rightarrow> pubsub" where
  "sendConn late hubName connID frame s =
     (case map_of (hb_conns (hubOf hubName s)) connID of None \<Rightarrow> s | Some i \<Rightarrow> sendTo late frame i s)"

definition closeConn :: "string \<Rightarrow> string \<Rightarrow> pubsub \<Rightarrow> pubsub" where
  "closeConn hubName connID s =
     (case map_of (hb_conns (hubOf hubName s)) connID of None \<Rightarrow> s | Some i \<Rightarrow> onConn i closeNow s)"

definition updateHub :: "string \<Rightarrow> (hub \<Rightarrow> hub) \<Rightarrow> pubsub \<Rightarrow> pubsub" where
  "updateHub hubName f s = setHub hubName (f (hubOf hubName s)) s"

section \<open>Protocol messages\<close>

definition systemMessage :: "string \<Rightarrow> string \<Rightarrow> string \<Rightarrow> json" where
  "systemMessage event connID user =
     JObject ([(''type'', JString ''system''), (''event'', JString event)] @ omitString ''connectionId'' connID @
       omitString ''userId'' user)"

definition ackErr :: "string \<Rightarrow> string \<Rightarrow> json" where
  "ackErr name msg = JObject [(''name'', JString name), (''message'', JString msg)]"

definition ackMessage :: "nat \<Rightarrow> bool \<Rightarrow> json option \<Rightarrow> json" where
  "ackMessage ackID success err =
     JObject ([(''type'', JString ''ack''), (''ackId'', JNumber (decimal ackID)), (''success'', JBool success)] @
       (case err of None \<Rightarrow> [] | Some e \<Rightarrow> [(''error'', e)]))"

definition dataMessage :: "string \<Rightarrow> string \<Rightarrow> string \<Rightarrow> json \<Rightarrow> json" where
  "dataMessage from_kind grp dataType data =
     JObject ([(''type'', JString ''message''), (''from'', JString from_kind)] @ omitString ''group'' grp @
       [(''dataType'', JString dataType), (''data'', data)])"

record clientMessage =
  cm_type :: string
  cm_group :: string
  cm_ackID :: "nat option"
  cm_dataType :: string
  cm_data :: json
  cm_event :: string

text \<open>\<open>uint64\<close> fields: digits only, in range.\<close>

definition intoUint64 :: "json \<Rightarrow> nat \<Rightarrow> nat option" where
  "intoUint64 j a =
     (case j of
        JNumber t \<Rightarrow> if t \<noteq> [] \<and> list_all isDigit t \<and> digitsValue t < 2 ^ 64 then Some (nat (digitsValue t)) else None
      | JNull \<Rightarrow> Some a
      | _ \<Rightarrow> None)"

text \<open>A missing \<open>data\<close> is written as \<open>null\<close>.\<close>

definition decodeClientMessage :: "json \<Rightarrow> clientMessage option" where
  "decodeClientMessage j =
     (case (structField ''type'' intoString j [], structField ''group'' intoString j [],
            structField ''ackId'' (intoPointer intoUint64 0) j None, structField ''dataType'' intoString j [],
            structField ''data'' intoRaw j JNull, structField ''event'' intoString j []) of
        (Some t, Some g, Some a, Some dt, Some d, Some e) \<Rightarrow>
          Some \<lparr>cm_type = t, cm_group = g, cm_ackID = a, cm_dataType = dt, cm_data = d, cm_event = e\<rparr>
      | _ \<Rightarrow> None)"

definition dataTypeFor :: "string \<Rightarrow> string" where
  "dataTypeFor contentType =
     (if contentType = [] \<or> contentType = ''application/json'' then ''json''
      else if contentType = ''text/plain'' then ''text''
      else ''binary'')"

text \<open>\<open>parse\<close> is the JSON value a body is the text of, if any.\<close>

definition encodeData :: "(bytes \<Rightarrow> json option) \<Rightarrow> string \<Rightarrow> bytes \<Rightarrow> json" where
  "encodeData parse dataType body =
     (let asText = JString (jsonString (string_of_bytes body)) in
      if dataType = ''json'' then (case parse body of Some j \<Rightarrow> j | None \<Rightarrow> asText)
      else if dataType = ''binary'' then JString (stdEncode body)
      else asText)"

section \<open>The client protocol\<close>

definition ack :: "choices \<Rightarrow> nat \<Rightarrow> nat option \<Rightarrow> bool \<Rightarrow> json option \<Rightarrow> pubsub \<Rightarrow> pubsub" where
  "ack late i ackID success err s =
     (case ackID of None \<Rightarrow> s | Some n \<Rightarrow> sendTo late (ackMessage n success err) i s)"

definition handleMessage :: "choices \<Rightarrow> choices \<Rightarrow> nat \<Rightarrow> json option \<Rightarrow> pubsub \<Rightarrow> pubsub" where
  "handleMessage late late' i raw s =
     (let c = ps_conns s ! i in
      case Option.bind raw decodeClientMessage of
        None \<Rightarrow> s
      | Some msg \<Rightarrow>
          if cm_type msg = ''joinGroup'' then
            ack late' i (cm_ackID msg) True None (updateHub (wc_hub c) (joinGroup (cm_group msg) (wc_id c)) s)
          else if cm_type msg = ''leaveGroup'' then
            ack late' i (cm_ackID msg) True None (updateHub (wc_hub c) (leaveGroup (cm_group msg) (wc_id c)) s)
          else if cm_type msg = ''sendToGroup'' then
            ack late' i (cm_ackID msg) True None
              (sendGroup late (wc_hub c) (cm_group msg)
                (dataMessage ''group'' (cm_group msg) (if cm_dataType msg = [] then ''json'' else cm_dataType msg) (cm_data msg)) s)
          else if cm_type msg = ''event'' then ack late' i (cm_ackID msg) True None s
          else ack late' i (cm_ackID msg) False (Some (ackErr ''InvalidMessage'' ''unsupported message type'')) s)"

text \<open>Claims are read from the payload of a token; what cannot be decoded is left out.\<close>

record tokenClaims =
  tc_subject :: string
  tc_groups :: "string list"

definition noClaims :: tokenClaims where "noClaims = \<lparr>tc_subject = [], tc_groups = []\<rparr>"

definition claimGroups :: "json \<Rightarrow> string list \<Rightarrow> string list" where
  "claimGroups j gs = (case j of JArray vs \<Rightarrow> map (\<lambda>v. stringOr v []) vs | JNull \<Rightarrow> [] | _ \<Rightarrow> gs)"

definition parseToken :: "(bytes \<Rightarrow> json option) \<Rightarrow> string \<Rightarrow> tokenClaims" where
  "parseToken parse token =
     (case splitOn (CHR ''.'') token of
        _ # payload # _ \<Rightarrow>
          (case Option.bind (rawURLDecode payload) (\<lambda>p. parse (bytes_of_string p)) of
             None \<Rightarrow> noClaims
           | Some j \<Rightarrow>
               \<lparr>tc_subject = fold stringOr (membersNamed ''sub'' j) [],
                tc_groups = fold claimGroups (membersNamed ''webpubsub.group'' j) []\<rparr>)
      | _ \<Rightarrow> noClaims)"

definition newConnID :: "bytes \<Rightarrow> string" where
  "newConnID b = rawURLEncode (string_of_bytes b)"

section \<open>REST\<close>

type_synonym ws_reply = "string response \<times> pubsub"

text \<open>\<open>http.Error\<close> and a bare status.\<close>

definition httpError :: "string \<Rightarrow> int \<Rightarrow> string response" where
  "httpError msg status =
     \<lparr>rs_status = status,
      rs_headers = setHeader ''X-Content-Type-Options'' ''nosniff'' (setHeader ''Content-Type'' ''text/plain; charset=utf-8'' []),
      rs_body = Some (msg @ [CHR 10])\<rparr>"

definition statusOnly :: "int \<Rightarrow> string response" where
  "statusOnly status = \<lparr>rs_status = status, rs_headers = [], rs_body = None\<rparr>"

definition mediaType :: "string \<Rightarrow> string" where
  "mediaType contentType =
     (case indexByte contentType (CHR '';'') of None \<Rightarrow> contentType | Some i \<Rightarrow> trimSpace (take i contentType))"

definition publishREST :: "(bytes \<Rightarrow> json option) \<Rightarrow> bytes request \<Rightarrow> (json \<Rightarrow> pubsub \<Rightarrow> pubsub) \<Rightarrow> string \<Rightarrow> string \<Rightarrow>
    pubsub \<Rightarrow> ws_reply" where
  "publishREST parse r deliver from_kind grp s =
     (if rq_method r \<noteq> ''POST'' then (httpError ''method not allowed'' 405, s)
      else case rq_body r of
        BodyError _ \<Rightarrow> (httpError ''read body'' 400, s)
      | b \<Rightarrow>
          let body = (case b of Body x \<Rightarrow> x | _ \<Rightarrow> []);
              dataType = dataTypeFor (mediaType (headerGet r ''Content-Type''))
          in (statusOnly 202, deliver (dataMessage from_kind grp dataType (encodeData parse dataType body)) s))"

definition existsResponse :: "bool \<Rightarrow> string response" where
  "existsResponse b = statusOnly (if b then 200 else 404)"

definition serveREST :: "choices \<Rightarrow> (bytes \<Rightarrow> json option) \<Rightarrow> bytes request \<Rightarrow> string \<Rightarrow> pubsub \<Rightarrow> ws_reply" where
  "serveREST late parse r rest s =
     (let segments = splitOn (CHR ''/'') (trimSlashes rest); hubName = hd segments; tail = tl segments in
      if hubName = [] then (httpError ''missing hub'' 400, s)
      else let s = ensureHub hubName s in
        if length tail = 1 \<and> tail ! 0 = '':send'' then publishREST parse r (broadcast late hubName) ''server'' [] s
        else if length tail = 3 \<and> tail ! 0 = ''groups'' \<and> tail ! 2 = '':send''
          then publishREST parse r (sendGroup late hubName (tail ! 1)) ''group'' (tail ! 1) s
        else if length tail = 3 \<and> tail ! 0 = ''users'' \<and> tail ! 2 = '':send''
          then publishREST parse r (sendUser late hubName (tail ! 1)) ''server'' [] s
        else if length tail = 3 \<and> tail ! 0 = ''connections'' \<and> tail ! 2 = '':send''
          then publishREST parse r (sendConn late hubName (tail ! 1)) ''server'' [] s
        else if length tail = 4 \<and> tail ! 0 = ''groups'' \<and> tail ! 2 = ''connections'' then
          if rq_method r = ''PUT'' then (statusOnly 200, updateHub hubName (joinGroup (tail ! 1) (tail ! 3)) s)
          else if rq_method r = ''DELETE'' then (statusOnly 204, updateHub hubName (leaveGroup (tail ! 1) (tail ! 3)) s)
          else (httpError ''method not allowed'' 405, s)
        else if length tail = 2 \<and> tail ! 0 = ''groups'' then (existsResponse (groupExists (tail ! 1) (hubOf hubName s)), s)
        else if length tail = 2 \<and> tail ! 0 = ''connections'' then
          if rq_method r = ''HEAD'' then (existsResponse (connExists (tail ! 1) (hubOf hubName s)), s)
          else if rq_method r = ''DELETE'' then (statusOnly 204, closeConn hubName (tail ! 1) s)
          else (httpError ''method not allowed'' 405, s)
        else (httpError ''not found'' 404, s))"

text \<open>A request is for a client, whose connection \<open>serveClient\<close> opens, or for the REST interface.\<close>

datatype ws_route = ClientRoute string | RestRoute string | NoRoute

definition routeOf :: "bytes request \<Rightarrow> ws_route" where
  "routeOf r =
     (let path = trimPrefix (rq_path r) ''/'' in
      if hasPrefix path ''client/hubs/'' then ClientRoute (trimPrefix path ''client/hubs/'')
      else if hasPrefix path ''api/hubs/'' then RestRoute (trimPrefix path ''api/hubs/'')
      else NoRoute)"

end
