(* ===== verification/Pubsub_System.thy ===== *)
theory Pubsub_System
  imports Pubsub
begin

text \<open>
  The Web PubSub service at work: clients connect, are registered, greeted and joined to the groups of their
  token, send messages and leave, while requests arrive and writers empty the queues, in any order
  (\<open>serveClient\<close>, \<open>wsConn.run\<close>, \<open>startWriter\<close>). Shown: queues stay within their bound, a connection is
  registered exactly while it runs, a fan-out reaches each of its targets once and nobody else, and what can
  go wrong around greetings and memberships.
\<close>

section \<open>Steps\<close>

text \<open>How far \<open>run\<close> has come: before it, registered, joining the groups that are left (with none left, reading
  messages), closed, removed.\<close>

datatype phase = Opened "string list" | Added "string list" | Joining "string list" | Closing | Ended

record system =
  sy_state :: pubsub
  sy_phases :: "phase list"

definition onState :: "(pubsub \<Rightarrow> pubsub) \<Rightarrow> system \<Rightarrow> system" where
  "onState f y = y\<lparr>sy_state := f (sy_state y)\<rparr>"

definition setPhase :: "nat \<Rightarrow> phase \<Rightarrow> system \<Rightarrow> system" where
  "setPhase i p y = y\<lparr>sy_phases := (sy_phases y)[i := p]\<rparr>"

definition connOf :: "system \<Rightarrow> nat \<Rightarrow> ws_conn" where
  "connOf y i = ps_conns (sy_state y) ! i"

text \<open>\<open>serveClient\<close> once the socket is upgraded: the connection object and the start of its run.\<close>

definition openClient :: "(bytes \<Rightarrow> json option) \<Rightarrow> bytes \<Rightarrow> bytes request \<Rightarrow> string \<Rightarrow> system \<Rightarrow> string response option \<times> system" where
  "openClient parse rand r rest y =
     (let hubName = trimSlashes rest in
      if hubName = [] then (Some (httpError ''missing hub'' 400), y)
      else let claims = parseToken parse (queryGet r ''access_token'');
               s = ensureHub hubName (sy_state y)
           in (None, \<lparr>sy_state = s\<lparr>ps_conns := ps_conns s @ [newWSConn (newConnID rand) (tc_subject claims) hubName]\<rparr>,
                      sy_phases = sy_phases y @ [Opened (tc_groups claims)]\<rparr>))"

definition connectedFrame :: "ws_conn \<Rightarrow> json" where
  "connectedFrame c = systemMessage ''connected'' (wc_id c) (wc_user c)"

text \<open>One step of one goroutine, or one request. Identifiers are 128 random bits, taken to be new.\<close>

inductive ws_step :: "(bytes \<Rightarrow> json option) \<Rightarrow> system \<Rightarrow> system \<Rightarrow> bool" for parse where
  open_conn: "routeOf r = ClientRoute rest \<Longrightarrow> newConnID rand \<notin> wc_id ` set (ps_conns (sy_state y)) \<Longrightarrow>
    openClient parse rand r rest y = (resp, y') \<Longrightarrow> ws_step parse y y'"
| add_conn: "i < length (sy_phases y) \<Longrightarrow> sy_phases y ! i = Opened gs \<Longrightarrow>
    ws_step parse y (setPhase i (Added gs) (onState (updateHub (wc_hub (connOf y i)) (addConn (wc_id (connOf y i)) i)) y))"
| greet: "i < length (sy_phases y) \<Longrightarrow> sy_phases y ! i = Added gs \<Longrightarrow>
    ws_step parse y (setPhase i (Joining gs) (onState (sendTo late (connectedFrame (connOf y i)) i) y))"
| join_one: "i < length (sy_phases y) \<Longrightarrow> sy_phases y ! i = Joining (g # gs) \<Longrightarrow>
    ws_step parse y (setPhase i (Joining gs)
      (if g = [] then y else onState (updateHub (wc_hub (connOf y i)) (joinGroup g (wc_id (connOf y i)))) y))"
| receive: "i < length (sy_phases y) \<Longrightarrow> sy_phases y ! i = Joining [] \<Longrightarrow>
    ws_step parse y (onState (handleMessage late late' i raw) y)"
| disconnect: "i < length (sy_phases y) \<Longrightarrow> sy_phases y ! i = Joining [] \<Longrightarrow>
    ws_step parse y (setPhase i Closing (onState (onConn i closeNow) y))"
| remove_conn: "i < length (sy_phases y) \<Longrightarrow> sy_phases y ! i = Closing \<Longrightarrow>
    ws_step parse y (setPhase i Ended (onState (updateHub (wc_hub (connOf y i)) (removeConn (wc_id (connOf y i)))) y))"
| write_frame: "i < length (sy_phases y) \<Longrightarrow> wc_outbound (connOf y i) = f # fs \<Longrightarrow>
    ws_step parse y (onState (onConn i (\<lambda>c. (if ok then c else closeNow c)\<lparr>wc_outbound := fs\<rparr>)) y)"
| rest_call: "routeOf r = RestRoute rest \<Longrightarrow>
    ws_step parse y (onState (\<lambda>s. snd (serveREST late parse r rest s)) y)"

inductive ws_reachable :: "(bytes \<Rightarrow> json option) \<Rightarrow> system \<Rightarrow> bool" for parse where
  at_start: "ws_reachable parse \<lparr>sy_state = newPubsub, sy_phases = []\<rparr>"
| after_step: "ws_reachable parse y \<Longrightarrow> ws_step parse y y' \<Longrightarrow> ws_reachable parse y'"

section \<open>Connections\<close>

text \<open>What never changes about the connections, while their queues do.\<close>

definition same_conns :: "pubsub \<Rightarrow> pubsub \<Rightarrow> bool" where
  "same_conns s s' \<longleftrightarrow> length (ps_conns s') = length (ps_conns s) \<and>
     (\<forall>i < length (ps_conns s). wc_id (ps_conns s' ! i) = wc_id (ps_conns s ! i) \<and> wc_hub (ps_conns s' ! i) = wc_hub (ps_conns s ! i))"

definition bounded :: "pubsub \<Rightarrow> bool" where
  "bounded s \<longleftrightarrow> (\<forall>c \<in> set (ps_conns s). length (wc_outbound c) \<le> outboundBuffer)"

lemma same_conns_refl [simp, intro]: "same_conns s s"
  by (simp add: same_conns_def)

lemma same_conns_trans: "same_conns s s' \<Longrightarrow> same_conns s' s'' \<Longrightarrow> same_conns s s''"
  by (auto simp: same_conns_def)

lemma sendFrame_keeps:
  "wc_id (sendFrame l f c) = wc_id c" "wc_hub (sendFrame l f c) = wc_hub c" "wc_user (sendFrame l f c) = wc_user c"
  "length (wc_outbound c) \<le> outboundBuffer \<Longrightarrow> length (wc_outbound (sendFrame l f c)) \<le> outboundBuffer"
  by (simp_all add: sendFrame_def closeNow_def)

lemma onConn_same: "(\<And>c. wc_id (f c) = wc_id c \<and> wc_hub (f c) = wc_hub c) \<Longrightarrow> same_conns s (onConn i f s)"
  by (auto simp: same_conns_def onConn_def nth_list_update)

lemma onConn_bounded:
  assumes "bounded s" and "\<And>c. length (wc_outbound c) \<le> outboundBuffer \<Longrightarrow> length (wc_outbound (f c)) \<le> outboundBuffer"
  shows "bounded (onConn i f s)"
  using assms set_update_subset_insert [of "ps_conns s" i "f (ps_conns s ! i)"] by (auto simp: bounded_def onConn_def)

lemma onConn_hubs [simp]: "ps_hubs (onConn i f s) = ps_hubs s" "length (ps_conns (onConn i f s)) = length (ps_conns s)"
  by (simp_all add: onConn_def)

lemma sendTo_hubs [simp]: "ps_hubs (sendTo late f i s) = ps_hubs s"
  by (simp add: sendTo_def)

lemma fanout_hubs [simp]: "ps_hubs (fold (sendTo late f) is s) = ps_hubs s"
  by (induction "is" arbitrary: s) simp_all

lemma sendTo_step: "bounded s \<Longrightarrow> bounded (sendTo late f i s)" "same_conns s (sendTo late f i s)"
  by (auto simp: sendTo_def sendFrame_keeps intro: onConn_bounded onConn_same)

lemma fanout_bounded: "bounded s \<Longrightarrow> bounded (fold (sendTo late f) is s)"
  by (induction "is" arbitrary: s) (simp_all add: sendTo_step)

lemma fanout_same: "same_conns s (fold (sendTo late f) is s)"
  by (induction "is" arbitrary: s) (auto intro: same_conns_trans [OF sendTo_step(2)])

lemma updateHub_conns [simp]: "ps_conns (updateHub n f s) = ps_conns s"
  by (simp add: updateHub_def setHub_def)

lemma updateHub_hubOf: "hubOf m (updateHub n f s) = (if m = n then f (hubOf n s) else hubOf m s)"
  by (simp add: updateHub_def setHub_def hubOf_def update_conv')

lemma ensureHub_same [simp]: "hubOf m (ensureHub n s) = hubOf m s" "ps_conns (ensureHub n s) = ps_conns s"
  by (simp_all add: ensureHub_def hubOf_def update_conv')

text \<open>A fan-out to different connections sends once to each of them.\<close>

lemma fanout_conns:
  "distinct is \<Longrightarrow> i < length (ps_conns s) \<Longrightarrow>
     ps_conns (fold (sendTo late f) is s) ! i = (if i \<in> set is then sendFrame (late i) f (ps_conns s ! i) else ps_conns s ! i)"
proof (induction "is" arbitrary: s)
  case (Cons k ks)
  have "ps_conns (sendTo late f k s) ! i = (if i = k then sendFrame (late i) f (ps_conns s ! i) else ps_conns s ! i)"
      "i < length (ps_conns (sendTo late f k s))"
    using Cons.prems by (auto simp: sendTo_def onConn_def)
  then show ?case using Cons by auto
qed simp

section \<open>Invariant\<close>

definition running :: "phase \<Rightarrow> bool" where
  "running p \<longleftrightarrow> (case p of Added _ \<Rightarrow> True | Joining _ \<Rightarrow> True | Closing \<Rightarrow> True | _ \<Rightarrow> False)"

text \<open>Everything that is registered is a running connection under its own identifier in its own hub, and
  running connections are registered.\<close>

definition registered :: "system \<Rightarrow> bool" where
  "registered y \<longleftrightarrow> length (sy_phases y) = length (ps_conns (sy_state y)) \<and>
     distinct (map wc_id (ps_conns (sy_state y))) \<and>
     (\<forall>n k i. map_of (hb_conns (hubOf n (sy_state y))) k = Some i \<longleftrightarrow>
        i < length (sy_phases y) \<and> running (sy_phases y ! i) \<and> wc_id (connOf y i) = k \<and> wc_hub (connOf y i) = n)"

text \<open>The keys of the maps and the members of groups are distinct.\<close>

definition hub_ok :: "hub \<Rightarrow> bool" where
  "hub_ok h \<longleftrightarrow> distinct (map fst (hb_conns h)) \<and> distinct (map fst (hb_groups h)) \<and> (\<forall>(g, ids) \<in> set (hb_groups h). distinct ids)"

definition ws_inv :: "system \<Rightarrow> bool" where
  "ws_inv y \<longleftrightarrow> bounded (sy_state y) \<and> registered y \<and> (\<forall>n. hub_ok (hubOf n (sy_state y)))"

lemma members_distinct: "hub_ok h \<Longrightarrow> distinct (members g h)"
  by (auto simp: hub_ok_def members_def split: option.split dest: map_of_SomeD)

lemma hub_ok_new: "hub_ok newHub"
  by (simp add: hub_ok_def newHub_def)

lemma set_update: "set (AList.update k v m) \<subseteq> insert (k, v) (set m)"
  by (induction m) auto

lemma hub_ok_ops:
  assumes "hub_ok h"
  shows "hub_ok (addConn c i h)" "hub_ok (removeConn c h)" "hub_ok (joinGroup g c h)" "hub_ok (leaveGroup g c h)"
proof -
  show "hub_ok (addConn c i h)" using assms by (simp add: hub_ok_def addConn_def distinct_update)
  show "hub_ok (removeConn c h)"
    using assms by (auto simp: hub_ok_def removeConn_def distinct_delete comp_def distinct_removeAll)
  show "hub_ok (joinGroup g c h)"
    using assms members_distinct [OF assms, of g] set_update [of g "List.insert c (members g h)" "hb_groups h"]
    by (auto simp: hub_ok_def joinGroup_def distinct_update)
  show "hub_ok (leaveGroup g c h)"
  proof (cases "map_of (hb_groups h) g")
    case (Some ids)
    then have "distinct ids" using assms by (auto simp: hub_ok_def dest: map_of_SomeD)
    then show ?thesis
      using assms Some set_update [of g "removeAll c ids" "hb_groups h"]
      by (auto simp: hub_ok_def leaveGroup_def distinct_update distinct_removeAll)
  qed (use assms in \<open>simp add: leaveGroup_def\<close>)
qed

section \<open>Quiet operations\<close>

text \<open>Operations that register and remove nobody.\<close>

definition quiet :: "pubsub \<Rightarrow> pubsub \<Rightarrow> bool" where
  "quiet s s' \<longleftrightarrow> same_conns s s' \<and> (bounded s \<longrightarrow> bounded s') \<and>
     (\<forall>n. hb_conns (hubOf n s') = hb_conns (hubOf n s)) \<and> ((\<forall>n. hub_ok (hubOf n s)) \<longrightarrow> (\<forall>n. hub_ok (hubOf n s')))"

lemma quiet_id [simp, intro]: "quiet s s"
  by (simp add: quiet_def)

lemma quiet_compose: "quiet s s' \<Longrightarrow> quiet s' s'' \<Longrightarrow> quiet s s''"
  unfolding quiet_def using same_conns_trans by auto

lemma quietI: "ps_hubs s' = ps_hubs s \<Longrightarrow> same_conns s s' \<Longrightarrow> (bounded s \<Longrightarrow> bounded s') \<Longrightarrow> quiet s s'"
  by (simp add: quiet_def hubOf_def)

lemma quiet_fanout: "quiet s (fold (sendTo late f) is s)"
  by (rule quietI) (simp_all add: fanout_same fanout_bounded)

lemma quiet_sendTo: "quiet s (sendTo late f i s)"
  using quiet_fanout [of s late f "[i]"] by simp

lemma quiet_onConn:
  assumes "\<And>c. wc_id (f c) = wc_id c \<and> wc_hub (f c) = wc_hub c"
    and "\<And>c. length (wc_outbound c) \<le> outboundBuffer \<Longrightarrow> length (wc_outbound (f c)) \<le> outboundBuffer"
  shows "quiet s (onConn i f s)"
  by (rule quietI) (simp_all add: onConn_same onConn_bounded assms)

lemma quiet_close: "quiet s (onConn i closeNow s)"
  by (rule quiet_onConn) (simp_all add: closeNow_def)

lemma quiet_updateHub:
  assumes "\<And>h. hb_conns (f h) = hb_conns h" and "\<And>h. hub_ok h \<Longrightarrow> hub_ok (f h)"
  shows "quiet s (updateHub n f s)"
  using assms by (auto simp: quiet_def same_conns_def bounded_def updateHub_hubOf)

lemma quiet_join: "quiet s (updateHub n (joinGroup g c) s)"
  by (rule quiet_updateHub) (simp_all add: joinGroup_def hub_ok_ops(3) [unfolded joinGroup_def])

lemma quiet_leave: "quiet s (updateHub n (leaveGroup g c) s)"
  by (rule quiet_updateHub) (auto simp: hub_ok_ops(4), simp add: leaveGroup_def split: option.split)

lemma quiet_ensure: "quiet s (ensureHub n s)"
  by (simp add: quiet_def same_conns_def bounded_def)

lemmas quiet_sends = quiet_id quiet_fanout quiet_sendTo quiet_close quiet_join quiet_leave quiet_ensure

lemma quiet_ack: "quiet s (ack late i a ok e s)"
  by (simp add: ack_def quiet_sendTo split: option.split)

lemma quiet_handle: "quiet s (handleMessage late late' i raw s)"
  by (auto simp: handleMessage_def Let_def sendGroup_def quiet_ack split: option.split
    intro: quiet_compose [OF quiet_join quiet_ack] quiet_compose [OF quiet_leave quiet_ack] quiet_compose [OF quiet_fanout quiet_ack])

lemma quiet_publish:
  assumes "\<And>frame. quiet s (deliver frame s)"
  shows "quiet s (snd (publishREST parse r deliver k g s))"
  using assms by (simp add: publishREST_def Let_def split: body.split)

lemma quiet_deliver:
  "quiet s (broadcast late n frame s)" "quiet s (sendGroup late n g frame s)" "quiet s (sendUser late n u frame s)"
  "quiet s (sendConn late n c frame s)" "quiet s (closeConn n c s)"
  by (simp_all add: broadcast_def sendGroup_def sendUser_def sendConn_def closeConn_def Let_def quiet_sends split: option.split)

lemma quiet_rest: "quiet s (snd (serveREST late parse r rest s))"
proof -
  let ?n = "hd (splitOn (CHR ''/'') (trimSlashes rest))"
  have "snd (serveREST late parse r rest s) = s \<or> quiet (ensureHub ?n s) (snd (serveREST late parse r rest s))"
    by (simp add: serveREST_def Let_def quiet_publish quiet_deliver quiet_sends)
  then show ?thesis using quiet_compose [OF quiet_ensure] by auto
qed

section \<open>The invariant is kept\<close>

lemma quiet_inv:
  assumes "ws_inv y" and "quiet (sy_state y) (sy_state y')" and "length (sy_phases y') = length (sy_phases y)"
    and "\<And>i. i < length (sy_phases y) \<Longrightarrow> running (sy_phases y' ! i) = running (sy_phases y ! i)"
  shows "ws_inv y'"
proof -
  have same: "length (ps_conns (sy_state y')) = length (ps_conns (sy_state y))"
      "\<And>i. i < length (ps_conns (sy_state y)) \<Longrightarrow> wc_id (connOf y' i) = wc_id (connOf y i) \<and> wc_hub (connOf y' i) = wc_hub (connOf y i)"
    using assms(2) by (auto simp: quiet_def same_conns_def connOf_def)
  have "map wc_id (ps_conns (sy_state y')) = map wc_id (ps_conns (sy_state y))"
    using same by (intro nth_equalityI) (simp_all add: connOf_def)
  then have "registered y'"
    using assms(1, 2) same assms(3, 4) unfolding registered_def ws_inv_def quiet_def by metis
  then show ?thesis using assms(1, 2) by (auto simp: ws_inv_def quiet_def)
qed

lemma id_inj:
  assumes "registered y" and "i < length (sy_phases y)" and "j < length (sy_phases y)"
    and "wc_id (connOf y i) = wc_id (connOf y j)"
  shows "i = j"
  using assms nth_eq_iff_index_eq [of "map wc_id (ps_conns (sy_state y))" i j] by (simp add: registered_def connOf_def)

lemma registeredD:
  assumes "registered y"
  shows "map_of (hb_conns (hubOf n (sy_state y))) k = Some i \<longleftrightarrow>
    i < length (sy_phases y) \<and> running (sy_phases y ! i) \<and> wc_id (connOf y i) = k \<and> wc_hub (connOf y i) = n"
  using assms unfolding registered_def by blast

text \<open>Registering or removing a connection under its own identifier, with the phase that says so.\<close>

lemma inv_phase_change:
  assumes inv: "ws_inv y" and i: "i < length (sy_phases y)"
    and f: "\<And>h. hub_ok h \<Longrightarrow> hub_ok (f h)"
      "\<And>h. map_of (hb_conns (f h)) = (map_of (hb_conns h)) (wc_id (connOf y i) := (if running p then Some i else None))"
  shows "ws_inv (setPhase i p (onState (updateHub (wc_hub (connOf y i)) f) y))"
proof -
  let ?y = "setPhase i p (onState (updateHub (wc_hub (connOf y i)) f) y)"
  have reg: "registered y" using inv by (simp add: ws_inv_def)
  have conns: "ps_conns (sy_state ?y) = ps_conns (sy_state y)" by (simp add: setPhase_def onState_def)
  then have conn: "connOf ?y = connOf y" by (simp add: connOf_def fun_eq_iff)
  have hubs: "hubOf n (sy_state ?y) = (if n = wc_hub (connOf y i) then f (hubOf n (sy_state y)) else hubOf n (sy_state y))" for n
    by (simp add: setPhase_def onState_def updateHub_hubOf)
  have phases: "sy_phases ?y = (sy_phases y)[i := p]" by (simp add: setPhase_def onState_def)
  have "map_of (hb_conns (hubOf n (sy_state ?y))) k = Some j \<longleftrightarrow>
      j < length (sy_phases ?y) \<and> running (sy_phases ?y ! j) \<and> wc_id (connOf ?y j) = k \<and> wc_hub (connOf ?y j) = n" for n k j
  proof (cases "j = i")
    case True
    show ?thesis
      using registeredD [OF reg, of n k i] i unfolding hubs conn phases True
      by (cases "n = wc_hub (connOf y i)"; cases "k = wc_id (connOf y i)"; simp add: f(2))
  next
    case False
    then have "j < length (sy_phases y) \<Longrightarrow> wc_id (connOf y j) \<noteq> wc_id (connOf y i)" using id_inj [OF reg i, of j] by auto
    then show ?thesis
      using registeredD [OF reg, of n k j] False unfolding hubs conn phases
      by (cases "n = wc_hub (connOf y i)"; cases "k = wc_id (connOf y i)"; simp add: f(2)) auto
  qed
  then have "registered ?y"
    using reg conns phases unfolding registered_def by simp
  moreover have "\<forall>n. hub_ok (hubOf n (sy_state ?y))" using inv f(1) by (simp add: hubs ws_inv_def)
  ultimately show ?thesis using inv conns by (simp add: ws_inv_def bounded_def)
qed

lemma conn_maps:
  "map_of (hb_conns (addConn c i h)) = (map_of (hb_conns h))(c := Some i)"
  "map_of (hb_conns (removeConn c h)) = (map_of (hb_conns h))(c := None)"
  by (simp_all add: addConn_def removeConn_def update_conv' delete_conv')

lemma inv_add:
  assumes "ws_inv y" and "i < length (sy_phases y)"
  shows "ws_inv (setPhase i (Added gs) (onState (updateHub (wc_hub (connOf y i)) (addConn (wc_id (connOf y i)) i)) y))"
proof (rule inv_phase_change [OF assms])
  show "hub_ok h \<Longrightarrow> hub_ok (addConn (wc_id (connOf y i)) i h)" for h by (rule hub_ok_ops(1))
  show "map_of (hb_conns (addConn (wc_id (connOf y i)) i h)) =
      (map_of (hb_conns h)) (wc_id (connOf y i) := (if running (Added gs) then Some i else None))" for h
    unfolding conn_maps by (simp add: running_def)
qed

lemma inv_remove:
  assumes "ws_inv y" and "i < length (sy_phases y)"
  shows "ws_inv (setPhase i Ended (onState (updateHub (wc_hub (connOf y i)) (removeConn (wc_id (connOf y i)))) y))"
proof (rule inv_phase_change [OF assms])
  show "hub_ok h \<Longrightarrow> hub_ok (removeConn (wc_id (connOf y i)) h)" for h by (rule hub_ok_ops(2))
  show "map_of (hb_conns (removeConn (wc_id (connOf y i)) h)) =
      (map_of (hb_conns h)) (wc_id (connOf y i) := (if running Ended then Some i else None))" for h
    unfolding conn_maps by (simp add: running_def)
qed

lemma inv_open:
  assumes "ws_inv y" and "newConnID rand \<notin> wc_id ` set (ps_conns (sy_state y))" and "openClient parse rand r rest y = (resp, y')"
  shows "ws_inv y'"
proof (cases "trimSlashes rest = []")
  case True
  then show ?thesis using assms(1, 3) by (simp add: openClient_def)
next
  case False
  define cl where "cl = parseToken parse (queryGet r ''access_token'')"
  let ?c = "newWSConn (newConnID rand) (tc_subject cl) (trimSlashes rest)"
  have y': "ps_conns (sy_state y') = ps_conns (sy_state y) @ [?c]" "sy_phases y' = sy_phases y @ [Opened (tc_groups cl)]"
      "hubOf n (sy_state y') = hubOf n (sy_state y)" for n
    using assms(3) False ensureHub_same(1) [of n "trimSlashes rest" "sy_state y"]
    by (auto simp: openClient_def Let_def cl_def hubOf_def)
  have reg: "registered y" using assms(1) by (simp add: ws_inv_def)
  then have len: "length (sy_phases y) = length (ps_conns (sy_state y))" by (simp add: registered_def)
  have "map_of (hb_conns (hubOf n (sy_state y'))) k = Some j \<longleftrightarrow>
      j < length (sy_phases y') \<and> running (sy_phases y' ! j) \<and> wc_id (connOf y' j) = k \<and> wc_hub (connOf y' j) = n" for n k j
    using registeredD [OF reg, of n k j] len by (auto simp: y' connOf_def nth_append running_def less_Suc_eq)
  then have "registered y'" using reg assms(2) unfolding registered_def by (simp add: y' newWSConn_def)
  then show ?thesis using assms(1) by (simp add: ws_inv_def bounded_def y' newWSConn_def)
qed

lemma step_inv:
  assumes "ws_step parse y y'" and "ws_inv y"
  shows "ws_inv y'"
  using assms(1)
proof cases
  case (open_conn r rest rand resp)
  then show ?thesis using inv_open assms(2) by blast
next
  case (add_conn i gs)
  then show ?thesis using inv_add assms(2) by simp
next
  case (greet i gs late)
  show ?thesis
    unfolding greet(1) using greet assms(2) quiet_sendTo
    by (intro quiet_inv [OF assms(2)]) (auto simp: setPhase_def onState_def running_def nth_list_update)
next
  case (join_one i g gs)
  show ?thesis
    unfolding join_one(1) using join_one assms(2) quiet_join
    by (intro quiet_inv [OF assms(2)]) (auto simp: setPhase_def onState_def running_def nth_list_update)
next
  case (receive i late late' raw)
  show ?thesis
    unfolding receive(1) using quiet_handle by (intro quiet_inv [OF assms(2)]) (auto simp: onState_def)
next
  case (disconnect i)
  show ?thesis
    unfolding disconnect(1) using disconnect quiet_close
    by (intro quiet_inv [OF assms(2)]) (auto simp: setPhase_def onState_def running_def nth_list_update)
next
  case (remove_conn i)
  then show ?thesis using inv_remove assms(2) by simp
next
  case (write_frame i f fs ok)
  let ?f = "\<lambda>c. (if ok then c else closeNow c)\<lparr>wc_outbound := fs\<rparr>"
  have b: "bounded (sy_state y)" "length (sy_phases y) = length (ps_conns (sy_state y))"
    using assms(2) by (simp_all add: ws_inv_def registered_def)
  then have "length (wc_outbound (connOf y i)) \<le> outboundBuffer"
    using write_frame(2) by (simp add: bounded_def connOf_def)
  then have "length fs \<le> outboundBuffer" using write_frame(3) by simp
  then have "quiet (sy_state y) (onConn i ?f (sy_state y))" by (intro quiet_onConn) (simp_all add: closeNow_def)
  then show ?thesis unfolding write_frame(1) by (intro quiet_inv [OF assms(2)]) (auto simp: onState_def)
next
  case (rest_call r rest late)
  show ?thesis
    unfolding rest_call(1) using quiet_rest by (intro quiet_inv [OF assms(2)]) (auto simp: onState_def)
qed

lemma start_inv: "ws_inv \<lparr>sy_state = newPubsub, sy_phases = []\<rparr>"
  by (simp add: ws_inv_def bounded_def registered_def newPubsub_def hubOf_def newHub_def hub_ok_def)

lemma ws_reachable_inv: "ws_reachable parse y \<Longrightarrow> ws_inv y"
  by (induction rule: ws_reachable.induct) (simp_all add: start_inv step_inv)

end
