(* ===== verification/Pubsub_Spec.thy ===== *)
theory Pubsub_Spec
  imports Pubsub_System
begin

text \<open>
  The properties of the Web PubSub service: what a fan-out reaches, when a connection is registered, and two
  things that can go wrong, a frame before the greeting and a group whose only member does not exist.
\<close>

section \<open>Targets\<close>

lemma refs_distinct:
  assumes "registered y" and "hub_ok (hubOf n (sy_state y))"
  shows "distinct (map snd (hb_conns (hubOf n (sy_state y))))"
proof -
  let ?m = "hb_conns (hubOf n (sy_state y))"
  have keys: "distinct (map fst ?m)" using assms(2) by (simp add: hub_ok_def)
  have "k = k'" if "(k, i) \<in> set ?m" "(k', i) \<in> set ?m" for k k' i
    using that map_of_is_SomeI [OF keys] registeredD [OF assms(1), of n] by metis
  then have "inj_on snd (set ?m)" by (auto simp: inj_on_def)
  moreover have "distinct ?m" using keys by (simp add: distinct_map)
  ultimately show ?thesis by (simp add: distinct_map)
qed

lemma conn_in_hub:
  assumes "ws_inv y" and "i < length (sy_phases y)"
  shows "i \<in> set (map snd (hb_conns (hubOf n (sy_state y)))) \<longleftrightarrow> running (sy_phases y ! i) \<and> wc_hub (connOf y i) = n"
proof -
  have keys: "distinct (map fst (hb_conns (hubOf n (sy_state y))))" and reg: "registered y"
    using assms(1) by (simp_all add: ws_inv_def hub_ok_def)
  have "i \<in> set (map snd (hb_conns (hubOf n (sy_state y)))) \<longleftrightarrow> (\<exists>k. map_of (hb_conns (hubOf n (sy_state y))) k = Some i)"
    using map_of_eq_Some_iff [OF keys] by force
  then show ?thesis using registeredD [OF reg] assms(2) by auto
qed

lemma set_map_filter: "i \<in> set (List.map_filter f ids) \<longleftrightarrow> (\<exists>k \<in> set ids. f k = Some i)"
  by (induction ids) (auto simp: map_filter_simps split: option.split)

lemma member_refs:
  assumes "ws_inv y" and "i < length (sy_phases y)"
  shows "i \<in> set (List.map_filter (map_of (hb_conns (hubOf n (sy_state y)))) ids) \<longleftrightarrow>
    running (sy_phases y ! i) \<and> wc_hub (connOf y i) = n \<and> wc_id (connOf y i) \<in> set ids"
proof -
  have reg: "registered y" using assms(1) by (simp add: ws_inv_def)
  show ?thesis unfolding set_map_filter registeredD [OF reg] using assms(2) by auto
qed

lemma member_refs_distinct:
  assumes "ws_inv y" and "distinct ids"
  shows "distinct (List.map_filter (map_of (hb_conns (hubOf n (sy_state y)))) ids)"
proof -
  let ?m = "map_of (hb_conns (hubOf n (sy_state y)))"
  have "k = k'" if "?m k = Some i" "?m k' = Some i" for k k' i
    using that registeredD [of y n] assms(1) unfolding ws_inv_def by metis
  then have "inj_on (the \<circ> ?m) (set (filter (\<lambda>k. ?m k \<noteq> None) ids))" by (auto simp: inj_on_def)
  then show ?thesis using assms(2) by (simp add: map_filter_def distinct_map)
qed

lemma fanouts:
  assumes inv: "ws_inv y" and i: "i < length (sy_phases y)"
  shows "ps_conns (broadcast late n f (sy_state y)) ! i =
      (if running (sy_phases y ! i) \<and> wc_hub (connOf y i) = n then sendFrame (late i) f (connOf y i) else connOf y i)"
    "ps_conns (sendGroup late n g f (sy_state y)) ! i =
      (if running (sy_phases y ! i) \<and> wc_hub (connOf y i) = n \<and> wc_id (connOf y i) \<in> set (members g (hubOf n (sy_state y)))
       then sendFrame (late i) f (connOf y i) else connOf y i)"
    "ps_conns (sendUser late n u f (sy_state y)) ! i =
      (if running (sy_phases y ! i) \<and> wc_hub (connOf y i) = n \<and> wc_user (connOf y i) = u
       then sendFrame (late i) f (connOf y i) else connOf y i)"
proof -
  have ok: "hub_ok (hubOf n (sy_state y))" and reg: "registered y" using inv by (simp_all add: ws_inv_def)
  have len: "i < length (ps_conns (sy_state y))" using i reg by (simp add: registered_def)
  note refs = refs_distinct [OF reg ok] member_refs_distinct [OF inv members_distinct [OF ok, of g]]
  show "ps_conns (broadcast late n f (sy_state y)) ! i =
      (if running (sy_phases y ! i) \<and> wc_hub (connOf y i) = n then sendFrame (late i) f (connOf y i) else connOf y i)"
    unfolding broadcast_def fanout_conns [OF refs(1) len] conn_in_hub [OF inv i] connOf_def [symmetric] ..
  show "ps_conns (sendGroup late n g f (sy_state y)) ! i =
      (if running (sy_phases y ! i) \<and> wc_hub (connOf y i) = n \<and> wc_id (connOf y i) \<in> set (members g (hubOf n (sy_state y)))
       then sendFrame (late i) f (connOf y i) else connOf y i)"
    unfolding sendGroup_def Let_def fanout_conns [OF refs(2) len] member_refs [OF inv i] connOf_def [symmetric] ..
  have user: "i \<in> set (filter (\<lambda>j. userOf (sy_state y) j = u) (map snd (hb_conns (hubOf n (sy_state y))))) \<longleftrightarrow>
      running (sy_phases y ! i) \<and> wc_hub (connOf y i) = n \<and> wc_user (connOf y i) = u"
    using conn_in_hub [OF inv i, of n] by (auto simp: userOf_def connOf_def)
  have "distinct (filter (\<lambda>j. userOf (sy_state y) j = u) (map snd (hb_conns (hubOf n (sy_state y)))))"
    using refs(1) by (rule distinct_filter)
  from fanout_conns [OF this len, of late f] user
  show "ps_conns (sendUser late n u f (sy_state y)) ! i =
      (if running (sy_phases y ! i) \<and> wc_hub (connOf y i) = n \<and> wc_user (connOf y i) = u
       then sendFrame (late i) f (connOf y i) else connOf y i)"
    unfolding sendUser_def connOf_def by simp
qed

section \<open>A run\<close>

definition ws_request :: "string \<Rightarrow> string \<Rightarrow> bytes request" where
  "ws_request m path = \<lparr>rq_method = m, rq_path = path, rq_query = [], rq_headers = [], rq_host = [], rq_tls = False, rq_body = Body []\<rparr>"

text \<open>One client, before and after it is registered.\<close>

definition one_client :: "phase \<Rightarrow> hub \<Rightarrow> system" where
  "one_client p h = \<lparr>sy_state = \<lparr>ps_hubs = [(''h'', h)], ps_conns = [newWSConn [] [] ''h'']\<rparr>, sy_phases = [p]\<rparr>"

lemma client_opened: "ws_reachable parse (one_client (Opened []) newHub)"
proof -
  let ?r = "ws_request ''GET'' ''/client/hubs/h''"
  have "routeOf ?r = ClientRoute ''h''" by (simp add: routeOf_def ws_request_def trimPrefix_def hasPrefix_def)
  moreover have "newConnID [] = []" by (simp add: newConnID_def rawURLEncode_def string_of_bytes_def)
  moreover have "openClient parse [] ?r ''h'' \<lparr>sy_state = newPubsub, sy_phases = []\<rparr> = (None, one_client (Opened []) newHub)"
    using calculation(2) by (simp add: openClient_def trimSlashes_def parseToken_def queryGet_def ws_request_def noClaims_def
      ensureHub_def newPubsub_def one_client_def Let_def)
  ultimately show ?thesis
    using after_step [OF at_start open_conn [of ?r "''h''" "[]"]] by (simp add: newPubsub_def)
qed

lemma client_added: "ws_reachable parse (one_client (Added []) (addConn [] 0 newHub))"
proof -
  have "setPhase 0 (Added []) (onState (updateHub (wc_hub (connOf (one_client (Opened []) newHub) 0))
      (addConn (wc_id (connOf (one_client (Opened []) newHub) 0)) 0)) (one_client (Opened []) newHub)) =
      one_client (Added []) (addConn [] 0 newHub)"
    by (simp add: setPhase_def onState_def one_client_def connOf_def newWSConn_def updateHub_def setHub_def hubOf_def)
  moreover have "ws_step parse (one_client (Opened []) newHub) (setPhase 0 (Added []) (onState
      (updateHub (wc_hub (connOf (one_client (Opened []) newHub) 0))
        (addConn (wc_id (connOf (one_client (Opened []) newHub) 0)) 0)) (one_client (Opened []) newHub)))"
    by (rule add_conn) (simp_all add: one_client_def)
  ultimately show ?thesis using after_step [OF client_opened] by metis
qed

text \<open>A broadcast before the greeting.\<close>

lemma overtaken:
  "\<exists>y d. ws_reachable parse y \<and>
     wc_outbound (connOf y 0) = [dataMessage ''server'' [] ''json'' d, connectedFrame (connOf y 0)]"
proof -
  let ?y = "one_client (Added []) (addConn [] 0 newHub)" and ?r = "ws_request ''POST'' ''/api/hubs/h/:send''"
  let ?d = "encodeData parse ''json'' []" and ?late = "\<lambda>_ :: nat. False"
  let ?y1 = "onState (\<lambda>s. snd (serveREST ?late parse ?r ''h/:send'' s)) ?y"
  let ?y2 = "setPhase 0 (Joining []) (onState (sendTo ?late (connectedFrame (connOf ?y1 0)) 0) ?y1)"
  have "routeOf ?r = RestRoute ''h/:send''" by (simp add: routeOf_def ws_request_def trimPrefix_def hasPrefix_def)
  then have r1: "ws_reachable parse ?y1" using after_step [OF client_added rest_call] by blast
  have phases: "sy_phases ?y1 = [Added []]" by (simp add: onState_def one_client_def)
  have "ws_step parse ?y1 ?y2" using greet [of 0 ?y1 "[]"] phases by simp
  then have "ws_reachable parse ?y2" using after_step [OF r1] by blast
  moreover have "dataTypeFor (mediaType (headerGet ?r ''Content-Type'')) = ''json''"
    by (simp add: headerGet_def ws_request_def mediaType_def dataTypeFor_def)
  then have conn: "ps_conns (sy_state ?y1) = [(newWSConn [] [] ''h'')\<lparr>wc_outbound := [dataMessage ''server'' [] ''json'' ?d]\<rparr>]"
    by (simp add: serveREST_def trimSlashes_def ensureHub_def publishREST_def ws_request_def broadcast_def hubOf_def
      connOf_def onState_def one_client_def addConn_def newHub_def sendTo_def onConn_def sendFrame_def newWSConn_def outboundBuffer_def
      Let_def)
  define y1 where "y1 = ?y1"
  have "wc_outbound (connOf (setPhase 0 (Joining []) (onState (sendTo ?late (connectedFrame (connOf y1 0)) 0) y1)) 0) =
      [dataMessage ''server'' [] ''json'' ?d,
       connectedFrame (connOf (setPhase 0 (Joining []) (onState (sendTo ?late (connectedFrame (connOf y1 0)) 0) y1)) 0)]"
    using conn unfolding y1_def [symmetric]
    by (simp add: connOf_def onState_def setPhase_def sendTo_def onConn_def sendFrame_def newWSConn_def outboundBuffer_def
      connectedFrame_def)
  ultimately show ?thesis unfolding y1_def by blast
qed

section \<open>Properties\<close>

text \<open>C35: In every state the service can reach, no queue of a connection is longer than its bound, and a
  connection is registered in its hub exactly from the moment it is added until it is removed.\<close>

theorem connections_registered:
  assumes "ws_reachable parse y" and "i < length (sy_phases y)"
  shows "length (wc_outbound (connOf y i)) \<le> 64 \<and>
    (map_of (hb_conns (hubOf (wc_hub (connOf y i)) (sy_state y))) (wc_id (connOf y i)) = Some i \<longleftrightarrow> running (sy_phases y ! i))"
proof -
  have inv: "ws_inv y" using assms(1) by (rule ws_reachable_inv)
  then have "connOf y i \<in> set (ps_conns (sy_state y))" using assms(2) by (simp add: ws_inv_def registered_def connOf_def)
  then show ?thesis using inv registeredD [of y _ _ i] assms(2) by (auto simp: ws_inv_def bounded_def outboundBuffer_def)
qed

theorem connections_registered_witness:
  "\<exists>y :: system. map_of (hb_conns (hubOf ''h'' (sy_state y))) [] = Some 0 \<and> sy_phases y = [Added []]"
  using connections_registered [OF client_added, where i = 0]
  by - (rule exI [where x = "one_client (Added []) (addConn [] 0 newHub)"],
    simp add: one_client_def connOf_def newWSConn_def running_def)

text \<open>C34: A frame sent to a hub, a group or a user is offered once to the queue of each connection that is
  registered there, belongs to the group or has the user, and no other connection changes.\<close>

theorem frames_reach_targets:
  assumes "ws_reachable parse y" and "i < length (sy_phases y)"
  shows "ps_conns (broadcast late n f (sy_state y)) ! i =
      (if running (sy_phases y ! i) \<and> wc_hub (connOf y i) = n then sendFrame (late i) f (connOf y i) else connOf y i) \<and>
    ps_conns (sendGroup late n g f (sy_state y)) ! i =
      (if running (sy_phases y ! i) \<and> wc_hub (connOf y i) = n \<and> wc_id (connOf y i) \<in> set (members g (hubOf n (sy_state y)))
       then sendFrame (late i) f (connOf y i) else connOf y i) \<and>
    ps_conns (sendUser late n u f (sy_state y)) ! i =
      (if running (sy_phases y ! i) \<and> wc_hub (connOf y i) = n \<and> wc_user (connOf y i) = u
       then sendFrame (late i) f (connOf y i) else connOf y i)"
  using fanouts [OF ws_reachable_inv [OF assms(1)] assms(2)] by (intro conjI)

theorem frames_reach_targets_witness:
  "ps_conns (broadcast (\<lambda>_. False) ''h'' JNull (sy_state (one_client (Added []) (addConn [] 0 newHub)))) ! 0 =
     sendFrame False JNull (newWSConn [] [] ''h'')"
  using frames_reach_targets [OF client_added, where i = 0 and late = "\<lambda>_. False" and n = "''h''" and f = JNull]
  by (simp add: one_client_def connOf_def newWSConn_def running_def)

text \<open>The first frame of a client need not be its greeting: a publication between the registration
  of the connection and its greeting is queued before it.\<close>

lemma greeting_overtaken:
  "\<exists>y d. ws_reachable parse y \<and>
     wc_outbound (connOf y 0) = [dataMessage ''server'' [] ''json'' d, connectedFrame (connOf y 0)]"
  by (rule overtaken)

text \<open>Adding a connection that does not exist to an empty group succeeds: the group then exists for
  clients that ask, and what is sent to it reaches nobody.\<close>

lemma ghost_member:
  assumes "trimSlashes rest = h @ ''/groups/'' @ g @ ''/connections/'' @ c" and "h \<noteq> []"
    and "CHR ''/'' \<notin> set h \<union> set g \<union> set c" and "rq_method r = ''PUT''"
    and "\<not> connExists c (hubOf h s)" and "members g (hubOf h s) = []"
  shows "fst (serveREST late parse r rest s) = statusOnly 200 \<and>
    groupExists g (hubOf h (snd (serveREST late parse r rest s))) \<and>
    (\<forall>late' f. sendGroup late' h g f (snd (serveREST late parse r rest s)) = snd (serveREST late parse r rest s))"
proof -
  have "splitOn (CHR ''/'') (trimSlashes rest) = [h, ''groups'', g, ''connections'', c]"
    using assms(1, 3) splitOn_append [of "CHR ''/''" h "''groups/'' @ g @ ''/connections/'' @ c"]
      splitOn_append [of "CHR ''/''" g "''connections/'' @ c"] splitOn_none [of "CHR ''/''" c] by simp
  then have r: "serveREST late parse r rest s = (statusOnly 200, updateHub h (joinGroup g c) (ensureHub h s))"
    using assms(2, 4) by (simp add: serveREST_def)
  have hub: "hubOf h (updateHub h (joinGroup g c) (ensureHub h s)) = joinGroup g c (hubOf h s)" by (simp add: updateHub_hubOf)
  have "members g (joinGroup g c (hubOf h s)) = [c]" "hb_conns (joinGroup g c (hubOf h s)) = hb_conns (hubOf h s)"
    using assms(6) by (simp_all add: members_def joinGroup_def update_conv')
  then show ?thesis
    using assms(5) by (simp add: r hub groupExists_def sendGroup_def connExists_def map_filter_simps)
qed

lemma ghost_member_witness:
  "groupExists ''g'' (hubOf ''h'' (snd (serveREST (\<lambda>_. False) (\<lambda>_. None) (ws_request ''PUT'' []) ''h/groups/g/connections/c'' newPubsub)))"
  using ghost_member [of "''h/groups/g/connections/c''" "''h''" "''g''" "''c''" "ws_request ''PUT'' []" newPubsub "\<lambda>_. False" "\<lambda>_. None"]
  by (simp add: trimSlashes_def ws_request_def connExists_def hubOf_def newPubsub_def newHub_def members_def)

end
