(* ===== verification/Go_Sha256.thy ===== *)
theory Go_Sha256
  imports Go_Md5
begin

text \<open>
  \<open>crypto/sha256\<close>, with which the Entra ID service names keys and users and digests tokens: the function of
  FIPS 180-4 on 32-bit words, big-endian, over the message padded to a multiple of 64 bytes.
\<close>

text \<open>
  The standard's constants are the first 32 bits of the fractional parts of roots of primes: \<open>rootFloor\<close>
  finds the integer root bit by bit, from the highest.
\<close>

definition rootFloor :: "nat \<Rightarrow> int \<Rightarrow> int" where
  "rootFloor k n = foldl (\<lambda>r b. if (r + 2 ^ b) ^ k \<le> n then r + 2 ^ b else r) 0 (rev [0..<35])"

definition rootFraction :: "nat \<Rightarrow> int \<Rightarrow> u32" where
  "rootFraction k p = word_of_int (rootFloor k (p * 2 ^ (32 * k)))"

definition shaTable :: "u32 list" where
  "shaTable = map (rootFraction 3) (filter (\<lambda>n. list_all (\<lambda>d. n mod d \<noteq> 0) [2..n - 1]) [2..311])"

definition shaStart :: "u32 list" where
  "shaStart = map (rootFraction 2) [2, 3, 5, 7, 11, 13, 17, 19]"

definition rotateRight :: "nat \<Rightarrow> u32 \<Rightarrow> u32" where
  "rotateRight n w = drop_bit n w OR push_bit (32 - n) w"

definition smallSigma0 :: "u32 \<Rightarrow> u32" where
  "smallSigma0 w = rotateRight 7 w XOR rotateRight 18 w XOR drop_bit 3 w"

definition smallSigma1 :: "u32 \<Rightarrow> u32" where
  "smallSigma1 w = rotateRight 17 w XOR rotateRight 19 w XOR drop_bit 10 w"

definition bigSigma0 :: "u32 \<Rightarrow> u32" where
  "bigSigma0 w = rotateRight 2 w XOR rotateRight 13 w XOR rotateRight 22 w"

definition bigSigma1 :: "u32 \<Rightarrow> u32" where
  "bigSigma1 w = rotateRight 6 w XOR rotateRight 11 w XOR rotateRight 25 w"

text \<open>The message schedule, sixteen words extended to sixty-four.\<close>

definition extendWords :: "u32 list \<Rightarrow> nat \<Rightarrow> u32 list" where
  "extendWords ws t = ws @ [smallSigma1 (ws ! (t - 2)) + ws ! (t - 7) + smallSigma0 (ws ! (t - 15)) + ws ! (t - 16)]"

definition schedule :: "u32 list \<Rightarrow> u32 list" where
  "schedule block = foldl extendWords block [16..<64]"

fun shaRound :: "u32 list \<Rightarrow> u32 \<times> u32 \<Rightarrow> u32 list" where
  "shaRound [a, b, c, d, e, f, g, h] (k, w) =
     (let t1 = h + bigSigma1 e + ((e AND f) XOR (NOT e AND g)) + k + w;
          t2 = bigSigma0 a + ((a AND b) XOR (a AND c) XOR (b AND c))
      in [t1 + t2, a, b, c, d + t1, e, f, g])"
| "shaRound s _ = s"

definition shaBlock :: "u32 list \<Rightarrow> u32 list \<Rightarrow> u32 list" where
  "shaBlock s block = map2 (+) s (foldl shaRound s (zip shaTable (schedule block)))"

definition shaPad :: "bytes \<Rightarrow> bytes" where
  "shaPad bs = bs @ [0x80] @ replicate ((119 - length bs mod 64) mod 64) 0 @ be_bytes 8 (word_of_nat (8 * length bs) :: u64)"

definition sha256 :: "bytes \<Rightarrow> bytes" where
  "sha256 bs = concat (map (be_bytes 4) (foldl shaBlock shaStart (map (map be_word \<circ> chunks 4) (chunks 64 (shaPad bs)))))"

lemma shaRound_length: "length s = 8 \<Longrightarrow> length (shaRound s x) = 8"
  by (cases "(s, x)" rule: shaRound.cases) (simp_all add: Let_def)

lemma shaBlock_length: "length s = 8 \<Longrightarrow> length (shaBlock s block) = 8"
proof -
  have "length (foldl shaRound s xs) = 8" if "length s = 8" for s xs
    using that by (induction xs arbitrary: s) (simp_all add: shaRound_length)
  then show "length s = 8 \<Longrightarrow> length (shaBlock s block) = 8" by (simp add: shaBlock_def)
qed

lemma length_sha256: "length (sha256 bs) = 32"
proof -
  have "length (foldl shaBlock s xs) = 8" if "length s = 8" for s xs
    using that by (induction xs arbitrary: s) (simp_all add: shaBlock_length)
  then have "length (foldl shaBlock shaStart xs) = 8" for xs by (simp add: shaStart_def)
  then show ?thesis by (simp add: sha256_def length_concat comp_def sum_list_triv)
qed

end
