(* ===== verification/Aad.thy ===== *)
theory Aad
  imports Http Go_Quote Go_Utf8 Go_Sha256
begin

text \<open>
  The Entra ID service (\<open>internal/servers/aadserver\<close>): the signing key and its file (\<open>signer.go\<close>), the
  claims of a token (\<open>claims.go\<close>), the token endpoint (\<open>token.go\<close>), the discovery document and the
  published keys (\<open>oidc.go\<close>), routing (\<open>server.go\<close>). The body of a request is its parsed form. RSA, X.509,
  PEM and the text of JSON documents are the library's and arguments of the definitions.
\<close>

section \<open>The signing key\<close>

text \<open>A private key with the bytes of its modulus and its public exponent; the rest of it is opaque.\<close>

record rsa_key =
  rk_modulus :: bytes
  rk_exponent :: int
  rk_private :: bytes

record signer =
  sg_key :: rsa_key
  sg_kid :: string

definition signerFromKey :: "rsa_key \<Rightarrow> signer" where
  "signerFromKey key = \<lparr>sg_key = key, sg_kid = rawURLEncode (string_of_bytes (take 8 (sha256 (rk_modulus key))))\<rparr>"

datatype parsed_key = RSAKey rsa_key | OtherKey

text \<open>The library functions a start meets, and what the directory and the file calls answer.\<close>

record key_lib =
  kl_generate :: "string + rsa_key"
  kl_pemDecode :: "bytes \<Rightarrow> bytes option"
  kl_pemEncode :: "bytes \<Rightarrow> bytes"
  kl_parse :: "bytes \<Rightarrow> string + parsed_key"
  kl_marshal :: "rsa_key \<Rightarrow> string + bytes"
  kl_mkdir :: "string option"
  kl_write :: "string option"

definition newSigner :: "key_lib \<Rightarrow> string + signer" where
  "newSigner lib =
     (case kl_generate lib of Inl e \<Rightarrow> Inl (''generate signing key: '' @ e) | Inr key \<Rightarrow> Inr (signerFromKey key))"

text \<open>What reading the file yields.\<close>

datatype key_file = KeyFile bytes | NoKeyFile | KeyFileError string

text \<open>The signer, or the error of the start; and the contents of the file, when it was written.\<close>

definition signerFromFileOrNew :: "key_lib \<Rightarrow> string \<Rightarrow> key_file \<Rightarrow> (string + signer) \<times> bytes option" where
  "signerFromFileOrNew lib path disk =
     (case disk of
        KeyFile pemBytes \<Rightarrow>
          (case kl_pemDecode lib pemBytes of
             None \<Rightarrow> (Inl (''parse signing key '' @ path @ '': no PEM block''), None)
           | Some der \<Rightarrow>
               (case kl_parse lib der of
                  Inl e \<Rightarrow> (Inl (''parse signing key '' @ path @ '': '' @ e), None)
                | Inr OtherKey \<Rightarrow> (Inl (''signing key '' @ path @ '' is not RSA''), None)
                | Inr (RSAKey key) \<Rightarrow> (Inr (signerFromKey key), None)))
      | NoKeyFile \<Rightarrow>
          (case newSigner lib of
             Inl e \<Rightarrow> (Inl e, None)
           | Inr s \<Rightarrow>
               (case kl_marshal lib (sg_key s) of
                  Inl e \<Rightarrow> (Inl (''marshal signing key: '' @ e), None)
                | Inr der \<Rightarrow>
                    (case kl_mkdir lib of
                       Some e \<Rightarrow> (Inl (''create signing key dir: '' @ e), None)
                     | None \<Rightarrow>
                         (case kl_write lib of
                            Some e \<Rightarrow> (Inl (''write signing key: '' @ e), None)
                          | None \<Rightarrow> (Inr s, Some (kl_pemEncode lib der))))))
      | KeyFileError e \<Rightarrow> (Inl (''read signing key '' @ path @ '': '' @ e), None))"

text \<open>The start of the service, with the path of the key file when there is a data directory.\<close>

definition newAad :: "key_lib \<Rightarrow> string option \<Rightarrow> key_file \<Rightarrow> (string + signer) \<times> bytes option" where
  "newAad lib path disk = (case path of Some p \<Rightarrow> signerFromFileOrNew lib p disk | None \<Rightarrow> (newSigner lib, None))"

text \<open>The key set. The exponent is written big-endian without leading zeros.\<close>

fun stripZeros :: "bytes \<Rightarrow> bytes" where
  "stripZeros (b # c # bs) = (if b = 0 then stripZeros (c # bs) else b # c # bs)"
| "stripZeros bs = bs"

definition exponentBytes :: "rsa_key \<Rightarrow> bytes" where
  "exponentBytes key = stripZeros (be_bytes 4 (word_of_int (rk_exponent key) :: u32))"

definition jwks :: "signer \<Rightarrow> json" where
  "jwks s = JObject [(''keys'', JArray [JObject
     [(''kty'', JString ''RSA''), (''use'', JString ''sig''), (''kid'', JString (sg_kid s)), (''alg'', JString ''RS256''),
      (''n'', JString (rawURLEncode (string_of_bytes (rk_modulus (sg_key s))))),
      (''e'', JString (rawURLEncode (string_of_bytes (exponentBytes (sg_key s)))))]])]"

section \<open>Claims\<close>

record claims =
  cl_issuer :: string
  cl_audience :: string
  cl_subject :: string
  cl_tenant :: string
  cl_appID :: string
  cl_objectID :: string
  cl_name :: string
  cl_upn :: string
  cl_version :: string
  cl_issuedAt :: int
  cl_notBefore :: int
  cl_expiry :: int

definition userObjectID :: "string \<Rightarrow> string" where
  "userObjectID upn =
     (let h = hexString (take 16 (sha256 (bytes_of_string upn))) in
      take 8 h @ ''-'' @ take 4 (drop 8 h) @ ''-'' @ take 4 (drop 12 h) @ ''-'' @ take 4 (drop 16 h) @ ''-'' @ take 12 (drop 20 h))"

definition hour :: duration where "hour = 3600 * second"

definition newClaims :: "time \<Rightarrow> string \<Rightarrow> string \<Rightarrow> string \<Rightarrow> string \<Rightarrow> string \<Rightarrow> string \<Rightarrow> claims" where
  "newClaims now issuer audience tenant appID name upn =
     \<lparr>cl_issuer = issuer, cl_audience = audience, cl_subject = (if upn \<noteq> [] then upn else appID), cl_tenant = tenant,
      cl_appID = appID, cl_objectID = (if upn \<noteq> [] then userObjectID upn else appID), cl_name = name, cl_upn = upn,
      cl_version = ''1.0'', cl_issuedAt = now div second, cl_notBefore = now div second,
      cl_expiry = (now + hour) div second\<rparr>"

text \<open>Bytes that are not UTF-8 are replaced in documents.\<close>

definition textValue :: "string \<Rightarrow> json" where
  "textValue t = JString (jsonString t)"

definition claimsJSON :: "claims \<Rightarrow> json" where
  "claimsJSON c = JObject
     ([(''iss'', textValue (cl_issuer c)), (''aud'', textValue (cl_audience c)), (''sub'', textValue (cl_subject c)),
       (''tid'', textValue (cl_tenant c)), (''appid'', textValue (cl_appID c)), (''oid'', textValue (cl_objectID c))] @
      omitString ''name'' (jsonString (cl_name c)) @ omitString ''upn'' (jsonString (cl_upn c)) @
      [(''ver'', textValue (cl_version c)), (''iat'', JNumber (itoa (cl_issuedAt c))), (''nbf'', JNumber (itoa (cl_notBefore c))),
       (''exp'', JNumber (itoa (cl_expiry c)))])"

section \<open>Signing\<close>

record aad_env =
  aa_now :: time
  aa_marshal :: "json \<Rightarrow> string"
  aa_rsa :: "rsa_key \<Rightarrow> bytes \<Rightarrow> string + bytes"

definition signingInput :: "aad_env \<Rightarrow> signer \<Rightarrow> claims \<Rightarrow> string" where
  "signingInput env s c =
     rawURLEncode (aa_marshal env (JObject [(''alg'', JString ''RS256''), (''kid'', JString (sg_kid s)), (''typ'', JString ''JWT'')])) @
     ''.'' @ rawURLEncode (aa_marshal env (claimsJSON c))"

definition sign :: "aad_env \<Rightarrow> signer \<Rightarrow> claims \<Rightarrow> string + string" where
  "sign env s c =
     (let input = signingInput env s c in
      and_then (aa_rsa env (sg_key s) (sha256 (bytes_of_string input))) (\<lambda>sig.
        Inr (input @ ''.'' @ rawURLEncode (string_of_bytes sig))))"

section \<open>The token endpoint\<close>

type_synonym form = "(string \<times> string) list"

definition baseURL :: "form request \<Rightarrow> string" where
  "baseURL r = scheme r @ ''://'' @ rq_host r"

definition oauthError :: "int \<Rightarrow> string \<Rightarrow> string \<Rightarrow> json response" where
  "oauthError status code description =
     writeJSON status (JObject [(''error'', JString code), (''error_description'', textValue description)]) []"

definition trimRightSlashes :: "string \<Rightarrow> string" where
  "trimRightSlashes s = rev (dropWhile (\<lambda>c. c = CHR ''/'') (rev s))"

fun scopeTarget :: "string list \<Rightarrow> string" where
  "scopeTarget [] = []"
| "scopeTarget (s # ss) =
     (if s \<in> {''openid'', ''profile'', ''email'', ''offline_access''} then scopeTarget ss
      else trimRightSlashes (trimSuffix (trimSuffix s ''/.default'') ''.default''))"

definition resourceFromScope :: "string \<Rightarrow> string" where
  "resourceFromScope scope = scopeTarget (fieldsOf scope)"

definition formGet :: "form \<Rightarrow> string \<Rightarrow> string" where
  "formGet f k = (case map_of f k of None \<Rightarrow> [] | Some v \<Rightarrow> v)"

definition firstOf :: "string \<Rightarrow> string \<Rightarrow> string" where
  "firstOf a b = (if a = [] then b else a)"

definition formClient :: "form \<Rightarrow> string" where
  "formClient f = firstOf (formGet f ''client_id'') ''00000000-0000-0000-0000-000000000000''"

definition formAudience :: "form request \<Rightarrow> form \<Rightarrow> string" where
  "formAudience r f = firstOf (firstOf (resourceFromScope (formGet f ''scope'')) (formGet f ''resource'')) (baseURL r)"

definition tokenIssuer :: "form request \<Rightarrow> string \<Rightarrow> string" where
  "tokenIssuer r tenant = baseURL r @ ''/'' @ tenant @ ''/v2.0''"

text \<open>The claims of the access token, and of the identity token, whose audience is the client.\<close>

definition accessClaims :: "aad_env \<Rightarrow> form request \<Rightarrow> string \<Rightarrow> form \<Rightarrow> claims" where
  "accessClaims env r tenant f =
     newClaims (aa_now env) (tokenIssuer r tenant) (formAudience r f) tenant (formClient f)
       (formGet f ''username'') (formGet f ''username'')"

definition identityClaims :: "aad_env \<Rightarrow> form request \<Rightarrow> string \<Rightarrow> form \<Rightarrow> claims" where
  "identityClaims env r tenant f =
     newClaims (aa_now env) (tokenIssuer r tenant) (formClient f) tenant (formClient f)
       (formGet f ''username'') (formGet f ''username'')"

definition tokenResponse :: "string \<Rightarrow> string \<Rightarrow> string \<Rightarrow> string \<Rightarrow> json" where
  "tokenResponse access refresh identity scope = JObject
     ([(''token_type'', JString ''Bearer''), (''expires_in'', JNumber (itoa 3600)), (''ext_expires_in'', JNumber (itoa 3600)),
       (''access_token'', JString access)] @ omitString ''refresh_token'' refresh @ omitString ''id_token'' identity @
      omitString ''scope'' (jsonString scope))"

definition handleToken :: "aad_env \<Rightarrow> signer \<Rightarrow> form request \<Rightarrow> string \<Rightarrow> json response" where
  "handleToken env s r tenant =
     (if rq_method r \<noteq> ''POST'' then oauthError 405 ''invalid_request'' ''token endpoint requires POST''
      else case rq_body r of
             Body f \<Rightarrow>
               (case sign env s (accessClaims env r tenant f) of
                  Inl e \<Rightarrow> oauthError 500 ''server_error'' e
                | Inr token \<Rightarrow>
                    let scope = formGet f ''scope'';
                        refresh = (if formGet f ''grant_type'' \<noteq> ''client_credentials'' then ''localaz-refresh-token'' else []);
                        identity = (if indexOf scope ''openid'' \<noteq> None
                                    then (case sign env s (identityClaims env r tenant f) of Inl _ \<Rightarrow> [] | Inr t \<Rightarrow> t) else [])
                    in writeJSON 200 (tokenResponse token refresh identity scope) [])
           | _ \<Rightarrow> oauthError 400 ''invalid_request'' ''malformed form body'')"

section \<open>Discovery and routing\<close>

definition openIDConfig :: "string \<Rightarrow> json" where
  "openIDConfig base = JObject
     [(''issuer'', textValue base), (''authorization_endpoint'', textValue (base @ ''/oauth2/authorize'')),
      (''token_endpoint'', textValue (base @ ''/oauth2/token'')),
      (''device_authorization_endpoint'', textValue (base @ ''/oauth2/devicecode'')),
      (''jwks_uri'', textValue (base @ ''/discovery/keys'')), (''end_session_endpoint'', textValue (base @ ''/oauth2/logout'')),
      (''response_types_supported'', JArray (map JString [''code'', ''id_token'', ''token'', ''code id_token''])),
      (''subject_types_supported'', JArray [JString ''public'']),
      (''id_token_signing_alg_values_supported'', JArray [JString ''RS256'']),
      (''token_endpoint_auth_methods_supported'',
        JArray (map JString [''client_secret_post'', ''client_secret_basic'', ''private_key_jwt''])),
      (''scopes_supported'', JArray (map JString [''openid'', ''profile'', ''email'', ''offline_access''])),
      (''grant_types_supported'', JArray (map JString [''authorization_code'', ''client_credentials'', ''refresh_token'',
        ''password'', ''urn:ietf:params:oauth:grant-type:device_code'']))]"

definition handleOpenIDConfig :: "form request \<Rightarrow> string \<Rightarrow> json response" where
  "handleOpenIDConfig r tenant = writeJSON 200 (openIDConfig (baseURL r @ ''/'' @ tenant)) []"

definition handleJWKS :: "signer \<Rightarrow> json response" where
  "handleJWKS s = writeJSON 200 (jwks s) []"

definition serveAad :: "aad_env \<Rightarrow> signer \<Rightarrow> form request \<Rightarrow> json response" where
  "serveAad env s r =
     (let path = trimSlashes (rq_path r); tenant = hd (splitOn (CHR ''/'') path) in
      if hasSuffix path ''.well-known/openid-configuration'' then handleOpenIDConfig r tenant
      else if indexOf path ''/discovery/'' \<noteq> None \<and> hasSuffix path ''keys'' then handleJWKS s
      else if hasSuffix path ''/oauth2/token'' \<or> hasSuffix path ''/oauth2/v2.0/token'' then handleToken env s r tenant
      else oauthError 404 ''invalid_request'' (''Unknown endpoint: '' @ rq_path r))"

end
