(* ===== verification/Aad_Spec.thy ===== *)
theory Aad_Spec
  imports Aad Pubsub
begin

text \<open>
  What tokens of the Entra ID service are: three parts of which the second is the document of the claims, so that
  the Web PubSub service reads from a token the user it was given to; the issuer they name, against the one the
  discovery document names; and the signing key across restarts.
\<close>

section \<open>The shape of a token\<close>

lemma sextets_dot: "CHR ''.'' \<in> set s \<Longrightarrow> sextets urlAlphabet s = None"
proof (induction s)
  case (Cons c s)
  have "indexByte urlAlphabet (CHR ''.'') = None" by (simp add: indexByte_None urlAlphabet_def)
  then show ?case using Cons by (auto split: option.split)
qed simp

lemma rawURL_no_dot: "CHR ''.'' \<notin> set (rawURLEncode s)"
  using sextets_dot [of "rawURLEncode s"] rawURL_roundtrip [of s] by (auto simp: rawURLDecode_def)

lemma sign_parts:
  assumes "sign env s c = Inr tok"
  obtains h sig where "splitOn (CHR ''.'') tok = [h, rawURLEncode (aa_marshal env (claimsJSON c)), sig]"
proof -
  obtain sig where "tok = signingInput env s c @ ''.'' @ rawURLEncode (string_of_bytes sig)"
    using assms by (auto simp: sign_def and_then_eq_Inr Let_def)
  then show ?thesis
    using that splitOn_append [OF rawURL_no_dot] splitOn_none [OF rawURL_no_dot] by (simp add: signingInput_def)
qed

lemma claim_members:
  "membersNamed ''sub'' (claimsJSON c) = [textValue (cl_subject c)]"
  "membersNamed ''webpubsub.group'' (claimsJSON c) = []"
  by (simp_all add: membersNamed_def claimsJSON_def omitString_def equalFold_def runes_ascii isAscii_def foldRune_def lowerRune_def)

lemma token_claims:
  assumes "sign env s c = Inr tok" and "parse (bytes_of_string (aa_marshal env (claimsJSON c))) = Some (claimsJSON c)"
  shows "parseToken parse tok = \<lparr>tc_subject = jsonString (cl_subject c), tc_groups = []\<rparr>"
proof -
  obtain h sig where "splitOn (CHR ''.'') tok = [h, rawURLEncode (aa_marshal env (claimsJSON c)), sig]"
    using sign_parts [OF assms(1)] .
  then show ?thesis
    using assms(2) by (simp add: parseToken_def rawURL_roundtrip claim_members stringOr_def textValue_def)
qed

text \<open>The member of a document.\<close>

definition member :: "string \<Rightarrow> json response \<Rightarrow> json option" where
  "member k r = (case rs_body r of Some (JObject kvs) \<Rightarrow> map_of kvs k | _ \<Rightarrow> None)"

lemma token_answer:
  assumes "rs_status (handleToken env s r tenant) = 200"
  obtains f tok where "rq_body r = Body f" and "sign env s (accessClaims env r tenant f) = Inr tok"
    and "member ''access_token'' (handleToken env s r tenant) = Some (JString tok)"
proof -
  obtain f where f: "rq_method r = ''POST''" "rq_body r = Body f"
    using assms by (auto simp: handleToken_def oauthError_def writeJSON_def split: if_splits body.splits)
  obtain tok where tok: "sign env s (accessClaims env r tenant f) = Inr tok"
    using assms f by (cases "sign env s (accessClaims env r tenant f)") (auto simp: handleToken_def oauthError_def writeJSON_def)
  have "member ''access_token'' (handleToken env s r tenant) = Some (JString tok)"
    using f tok by (simp add: handleToken_def Let_def member_def writeJSON_def tokenResponse_def)
  then show ?thesis using that f tok by blast
qed

section \<open>Properties\<close>

text \<open>C36: A client that connects to the Web PubSub service with a token it got from the Entra ID service
  gets the identity it asked the token for: the user name of the form, or the client identifier without one.\<close>

theorem token_identity:
  assumes "rq_body r = Body f" and "rs_status (handleToken env s r tenant) = 200"
    and "parse (bytes_of_string (aa_marshal env (claimsJSON (accessClaims env r tenant f)))) = Some (claimsJSON (accessClaims env r tenant f))"
  shows "\<exists>tok. member ''access_token'' (handleToken env s r tenant) = Some (JString tok) \<and>
    parseToken parse tok =
      \<lparr>tc_subject = jsonString (if formGet f ''username'' \<noteq> [] then formGet f ''username'' else formClient f), tc_groups = []\<rparr>"
proof -
  obtain f' tok where "rq_body r = Body f'" "sign env s (accessClaims env r tenant f') = Inr tok"
      "member ''access_token'' (handleToken env s r tenant) = Some (JString tok)"
    using token_answer [OF assms(2)] by blast
  then show ?thesis
    using assms(1) token_claims [where c = "accessClaims env r tenant f" and env = env and s = s and tok = tok and parse = parse, OF _ assms(3)] by (simp add: accessClaims_def newClaims_def)
qed


text \<open>C37: A start without a key file that succeeds leaves a file from which every later start makes the
  same signer, so that tokens keep their key and its name.\<close>

theorem signing_key_survives:
  assumes "signerFromFileOrNew lib path NoKeyFile = (Inr s, file)"
    and "\<forall>der. kl_pemDecode lib' (kl_pemEncode lib der) = Some der"
    and "\<forall>key der. kl_marshal lib key = Inr der \<longrightarrow> kl_parse lib' der = Inr (RSAKey key)"
  shows "\<exists>bs. file = Some bs \<and> signerFromFileOrNew lib' path' (KeyFile bs) = (Inr s, None)"
proof -
  obtain key der where key: "s = signerFromKey key" and der: "kl_marshal lib key = Inr der" "file = Some (kl_pemEncode lib der)"
    using assms(1) by (auto simp: signerFromFileOrNew_def newSigner_def signerFromKey_def split: sum.splits option.splits)
  then show ?thesis using assms(2, 3) by (simp add: signerFromFileOrNew_def)
qed

section \<open>A run\<close>

definition sample_key :: rsa_key where
  "sample_key = \<lparr>rk_modulus = [1], rk_exponent = 65537, rk_private = []\<rparr>"

definition sample_env :: aad_env where
  "sample_env = \<lparr>aa_now = 0, aa_marshal = (\<lambda>_. ''{}''), aa_rsa = (\<lambda>_ _. Inr [])\<rparr>"

definition sample_request :: "form request" where
  "sample_request = \<lparr>rq_method = ''POST'', rq_path = ''/adfs/oauth2/token'', rq_query = [], rq_headers = [], rq_host = ''h'',
     rq_tls = False, rq_body = Body [(''username'', ''u'')]\<rparr>"

lemma sample_answer: "rs_status (handleToken sample_env s sample_request ''adfs'') = 200"
  by (simp add: handleToken_def sample_request_def sign_def sample_env_def writeJSON_def Let_def)

theorem token_identity_witness:
  "\<exists>parse tok. member ''access_token'' (handleToken sample_env (signerFromKey sample_key) sample_request ''adfs'') = Some (JString tok) \<and>
     parseToken parse tok = \<lparr>tc_subject = ''u'', tc_groups = []\<rparr>"
proof -
  let ?c = "accessClaims sample_env sample_request ''adfs'' [(''username'', ''u'')]"
  have "jsonString ''u'' = ''u''" by (rule jsonString_ascii) (simp add: isAscii_def)
  then show ?thesis
    using token_identity [of sample_request "[(''username'', ''u'')]" sample_env "signerFromKey sample_key" "''adfs''"
        "\<lambda>_. Some (claimsJSON ?c)", OF _ sample_answer]
    by (auto simp: sample_request_def formGet_def)
qed


theorem signing_key_survives_witness:
  "\<exists>(lib :: key_lib) bs. signerFromFileOrNew lib [] (KeyFile bs) = (Inr (signerFromKey sample_key), None)"
proof -
  define lib :: key_lib where
    "lib = \<lparr>kl_generate = Inr sample_key, kl_pemDecode = Some, kl_pemEncode = (\<lambda>der. der),
       kl_parse = (\<lambda>_. Inr (RSAKey sample_key)), kl_marshal = (\<lambda>k. if k = sample_key then Inr [7] else Inl ''unknown''),
       kl_mkdir = None, kl_write = None\<rparr>"
  have "signerFromFileOrNew lib [] NoKeyFile = (Inr (signerFromKey sample_key), Some [7])"
    by (simp add: signerFromFileOrNew_def newSigner_def lib_def signerFromKey_def)
  then have "\<exists>bs. Some [7] = Some bs \<and> signerFromFileOrNew lib [] (KeyFile bs) = (Inr (signerFromKey sample_key), None)"
    by (rule signing_key_survives) (auto simp: lib_def split: if_splits)
  then show ?thesis by blast
qed

end
