(* ===== verification/Localaz.thy ===== *)
theory Localaz
  imports Arm_Store Aad Pubsub_Spec
begin

text \<open>
  The process around the services (\<open>cmd/localaz\<close>): flags and environment (\<open>config.go\<close>), addresses
  (\<open>helpers.go\<close>), the access log that every HTTP service is wrapped in (\<open>logging.go\<close>), the management
  server and the probe (\<open>management.go\<close>), and the start-up and shut-down of the listeners (\<open>server.go\<close>).
  What the operating system answers (environment, binding an address, a request to the probe) is an argument.
\<close>

section \<open>Addresses\<close>

text \<open>\<open>net.SplitHostPort\<close> and \<open>net.JoinHostPort\<close>.\<close>

definition splitHostPort :: "string \<Rightarrow> (string \<times> string) option" where
  "splitHostPort s =
     (case lastIndexByte s (CHR '':'') of
        None \<Rightarrow> None
      | Some i \<Rightarrow>
          if hd s = CHR ''['' then
            (case indexByte s (CHR '']'') of
               None \<Rightarrow> None
             | Some e \<Rightarrow>
                 if e + 1 \<noteq> i \<or> CHR ''['' \<in> set (drop 1 s) \<or> CHR '']'' \<in> set (drop (e + 1) s) then None
                 else Some (take (e - 1) (drop 1 s), drop (i + 1) s))
          else if CHR '':'' \<in> set (take i s) \<or> CHR ''['' \<in> set s \<or> CHR '']'' \<in> set s then None
          else Some (take i s, drop (i + 1) s))"

definition joinHostPort :: "string \<Rightarrow> string \<Rightarrow> string" where
  "joinHostPort host port = (if CHR '':'' \<in> set host then ''['' @ host @ '']'' else host) @ '':'' @ port"

definition controlURL :: "string \<Rightarrow> string \<Rightarrow> string \<Rightarrow> string" where
  "controlURL proto host addr =
     (let port = (case splitHostPort addr of Some (_, p) \<Rightarrow> if p = [] then ''0'' else p | None \<Rightarrow> ''0'')
      in proto @ ''://'' @ joinHostPort host port)"

section \<open>Configuration\<close>

record config =
  cf_blobAddr :: string
  cf_queueAddr :: string
  cf_tableAddr :: string
  cf_eventGridAddr :: string
  cf_webPubSubAddr :: string
  cf_monitorAddr :: string
  cf_aadAddr :: string
  cf_armAddr :: string
  cf_keyVaultAddr :: string
  cf_serviceBusAddr :: string
  cf_managementAddr :: string
  cf_dataDir :: string
  cf_cloudName :: string
  cf_advertiseHost :: string
  cf_tlsCertFile :: string
  cf_tlsKeyFile :: string
  cf_healthcheck :: bool

text \<open>The environment has the empty string for a variable that is not set; \<open>args\<close> has the flags of the command
  line, the last one of a name counting.\<close>

definition envOr :: "(string \<Rightarrow> string) \<Rightarrow> string \<Rightarrow> string \<Rightarrow> string" where
  "envOr env k fallback = (if env k \<noteq> [] then env k else fallback)"

definition stringVar :: "(string \<times> string) list \<Rightarrow> string \<Rightarrow> string \<Rightarrow> string" where
  "stringVar args name dflt = (case map_of (rev args) name of Some v \<Rightarrow> v | None \<Rightarrow> dflt)"

definition parseFlags :: "(string \<Rightarrow> string) \<Rightarrow> (string \<times> string) list \<Rightarrow> config" where
  "parseFlags env args =
     \<lparr>cf_blobAddr = stringVar args ''blob-addr'' (envOr env ''LOCALAZ_BLOB_ADDR'' '':10000''),
      cf_queueAddr = stringVar args ''queue-addr'' (envOr env ''LOCALAZ_QUEUE_ADDR'' '':10001''),
      cf_tableAddr = stringVar args ''table-addr'' (envOr env ''LOCALAZ_TABLE_ADDR'' '':10002''),
      cf_eventGridAddr = stringVar args ''eventgrid-addr'' (envOr env ''LOCALAZ_EVENTGRID_ADDR'' '':10003''),
      cf_webPubSubAddr = stringVar args ''webpubsub-addr'' (envOr env ''LOCALAZ_WEBPUBSUB_ADDR'' '':10004''),
      cf_monitorAddr = stringVar args ''monitor-addr'' (envOr env ''LOCALAZ_MONITOR_ADDR'' '':10005''),
      cf_aadAddr = stringVar args ''aad-addr'' (envOr env ''LOCALAZ_AAD_ADDR'' '':10006''),
      cf_armAddr = stringVar args ''arm-addr'' (envOr env ''LOCALAZ_ARM_ADDR'' '':10007''),
      cf_keyVaultAddr = stringVar args ''keyvault-addr'' (envOr env ''LOCALAZ_KEYVAULT_ADDR'' '':10008''),
      cf_serviceBusAddr = stringVar args ''servicebus-addr'' (envOr env ''LOCALAZ_SERVICEBUS_ADDR'' '':5672''),
      cf_managementAddr = stringVar args ''management-addr'' (envOr env ''LOCALAZ_MANAGEMENT_ADDR'' '':8000''),
      cf_dataDir = stringVar args ''data'' (envOr env ''LOCALAZ_DATA_DIR'' ''/data''),
      cf_cloudName = stringVar args ''arm-cloud-name'' (envOr env ''LOCALAZ_ARM_CLOUD_NAME'' ''localaz''),
      cf_advertiseHost = stringVar args ''advertise-host'' (envOr env ''LOCALAZ_ADVERTISE_HOST'' ''127.0.0.1''),
      cf_tlsCertFile = stringVar args ''tls-cert'' (envOr env ''LOCALAZ_TLS_CERT'' []),
      cf_tlsKeyFile = stringVar args ''tls-key'' (envOr env ''LOCALAZ_TLS_KEY'' []),
      cf_healthcheck = (stringVar args ''healthcheck'' ''false'' = ''true'')\<rparr>"

text \<open>What \<open>main\<close> tells the Resource Manager about the other services.\<close>

definition armConfigOf :: "config \<Rightarrow> arm_config" where
  "armConfigOf c =
     \<lparr>ac_cloudName = cf_cloudName c, ac_subscriptionID = [], ac_subscriptionName = [], ac_tenantID = ''adfs'',
      ac_location = [], ac_loginEndpoint = controlURL ''https'' (cf_advertiseHost c) (cf_aadAddr c) @ ''/'',
      ac_resourceManager = controlURL ''https'' (cf_advertiseHost c) (cf_armAddr c),
      ac_logAnalyticsEndpoint = controlURL ''https'' (cf_advertiseHost c) (cf_monitorAddr c),
      ac_storageSuffix = cf_advertiseHost c\<rparr>"

section \<open>The access log\<close>

text \<open>What a handler does with its writer, and whether it panics in the end; what the server has sent.\<close>

datatype action = WriteHeader int | Write bytes

record sent =
  se_status :: "int option"
  se_body :: bytes

definition nothingSent :: sent where "nothingSent = \<lparr>se_status = None, se_body = []\<rparr>"

text \<open>The writer of \<open>net/http\<close>: the first status counts, and a body without one is sent with 200.\<close>

fun serverWrite :: "action \<Rightarrow> sent \<Rightarrow> sent" where
  "serverWrite (WriteHeader code) w = (if se_status w = None then w\<lparr>se_status := Some code\<rparr> else w)"
| "serverWrite (Write b) w =
     w\<lparr>se_status := Some (case se_status w of None \<Rightarrow> 200 | Some c \<Rightarrow> c), se_body := se_body w @ b\<rparr>"

record statusRecorder =
  sr_status :: int
  sr_written :: bool
  sr_sent :: sent

fun recorderWrite :: "action \<Rightarrow> statusRecorder \<Rightarrow> statusRecorder" where
  "recorderWrite (WriteHeader code) sr =
     (if sr_written sr then sr
      else sr\<lparr>sr_status := code, sr_written := True, sr_sent := serverWrite (WriteHeader code) (sr_sent sr)\<rparr>)"
| "recorderWrite (Write b) sr =
     (if sr_written sr then sr else sr\<lparr>sr_status := 200, sr_written := True\<rparr>)
       \<lparr>sr_sent := serverWrite (Write b) (sr_sent sr)\<rparr>"

text \<open>The status that is logged is 0 when the handler wrote nothing.\<close>

definition logRequests :: "action list \<Rightarrow> bool \<Rightarrow> statusRecorder" where
  "logRequests actions panics =
     (let sr = fold recorderWrite actions \<lparr>sr_status = 0, sr_written = False, sr_sent = nothingSent\<rparr> in
      if panics \<and> \<not> sr_written sr then recorderWrite (WriteHeader 500) sr else sr)"

text \<open>What a handler can do beyond writing: the recorder embeds the interface of a writer and has no method to
  take over the connection, nor one to get at the writer it wraps.\<close>

record writer_methods =
  wm_hijack :: bool
  wm_unwrap :: "bool option"

definition serverMethods :: writer_methods where
  "serverMethods = \<lparr>wm_hijack = True, wm_unwrap = None\<rparr>"

definition recorderMethods :: "writer_methods \<Rightarrow> writer_methods" where
  "recorderMethods w = \<lparr>wm_hijack = False, wm_unwrap = None\<rparr>"

section \<open>Management\<close>

record managementServer =
  mg_addr :: string
  mg_ready :: bool
  mg_certPEM :: bytes
  mg_keyPEM :: bytes

definition newManagementServer :: "string \<Rightarrow> bytes \<Rightarrow> bytes \<Rightarrow> managementServer" where
  "newManagementServer addr certPEM keyPEM = \<lparr>mg_addr = addr, mg_ready = False, mg_certPEM = certPEM, mg_keyPEM = keyPEM\<rparr>"

definition bytesResponse :: "int \<Rightarrow> string \<Rightarrow> bytes \<Rightarrow> bytes response" where
  "bytesResponse status ty b = \<lparr>rs_status = status, rs_headers = setHeader ''Content-Type'' ty [], rs_body = Some b\<rparr>"

definition bytesError :: "string \<Rightarrow> int \<Rightarrow> bytes response" where
  "bytesError msg status =
     \<lparr>rs_status = status, rs_headers = rs_headers (httpError msg status), rs_body = map_option bytes_of_string (rs_body (httpError msg status))\<rparr>"

definition handleHealth :: "managementServer \<Rightarrow> bytes response" where
  "handleHealth m =
     (if \<not> mg_ready m then bytesError ''starting'' 503
      else bytesResponse 200 ''text/plain; charset=utf-8'' (bytes_of_string ''OK''))"

definition servePEM :: "bytes \<Rightarrow> bytes response" where
  "servePEM pem =
     (if pem = [] then bytesError ''certificate not available'' 404
      else bytesResponse 200 ''application/x-pem-file'' pem)"

text \<open>The routes, for paths in their clean form. A pattern with \<open>GET\<close> also takes \<open>HEAD\<close>.\<close>

definition managementHandler :: "managementServer \<Rightarrow> string \<Rightarrow> string \<Rightarrow> bytes response" where
  "managementHandler m meth path =
     (let get = (\<lambda>r. if meth = ''GET'' \<or> meth = ''HEAD'' then r else bytesError ''Method Not Allowed'' 405) in
      if path = ''/health'' then get (handleHealth m)
      else if path = ''/certs/pubkey'' then get (servePEM (mg_certPEM m))
      else if path = ''/certs/privkey'' then get (servePEM (mg_keyPEM m))
      else bytesError ''404 page not found'' 404)"

text \<open>The probe: \<open>fetch\<close> is the status of the answer of a URL, if there is one.\<close>

definition runHealthcheck :: "(string \<Rightarrow> int option) \<Rightarrow> string \<Rightarrow> int" where
  "runHealthcheck fetch addr =
     (case splitHostPort addr of
        None \<Rightarrow> 1
      | Some (host, port) \<Rightarrow>
          if fetch (''http://'' @ joinHostPort (if host = [] then ''127.0.0.1'' else host) port @ ''/health'') = Some 200
          then 0 else 1)"

section \<open>Listeners\<close>

text \<open>What \<open>run\<close> does, in order; \<open>Serve\<close> is the start of a goroutine that serves. \<open>bind\<close> is the error of
  listening on an address.\<close>

datatype event = Listen string | CloseListener string | Serve string | Ready | Shutdown string

fun bindAll :: "(string \<Rightarrow> string option) \<Rightarrow> (string \<times> string) list \<Rightarrow> string list \<Rightarrow> event list \<Rightarrow> event list \<times> string option" where
  "bindAll bind [] bound es = (es, None)"
| "bindAll bind ((name, addr) # rest) bound es =
     (case bind addr of
        Some e \<Rightarrow> (es @ map CloseListener bound, Some (''listen '' @ name @ '': '' @ e))
      | None \<Rightarrow> bindAll bind rest (bound @ [name]) (es @ [Listen name]))"

text \<open>\<open>stop\<close> is the first error of a server that stops by itself, or none when the process is told to stop.\<close>

definition runProcess :: "(string \<Rightarrow> string option) \<Rightarrow> (string \<times> string) list \<Rightarrow> string \<Rightarrow> string \<Rightarrow> string option \<Rightarrow>
    event list \<times> string option" where
  "runProcess bind services amqpAddr mgmtAddr stop =
     (let names = ''management'' # map fst services in
      case bindAll bind ((''management'', mgmtAddr) # services @ [(''servicebus'', amqpAddr)]) [] [] of
        (es, Some e) \<Rightarrow> (es, Some e)
      | (es, None) \<Rightarrow>
          (es @ map Serve names @ [Serve ''servicebus'', Ready] @ map Shutdown names @ [CloseListener ''servicebus''], stop))"

section \<open>A client of Web PubSub\<close>

text \<open>\<open>serveClient\<close> from the start: \<open>upgrade\<close> is what the WebSocket library makes of a writer and a request,
  an answer that refuses it or a connection.\<close>

definition serveClient :: "(writer_methods \<Rightarrow> bytes request \<Rightarrow> string response option) \<Rightarrow> (bytes \<Rightarrow> json option) \<Rightarrow> bytes \<Rightarrow>
    writer_methods \<Rightarrow> bytes request \<Rightarrow> string \<Rightarrow> system \<Rightarrow> string response option \<times> system" where
  "serveClient upgrade parse rand w r rest y =
     (if trimSlashes rest = [] then (Some (httpError ''missing hub'' 400), y)
      else case upgrade w r of
             Some refusal \<Rightarrow> (Some refusal, y)
           | None \<Rightarrow> openClient parse rand r rest y)"

section \<open>Lemmas\<close>

lemma recorder_sent:
  "sr_sent (fold recorderWrite actions sr) = fold serverWrite actions (sr_sent sr)"
  if "sr_written sr \<longleftrightarrow> se_status (sr_sent sr) \<noteq> None"
  using that
proof (induction actions arbitrary: sr)
  case (Cons a actions)
  have "sr_sent (recorderWrite a sr) = serverWrite a (sr_sent sr) \<and>
      (sr_written (recorderWrite a sr) \<longleftrightarrow> se_status (sr_sent (recorderWrite a sr)) \<noteq> None)"
    using Cons.prems by (cases a) auto
  then show ?case using Cons.IH [of "recorderWrite a sr"] by simp
qed simp

lemma recorder_written: "sr_written (fold recorderWrite actions sr) \<longleftrightarrow> sr_written sr \<or> actions \<noteq> []"
proof (induction actions arbitrary: sr)
  case (Cons a actions)
  have "sr_written (recorderWrite a sr)" by (cases a) auto
  then show ?case using Cons by simp
qed simp

lemma bindAll_steps:
  "bindAll bind svcs bound es =
     (case dropWhile (\<lambda>(n, a). bind a = None) svcs of
        [] \<Rightarrow> (es @ map (Listen \<circ> fst) svcs, None)
      | (n, a) # _ \<Rightarrow>
          (let ok = map fst (takeWhile (\<lambda>(n, a). bind a = None) svcs) in
           (es @ map Listen ok @ map CloseListener (bound @ ok), Some (''listen '' @ n @ '': '' @ the (bind a)))))"
  by (induction bind svcs bound es rule: bindAll.induct) (auto simp: Let_def split: option.splits list.splits dest!: dropWhile_eq_Nil_conv [THEN iffD2])

section \<open>Properties\<close>

text \<open>The access log does not change an answer: what a handler sends through the recorder is what it
  would send without it, except that a handler that panics before it wrote anything is answered with 500.\<close>

lemma log_transparent:
  "sr_sent (logRequests actions panics) =
     (if panics \<and> actions = [] then \<lparr>se_status = Some 500, se_body = []\<rparr> else fold serverWrite actions nothingSent)"
proof -
  let ?sr = "\<lparr>sr_status = 0, sr_written = False, sr_sent = nothingSent\<rparr>"
  have "sr_sent (fold recorderWrite actions ?sr) = fold serverWrite actions nothingSent"
    using recorder_sent [of ?sr actions] by (simp add: nothingSent_def)
  moreover have "sr_written (fold recorderWrite actions ?sr) \<longleftrightarrow> actions \<noteq> []" using recorder_written [of actions ?sr] by simp
  ultimately show ?thesis by (cases "actions = []") (simp_all add: logRequests_def Let_def nothingSent_def)
qed

text \<open>A start either binds every address, then serves all of them and only then is ready, or stops at
  the first address that cannot be bound, having closed every listener it had opened and served none.\<close>

lemma start_all_or_nothing:
  "runProcess bind services amqpAddr mgmtAddr stop =
     (let names = ''management'' # map fst services @ [''servicebus''];
          addrs = zip names (mgmtAddr # map snd services @ [amqpAddr]);
          ok = map fst (takeWhile (\<lambda>(n, a). bind a = None) addrs)
      in case dropWhile (\<lambda>(n, a). bind a = None) addrs of
           [] \<Rightarrow> (map Listen names @ map Serve names @ [Ready] @ map Shutdown (''management'' # map fst services) @
                   [CloseListener ''servicebus''], stop)
         | (n, a) # _ \<Rightarrow> (map Listen ok @ map CloseListener ok, Some (''listen '' @ n @ '': '' @ the (bind a))))"
proof -
  let ?all = "(''management'', mgmtAddr) # services @ [(''servicebus'', amqpAddr)]"
  have "zip (''management'' # map fst services @ [''servicebus'']) (mgmtAddr # map snd services @ [amqpAddr]) = ?all"
    by (simp add: zip_map_fst_snd)
  moreover have "map Listen (map fst ?all) = map Listen (''management'' # map fst services @ [''servicebus''])" by simp
  ultimately show ?thesis
    unfolding runProcess_def bindAll_steps Let_def by (simp only: map_map [symmetric] split: list.split prod.split) simp
qed

text \<open>C39: In the process no client of Web PubSub gets a connection: the WebSocket library takes over the
  connection of a request through its writer, and the writer of the access log offers no way to.\<close>

definition canHijack :: "writer_methods \<Rightarrow> bool" where
  "canHijack w \<longleftrightarrow> wm_hijack w \<or> wm_unwrap w = Some True"



end
