(* ===== verification/Snapshot.thy ===== *)
theory Snapshot
  imports Go_Files Go_Utf8 Go_Time Go_Encoding
begin

text \<open>
  How the queue, table and secret stores persist: each operation that changes something writes the whole
  state as one JSON document, through \<open>atomicfile.Write\<close>, and ignores errors; \<open>New\<close> reads the document
  back. The three packages have the same code for this with names of their own. Here are the parts they
  share: what JSON keeps of maps and times, the file, the stores with their disk, and, as a locale, that
  what every later moment sees of a store is what it sees of the store a restart makes.
\<close>

section \<open>Documents\<close>

text \<open>A map is written in the order of its keys and read back entry after entry; of keys that become the
  same text the last one stays.\<close>

definition jsonObject :: "('v \<Rightarrow> 'w) \<Rightarrow> (string, 'v) go_map \<Rightarrow> (string, 'w) go_map" where
  "jsonObject f m = sort_key fst (fold (\<lambda>(k, v). AList.update (jsonString k) (f v)) (sort_key fst m) [])"

definition utf8 :: "string \<Rightarrow> bool" where
  "utf8 s \<longleftrightarrow> jsonString s = s"

lemma utf8_ascii: "isAscii s \<Longrightarrow> utf8 s"
  by (simp add: utf8_def jsonString_ascii)

lemma ascii_nth: "isAscii al \<Longrightarrow> n < length al \<Longrightarrow> of_char (al ! n) < (128 :: nat)"
  unfolding isAscii_def by simp

lemma ascii_hexString: "isAscii (hexString bs)"
proof (induction bs)
  case (Cons b bs)
  have "unat b div 16 < 16" using unsigned_less [of b, where ?'a = nat] by (simp add: less_mult_imp_div_less)
  moreover have "isAscii ''0123456789abcdef''" by (simp add: isAscii_def)
  ultimately have "of_char (hexChar (unat b div 16)) < (128 :: nat)" "of_char (hexChar (unat b mod 16)) < (128 :: nat)"
    using ascii_nth [of "''0123456789abcdef''"] by (simp_all add: hexChar_def)
  then show ?case using Cons by (simp add: hexString_Cons hexByte_def isAscii_def)
qed (simp add: hexString_def isAscii_def)

lemma ascii_uuidString: "isAscii (uuidString b)"
  using ascii_hexString by (auto simp: uuidString_def Let_def isAscii_def)

lemma ascii_stdEncode: "isAscii (stdEncode b)"
proof -
  have "unat c < 256" for c :: u8 using unsigned_less [of c, where ?'a = nat] by simp
  then have "\<forall>n \<in> set (map unat b). n < (256 :: nat)" by simp
  then have small: "\<forall>n \<in> set (sextetsOf (map unat b)). n < 64" by (rule sextetsOf_bound)
  have "isAscii stdAlphabet" "length stdAlphabet = 64" by (simp_all add: stdAlphabet_def isAscii_def)
  then have "\<forall>n \<in> set (sextetsOf (map unat b)). of_char (stdAlphabet ! n) < (128 :: nat)"
    using small ascii_nth by simp
  then show ?thesis by (auto simp: stdEncode_def base64_eq isAscii_def)
qed

definition utf8_keys :: "(string, 'v) go_map \<Rightarrow> bool" where
  "utf8_keys m \<longleftrightarrow> (\<forall>(k, v) \<in> set m. utf8 k)"

lemma map_of_sort_key: "distinct_keys m \<Longrightarrow> map_of (sort_key fst m) = map_of m"
  by (rule map_of_eqI) (auto simp: distinct_keys_def map_of_eq_None_iff map_of_inject_set)

lemma jsonObject_eq:
  assumes "distinct_keys m" and "utf8_keys m"
  shows "jsonObject f m = map (\<lambda>(k, v). (k, f v)) (sort_key fst m)"
proof -
  let ?m = "sort_key fst m"
  have "fold (\<lambda>(k, v). AList.update (jsonString k) (f v)) ?m [] = fold (\<lambda>(k, v). AList.update k (f v)) ?m []"
    using assms(2) by (intro fold_cong) (auto simp: utf8_keys_def utf8_def)
  also have "\<dots> = fold (\<lambda>(k, v). AList.update k v) (map (\<lambda>(k, v). (k, f v)) ?m) []"
    by (simp add: fold_map comp_def case_prod_unfold)
  also have "\<dots> = map (\<lambda>(k, v). (k, f v)) ?m"
    using fold_update_fresh [of "[]" "map (\<lambda>(k, v). (k, f v)) ?m"] assms(1)
    by (simp add: distinct_keys_def comp_def case_prod_beta)
  finally show ?thesis
    by (simp add: jsonObject_def sort_key_id_if_sorted comp_def case_prod_beta)
qed

lemma map_of_jsonObject:
  "distinct_keys m \<Longrightarrow> utf8_keys m \<Longrightarrow> map_of (jsonObject f m) k = map_option f (map_of m k)"
  using map_of_sort_key [of m] by (simp add: jsonObject_eq map_of_map)

lemma set_jsonObject:
  "distinct_keys m \<Longrightarrow> utf8_keys m \<Longrightarrow> set (jsonObject f m) = (\<lambda>(k, v). (k, f v)) ` set m"
  by (simp add: jsonObject_eq)

lemma jsonObject_keys:
  "distinct_keys m \<Longrightarrow> utf8_keys m \<Longrightarrow> distinct_keys (jsonObject f m) \<and> utf8_keys (jsonObject f m)"
  by (auto simp: jsonObject_eq distinct_keys_def utf8_keys_def comp_def case_prod_beta)

text \<open>Two levels of maps.\<close>

definition utf8_nested :: "(string, string, 'v) nested \<Rightarrow> bool" where
  "utf8_nested s \<longleftrightarrow> nested_ok s \<and> utf8_keys s \<and> (\<forall>a. utf8_keys (inner a s))"

lemma inner_jsonObject:
  "distinct_keys s \<Longrightarrow> utf8_keys s \<Longrightarrow> inner a (jsonObject (jsonObject f) s) =
     (if map_of s a = None then [] else jsonObject f (inner a s))"
  by (simp add: inner_def map_of_jsonObject split: option.split)

lemma lookup2_jsonObject:
  assumes "utf8_nested s"
  shows "lookup2 (jsonObject (jsonObject f) s) k = map_option f (lookup2 s k)"
proof -
  obtain a n where k: "k = (a, n)" by (cases k)
  have keys: "distinct_keys s" "utf8_keys s" "distinct_keys (inner a s)" "utf8_keys (inner a s)"
    using assms by (simp_all add: utf8_nested_def nested_ok_def)
  show ?thesis
    using map_of_jsonObject [OF keys(3, 4), of f n]
    by (simp add: k lookup2_def inner_jsonObject [OF keys(1, 2)]) (simp add: inner_def split: option.split)
qed

lemma utf8_nested_jsonObject:
  assumes "utf8_nested s"
  shows "utf8_nested (jsonObject (jsonObject f) s)"
proof -
  have keys: "distinct_keys s" "utf8_keys s" "distinct_keys (inner a s)" "utf8_keys (inner a s)" for a
    using assms by (simp_all add: utf8_nested_def nested_ok_def)
  have "distinct_keys (inner a (jsonObject (jsonObject f) s)) \<and> utf8_keys (inner a (jsonObject (jsonObject f) s))" for a
    using keys jsonObject_keys [of "inner a s" f] by (simp add: inner_jsonObject utf8_keys_def)
  then show ?thesis
    using jsonObject_keys [OF keys(1, 2)] by (simp add: utf8_nested_def nested_ok_def)
qed

lemma utf8_keys_update: "utf8_keys m \<Longrightarrow> utf8 k \<Longrightarrow> utf8_keys (AList.update k v m)"
  using set_update_subset [of k v m] by (fastforce simp: utf8_keys_def)

lemma utf8_keys_delete: "utf8_keys m \<Longrightarrow> utf8_keys (AList.delete k m)"
  using set_delete_subset [of k m] by (fastforce simp: utf8_keys_def)

lemma utf8_nested_inner:
  "utf8_nested s \<Longrightarrow> utf8 a \<Longrightarrow> distinct_keys m \<Longrightarrow> utf8_keys m \<Longrightarrow> utf8_nested (AList.update a m s)"
  by (simp add: utf8_nested_def nested_ok_def store_simps utf8_keys_update)

lemma utf8_nested_update2:
  "utf8_nested s \<Longrightarrow> utf8 a \<Longrightarrow> utf8 n \<Longrightarrow> utf8_nested (update2 (a, n) v s)"
  unfolding update2_def prod.case
  by (rule utf8_nested_inner) (simp_all add: utf8_nested_def nested_ok_def utf8_keys_update)

lemma utf8_nested_remove:
  "utf8_nested s \<Longrightarrow> utf8 a \<Longrightarrow> utf8_nested (AList.update a (AList.delete n (inner a s)) s)"
  by (rule utf8_nested_inner) (simp_all add: utf8_nested_def nested_ok_def utf8_keys_delete)

lemma utf8_nested_Nil [simp]: "utf8_nested []"
  by (simp add: utf8_nested_def utf8_keys_def)

lemma utf8_keys_of: "utf8_keys m \<Longrightarrow> map_of m k = Some v \<Longrightarrow> utf8 k"
  unfolding utf8_keys_def by (drule map_of_SomeD) fast

lemma utf8_known:
  assumes "utf8_nested s" and "lookup2 s (a, n) = Some v"
  shows "utf8 a \<and> utf8 n"
proof -
  obtain m where "map_of s a = Some m" using assms(2) by (auto simp: lookup2_def inner_def split: option.splits)
  moreover have "map_of (inner a s) n = Some v" using assms(2) by (simp add: lookup2_def)
  ultimately show ?thesis
    using assms(1) utf8_keys_of [of s a m] utf8_keys_of [of "inner a s" n v] by (simp add: utf8_nested_def)
qed

lemma nested_member: "nested_ok s \<Longrightarrow> (a, m) \<in> set s \<Longrightarrow> (n, v) \<in> set m \<Longrightarrow> lookup2 s (a, n) = Some v"
proof -
  assume ok: "nested_ok s" and "(a, m) \<in> set s" "(n, v) \<in> set m"
  then have "map_of s a = Some m" by (simp add: nested_ok_def map_of_in_set)
  then have "inner a s = m" by (simp add: inner_def)
  moreover have "distinct_keys (inner a s)" using ok by (simp add: nested_ok_def)
  ultimately show "lookup2 s (a, n) = Some v" using \<open>(n, v) \<in> set m\<close> by (simp add: lookup2_def map_of_in_set)
qed

lemma utf8_nested_delete: "utf8_nested s \<Longrightarrow> utf8_nested (AList.delete a s)"
  by (auto simp: utf8_nested_def nested_ok_def utf8_keys_delete inner_def store_simps utf8_keys_def [of "[]"])

text \<open>\<open>time.Time\<close> refuses to be written when its year has not four digits.\<close>

definition yearOf :: "time \<Rightarrow> int" where
  "yearOf t = fst (civil (t div (86400 * second)))"

definition fourDigitYear :: "time \<Rightarrow> bool" where
  "fourDigitYear t \<longleftrightarrow> 0 \<le> yearOf t \<and> yearOf t \<le> 9999"

lemma fourDigitYear_zero: "fourDigitYear zeroTime"
  by code_simp

section \<open>The file\<close>

text \<open>What a snapshot file holds: nothing, a document, or text that decoding refuses with an error.\<close>

datatype 's snapshot = NoBytes | Document 's | Malformed string

text \<open>\<open>load\<close>: a missing or empty file leaves the state as it is.\<close>

definition loadSnapshot :: "string \<Rightarrow> os \<Rightarrow> path \<Rightarrow> 's snapshot disk \<Rightarrow> 's \<Rightarrow> string + 's" where
  "loadSnapshot pkg os p d s =
     (if \<not> os_fails os OsOpen p \<and> map_of d p = None then Inr s
      else case readFile os p d of
             Inl e \<Rightarrow> Inl (pkg @ '': read snapshot: '' @ e)
           | Inr NoBytes \<Rightarrow> Inr s
           | Inr (Document t) \<Rightarrow> Inr t
           | Inr (Malformed e) \<Rightarrow> Inl e)"

text \<open>\<open>persistLocked\<close>: errors of encoding and of writing are dropped.\<close>

definition persistSnapshot :: "('s \<Rightarrow> bool) \<Rightarrow> ('s \<Rightarrow> 's) \<Rightarrow> os \<Rightarrow> path \<Rightarrow> 's \<Rightarrow> 's snapshot disk \<Rightarrow> 's snapshot disk" where
  "persistSnapshot writable kept os p s d = (if writable s then snd (writeAtomic os p (Document (kept s)) d) else d)"

record 's stored =
  st_path :: path
  st_state :: 's
  st_disk :: "'s snapshot disk"

text \<open>\<open>New\<close>, with the state an empty store has.\<close>

definition openSnapshot :: "(os \<Rightarrow> path \<Rightarrow> 's snapshot disk \<Rightarrow> 's \<Rightarrow> string + 's) \<Rightarrow> string \<Rightarrow> string \<Rightarrow> string \<Rightarrow> 's \<Rightarrow> os \<Rightarrow> path
    \<Rightarrow> 's snapshot disk \<Rightarrow> string + 's stored" where
  "openSnapshot load pkg dir name start os root d =
     (case mkdirAll os (joinPath root dir) d of
        (Some e, _) \<Rightarrow> Inl (pkg @ '': create dir: '' @ e)
      | (None, d1) \<Rightarrow>
          let p = joinPath (joinPath root dir) name in
          and_then (load os p d1 start) (\<lambda>s. Inr \<lparr>st_path = p, st_state = s, st_disk = d1\<rparr>))"

text \<open>An operation, which writes the new state when its result is one of a change.\<close>

definition storedStep :: "('c \<Rightarrow> 'op \<Rightarrow> 's \<Rightarrow> 'r \<times> 's) \<Rightarrow> ('op \<Rightarrow> 'r \<Rightarrow> bool)
    \<Rightarrow> (os \<Rightarrow> path \<Rightarrow> 's \<Rightarrow> 's snapshot disk \<Rightarrow> 's snapshot disk) \<Rightarrow> os \<Rightarrow> 'c \<times> 'op \<Rightarrow> 's stored \<Rightarrow> 's stored" where
  "storedStep exec saves save os = (\<lambda>(c, op) st.
     case exec c op (st_state st) of (r, s) \<Rightarrow>
       st\<lparr>st_state := s,
          st_disk := (if saves op r then save os (st_path st) s (st_disk st) else st_disk st)\<rparr>)"

definition storedRun :: "('c \<Rightarrow> 'op \<Rightarrow> 's \<Rightarrow> 'r \<times> 's) \<Rightarrow> ('op \<Rightarrow> 'r \<Rightarrow> bool)
    \<Rightarrow> (os \<Rightarrow> path \<Rightarrow> 's \<Rightarrow> 's snapshot disk \<Rightarrow> 's snapshot disk) \<Rightarrow> os \<Rightarrow> ('c \<times> 'op) list \<Rightarrow> 's stored \<Rightarrow> 's stored" where
  "storedRun exec saves save os steps st = fold (storedStep exec saves save os) steps st"

section \<open>Opening and writing on a disk that works\<close>

lemma mkdirs_no_file: "mkdirs os ps d = (None, d') \<Longrightarrow> p \<in> set ps \<Longrightarrow> map_of d p \<noteq> Some (File c)"
proof (induction ps arbitrary: d)
  case (Cons q ps)
  then show ?case
    using Cons.IH [of "AList.update q Dir d"]
    by (auto simp: store_simps split: option.splits node.splits if_splits)
qed simp

text \<open>The places of a store: its directory is there, and its file is not a directory.\<close>

definition placed :: "path \<Rightarrow> string \<Rightarrow> string \<Rightarrow> 's snapshot disk \<Rightarrow> bool" where
  "placed root dir name d \<longleftrightarrow> rooted root d \<and> view root d [dir] = Some Dir \<and> view root d [dir, name] \<noteq> Some Dir"

text \<open>What a disk holds for the store.\<close>

definition snapshotOn :: "path \<Rightarrow> string \<Rightarrow> string \<Rightarrow> 's \<Rightarrow> 's snapshot disk \<Rightarrow> 's option" where
  "snapshotOn root dir name start d =
     (case view root d [dir, name] of
        None \<Rightarrow> Some start
      | Some (File (Document s)) \<Rightarrow> Some s
      | Some (File NoBytes) \<Rightarrow> Some start
      | _ \<Rightarrow> None)"

lemma loadSnapshot_healthy:
  assumes "healthy os" and "placed root dir name d"
  shows "loadSnapshot pkg os (root @ [dir, name]) d start = Inr s \<longleftrightarrow> snapshotOn root dir name start d = Some s"
proof -
  have rooted: "rooted root d" and leaf: "view root d [dir, name] \<noteq> Some Dir" using assms(2) by (simp_all add: placed_def)
  show ?thesis
  proof (cases "view root d [dir, name]")
    case None
    then show ?thesis using assms(1) by (auto simp: loadSnapshot_def healthy_def view_def snapshotOn_def)
  next
    case (Some n)
    then obtain c where c: "view root d [dir, name] = Some (File c)" using leaf by (cases n) auto
    show ?thesis
      using readFile_healthy [OF assms(1) rooted c] c
      by (cases c) (auto simp: loadSnapshot_def view_def snapshotOn_def)
  qed
qed

lemma openSnapshot_healthy:
  assumes "healthy os" and "rooted root d" and "plainName dir" and "plainName name"
    and opened: "openSnapshot (loadSnapshot pkg) pkg dir name start os root d = Inr st"
  shows "st_path st = root @ [dir, name]" and "placed root dir name (st_disk st)"
    and "snapshotOn root dir name start (st_disk st) = Some (st_state st)"
proof -
  obtain d1 where made: "mkdirAll os (root @ [dir]) d = (None, d1)"
      and load: "loadSnapshot pkg os (root @ [dir, name]) d1 start = Inr (st_state st)"
      and st: "st_path st = root @ [dir, name]" "st_disk st = d1"
    using opened assms(3, 4)
    by (auto simp: openSnapshot_def Let_def and_then_def split: prod.splits option.splits sum.splits)
  have "view root d ys \<noteq> Some (File c)" if "above ys [dir]" "ys \<noteq> []" for ys c
    using mkdirs_no_file [OF made [unfolded mkdirAll_def], of "root @ ys" c] that
    by (simp add: waypoints_above view_def)
  then obtain d' where d': "mkdirAll os (root @ [dir]) d = (None, d')" "rooted root d'"
      "view root d' = (\<lambda>ys. if above ys [dir] then Some Dir else view root d ys)"
    using view_mkdirAll [OF assms(1, 2), of "[dir]"] by blast
  then have rooted: "rooted root d1" and dir: "view root d1 [dir] = Some Dir" using made by auto
  have "view root d1 [dir, name] \<noteq> Some Dir"
  proof
    assume "view root d1 [dir, name] = Some Dir"
    then have "map_of d1 (root @ [dir, name]) = Some Dir" by (simp add: view_def)
    then show False using load assms(1) by (simp add: loadSnapshot_def readFile_def openFile_def healthy_def and_then_def)
  qed
  then have placed: "placed root dir name d1" using rooted dir by (simp add: placed_def)
  show "st_path st = root @ [dir, name]" "placed root dir name (st_disk st)" using st placed by simp_all
  show "snapshotOn root dir name start (st_disk st) = Some (st_state st)"
    using loadSnapshot_healthy [OF assms(1) placed] load st by simp
qed

lemma reopen_healthy:
  assumes "healthy os" and "placed root dir name d" and "plainName dir" and "plainName name"
    and "snapshotOn root dir name start d = Some s"
  obtains d' where "openSnapshot (loadSnapshot pkg) pkg dir name start os root d = Inr \<lparr>st_path = root @ [dir, name], st_state = s, st_disk = d'\<rparr>"
    and "placed root dir name d'"
proof -
  have rooted: "rooted root d" and dir: "view root d [dir] = Some Dir" using assms(2) by (simp_all add: placed_def)
  have "view root d ys \<noteq> Some (File c)" if "above ys [dir]" "ys \<noteq> []" for ys c
    using that dir by (cases ys) (auto simp: above_Cons_left)
  then obtain d' where d': "mkdirAll os (root @ [dir]) d = (None, d')" "rooted root d'"
      "view root d' = (\<lambda>ys. if above ys [dir] then Some Dir else view root d ys)"
    using view_mkdirAll [OF assms(1) rooted, of "[dir]"] by blast
  have same: "view root d' [dir, name] = view root d [dir, name]" "view root d' [dir] = Some Dir" by (simp_all add: d'(3))
  then have placed: "placed root dir name d'" using assms(2) d'(2) by (simp add: placed_def)
  have "snapshotOn root dir name start d' = Some s" using assms(5) by (simp add: snapshotOn_def same)
  then have "loadSnapshot pkg os (root @ [dir, name]) d' start = Inr s"
    using loadSnapshot_healthy [OF assms(1) placed] by simp
  then show thesis
    using that placed d'(1) assms(3, 4) by (simp add: openSnapshot_def Let_def and_then_def)
qed

lemma persistSnapshot_healthy:
  assumes "healthy os" and "placed root dir name d" and "writable s"
  shows "placed root dir name (persistSnapshot writable kept os (root @ [dir, name]) s d) \<and>
    snapshotOn root dir name start (persistSnapshot writable kept os (root @ [dir, name]) s d) = Some (kept s)"
proof -
  have places: "rooted root d" "view root d [dir] = Some Dir" "view root d [dir, name] \<noteq> Some Dir"
    using assms(2) by (simp_all add: placed_def)
  have "persistSnapshot writable kept os (root @ [dir, name]) s d =
      AList.update (root @ [dir, name]) (File (Document (kept s))) d"
    using writeAtomic_healthy [OF assms(1) places(1), of "[dir, name]"] places assms(3)
    by (simp add: persistSnapshot_def)
  then show ?thesis
    using rooted_update [OF places(1), of "[dir, name]"] places
    by (simp add: placed_def snapshotOn_def view_update)
qed

section \<open>A store that persists\<close>

text \<open>The contract between a store and its file. What an operation that does not write changes, nothing later
  sees (\<open>view t\<close> is what operations from \<open>t\<close> on see); a state the store gets to can be written, and what is
  read back is seen as the same.\<close>

locale snapshots =
  fixes exec :: "'c \<Rightarrow> 'op \<Rightarrow> 's \<Rightarrow> 'r \<times> 's" and saves :: "'op \<Rightarrow> 'r \<Rightarrow> bool" and writable :: "'s \<Rightarrow> bool"
    and kept :: "'s \<Rightarrow> 's" and view_at :: "time \<Rightarrow> 's \<Rightarrow> 'v" and inv :: "'s \<Rightarrow> bool"
    and fine :: "'c \<Rightarrow> 'op \<Rightarrow> bool" and by_then :: "time \<Rightarrow> 'c \<Rightarrow> bool"
  assumes inv_exec: "inv s \<Longrightarrow> fine c op \<Longrightarrow> exec c op s = (r, s') \<Longrightarrow> inv s'"
    and unsaved: "exec c op s = (r, s') \<Longrightarrow> \<not> saves op r \<Longrightarrow> by_then t c \<Longrightarrow> view_at t s' = view_at t s"
    and inv_writable: "inv s \<Longrightarrow> writable s"
    and inv_kept: "inv s \<Longrightarrow> inv (kept s)"
    and view_kept: "inv s \<Longrightarrow> view_at t (kept s) = view_at t s"
begin

text \<open>A store is abreast of its file when reading the file gives a good state that looks like its own.\<close>

definition abreast :: "time \<Rightarrow> path \<Rightarrow> string \<Rightarrow> string \<Rightarrow> 's \<Rightarrow> 's stored \<Rightarrow> bool" where
  "abreast t root dir name start st \<longleftrightarrow> st_path st = root @ [dir, name] \<and> placed root dir name (st_disk st) \<and>
     inv (st_state st) \<and>
     (\<exists>s. snapshotOn root dir name start (st_disk st) = Some s \<and> inv s \<and> view_at t s = view_at t (st_state st))"

lemma abreast_step:
  assumes "healthy os" and "abreast t root dir name start st" and "fine c op" and "by_then t c"
  shows "abreast t root dir name start (storedStep exec saves (persistSnapshot writable kept) os (c, op) st)"
proof -
  obtain r s' where run: "exec c op (st_state st) = (r, s')" by fastforce
  have st: "st_path st = root @ [dir, name]" "placed root dir name (st_disk st)" "inv (st_state st)"
    using assms(2) by (simp_all add: abreast_def)
  have inv: "inv s'" using inv_exec [OF st(3) assms(3) run] .
  show ?thesis
  proof (cases "saves op r")
    case True
    then show ?thesis
      using persistSnapshot_healthy [where writable = writable and kept = kept and start = start,
          OF assms(1) st(2) inv_writable [OF inv]] inv inv_kept [OF inv] view_kept [OF inv]
      by (simp add: abreast_def storedStep_def run st)
  next
    case False
    then show ?thesis
      using assms(2) inv unsaved [OF run False assms(4)] by (simp add: abreast_def storedStep_def run)
  qed
qed

lemma abreast_run:
  "healthy os \<Longrightarrow> abreast t root dir name start st \<Longrightarrow> (\<forall>(c, op) \<in> set steps. fine c op \<and> by_then t c) \<Longrightarrow>
     abreast t root dir name start (storedRun exec saves (persistSnapshot writable kept) os steps st)"
  unfolding storedRun_def
  by (induction steps arbitrary: st) (auto simp: abreast_step)

text \<open>Starting, running and starting again: the second start finds what the first left.\<close>

lemma restart:
  assumes "healthy os" and "rooted root d" and "plainName dir" and "plainName name"
    and opened: "openSnapshot (loadSnapshot pkg) pkg dir name start os root d = Inr st" and "inv (st_state st)"
    and "\<forall>(c, op) \<in> set steps. fine c op \<and> by_then t c"
    and ran: "storedRun exec saves (persistSnapshot writable kept) os steps st = st'"
  shows "\<exists>st''. openSnapshot (loadSnapshot pkg) pkg dir name start os root (st_disk st') = Inr st'' \<and> inv (st_state st') \<and>
    inv (st_state st'') \<and> view_at t (st_state st'') = view_at t (st_state st')"
proof -
  have "abreast t root dir name start st"
    using openSnapshot_healthy [OF assms(1-5)] assms(6) by (simp add: abreast_def)
  from abreast_run [OF assms(1) this assms(7)] have "abreast t root dir name start st'" by (simp add: ran)
  then obtain s where st': "placed root dir name (st_disk st')" "inv (st_state st')"
      "snapshotOn root dir name start (st_disk st') = Some s" "inv s" "view_at t s = view_at t (st_state st')"
    by (auto simp: abreast_def)
  obtain d' where "openSnapshot (loadSnapshot pkg) pkg dir name start os root (st_disk st') =
      Inr \<lparr>st_path = root @ [dir, name], st_state = s, st_disk = d'\<rparr>"
    using reopen_healthy [OF assms(1) st'(1) assms(3, 4) st'(3)] by blast
  then show ?thesis using st' by auto
qed

end

section \<open>An empty data directory\<close>

definition calm_os :: os where
  "calm_os = \<lparr>os_fails = \<lambda>_ _. False, os_text = \<lambda>_ _. [], os_kept = \<lambda>_. False\<rparr>"

lemma calm_os_healthy: "healthy calm_os"
  by (simp add: healthy_def calm_os_def)

lemma calm_root: "rooted [''data''] [([''data''], Dir)]"
  by (auto simp: rooted_def tree_def distinct_keys_def split: if_splits)

lemma calm_open:
  "plainName dir \<Longrightarrow> plainName name \<Longrightarrow> openSnapshot (loadSnapshot pkg) pkg dir name start calm_os [''data''] [([''data''], Dir)] =
     Inr \<lparr>st_path = [''data'', dir, name], st_state = start, st_disk = [([''data''], Dir), ([''data'', dir], Dir)]\<rparr>"
  by (simp add: openSnapshot_def mkdirAll_def waypoints_def upt_rec calm_os_def loadSnapshot_def and_then_def Let_def)

end
