(* ===== verification/Queue_Snapshot.thy ===== *)
theory Queue_Snapshot
  imports Snapshot Queue_Spec
begin

text \<open>
  Persistence of the queue store: \<open>New\<close>, \<open>load\<close> and \<open>persistLocked\<close> of \<open>internal/stores/queuestore\<close>, the
  operations that write, and that a restart brings back what the operations left: everything but messages
  that have expired.
\<close>

section \<open>Documents\<close>

definition jsonMessage :: "message \<Rightarrow> message" where
  "jsonMessage m = m\<lparr>m_id := jsonString (m_id m), m_text := jsonString (m_text m), m_popReceipt := jsonString (m_popReceipt m)\<rparr>"

definition jsonQueue :: "queue \<Rightarrow> queue" where
  "jsonQueue q = \<lparr>q_name = jsonString (q_name q), q_metadata = jsonMap (q_metadata q),
     q_messages = map jsonMessage (q_messages q)\<rparr>"

definition jsonQueues :: "queue_store \<Rightarrow> queue_store" where
  "jsonQueues s = jsonObject (jsonObject jsonQueue) s"

definition messageWritable :: "message \<Rightarrow> bool" where
  "messageWritable m \<longleftrightarrow> fourDigitYear (m_insertionTime m) \<and> fourDigitYear (m_expirationTime m) \<and> fourDigitYear (m_nextVisible m)"

definition queuesWritable :: "queue_store \<Rightarrow> bool" where
  "queuesWritable s \<longleftrightarrow> list_all (\<lambda>(_, qs). list_all (\<lambda>(_, q). list_all messageWritable (q_messages q)) qs) s"

section \<open>The store and its file\<close>

definition loadQueues :: "os \<Rightarrow> path \<Rightarrow> queue_store snapshot disk \<Rightarrow> queue_store \<Rightarrow> string + queue_store" where
  "loadQueues os p d s = loadSnapshot ''queuestore'' os p d s"

definition persistQueues :: "os \<Rightarrow> path \<Rightarrow> queue_store \<Rightarrow> queue_store snapshot disk \<Rightarrow> queue_store snapshot disk" where
  "persistQueues os p s d = persistSnapshot queuesWritable jsonQueues os p s d"

definition newQueues :: "os \<Rightarrow> path \<Rightarrow> queue_store snapshot disk \<Rightarrow> string + queue_store stored" where
  "newQueues os root d = openSnapshot loadQueues ''queuestore'' ''queue'' ''queues.json'' [] os root d"

text \<open>The operations that call \<open>persistLocked\<close>, by how they end.\<close>

fun queueSaves :: "queue_op \<Rightarrow> queue_result \<Rightarrow> bool" where
  "queueSaves (CreateQueue _ _ _) r = (r = QCreated True)"
| "queueSaves (DeleteQueue _ _) r = (r = QOk)"
| "queueSaves (ListQueues _ _) r = False"
| "queueSaves (GetMetadata _ _) r = False"
| "queueSaves (SetMetadata _ _ _) r = (r = QOk)"
| "queueSaves (Enqueue _ _ _ _ _) r = (case r of QError _ \<Rightarrow> False | _ \<Rightarrow> True)"
| "queueSaves (Dequeue _ _ _ _) r = (case r of QMessages (_ # _) \<Rightarrow> True | _ \<Rightarrow> False)"
| "queueSaves (Peek _ _ _) r = False"
| "queueSaves (DeleteMessage _ _ _ _) r = (r = QOk)"
| "queueSaves (UpdateMessage _ _ _ _ _ _) r = (case r of QError _ \<Rightarrow> False | _ \<Rightarrow> True)"
| "queueSaves (ClearMessages _ _) r = (r = QOk)"

definition queuesRun :: "os \<Rightarrow> (moment \<times> queue_op) list \<Rightarrow> queue_store stored \<Rightarrow> queue_store stored" where
  "queuesRun os steps st = storedRun queue_exec queueSaves persistQueues os steps st"

lemma queues_file_calls:
  "loadQueues = loadSnapshot ''queuestore''" "persistQueues = persistSnapshot queuesWritable jsonQueues"
  by (simp_all add: loadQueues_def persistQueues_def fun_eq_iff)

section \<open>States and requests without surprises\<close>

definition plainMessage :: "message \<Rightarrow> bool" where
  "plainMessage m \<longleftrightarrow> utf8 (m_id m) \<and> utf8 (m_text m) \<and> utf8 (m_popReceipt m) \<and> messageWritable m"

definition plainQueue :: "queue \<Rightarrow> bool" where
  "plainQueue q \<longleftrightarrow> utf8 (q_name q) \<and> jsonMap (q_metadata q) = q_metadata q \<and> (\<forall>m \<in> set (q_messages q). plainMessage m)"

definition plainQueues :: "queue_store \<Rightarrow> bool" where
  "plainQueues s \<longleftrightarrow> utf8_nested s \<and> (\<forall>k q. lookup2 s k = Some q \<longrightarrow> plainQueue q)"

text \<open>A request whose text is UTF-8, its metadata listed in key order, and whose times have years of four
  digits.\<close>

fun queue_fine :: "moment \<Rightarrow> queue_op \<Rightarrow> bool" where
  "queue_fine c (CreateQueue a n md) = (utf8 a \<and> utf8 n \<and> jsonMap md = md)"
| "queue_fine c (SetMetadata a n md) = (jsonMap md = md)"
| "queue_fine c (Enqueue a n text vt ttl) =
     (utf8 text \<and> fourDigitYear (at_work c) \<and> fourDigitYear (at_work c + vt) \<and>
      fourDigitYear (at_work c + (if 0 < ttl then ttl else defaultTTL)))"
| "queue_fine c (Dequeue a n num vt) = fourDigitYear (at_work c + vt)"
| "queue_fine c (UpdateMessage a n i r text vt) = (utf8 text \<and> fourDigitYear (at_work c + vt))"
| "queue_fine c _ = True"

text \<open>What operations see from \<open>t\<close> on: the queues with their metadata and the messages that have not expired.\<close>

definition queues_at :: "time \<Rightarrow> queue_store \<Rightarrow> string \<times> string \<Rightarrow> (string \<times> metadata \<times> message list) option" where
  "queues_at t s k = map_option (\<lambda>q. (q_name q, q_metadata q, live t (q_messages q))) (lookup2 s k)"

section \<open>Documents keep plain states\<close>

lemma jsonMessage_plain: "plainMessage m \<Longrightarrow> jsonMessage m = m"
  by (simp add: plainMessage_def jsonMessage_def utf8_def)

lemma jsonQueue_plain: "plainQueue q \<Longrightarrow> jsonQueue q = q"
  by (simp add: plainQueue_def jsonQueue_def utf8_def jsonMessage_plain map_idI)

lemma lookup2_jsonQueues: "plainQueues s \<Longrightarrow> lookup2 (jsonQueues s) = lookup2 s"
  by (auto simp: plainQueues_def jsonQueues_def lookup2_jsonObject fun_eq_iff jsonQueue_plain split: option.split
      intro!: option.map_ident_strong)

lemma plainQueues_json: "plainQueues s \<Longrightarrow> plainQueues (jsonQueues s)"
  using lookup2_jsonQueues [of s] by (simp add: plainQueues_def) (simp add: jsonQueues_def utf8_nested_jsonObject)

lemma plainQueues_writable:
  assumes "plainQueues s"
  shows "queuesWritable s"
proof -
  have "plainQueue q" if "(a, qs) \<in> set s" "(n, q) \<in> set qs" for a qs n q
    using assms that nested_member [of s a qs n q] by (simp add: plainQueues_def utf8_nested_def)
  then show ?thesis
    by (fastforce simp: queuesWritable_def list_all_iff plainQueue_def plainMessage_def)
qed

section \<open>Operations keep states plain\<close>

lemma plain_put:
  "plainQueues s \<Longrightarrow> utf8 a \<Longrightarrow> utf8 n \<Longrightarrow> plainQueue q \<Longrightarrow> plainQueues (setQueue a n q s)"
  by (auto simp: plainQueues_def setQueue_def utf8_nested_update2 store_simps split: if_splits)

lemma plain_evict: "plainQueue q \<Longrightarrow> plainQueue (evictExpired t q)"
  by (auto simp: plainQueue_def evictExpired_def)

lemma plain_lookup:
  assumes "plainQueues s"
  obtains (missing) "lookupLocked t a n s = (Inl ErrQueueNotFound, s)"
  | (found) q where "lookupLocked t a n s = (Inr (evictExpired t q), setQueue a n (evictExpired t q) s)"
      "plainQueue (evictExpired t q)" "lookup2 s (a, n) = Some q"
      "\<And>q'. plainQueue q' \<Longrightarrow> plainQueues (setQueue a n q' (setQueue a n (evictExpired t q) s))"
      "plainQueues (setQueue a n (evictExpired t q) s)"
proof (cases "lookup2 s (a, n)")
  case None
  then show ?thesis using missing by (simp add: queue_lookup_eq)
next
  case (Some q)
  have names: "utf8 a" "utf8 n" using utf8_known [of s a n q] Some assms by (simp_all add: plainQueues_def)
  have plain: "plainQueue (evictExpired t q)" using assms Some by (simp add: plainQueues_def plain_evict)
  show ?thesis
    using found [of q] plain_put [OF assms names] plain_put [OF plain_put [OF assms names plain] names] plain Some
    by (simp add: queue_lookup_eq)
qed

lemma plain_new:
  assumes "utf8 text" and "fourDigitYear now" and "fourDigitYear (now + vt)"
    and "fourDigitYear (now + (if 0 < ttl then ttl else defaultTTL))"
  shows "plainMessage \<lparr>m_id = newID b, m_text = text, m_insertionTime = now,
    m_expirationTime = (if ttl < 0 then zeroTime else if ttl = 0 then now + defaultTTL else now + ttl),
    m_nextVisible = now + vt, m_popReceipt = [], m_dequeueCount = 0\<rparr>"
proof -
  have "utf8 (newID b)" by (simp add: newID_def utf8_ascii ascii_uuidString)
  moreover have "utf8 []" by (simp add: utf8_ascii isAscii_def)
  moreover have "fourDigitYear (if ttl < 0 then zeroTime else if ttl = 0 then now + defaultTTL else now + ttl)"
    using assms(4) fourDigitYear_zero by (auto split: if_splits)
  ultimately show ?thesis using assms(1-3) by (simp add: plainMessage_def messageWritable_def)
qed

lemma utf8_receipt: "utf8 (newPopReceipt b)"
  by (simp add: newPopReceipt_def utf8_ascii ascii_stdEncode)

lemma plain_lease: "plainMessage m \<Longrightarrow> fourDigitYear (now + vt) \<Longrightarrow> plainMessage (lease now vt b m)"
  by (simp add: plainMessage_def messageWritable_def lease_def utf8_receipt)

lemma plain_renew: "plainMessage m \<Longrightarrow> utf8 text \<Longrightarrow> fourDigitYear (now + vt) \<Longrightarrow> plainMessage (renew now vt b text m)"
  by (simp add: plainMessage_def messageWritable_def renew_def utf8_receipt)

lemma plain_dequeueLoop:
  assumes "\<forall>m \<in> set ms. plainMessage m" and "fourDigitYear (now + vt)"
  shows "\<forall>m \<in> set (snd (dequeueLoop now vt num rand out ms)). plainMessage m"
  using assms(1)
proof (induction ms arbitrary: out)
  case (Cons m ms)
  then show ?case
    using plain_lease [OF _ assms(2)] by (simp add: Let_def case_prod_beta)
qed simp

lemma plain_deleteLoop:
  "deleteLoop i r ms = Inr ms' \<Longrightarrow> set ms' \<subseteq> set ms"
  by (induction ms arbitrary: ms') (auto split: if_splits sum.splits)

lemma plain_updateLoop:
  "updateLoop now vt b text i r ms = Inr (m, ms') \<Longrightarrow> \<forall>m \<in> set ms. plainMessage m \<Longrightarrow> utf8 text \<Longrightarrow>
     fourDigitYear (now + vt) \<Longrightarrow> \<forall>m \<in> set ms'. plainMessage m"
  by (induction ms arbitrary: ms') (auto simp: Let_def plain_renew split: if_splits sum.splits prod.splits)

lemma plain_found:
  "plainQueue q \<Longrightarrow> \<forall>m \<in> set ms. plainMessage m \<Longrightarrow> plainQueue (q\<lparr>q_messages := ms\<rparr>)"
  by (simp add: plainQueue_def)

lemma plain_inner: "plainQueues s \<Longrightarrow> map_of (inner a s) n = Some q \<Longrightarrow> plainQueue q"
  by (simp add: plainQueues_def lookup2_def)

lemma plain_account:
  "plainQueues s \<Longrightarrow> utf8 a \<Longrightarrow> distinct_keys qs \<Longrightarrow> utf8_keys qs \<Longrightarrow> (\<And>n q. map_of qs n = Some q \<Longrightarrow> plainQueue q) \<Longrightarrow>
     plainQueues (AList.update a qs s)"
  by (auto simp: plainQueues_def utf8_nested_inner lookup2_def store_simps)

lemma plain_known: "plainQueues s \<Longrightarrow> map_of s a = Some qs \<Longrightarrow> utf8 a"
  by (rule utf8_keys_of) (simp_all add: plainQueues_def utf8_nested_def)

lemma plain_createQueue:
  assumes "plainQueues s" and "utf8 a" and "utf8 n" and "jsonMap md = md"
  shows "plainQueues (snd (createQueue a n md s))"
proof -
  define s1 where "s1 = (if map_of s a = None then AList.update a [] s else s)"
  have "plainQueues s1" using plain_account [OF assms(1, 2), of "[]"] assms(1) by (simp add: s1_def utf8_keys_def)
  moreover have "plainQueue \<lparr>q_name = n, q_metadata = md, q_messages = []\<rparr>" using assms by (simp add: plainQueue_def)
  ultimately have "plainQueues (setQueue a n \<lparr>q_name = n, q_metadata = md, q_messages = []\<rparr> s1)" "plainQueues s1"
    using plain_put assms(2, 3) by simp_all
  then show ?thesis
    unfolding createQueue_def Let_def s1_def [symmetric] by (simp split: option.split)
qed

lemma plain_deleteQueue:
  assumes "plainQueues s"
  shows "plainQueues (snd (deleteQueue a n s))"
proof (cases "map_of s a")
  case (Some qs)
  then have qs: "qs = inner a s" by (simp add: inner_def)
  have "plainQueues (AList.update a (AList.delete n (inner a s)) s)"
    using assms plain_known [OF assms Some] plain_inner [OF assms]
    by (intro plain_account) (auto simp: plainQueues_def utf8_nested_def nested_ok_def utf8_keys_delete store_simps split: if_splits)
  then show ?thesis using assms Some by (simp add: deleteQueue_def qs split: option.split)
qed (simp add: deleteQueue_def assms)

lemma plain_listQueues:
  assumes "plainQueues s"
  shows "plainQueues (snd (listQueues t a p s))"
proof (cases "map_of s a")
  case (Some qs)
  let ?f = "\<lambda>n q. if p = [] \<or> hasPrefix n p then evictExpired t q else q"
  let ?qs = "map (\<lambda>(n, q). (n, ?f n q)) (inner a s)"
  have "distinct_keys ?qs" "utf8_keys ?qs"
    using assms
    by (auto simp: plainQueues_def utf8_nested_def nested_ok_def distinct_keys_def comp_def case_prod_beta utf8_keys_def)
  moreover have "plainQueue q" if "map_of ?qs n = Some q" for n q
    using that plain_inner [OF assms, of a n] by (auto simp: map_of_map_values plain_evict split: if_splits)
  ultimately have "plainQueues (AList.update a ?qs s)"
    by (intro plain_account [OF assms plain_known [OF assms Some]])
  then show ?thesis using Some by (simp add: listQueues_def Let_def)
qed (simp add: listQueues_def Let_def assms)

lemma plain_exec:
  assumes plain: "plainQueues s" and fine: "queue_fine c op" and exec: "queue_exec c op s = (r, s')"
  shows "plainQueues s'"
proof -
  note found = plain_lookup [OF plain, of "at_lookup c"]
  note simps = q_value_def q_error_def plainQueue_def
  show ?thesis
  proof (cases op)
    case (CreateQueue a n md)
    then show ?thesis using plain_createQueue [OF plain, of a n md] fine exec by (auto simp: simps split: prod.splits)
  next
    case (DeleteQueue a n)
    then show ?thesis using plain_deleteQueue [OF plain, of a n] exec by (auto simp: simps split: prod.splits)
  next
    case (ListQueues a p)
    then show ?thesis using plain_listQueues [OF plain, of "at_lookup c" a p] exec by (auto simp: apfst_def map_prod_def split: prod.splits)
  next
    case (GetMetadata a n)
    show ?thesis by (rule found [of a n]) (insert GetMetadata plain exec, auto simp: simps getMetadata_def)
  next
    case (SetMetadata a n md)
    show ?thesis
      by (rule found [of a n]) (insert SetMetadata plain fine exec, auto simp: simps setMetadata_def)
  next
    case (Enqueue a n body vt ttl)
    show ?thesis
      by (rule found [of a n])
         (insert Enqueue plain fine exec plain_new, auto simp: simps enqueue_def Let_def simp del: evict_facts)
  next
    case (Dequeue a n num vt)
    show ?thesis
    proof (rule found [of a n])
      assume "lookupLocked (at_lookup c) a n s = (Inl ErrQueueNotFound, s)"
      then show ?thesis using Dequeue plain exec by (simp add: simps dequeue_def)
    next
      fix q
      let ?q = "evictExpired (at_lookup c) q"
      assume q: "lookupLocked (at_lookup c) a n s = (Inr ?q, setQueue a n ?q s)" "plainQueue ?q"
        and put: "\<And>q'. plainQueue q' \<Longrightarrow> plainQueues (setQueue a n q' (setQueue a n ?q s))"
      have "\<forall>m \<in> set (snd (dequeueLoop (at_work c) vt num (randomness c) [] (q_messages ?q))). plainMessage m"
        using q(2) Dequeue fine by (intro plain_dequeueLoop) (simp_all add: plainQueue_def)
      from put [OF plain_found [OF q(2) this]] show ?thesis
        using Dequeue exec q(1) by (auto simp: q_value_def dequeue_def split: prod.splits simp del: evict_facts)
    qed
  next
    case (Peek a n num)
    show ?thesis by (rule found [of a n]) (insert Peek plain exec, auto simp: simps peek_def)
  next
    case (DeleteMessage a n i receipt)
    show ?thesis
    proof (rule found [of a n])
      assume "lookupLocked (at_lookup c) a n s = (Inl ErrQueueNotFound, s)"
      then show ?thesis using DeleteMessage plain exec by (simp add: simps deleteMessage_def)
    next
      fix q
      let ?q = "evictExpired (at_lookup c) q"
      assume q: "lookupLocked (at_lookup c) a n s = (Inr ?q, setQueue a n ?q s)" "plainQueue ?q"
        and put: "\<And>q'. plainQueue q' \<Longrightarrow> plainQueues (setQueue a n q' (setQueue a n ?q s))" "plainQueues (setQueue a n ?q s)"
      have "plainQueue (?q\<lparr>q_messages := ms\<rparr>)" if "deleteLoop i receipt (q_messages ?q) = Inr ms" for ms
        using plain_deleteLoop [OF that] q(2) by (auto simp: plainQueue_def simp del: evict_facts)
      then show ?thesis
        using DeleteMessage exec q(1) put by (auto simp: q_error_def deleteMessage_def split: sum.splits simp del: evict_facts)
    qed
  next
    case (UpdateMessage a n i receipt body vt)
    show ?thesis
    proof (rule found [of a n])
      assume "lookupLocked (at_lookup c) a n s = (Inl ErrQueueNotFound, s)"
      then show ?thesis using UpdateMessage plain exec by (simp add: simps updateMessage_def)
    next
      fix q
      let ?q = "evictExpired (at_lookup c) q"
      assume q: "lookupLocked (at_lookup c) a n s = (Inr ?q, setQueue a n ?q s)" "plainQueue ?q"
        and put: "\<And>q'. plainQueue q' \<Longrightarrow> plainQueues (setQueue a n q' (setQueue a n ?q s))" "plainQueues (setQueue a n ?q s)"
      have "plainQueue (?q\<lparr>q_messages := ms\<rparr>)"
        if "updateLoop (at_work c) vt (randomness c 0) body i receipt (q_messages ?q) = Inr (m, ms)" for m ms
        using plain_updateLoop [OF that] q(2) UpdateMessage fine by (simp add: plainQueue_def del: evict_facts)
      then show ?thesis
        using UpdateMessage exec q(1) put
        by (auto simp: q_value_def updateMessage_def split: sum.splits prod.splits simp del: evict_facts)
    qed
  next
    case (ClearMessages a n)
    show ?thesis by (rule found [of a n]) (insert ClearMessages plain exec, auto simp: simps clearMessages_def)
  qed
qed

section \<open>Operations that do not write\<close>

text \<open>They drop expired messages at most.\<close>

lemma queues_at_put:
  "lookup2 s (a, n) = Some q \<Longrightarrow> q_name q' = q_name q \<Longrightarrow> q_metadata q' = q_metadata q \<Longrightarrow>
     live t (q_messages q') = live t (q_messages q) \<Longrightarrow> queues_at t (setQueue a n q' s) = queues_at t s"
  by (auto simp: queues_at_def setQueue_def store_simps fun_eq_iff)

lemma queues_at_lookup:
  "t0 \<le> t \<Longrightarrow> queues_at t (snd (lookupLocked t0 a n s)) = queues_at t s"
  using queues_at_put [where q' = "evictExpired t0 _"]
  by (auto simp: queue_lookup_eq live_live evictExpired_def live_def [symmetric] split: option.split)

lemma queues_at_listing:
  assumes "t0 \<le> t"
  shows "queues_at t (snd (listQueues t0 a p s)) = queues_at t s"
proof (cases "map_of s a")
  case (Some qs)
  let ?f = "\<lambda>n q. if p = [] \<or> hasPrefix n p then evictExpired t0 q else q"
  have "(\<lambda>q. (q_name q, q_metadata q, live t (q_messages q))) (?f n q) = (q_name q, q_metadata q, live t (q_messages q))" for n q
    using assms by (simp add: live_live evictExpired_def live_def [symmetric])
  then have "queues_at t (AList.update a (map (\<lambda>(n, q). (n, ?f n q)) (inner a s)) s) k = queues_at t s k" for k
    by (cases k) (auto simp: queues_at_def lookup2_def store_simps map_of_map_values option.map_comp comp_def)
  then show ?thesis using Some by (simp add: listQueues_def Let_def fun_eq_iff)
qed (simp add: listQueues_def Let_def)

lemma dequeueLoop_none: "fst (dequeueLoop now vt num rand [] ms) = [] \<Longrightarrow> snd (dequeueLoop now vt num rand [] ms) = ms"
  by (auto simp: dequeueLoop_eq Let_def)

lemma unsaved_exec:
  assumes exec: "queue_exec c op s = (r, s')" and unsaved: "\<not> queueSaves op r" and "at_lookup c \<le> t"
  shows "queues_at t s' = queues_at t s"
proof -
  note look = queues_at_lookup [OF assms(3)] and simps = q_value_def q_error_def
  show ?thesis
  proof (cases op)
    case (CreateQueue a n md)
    then show ?thesis
      using exec unsaved by (auto simp: simps createQueue_def Let_def store_simps split: option.splits if_splits)
  next
    case (DeleteQueue a n)
    then show ?thesis using exec unsaved by (auto simp: simps deleteQueue_def split: option.splits if_splits)
  next
    case (ListQueues a p)
    then show ?thesis
      using exec queues_at_listing [OF assms(3), of a p s] by (cases "listQueues (at_lookup c) a p s") simp
  next
    case (GetMetadata a n)
    then show ?thesis
      using exec look [of a n s]
      by (cases "lookupLocked (at_lookup c) a n s") (auto simp: simps getMetadata_def split: sum.splits)
  next
    case (SetMetadata a n md)
    then show ?thesis
      using exec unsaved look [of a n s]
      by (cases "lookupLocked (at_lookup c) a n s") (auto simp: simps setMetadata_def split: sum.splits)
  next
    case (Enqueue a n body vt ttl)
    then show ?thesis
      using exec unsaved look [of a n s]
      by (cases "lookupLocked (at_lookup c) a n s") (auto simp: simps enqueue_def Let_def split: sum.splits)
  next
    case (Dequeue a n num vt)
    show ?thesis
    proof (cases "lookup2 s (a, n)")
      case None
      then show ?thesis using Dequeue exec by (simp add: simps dequeue_def queue_lookup_eq)
    next
      case (Some q)
      let ?q = "evictExpired (at_lookup c) q"
      let ?loop = "dequeueLoop (at_work c) vt num (randomness c) [] (q_messages ?q)"
      have "r = QMessages (fst ?loop)" "s' = setQueue a n (?q\<lparr>q_messages := snd ?loop\<rparr>) (setQueue a n ?q s)"
        using Dequeue exec Some by (auto simp: simps dequeue_def queue_lookup_eq split: prod.splits)
      moreover have "fst ?loop = []" using unsaved Dequeue calculation(1) by (cases "fst ?loop") auto
      then have "snd ?loop = q_messages ?q" by (rule dequeueLoop_none)
      then have "?q\<lparr>q_messages := snd ?loop\<rparr> = ?q" by (simp del: evict_facts)
      ultimately have "s' = setQueue a n ?q (setQueue a n ?q s)" by simp
      moreover have "queues_at t (setQueue a n ?q (setQueue a n ?q s)) = queues_at t (setQueue a n ?q s)"
        by (rule queues_at_put [where q = ?q]) (simp_all add: setQueue_def store_simps)
      ultimately show ?thesis using look [of a n s] Some by (simp add: queue_lookup_eq)
    qed
  next
    case (Peek a n num)
    then show ?thesis
      using exec look [of a n s]
      by (cases "lookupLocked (at_lookup c) a n s") (auto simp: simps peek_def split: sum.splits)
  next
    case (DeleteMessage a n i receipt)
    then show ?thesis
      using exec unsaved look [of a n s]
      by (cases "lookupLocked (at_lookup c) a n s") (auto simp: simps deleteMessage_def split: sum.splits)
  next
    case (UpdateMessage a n i receipt body vt)
    then show ?thesis
      using exec unsaved look [of a n s]
      by (cases "lookupLocked (at_lookup c) a n s") (auto simp: simps updateMessage_def split: sum.splits prod.splits)
  next
    case (ClearMessages a n)
    then show ?thesis
      using exec unsaved look [of a n s]
      by (cases "lookupLocked (at_lookup c) a n s") (auto simp: simps clearMessages_def split: sum.splits)
  qed
qed

interpretation queue_file: snapshots queue_exec queueSaves queuesWritable jsonQueues queues_at plainQueues queue_fine
  "\<lambda>t c. at_lookup c \<le> t"
proof (unfold_locales, goal_cases)
  case (1 s c op r s') then show ?case by (rule plain_exec)
next
  case (2 c op s r s' t) then show ?case by (rule unsaved_exec)
next
  case (3 s) then show ?case by (rule plainQueues_writable)
next
  case (4 s) then show ?case by (rule plainQueues_json)
next
  case (5 s t) then show ?case by (simp add: queues_at_def lookup2_jsonQueues fun_eq_iff)
qed

text \<open>C26: Queues survive a restart: a store opened on a data directory runs any operations of clients that
  send UTF-8 text, on a disk that works; a store opened on the same directory afterwards has the same
  queues with the same metadata and the same messages, in order, with their receipts and visibility,
  apart from messages that have expired. It is a state the operations can go on from.\<close>

theorem queues_survive_restart:
  assumes "healthy os" and "rooted root d" and "newQueues os root d = Inr st" and "plainQueues (st_state st)"
    and "\<forall>(c, op) \<in> set steps. queue_fine c op \<and> at_lookup c \<le> t"
  shows "\<exists>st'. newQueues os root (st_disk (queuesRun os steps st)) = Inr st' \<and> plainQueues (st_state st') \<and>
    queues_at t (st_state st') = queues_at t (st_state (queuesRun os steps st))"
proof -
  have "plainName ''queue''" "plainName ''queues.json''" by (simp_all add: plainName_def)
  from queue_file.restart [OF assms(1, 2) this assms(3) [unfolded newQueues_def queues_file_calls] assms(4, 5) refl]
  show ?thesis unfolding newQueues_def queuesRun_def queues_file_calls by blast
qed

text \<open>A queue made and a message sent, on an empty data directory.\<close>

theorem queues_survive_restart_witness:
  "\<exists>st steps st'. newQueues calm_os [''data''] [([''data''], Dir)] = Inr st \<and>
     newQueues calm_os [''data''] (st_disk (queuesRun calm_os steps st)) = Inr st' \<and>
     (\<exists>m. queues_at 5 (st_state st') (''acct'', ''q'') = Some (''q'', [], [m]) \<and> m_text m = ''hello'')"
proof -
  define c where "c = \<lparr>at_lookup = 5, at_work = 5, randomness = \<lambda>_. []\<rparr>"
  define steps where "steps = [(c, CreateQueue ''acct'' ''q'' []), (c, Enqueue ''acct'' ''q'' ''hello'' 0 (- 1))]"
  define st where "st = \<lparr>st_path = [''data'', ''queue'', ''queues.json''], st_state = [] :: queue_store,
    st_disk = [([''data''], Dir), ([''data'', ''queue''], Dir)]\<rparr>"
  have new: "newQueues calm_os [''data''] [([''data''], Dir)] = Inr st"
    using calm_open [of "''queue''" "''queues.json''"] by (simp add: newQueues_def queues_file_calls st_def plainName_def)
  have years: "fourDigitYear 5" "fourDigitYear (5 + defaultTTL)" by code_simp+
  have names: "utf8 ''acct''" "utf8 ''q''" "utf8 ''hello''" "jsonMap [] = []"
    by (simp_all add: utf8_ascii isAscii_def jsonMap_def)
  have "\<forall>(c, op) \<in> set steps. queue_fine c op \<and> at_lookup c \<le> 5"
    using years names by (simp add: steps_def c_def)
  moreover have "plainQueues (st_state st)" by (simp add: st_def plainQueues_def lookup2_def)
  ultimately obtain st' where st': "newQueues calm_os [''data''] (st_disk (queuesRun calm_os steps st)) = Inr st'"
      "queues_at 5 (st_state st') = queues_at 5 (st_state (queuesRun calm_os steps st))"
    using queues_survive_restart [OF calm_os_healthy calm_root new] by blast
  have "\<exists>m. queues_at 5 (st_state (queuesRun calm_os steps st)) (''acct'', ''q'') = Some (''q'', [], [m]) \<and> m_text m = ''hello''"
    by (simp add: queuesRun_def storedRun_def storedStep_def steps_def st_def c_def q_value_def createQueue_def
        enqueue_def queue_lookup_eq setQueue_def store_simps Let_def queues_at_def lookup2_def inner_def update2_def
        live_def expired_def isZero_def evictExpired_def)
  then show ?thesis using new st' by metis
qed

end
