(* ===== verification/Table_Snapshot.thy ===== *)
theory Table_Snapshot
  imports Snapshot Table_Store
begin

text \<open>
  Persistence of the table store: \<open>New\<close>, \<open>load\<close> and \<open>persistLocked\<close> of \<open>internal/stores/tablestore\<close>, the
  operations that write, and that a restart brings back every table with its rows and their entity tags.
\<close>

section \<open>Documents\<close>

text \<open>The names of properties were read from JSON and their values are kept as they were written, so a
  document keeps the properties as they are.\<close>

definition jsonEntity :: "entity \<Rightarrow> entity" where
  "jsonEntity e = e\<lparr>e_partitionKey := jsonString (e_partitionKey e), e_rowKey := jsonString (e_rowKey e),
     e_etag := jsonString (e_etag e)\<rparr>"

definition jsonTable :: "table \<Rightarrow> table" where
  "jsonTable t = \<lparr>t_name = jsonString (t_name t), t_entities = jsonObject (jsonObject jsonEntity) (t_entities t)\<rparr>"

definition jsonTables :: "table_store \<Rightarrow> table_store" where
  "jsonTables s = jsonObject (jsonObject jsonTable) s"

definition tablesWritable :: "table_store \<Rightarrow> bool" where
  "tablesWritable s \<longleftrightarrow> list_all (\<lambda>(_, ts). list_all (\<lambda>(_, t).
     list_all (\<lambda>(_, rows). list_all (\<lambda>(_, e). fourDigitYear (e_timestamp e)) rows) (t_entities t)) ts) s"

section \<open>The store and its file\<close>

definition loadTables :: "os \<Rightarrow> path \<Rightarrow> table_store snapshot disk \<Rightarrow> table_store \<Rightarrow> string + table_store" where
  "loadTables os p d s = loadSnapshot ''tablestore'' os p d s"

definition persistTables :: "os \<Rightarrow> path \<Rightarrow> table_store \<Rightarrow> table_store snapshot disk \<Rightarrow> table_store snapshot disk" where
  "persistTables os p s d = persistSnapshot tablesWritable jsonTables os p s d"

definition newTables :: "os \<Rightarrow> path \<Rightarrow> table_store snapshot disk \<Rightarrow> string + table_store stored" where
  "newTables os root d = openSnapshot loadTables ''tablestore'' ''table'' ''tables.json'' [] os root d"

text \<open>The operations that call \<open>persistLocked\<close>: those that succeed, other than reads.\<close>

fun tableSaves :: "table_op \<Rightarrow> table_result \<Rightarrow> bool" where
  "tableSaves (GetEntity _ _ _ _) r = False"
| "tableSaves _ r = (case r of TError _ \<Rightarrow> False | _ \<Rightarrow> True)"

definition tablesRun :: "os \<Rightarrow> (time \<times> table_op) list \<Rightarrow> table_store stored \<Rightarrow> table_store stored" where
  "tablesRun os steps st = storedRun table_exec tableSaves persistTables os steps st"

lemma tables_file_calls:
  "loadTables = loadSnapshot ''tablestore''" "persistTables = persistSnapshot tablesWritable jsonTables"
  by (simp_all add: loadTables_def persistTables_def fun_eq_iff)

section \<open>States and requests without surprises\<close>

definition plainEntity :: "entity \<Rightarrow> bool" where
  "plainEntity e \<longleftrightarrow> utf8 (e_partitionKey e) \<and> utf8 (e_rowKey e) \<and> utf8 (e_etag e) \<and> fourDigitYear (e_timestamp e)"

definition plainTable :: "table \<Rightarrow> bool" where
  "plainTable t \<longleftrightarrow> utf8 (t_name t) \<and> utf8_nested (t_entities t) \<and>
     (\<forall>k e. lookup2 (t_entities t) k = Some e \<longrightarrow> plainEntity e)"

definition plainTables :: "table_store \<Rightarrow> bool" where
  "plainTables s \<longleftrightarrow> tables_inv s \<and> utf8_nested s \<and> (\<forall>k t. lookup2 s k = Some t \<longrightarrow> plainTable t)"

text \<open>A request in UTF-8 at a time whose year has four digits.\<close>

fun table_fine :: "time \<Rightarrow> table_op \<Rightarrow> bool" where
  "table_fine now (CreateTable a n) = (utf8 a \<and> utf8 n)"
| "table_fine now (InsertEntity a n pk rk p) = (utf8 pk \<and> utf8 rk \<and> fourDigitYear now)"
| "table_fine now (UpdateEntity a n pk rk p m merge) = (utf8 pk \<and> utf8 rk \<and> fourDigitYear now)"
| "table_fine now _ = True"

section \<open>Documents keep plain states\<close>

lemma jsonEntity_plain: "plainEntity e \<Longrightarrow> jsonEntity e = e"
  by (simp add: plainEntity_def jsonEntity_def utf8_def)

lemma t_seek_lookup2: "t_seek t = lookup2 (t_entities t)"
  by (auto simp: t_seek_def t_get_def lookup2_def inner_def fun_eq_iff split: option.split)

lemma t_seek_jsonTable: "plainTable t \<Longrightarrow> t_seek (jsonTable t) = t_seek t"
  by (auto simp: t_seek_lookup2 jsonTable_def plainTable_def lookup2_jsonObject fun_eq_iff jsonEntity_plain
      intro!: option.map_ident_strong)

lemma plainTable_json: "plainTable t \<Longrightarrow> plainTable (jsonTable t)"
  using t_seek_jsonTable [of t] unfolding t_seek_lookup2
  by (simp add: plainTable_def) (simp add: jsonTable_def utf8_nested_jsonObject utf8_def)

lemma table_inv_json:
  assumes "table_inv t" and "plainTable t"
  shows "table_inv (jsonTable t)"
proof -
  let ?m = "t_entities t"
  have keys: "distinct_keys ?m" "utf8_keys ?m" "distinct_keys (inner pk ?m)" "utf8_keys (inner pk ?m)" for pk
    using assms(2) by (simp_all add: plainTable_def utf8_nested_def nested_ok_def)
  have rows: "jsonObject jsonEntity rows \<noteq> [] \<and> distinct_keys (jsonObject jsonEntity rows) \<and>
      (\<forall>(rk, e) \<in> set (jsonObject jsonEntity rows). filed (pk, rk) e)" if "(pk, rows) \<in> set ?m" for pk rows
  proof -
    have "map_of ?m pk = Some rows" using that keys(1) by (simp add: map_of_in_set)
    then have inner: "inner pk ?m = rows" by (simp add: inner_def)
    have ok: "rows \<noteq> []" "distinct_keys rows" "utf8_keys rows" "\<forall>(rk, e) \<in> set rows. filed (pk, rk) e"
      using assms(1) that keys(3, 4) [of pk] by (auto simp: table_inv_def inner)
    have "plainEntity e" if "(rk, e) \<in> set rows" for rk e
    proof -
      have "lookup2 (t_entities t) (pk, rk) = Some e" using that ok(2) by (simp add: lookup2_def inner map_of_in_set)
      then show ?thesis using assms(2) by (simp add: plainTable_def)
    qed
    then have "\<forall>(rk, e) \<in> set rows. filed (pk, rk) (jsonEntity e)" using ok(4) jsonEntity_plain by fastforce
    then show ?thesis
      using ok(1) jsonObject_keys [OF ok(2, 3), of jsonEntity] set_jsonObject [OF ok(2, 3), of jsonEntity] by auto
  qed
  then show ?thesis
    using jsonObject_keys [OF keys(1, 2), of "jsonObject jsonEntity"] set_jsonObject [OF keys(1, 2), of "jsonObject jsonEntity"]
    by (simp add: table_inv_def jsonTable_def) (fast dest: rows)
qed

lemma lookup2_jsonTables: "plainTables s \<Longrightarrow> lookup2 (jsonTables s) k = map_option jsonTable (lookup2 s k)"
  by (simp add: plainTables_def jsonTables_def lookup2_jsonObject)

lemma plainTables_json:
  assumes "plainTables s"
  shows "plainTables (jsonTables s)"
proof -
  have "plainTable t \<and> table_inv t" if t: "lookup2 (jsonTables s) k = Some t" for k t
  proof -
    obtain t0 where "lookup2 s k = Some t0" "t = jsonTable t0" using t lookup2_jsonTables [OF assms] by auto
    then show ?thesis using assms plainTable_json table_inv_json by (cases k) (auto simp: plainTables_def tables_inv_def)
  qed
  moreover have "utf8_nested (jsonTables s)" using assms by (simp add: plainTables_def jsonTables_def utf8_nested_jsonObject)
  ultimately show ?thesis by (simp add: plainTables_def tables_inv_def utf8_nested_def)
qed

lemma plainTables_writable:
  assumes "plainTables s"
  shows "tablesWritable s"
proof -
  have "fourDigitYear (e_timestamp e)"
    if "(a, ts) \<in> set s" "(n, t) \<in> set ts" "(pk, rows) \<in> set (t_entities t)" "(rk, e) \<in> set rows" for a ts n t pk rows rk e
  proof -
    have "lookup2 s (a, n) = Some t" using assms that(1, 2) nested_member [of s a ts n t] by (simp add: plainTables_def utf8_nested_def)
    then have t: "plainTable t" using assms by (simp add: plainTables_def)
    then have "lookup2 (t_entities t) (pk, rk) = Some e"
      using that(3, 4) nested_member [of "t_entities t" pk rows rk e] by (simp add: plainTable_def utf8_nested_def)
    then show ?thesis using t by (simp add: plainTable_def plainEntity_def)
  qed
  then show ?thesis by (fastforce simp: tablesWritable_def list_all_iff)
qed

section \<open>Operations keep states plain\<close>

lemma ascii_digits: "isAscii (digits w n)"
  by (induction w arbitrary: n) (simp_all add: isAscii_def digitChar_def of_char_of)

lemma ascii_decimal: "isAscii (decimal n)"
proof (induction n rule: decimal.induct)
  case (1 n)
  then show ?case by (subst decimal.simps) (auto simp: isAscii_def digitChar_def)
qed

lemma ascii_append: "isAscii (s @ t) \<longleftrightarrow> isAscii s \<and> isAscii t"
  by (auto simp: isAscii_def)

lemma ascii_formatTime7: "isAscii (formatTime7 t)"
proof -
  have "isAscii ''-''" "isAscii ''T''" "isAscii '':''" "isAscii ''.''" "isAscii ''Z''" by (simp_all add: isAscii_def)
  moreover have "isAscii (padded w n)" for w n by (simp add: padded_def ascii_digits ascii_decimal)
  ultimately show ?thesis
    by (simp add: formatTime7_def Let_def ascii_append ascii_digits split: prod.split del: append.simps)
qed

lemma ascii_etagFor: "isAscii (etagFor t)"
proof -
  have "isAscii (queryEscape s)" if "isAscii s" for s
    using that by (auto simp: queryEscape_def isAscii_def)
  then have "isAscii (queryEscape (formatTime7 t))" using ascii_formatTime7 by blast
  then show ?thesis by (simp add: etagFor_def ascii_append) (simp add: isAscii_def)
qed

lemma plain_buildEntity: "utf8 pk \<Longrightarrow> utf8 rk \<Longrightarrow> fourDigitYear now \<Longrightarrow> plainEntity (buildEntity now pk rk p)"
  by (simp add: plainEntity_def buildEntity_def utf8_ascii ascii_etagFor)

lemma plain_newTable: "utf8 n \<Longrightarrow> plainTable (newTable n)"
  by (simp add: plainTable_def newTable_def lookup2_def)

lemma t_put_update2: "t_entities (t_put e t) = update2 (e_partitionKey e, e_rowKey e) e (t_entities t)"
  by (simp add: t_put_def update2_def inner_def Let_def split: option.split)

lemma plain_t_put:
  assumes "plainTable t" and "plainEntity e"
  shows "plainTable (t_put e t)"
proof -
  have "utf8_nested (t_entities (t_put e t))"
    using assms unfolding t_put_update2 by (intro utf8_nested_update2) (simp_all add: plainTable_def plainEntity_def)
  moreover have "t_name (t_put e t) = t_name t" by (simp add: t_put_def Let_def)
  ultimately show ?thesis
    using assms by (auto simp: plainTable_def t_put_update2 store_simps split: if_splits)
qed

lemma plain_t_delete:
  assumes "plainTable t" and "table_inv t"
  shows "plainTable (snd (t_delete pk rk t))"
proof -
  let ?t = "snd (t_delete pk rk t)"
  have nested: "utf8_nested (t_entities t)" using assms(1) by (simp add: plainTable_def)
  have "utf8_nested (t_entities ?t)"
  proof (cases "map_of (t_entities t) pk")
    case (Some rows)
    then have rows: "inner pk (t_entities t) = rows" "utf8 pk"
      using nested utf8_keys_of [of "t_entities t" pk rows] by (simp_all add: inner_def utf8_nested_def)
    have "utf8_nested (AList.update pk (AList.delete rk rows) (t_entities t))"
      using utf8_nested_remove [OF nested rows(2), of rk] rows(1) by simp
    then show ?thesis using nested Some by (simp add: t_delete_def Let_def utf8_nested_delete)
  qed (simp add: t_delete_def nested)
  moreover have "lookup2 (t_entities ?t) = (lookup2 (t_entities t))((pk, rk) := None)"
    using t_delete_inv(2) [OF assms(2), of pk rk] by (simp add: t_seek_lookup2)
  moreover have "t_name ?t = t_name t" by (simp add: t_delete_def Let_def split: option.split)
  ultimately show ?thesis using assms(1) by (simp add: plainTable_def)
qed

lemma plain_setTable:
  assumes "utf8_nested s" and "\<forall>k t. lookup2 s k = Some t \<longrightarrow> plainTable t" and "utf8 a" and "utf8 n" and "plainTable t"
  shows "utf8_nested (setTable a n t s) \<and> (\<forall>k t'. lookup2 (setTable a n t s) k = Some t' \<longrightarrow> plainTable t')"
  using assms by (auto simp: setTable_eq utf8_nested_update2 store_simps split: if_splits)

lemma plain_put_row:
  assumes "plainTables s" and "lookup2 s (a, n) = Some t" and "plainTable t'"
  shows "utf8_nested (setTable a n t' s) \<and> (\<forall>k t''. lookup2 (setTable a n t' s) k = Some t'' \<longrightarrow> plainTable t'')"
  using plain_setTable [of s a n t'] utf8_known [of s a n t] assms by (simp add: plainTables_def)

text \<open>The texts and years; the rest of the invariant is kept by \<open>table_exec_meets\<close>.\<close>

lemma plain_table_exec:
  assumes plain: "plainTables s" and fine: "table_fine now op" and exec: "table_exec now op s = (r, s')"
  shows "utf8_nested s' \<and> (\<forall>k t. lookup2 s' k = Some t \<longrightarrow> plainTable t)"
proof -
  have parts: "utf8_nested s" "\<forall>k t. lookup2 s k = Some t \<longrightarrow> plainTable t" "tables_inv s"
    using plain by (simp_all add: plainTables_def)
  note put = plain_put_row [OF plain] and simps = of_error_def of_entity_def table_lookup_eq Let_def
  show ?thesis
  proof (cases op)
    case (CreateTable a n)
    define s1 where "s1 = (if map_of s a = None then AList.update a [] s else s)"
    have "lookup2 s1 = lookup2 s" by (auto simp: s1_def lookup2_def inner_def store_simps fun_eq_iff)
    then have s1: "utf8_nested s1" "\<forall>k t. lookup2 s1 k = Some t \<longrightarrow> plainTable t"
      using parts utf8_nested_inner [OF parts(1), of a "[]"] CreateTable fine by (simp_all add: s1_def utf8_keys_def)
    have "s' = s1 \<or> s' = setTable a n (newTable n) s1"
      using CreateTable exec by (auto simp: of_error_def createTable_def Let_def setTable_def s1_def [symmetric] split: if_splits)
    then show ?thesis
      using s1 plain_setTable [OF s1, of a n "newTable n"] plain_newTable CreateTable fine by auto
  next
    case (DeleteTable a n)
    then have "s' = s \<or> map_of s a \<noteq> None \<and> s' = AList.update a (AList.delete n (inner a s)) s"
      using exec by (auto simp: of_error_def deleteTable_def inner_def split: option.splits if_splits)
    then show ?thesis
    proof
      assume s': "map_of s a \<noteq> None \<and> s' = AList.update a (AList.delete n (inner a s)) s"
      then have "utf8 a" using parts(1) utf8_keys_of [of s a] by (auto simp: utf8_nested_def)
      moreover have "lookup2 s' = (lookup2 s)((a, n) := None)"
        using s' by (auto simp: lookup2_def store_simps fun_eq_iff)
      ultimately show ?thesis using s' parts utf8_nested_remove [OF parts(1)] by simp
    qed (simp add: parts)
  next
    case (InsertEntity a n pk rk p)
    then have built: "plainEntity (buildEntity now pk rk p)" using fine plain_buildEntity by simp
    show ?thesis
    proof (cases "lookup2 s (a, n)")
      case None
      then show ?thesis using InsertEntity exec parts by (auto simp: simps insertEntity_def)
    next
      case (Some t)
      have "s' = s \<or> s' = setTable a n (t_put (buildEntity now pk rk p) t) s"
        using InsertEntity exec Some by (auto simp: simps insertEntity_def split: if_splits)
      moreover have "plainTable t" using parts(2) Some by simp
      ultimately show ?thesis using parts(1, 2) put [OF Some plain_t_put [OF _ built]] by (elim disjE) simp_all
    qed
  next
    case (GetEntity a n pk rk)
    then show ?thesis using exec parts by (auto simp: simps)
  next
    case (UpdateEntity a n pk rk p m merge)
    have built: "plainEntity (buildEntity now pk rk q)" for q using UpdateEntity fine plain_buildEntity by simp
    show ?thesis
    proof (cases "lookup2 s (a, n)")
      case None
      then show ?thesis using UpdateEntity exec parts by (auto simp: simps updateEntity_def)
    next
      case (Some t)
      have "s' = s \<or> (\<exists>q. s' = setTable a n (t_put (buildEntity now pk rk q) t) s)"
        using UpdateEntity exec Some by (auto simp: simps updateEntity_def split: option.splits if_splits)
      moreover have "plainTable t" using parts(2) Some by simp
      ultimately show ?thesis using parts(1, 2) put [OF Some plain_t_put [OF _ built]] by (elim disjE exE) simp_all
    qed
  next
    case (DeleteEntity a n pk rk m)
    show ?thesis
    proof (cases "lookup2 s (a, n)")
      case None
      then show ?thesis using DeleteEntity exec parts by (auto simp: simps deleteEntity_def)
    next
      case (Some t)
      then have t: "plainTable t" "table_inv t" using parts by (simp_all add: tables_inv_def)
      have "s' = s \<or> s' = setTable a n (snd (t_delete pk rk t)) s"
        using DeleteEntity exec Some by (auto simp: simps deleteEntity_def split: option.splits)
      then show ?thesis using parts put [OF Some plain_t_delete [OF t]] by auto
    qed
  qed
qed

lemma unsaved_table_exec:
  "table_exec now op s = (r, s') \<Longrightarrow> \<not> tableSaves op r \<Longrightarrow> s' = s"
  by (cases op)
     (auto simp: of_error_def of_entity_def createTable_def deleteTable_def insertEntity_def updateEntity_def deleteEntity_def
       Let_def store_simps split: option.splits sum.splits if_splits)

section \<open>Restarts\<close>

text \<open>What a store holds: the tables by account and name, with their rows.\<close>

definition tables_at :: "time \<Rightarrow> table_store \<Rightarrow> string \<times> string \<Rightarrow> (string \<times> string \<Rightarrow> entity option) option" where
  "tables_at t s = tables_abs s"

interpretation table_file: snapshots table_exec tableSaves tablesWritable jsonTables tables_at plainTables table_fine
  "\<lambda>t c. True"
proof (unfold_locales, goal_cases)
  case (1 s c op r s')
  then show ?case using plain_table_exec [OF 1] table_exec_meets [of s c op r s'] by (simp add: plainTables_def)
next
  case (2 c op s r s' t) then show ?case using unsaved_table_exec [OF 2(1, 2)] by simp
next
  case (3 s) then show ?case by (rule plainTables_writable)
next
  case (4 s) then show ?case by (rule plainTables_json)
next
  case (5 s t)
  have "plainTable x" if "lookup2 s k = Some x" for k x using 5 that by (cases k) (simp add: plainTables_def)
  then show ?case
    by (auto simp: tables_at_def tables_abs_def lookup2_jsonTables [OF 5] fun_eq_iff t_seek_jsonTable option.map_comp
        intro!: option.map_cong0 cong: option.map_cong)
qed

text \<open>C12: Tables survive a restart: a store opened on a data directory runs any operations of clients that send
  UTF-8 text, on a disk that works; a store opened on the same directory afterwards has the same tables
  with the same rows, their properties, timestamps and entity tags, in a state that meets the invariant.\<close>

theorem tables_survive_restart:
  assumes "healthy os" and "rooted root d" and "newTables os root d = Inr st" and "plainTables (st_state st)"
    and "\<forall>(now, op) \<in> set steps. table_fine now op"
  shows "\<exists>st'. newTables os root (st_disk (tablesRun os steps st)) = Inr st' \<and> tables_inv (st_state st') \<and>
    tables_abs (st_state st') = tables_abs (st_state (tablesRun os steps st))"
proof -
  have "plainName ''table''" "plainName ''tables.json''" by (simp_all add: plainName_def)
  from table_file.restart [OF assms(1, 2) this assms(3) [unfolded newTables_def tables_file_calls] assms(4) _ refl, of steps] assms(5)
  show ?thesis unfolding newTables_def tablesRun_def tables_file_calls by (auto simp: tables_at_def plainTables_def)
qed

theorem tables_survive_restart_witness:
  "\<exists>st steps st'. newTables calm_os [''data''] [([''data''], Dir)] = Inr st \<and>
     newTables calm_os [''data''] (st_disk (tablesRun calm_os steps st)) = Inr st' \<and>
     (\<exists>rows e. tables_abs (st_state st') (''acct'', ''t'') = Some rows \<and> rows (''p'', ''r'') = Some e)"
proof -
  define steps :: "(time \<times> table_op) list" where "steps = [(5, CreateTable ''acct'' ''t''), (6, InsertEntity ''acct'' ''t'' ''p'' ''r'' Map.empty)]"
  define st where "st = \<lparr>st_path = [''data'', ''table'', ''tables.json''], st_state = [] :: table_store,
    st_disk = [([''data''], Dir), ([''data'', ''table''], Dir)]\<rparr>"
  have new: "newTables calm_os [''data''] [([''data''], Dir)] = Inr st"
    using calm_open [of "''table''" "''tables.json''"] by (simp add: newTables_def tables_file_calls st_def plainName_def)
  have "fourDigitYear 6" by code_simp
  moreover have "utf8 ''acct''" "utf8 ''t''" "utf8 ''p''" "utf8 ''r''" by (simp_all add: utf8_ascii isAscii_def)
  ultimately have "\<forall>(now, op) \<in> set steps. table_fine now op" by (simp add: steps_def)
  moreover have "plainTables (st_state st)" by (simp add: st_def plainTables_def tables_inv_def lookup2_def)
  ultimately obtain st' where st': "newTables calm_os [''data''] (st_disk (tablesRun calm_os steps st)) = Inr st'"
      "tables_abs (st_state st') = tables_abs (st_state (tablesRun calm_os steps st))"
    using tables_survive_restart [OF calm_os_healthy calm_root new] by blast
  have "\<exists>rows e. tables_abs (st_state (tablesRun calm_os steps st)) (''acct'', ''t'') = Some rows \<and> rows (''p'', ''r'') = Some e"
    by (simp add: tablesRun_def storedRun_def storedStep_def steps_def st_def of_error_def of_entity_def createTable_def
        insertEntity_def table_lookup_eq setTable_def store_simps Let_def tables_abs_def lookup2_def inner_def
        newTable_def t_get_def t_put_def t_seek_def buildEntity_def)
  then show ?thesis using new st' by metis
qed

end
