(* ===== verification/Key_Snapshot.thy ===== *)
theory Key_Snapshot
  imports Snapshot Key_Vault
begin

text \<open>
  Persistence of the secrets: \<open>New\<close>, \<open>load\<close> and \<open>persistLocked\<close> of \<open>internal/stores/keyvaultstore\<close>, the
  operations that write, and that a restart brings back every secret with its history of versions. Dates
  come from clients unchecked, and one whose year has more than four digits cannot be written: while a
  secret has it, no operation on any other secret of any vault is written.
\<close>

section \<open>Documents\<close>

definition jsonSecret :: "secret \<Rightarrow> secret" where
  "jsonSecret sec = sec\<lparr>sec_name := jsonString (sec_name sec), sec_version := jsonString (sec_version sec),
     sec_value := jsonString (sec_value sec), sec_contentType := jsonString (sec_contentType sec),
     sec_tags := jsonMap (sec_tags sec)\<rparr>"

definition jsonEntry :: "secretEntry \<Rightarrow> secretEntry" where
  "jsonEntry e = \<lparr>se_current = jsonString (se_current e), se_order = map jsonString (se_order e),
     se_versions = jsonObject jsonSecret (se_versions e)\<rparr>"

definition jsonVaults :: "vaults \<Rightarrow> vaults" where
  "jsonVaults s = jsonObject (jsonObject jsonEntry) s"

definition secretWritable :: "secret \<Rightarrow> bool" where
  "secretWritable sec \<longleftrightarrow> fourDigitYear (sec_created sec) \<and> fourDigitYear (sec_updated sec) \<and>
     pred_option fourDigitYear (sec_notBefore sec) \<and> pred_option fourDigitYear (sec_expires sec)"

definition vaultsWritable :: "vaults \<Rightarrow> bool" where
  "vaultsWritable s \<longleftrightarrow> list_all (\<lambda>(_, v). list_all (\<lambda>(_, e). list_all (\<lambda>(_, sec). secretWritable sec) (se_versions e)) v) s"

section \<open>The store and its file\<close>

definition loadVaults :: "os \<Rightarrow> path \<Rightarrow> vaults snapshot disk \<Rightarrow> vaults \<Rightarrow> string + vaults" where
  "loadVaults os p d s = loadSnapshot ''keyvaultstore'' os p d s"

definition persistVaults :: "os \<Rightarrow> path \<Rightarrow> vaults \<Rightarrow> vaults snapshot disk \<Rightarrow> vaults snapshot disk" where
  "persistVaults os p s d = persistSnapshot vaultsWritable jsonVaults os p s d"

definition newVaults :: "os \<Rightarrow> path \<Rightarrow> vaults snapshot disk \<Rightarrow> string + vaults stored" where
  "newVaults os root d = openSnapshot loadVaults ''keyvaultstore'' ''keyvault'' ''secrets.json'' [] os root d"

text \<open>The operations that call \<open>persistLocked\<close>: those that change a secret and succeed.\<close>

fun vaultSaves :: "vault_op \<Rightarrow> vault_result \<Rightarrow> bool" where
  "vaultSaves (GetSecret _ _ _) r = False"
| "vaultSaves (ListSecrets _) r = False"
| "vaultSaves (ListVersions _ _) r = False"
| "vaultSaves _ r = (case r of VError _ \<Rightarrow> False | _ \<Rightarrow> True)"

text \<open>The clock and the random bytes of an operation.\<close>

definition drawn_exec :: "time \<times> bytes \<Rightarrow> vault_op \<Rightarrow> vaults \<Rightarrow> vault_result \<times> vaults" where
  "drawn_exec c op s = vault_exec (fst c) (snd c) op s"

definition vaultsRun :: "os \<Rightarrow> ((time \<times> bytes) \<times> vault_op) list \<Rightarrow> vaults stored \<Rightarrow> vaults stored" where
  "vaultsRun os steps st = storedRun drawn_exec vaultSaves persistVaults os steps st"

lemma vaults_file_calls:
  "loadVaults = loadSnapshot ''keyvaultstore''" "persistVaults = persistSnapshot vaultsWritable jsonVaults"
  by (simp_all add: loadVaults_def persistVaults_def fun_eq_iff)

section \<open>States and requests without surprises\<close>

definition plainSecret :: "secret \<Rightarrow> bool" where
  "plainSecret sec \<longleftrightarrow> utf8 (sec_name sec) \<and> utf8 (sec_version sec) \<and> utf8 (sec_value sec) \<and>
     utf8 (sec_contentType sec) \<and> jsonMap (sec_tags sec) = sec_tags sec \<and> secretWritable sec"

definition plainEntry :: "secretEntry \<Rightarrow> bool" where
  "plainEntry e \<longleftrightarrow> utf8 (se_current e) \<and> (\<forall>v \<in> set (se_order e). utf8 v) \<and> distinct_keys (se_versions e) \<and>
     utf8_keys (se_versions e) \<and> (\<forall>(v, sec) \<in> set (se_versions e). plainSecret sec)"

definition plainVaults :: "vaults \<Rightarrow> bool" where
  "plainVaults s \<longleftrightarrow> utf8_nested s \<and> (\<forall>k e. lookup2 s k = Some e \<longrightarrow> plainEntry e)"

definition plainAttributes :: "attributes \<Rightarrow> bool" where
  "plainAttributes a \<longleftrightarrow> pred_option fourDigitYear (at_notBefore a) \<and> pred_option fourDigitYear (at_expires a)"

definition plainTags :: "(string \<times> string) list option \<Rightarrow> bool" where
  "plainTags tags \<longleftrightarrow> pred_option (\<lambda>t. jsonMap t = t) tags"

text \<open>A request in UTF-8, its tags listed in key order, with dates whose years have four digits.\<close>

fun vault_fine :: "time \<times> bytes \<Rightarrow> vault_op \<Rightarrow> bool" where
  "vault_fine c (SetSecret h n x ct tags attrs) =
     (utf8 h \<and> utf8 n \<and> utf8 x \<and> utf8 ct \<and> plainTags tags \<and> plainAttributes attrs \<and> fourDigitYear (fst c))"
| "vault_fine c (UpdateSecret h n v ct tags attrs) =
     (pred_option utf8 ct \<and> plainTags tags \<and> plainAttributes attrs \<and> fourDigitYear (fst c))"
| "vault_fine c _ = True"

text \<open>What operations see of a vault: of each secret, the order and the contents of its versions.\<close>

definition vaults_at :: "time \<Rightarrow> vaults \<Rightarrow> string \<times> string \<Rightarrow> (string \<times> string list \<times> (string \<Rightarrow> secret option)) option" where
  "vaults_at t s k = map_option (\<lambda>e. (se_current e, se_order e, map_of (se_versions e))) (lookup2 s k)"

section \<open>Documents keep plain states\<close>

lemma jsonSecret_plain: "plainSecret sec \<Longrightarrow> jsonSecret sec = sec"
  by (simp add: plainSecret_def jsonSecret_def utf8_def)

lemma jsonEntry_plain:
  assumes "plainEntry e"
  shows "se_current (jsonEntry e) = se_current e" and "se_order (jsonEntry e) = se_order e"
    and "map_of (se_versions (jsonEntry e)) = map_of (se_versions e)" and "plainEntry (jsonEntry e)"
proof -
  have keys: "distinct_keys (se_versions e)" "utf8_keys (se_versions e)" using assms by (simp_all add: plainEntry_def)
  have same: "(\<lambda>(k, v). (k, jsonSecret v)) ` set (se_versions e) = id ` set (se_versions e)"
    using assms jsonSecret_plain by (intro image_cong) (auto simp: plainEntry_def)
  show current: "se_current (jsonEntry e) = se_current e" and order: "se_order (jsonEntry e) = se_order e"
    using assms by (simp_all add: jsonEntry_def plainEntry_def utf8_def map_idI)
  have "map_of (jsonObject jsonSecret (se_versions e)) v = map_of (se_versions e) v" for v
    using map_of_jsonObject [OF keys, of jsonSecret v] assms jsonSecret_plain
    by (cases "map_of (se_versions e) v") (auto simp: plainEntry_def dest!: map_of_SomeD)
  then show "map_of (se_versions (jsonEntry e)) = map_of (se_versions e)" by (simp add: jsonEntry_def fun_eq_iff)
  have "set (se_versions (jsonEntry e)) = set (se_versions e)"
    using set_jsonObject [OF keys, of jsonSecret] same by (simp add: jsonEntry_def)
  then show "plainEntry (jsonEntry e)"
    using assms jsonObject_keys [OF keys, of jsonSecret] current order
    by (simp add: plainEntry_def) (simp add: jsonEntry_def)
qed

lemma lookup2_jsonVaults: "plainVaults s \<Longrightarrow> lookup2 (jsonVaults s) k = map_option jsonEntry (lookup2 s k)"
  by (simp add: plainVaults_def jsonVaults_def lookup2_jsonObject)

lemma plainVaults_json: "plainVaults s \<Longrightarrow> plainVaults (jsonVaults s)"
  using lookup2_jsonVaults [of s] jsonEntry_plain(4)
  by (auto simp: plainVaults_def) (simp add: jsonVaults_def utf8_nested_jsonObject)

lemma vaults_at_json:
  assumes "plainVaults s"
  shows "vaults_at t (jsonVaults s) = vaults_at t s"
proof
  fix k
  show "vaults_at t (jsonVaults s) k = vaults_at t s k"
  proof (cases "lookup2 s k")
    case (Some e)
    then have "plainEntry e" using assms by (cases k) (simp add: plainVaults_def)
    then show ?thesis
      using jsonEntry_plain(1-3) [of e] Some by (simp add: vaults_at_def lookup2_jsonVaults [OF assms])
  qed (simp add: vaults_at_def lookup2_jsonVaults [OF assms])
qed

lemma plainVaults_writable:
  assumes "plainVaults s"
  shows "vaultsWritable s"
proof -
  have "plainEntry e" if "(h, v) \<in> set s" "(n, e) \<in> set v" for h v n e
    using assms that nested_member [of s h v n e] by (simp add: plainVaults_def utf8_nested_def)
  then show ?thesis
    by (fastforce simp: vaultsWritable_def list_all_iff plainEntry_def plainSecret_def)
qed

section \<open>Operations keep states plain\<close>

lemma plain_vaults_put:
  "plainVaults s \<Longrightarrow> utf8 h \<Longrightarrow> utf8 n \<Longrightarrow> plainEntry e \<Longrightarrow> plainVaults (update2 (h, n) e s)"
  by (auto simp: plainVaults_def utf8_nested_update2 store_simps split: if_splits)

lemma plain_versions:
  assumes "plainEntry e" and "utf8 v" and "plainSecret sec"
  shows "plainEntry (e\<lparr>se_versions := AList.update v sec (se_versions e)\<rparr>)"
  using assms set_update_subset [of v sec "se_versions e"] by (fastforce simp: plainEntry_def utf8_keys_update)

lemma plain_setSecret:
  assumes "plainVaults s" and "vault_fine (now, rand) (SetSecret h n x ct tags attrs)"
  shows "plainVaults (snd (setSecret now rand h n x ct tags attrs s))"
proof -
  let ?e = "case map_of (inner h s) n of None \<Rightarrow> emptyEntry | Some e \<Rightarrow> e"
  let ?sec = "\<lparr>sec_name = n, sec_version = randomVersion rand, sec_value = x, sec_contentType = ct,
    sec_tags = (case tags of None \<Rightarrow> [] | Some t \<Rightarrow> t), sec_enabled = (case at_enabled attrs of None \<Rightarrow> True | Some b \<Rightarrow> b),
    sec_notBefore = at_notBefore attrs, sec_expires = at_expires attrs, sec_created = now, sec_updated = now\<rparr>"
  have version: "utf8 (randomVersion rand)" by (simp add: randomVersion_def utf8_ascii ascii_hexString)
  have "jsonMap [] = []" by (simp add: jsonMap_def)
  then have sec: "plainSecret ?sec"
    using assms(2) version by (auto simp: plainSecret_def secretWritable_def plainTags_def plainAttributes_def split: option.split)
  have "utf8 []" by (simp add: utf8_ascii isAscii_def)
  then have "plainEntry emptyEntry" by (simp add: emptyEntry_def plainEntry_def utf8_keys_def)
  moreover have "lookup2 s (h, n) = Some e \<Longrightarrow> plainEntry e" for e using assms(1) by (simp add: plainVaults_def)
  ultimately have "plainEntry ?e" by (simp add: lookup2_def split: option.split)
  from plain_versions [OF this version sec]
  have "plainEntry \<lparr>se_current = randomVersion rand, se_order = se_order ?e @ [randomVersion rand],
      se_versions = AList.update (randomVersion rand) ?sec (se_versions ?e)\<rparr>"
    using version by (simp add: plainEntry_def)
  then show ?thesis
    using plain_vaults_put [OF assms(1), of h n] assms(2) by (simp add: setSecret_def Let_def)
qed

lemma plain_amend:
  "plainSecret sec \<Longrightarrow> pred_option utf8 ct \<Longrightarrow> plainTags tags \<Longrightarrow> plainAttributes attrs \<Longrightarrow> fourDigitYear now \<Longrightarrow>
     plainSecret (amend now ct tags attrs sec)"
  by (auto simp: plainSecret_def secretWritable_def amend_def plainTags_def plainAttributes_def split: option.split)

lemma plain_updateSecret:
  assumes "plainVaults s" and "vault_fine (now, rand) (UpdateSecret h n v ct tags attrs)"
  shows "plainVaults (snd (updateSecret now h n v ct tags attrs s))"
proof (cases "lookupLocked h n s")
  case (Inr e)
  then have e: "lookup2 s (h, n) = Some e"
    by (auto simp: lookupLocked_def lookup2_def inner_def split: option.splits if_splits)
  then have plain: "plainEntry e" and names: "utf8 h \<and> utf8 n"
    using assms(1) utf8_known [of s h n e] by (simp_all add: plainVaults_def)
  define u where "u = (if v = [] then se_current e else v)"
  have "plainVaults (update2 (h, n) (e\<lparr>se_versions := AList.update u (amend now ct tags attrs sec) (se_versions e)\<rparr>) s)"
    if sec: "map_of (se_versions e) u = Some sec" for sec
  proof -
    have "utf8 u" using plain utf8_keys_of [OF _ sec] by (simp add: plainEntry_def)
    moreover have "plainSecret sec" using plain map_of_SomeD [OF sec] by (auto simp: plainEntry_def)
    ultimately show ?thesis
      using plain_vaults_put [OF assms(1)] names plain_versions [OF plain] plain_amend assms(2) by simp
  qed
  then show ?thesis
    using assms(1) unfolding updateSecret_def Inr sum.case Let_def u_def [symmetric] by (simp split: option.split)
qed (simp add: updateSecret_def assms)

lemma plain_deleteSecret:
  assumes "plainVaults s"
  shows "plainVaults (snd (deleteSecret h n s))"
proof (cases "lookupLocked h n s")
  case (Inr e)
  then obtain v where v: "map_of s h = Some v"
    by (auto simp: lookupLocked_def split: option.splits)
  then have "h \<in> set (map fst s)" using map_of_SomeD [OF v] by force
  then have deleted: "delete2 (h, n) s = AList.update h (AList.delete n (inner h s)) s" by (simp add: delete2_def)
  have "utf8 h" using assms v utf8_keys_of [of s h v] by (simp add: plainVaults_def utf8_nested_def)
  then have "utf8_nested (delete2 (h, n) s)"
    using assms utf8_nested_remove [of s h n] by (simp add: deleted plainVaults_def)
  then have "plainVaults (delete2 (h, n) s)"
    using assms by (simp add: plainVaults_def store_simps)
  then show ?thesis using assms Inr by (simp add: deleteSecret_def split: sum.split)
qed (simp add: deleteSecret_def assms)

lemma plain_vault_exec:
  assumes plain: "plainVaults s" and fine: "vault_fine c op" and exec: "drawn_exec c op s = (r, s')"
  shows "plainVaults s'"
proof -
  obtain now rand where c: "c = (now, rand)" by (cases c)
  have s': "s' = snd (vault_exec now rand op s)" using exec by (simp add: drawn_exec_def c)
  show ?thesis
  proof (cases op)
    case (SetSecret h n x ct tags attrs)
    then show ?thesis using plain_setSecret [OF plain, of now rand h n x ct tags attrs] fine by (simp add: s' c)
  next
    case (UpdateSecret h n v ct tags attrs)
    then show ?thesis using plain_updateSecret [OF plain, of now rand h n v ct tags attrs] fine by (simp add: s' c)
  next
    case (DeleteSecret h n)
    then show ?thesis using plain_deleteSecret [OF plain, of h n] by (simp add: s')
  qed (simp_all add: s' plain)
qed

lemma unsaved_vault_exec: "drawn_exec c op s = (r, s') \<Longrightarrow> \<not> vaultSaves op r \<Longrightarrow> s' = s"
  by (cases op)
     (auto simp: drawn_exec_def v_result_def updateSecret_def deleteSecret_def Let_def apfst_def map_prod_def
       split: prod.splits sum.splits option.splits)

interpretation vault_file: snapshots drawn_exec vaultSaves vaultsWritable jsonVaults vaults_at plainVaults vault_fine
  "\<lambda>t c. True"
proof (unfold_locales, goal_cases)
  case (1 s c op r s') then show ?case by (rule plain_vault_exec)
next
  case (2 c op s r s' t) then show ?case using unsaved_vault_exec [OF 2(1, 2)] by simp
next
  case (3 s) then show ?case by (rule plainVaults_writable)
next
  case (4 s) then show ?case by (rule plainVaults_json)
next
  case (5 s t) then show ?case by (rule vaults_at_json)
qed

section \<open>Restarts\<close>

text \<open>What is seen of a store decides its histories and, of states that can be written, the invariant.\<close>

lemma abs_of_view: "vaults_at t s = vaults_at t s' \<Longrightarrow> vaults_abs s = vaults_abs s'"
proof
  fix k
  assume "vaults_at t s = vaults_at t s'"
  then have "vaults_at t s k = vaults_at t s' k" by simp
  then show "vaults_abs s k = vaults_abs s' k"
    by (auto simp: vaults_at_def vaults_abs_def history_def map_option_case split: option.splits)
qed

lemma inv_of_view:
  assumes view: "vaults_at t s = vaults_at t s'" and "plainVaults s" and "vaults_inv s'"
  shows "vaults_inv s"
proof -
  have "entry_inv n e" if e: "lookup2 s (h, n) = Some e" for h n e
  proof -
    have "vaults_at t s' (h, n) = Some (se_current e, se_order e, map_of (se_versions e))"
      using e by (simp add: view [symmetric] vaults_at_def)
    then obtain e' where e': "lookup2 s' (h, n) = Some e'" "se_current e' = se_current e" "se_order e' = se_order e"
        "map_of (se_versions e') = map_of (se_versions e)"
      by (auto simp: vaults_at_def)
    have inv: "entry_inv n e'" using assms(3) e'(1) by (simp add: vaults_inv_def)
    have keys: "distinct_keys (se_versions e)" "distinct_keys (se_versions e')"
      using assms(2) e inv by (simp_all add: plainVaults_def plainEntry_def entry_inv_def)
    then have same: "set (se_versions e) = set (se_versions e')"
      using e'(4) by (auto simp: map_of_in_set [symmetric])
    then have "set (map fst (se_versions e)) = set (map fst (se_versions e'))" by simp
    then show ?thesis using inv keys same e'(2, 3) by (auto simp: entry_inv_def)
  qed
  then show ?thesis using assms(2) by (simp add: vaults_inv_def plainVaults_def utf8_nested_def)
qed

text \<open>C30: Secrets survive a restart: a store opened on a data directory runs any operations of clients that send
  UTF-8 text and dates before the year 10000, on a disk that works; a store opened on the same directory
  afterwards has the same secrets with the same history of versions, and meets the invariant if the other did.\<close>

theorem secrets_survive_restart:
  assumes "healthy os" and "rooted root d" and "newVaults os root d = Inr st" and "plainVaults (st_state st)"
    and "\<forall>(c, op) \<in> set steps. vault_fine c op"
  shows "\<exists>st'. newVaults os root (st_disk (vaultsRun os steps st)) = Inr st' \<and>
    vaults_abs (st_state st') = vaults_abs (st_state (vaultsRun os steps st)) \<and>
    (vaults_inv (st_state (vaultsRun os steps st)) \<longrightarrow> vaults_inv (st_state st'))"
proof -
  have "plainName ''keyvault''" "plainName ''secrets.json''" by (simp_all add: plainName_def)
  from vault_file.restart [OF assms(1, 2) this assms(3) [unfolded newVaults_def vaults_file_calls] assms(4) _ refl, of steps 0] assms(5)
  obtain st' where st': "newVaults os root (st_disk (vaultsRun os steps st)) = Inr st'" "plainVaults (st_state st')"
      "vaults_at 0 (st_state st') = vaults_at 0 (st_state (vaultsRun os steps st))"
    unfolding newVaults_def vaultsRun_def vaults_file_calls by auto
  then show ?thesis using abs_of_view [OF st'(3)] inv_of_view [OF st'(3, 2)] by blast
qed

definition noAttributes :: attributes where
  "noAttributes = \<lparr>at_enabled = None, at_notBefore = None, at_expires = None\<rparr>"

definition emptyVaults :: "vaults stored" where
  "emptyVaults = \<lparr>st_path = [''data'', ''keyvault'', ''secrets.json''], st_state = [],
     st_disk = [([''data''], Dir), ([''data'', ''keyvault''], Dir)]\<rparr>"

lemma emptyVaults_open: "newVaults calm_os [''data''] [([''data''], Dir)] = Inr emptyVaults"
  using calm_open [of "''keyvault''" "''secrets.json''"] by (simp add: newVaults_def vaults_file_calls emptyVaults_def plainName_def)

theorem secrets_survive_restart_witness:
  "\<exists>steps st'. newVaults calm_os [''data''] (st_disk (vaultsRun calm_os steps emptyVaults)) = Inr st' \<and>
     (\<exists>sec. vaults_abs (st_state st') (''vault'', ''db'') = Some [sec] \<and> sec_value sec = ''pw'')"
proof -
  define steps where "steps = [((5 :: time, [1] :: bytes), SetSecret ''vault'' ''db'' ''pw'' [] None noAttributes)]"
  have "fourDigitYear 5" by code_simp
  moreover have "utf8 ''vault''" "utf8 ''db''" "utf8 ''pw''" "utf8 []" by (simp_all add: utf8_ascii isAscii_def)
  ultimately have "\<forall>(c, op) \<in> set steps. vault_fine c op"
    by (simp add: steps_def plainTags_def plainAttributes_def noAttributes_def)
  moreover have "plainVaults (st_state emptyVaults)" by (simp add: emptyVaults_def plainVaults_def lookup2_def)
  ultimately obtain st' where st': "newVaults calm_os [''data''] (st_disk (vaultsRun calm_os steps emptyVaults)) = Inr st'"
      "vaults_abs (st_state st') = vaults_abs (st_state (vaultsRun calm_os steps emptyVaults))"
    using secrets_survive_restart [OF calm_os_healthy calm_root emptyVaults_open] by blast
  have "\<exists>sec. vaults_abs (st_state (vaultsRun calm_os steps emptyVaults)) (''vault'', ''db'') = Some [sec] \<and> sec_value sec = ''pw''"
    by (simp add: vaultsRun_def storedRun_def storedStep_def steps_def emptyVaults_def drawn_exec_def setSecret_def
        Let_def vaults_abs_def history_def store_simps emptyEntry_def)
  then show ?thesis using st' by metis
qed

section \<open>Dates that cannot be written\<close>

fun secret_of :: "vault_op \<Rightarrow> string \<times> string" where
  "secret_of (SetSecret h n _ _ _ _) = (h, n)"
| "secret_of (GetSecret h n _) = (h, n)"
| "secret_of (UpdateSecret h n _ _ _ _) = (h, n)"
| "secret_of (DeleteSecret h n) = (h, n)"
| "secret_of (ListSecrets h) = (h, [])"
| "secret_of (ListVersions h n) = (h, n)"

lemma vault_exec_other:
  assumes "k \<noteq> secret_of op"
  shows "lookup2 (snd (drawn_exec c op s)) k = lookup2 s k"
  using assms
  by (cases op)
     (auto simp: drawn_exec_def setSecret_def updateSecret_def deleteSecret_def Let_def store_simps
       split: sum.splits option.splits)

text \<open>C31: While a secret has a version with a date whose year has not four digits, nothing that is done to other
  secrets of any vault reaches the disk, on any disk: the operations succeed, and a restart forgets them.\<close>

theorem far_date_stops_writes:
  assumes "lookup2 (st_state st) k = Some e" and "(v, sec) \<in> set (se_versions e)" and "\<not> secretWritable sec"
    and "\<forall>(c, op) \<in> set steps. secret_of op \<noteq> k"
  shows "st_disk (vaultsRun os steps st) = st_disk st"
  using assms(1, 4)
proof (induction steps arbitrary: st)
  case (Cons x steps)
  obtain c op where x: "x = (c, op)" by (cases x)
  obtain r s' where exec: "drawn_exec c op (st_state st) = (r, s')" by fastforce
  define st1 where "st1 = storedStep drawn_exec vaultSaves persistVaults os (c, op) st"
  have k: "lookup2 s' k = Some e"
    using vault_exec_other [of k op c "st_state st"] Cons.prems by (auto simp: x exec)
  obtain h n where hn: "k = (h, n)" by (cases k)
  then obtain m where m: "map_of s' h = Some m" "map_of m n = Some e"
    using k by (auto simp: lookup2_def inner_def split: option.splits)
  have "\<not> vaultsWritable s'"
    using map_of_SomeD [OF m(1)] map_of_SomeD [OF m(2)] assms(2, 3) by (fastforce simp: vaultsWritable_def list_all_iff)
  then have "st_disk st1 = st_disk st" "st_state st1 = s'"
    by (simp_all add: st1_def storedStep_def exec persistVaults_def persistSnapshot_def)
  moreover have "st_disk (vaultsRun os steps st1) = st_disk st1"
    using Cons.IH [of st1] Cons.prems k calculation(2) by simp
  ultimately show ?case by (simp add: vaultsRun_def storedRun_def x st1_def)
qed (simp add: vaultsRun_def storedRun_def)

text \<open>The first moment of the year 10000 is such a date.\<close>

lemma year_10000: "\<not> fourDigitYear (253402300800 * second)"
  by code_simp

theorem far_date_stops_writes_witness:
  "\<exists>st steps sec. vaults_abs (st_state (vaultsRun calm_os steps st)) (''vault'', ''b'') = Some [sec] \<and>
     st_disk (vaultsRun calm_os steps st) = st_disk st"
proof -
  define far where "far = noAttributes\<lparr>at_expires := Some (253402300800 * second)\<rparr>"
  define st where "st = emptyVaults\<lparr>st_state := snd (setSecret 5 [1] ''vault'' ''a'' ''x'' [] None far [])\<rparr>"
  define steps where "steps = [((6 :: time, [2] :: bytes), SetSecret ''vault'' ''b'' ''y'' [] None noAttributes)]"
  obtain e v sec where "lookup2 (st_state st) (''vault'', ''a'') = Some e" "(v, sec) \<in> set (se_versions e)"
      "sec_expires sec = Some (253402300800 * second)"
    by (simp add: st_def setSecret_def Let_def store_simps far_def emptyEntry_def)
  moreover from this(3) have "\<not> secretWritable sec" using year_10000 by (simp add: secretWritable_def)
  moreover have "\<forall>(c, op) \<in> set steps. secret_of op \<noteq> (''vault'', ''a'')" by (simp add: steps_def)
  ultimately have "st_disk (vaultsRun calm_os steps st) = st_disk st" using far_date_stops_writes by blast
  moreover have "\<exists>sec. vaults_abs (st_state (vaultsRun calm_os steps st)) (''vault'', ''b'') = Some [sec]"
    by (simp add: vaultsRun_def storedRun_def storedStep_def steps_def drawn_exec_def st_def setSecret_def Let_def
        vaults_abs_def history_def store_simps emptyEntry_def inner_def update2_def lookup2_def)
  ultimately show ?thesis by blast
qed

end
