(* ===== verification/Spec2Isabelle.thy ===== *)
theory Spec2Isabelle
  imports Sb_Panics Sb_Delivery Queue_Server Event_Server Key_Server Table_Server Blob_Http Blob_Listing Monitor_Spec Arm_Spec Pubsub_Spec Aad_Spec Localaz Queue_Snapshot Table_Snapshot Key_Snapshot
begin

text \<open>
  A verification development for localaz, an emulator of Azure services in one Go process. The process
  serves each service on a listener of its own; a service is an HTTP (or AMQP) front end, a package
  under \<open>internal/servers\<close>, over a store, a package under \<open>internal/stores\<close>. The front end parses
  requests and renders answers; the store keeps the state under one mutex. Every store method holds the
  mutex for its whole body, so it is one step on the state and concurrency is interleaving of whole
  operations; the Service Bus, whose connections run goroutines that wait for each other, is modelled as
  a step relation instead.

  Parts and theories, in the order of the dependencies:

  \<^item> \<open>Prelude\<close>, \<open>Go_Strings\<close>, \<open>Go_Maps\<close>, \<open>Go_Time\<close>, \<open>Go_Float\<close>, \<open>Go_Encoding\<close>, \<open>Go_Json\<close>, \<open>Go_Any\<close>: what the
    source uses of Go's runtime and standard library (fallible results as sums, strings as byte lists,
    maps as association lists with distinct keys or as functions, instants and durations in nanoseconds,
    \<open>strconv\<close> numbers, \<open>encoding/hex\<close>, \<open>base64\<close> and \<open>json\<close>), with the lemmas the components share.
    \<open>Go_Maps\<close> has the locale of a keyed collection, interpreted on each kind of map the stores use.
  \<^item> Service Bus (\<open>sbserver\<close>, \<open>sbstore\<close>). \<open>Amqp_Types\<close>, \<open>Amqp_Encode\<close>, \<open>Amqp_Decode\<close>, \<open>Amqp_Codec\<close>:
    the wire format (\<open>amqptypes.go\<close>, \<open>encode.go\<close>, \<open>decode.go\<close>) and its round trip; \<open>Amqp_Frame\<close>: frames
    (\<open>frame.go\<close>, \<open>helpers.go\<close>); \<open>Broker\<close>: queues, topics, wake-ups (\<open>broker.go\<close>); \<open>Link\<close>: credit and
    reassembly (\<open>link.go\<close>); \<open>Sb_Conn\<close>: the handlers of one connection and the body of its delivery loops
    (\<open>conn.go\<close>, \<open>cbs.go\<close>); \<open>Sb_System\<close>: any number of connections over one broker as a step relation
    (\<open>server.go\<close>), the conservation of messages and the progress of the loops; \<open>Sb_Delivery\<close>: order,
    stopping and loss at a receiver; \<open>Sb_Panics\<close>: which panics can happen.
  \<^item> Table service (\<open>tableserver\<close>, \<open>tablestore\<close>). \<open>Table_Store\<close>: the store and its refinement of a map
    of maps with conditional updates; \<open>Odata_Filter\<close> and \<open>Odata_Grammar\<close>: the filter language
    (\<open>filter_lexer.go\<close>, \<open>filter_parser.go\<close>, \<open>odata.go\<close>) and the grammar its parser decides;
    \<open>Odata_Keys\<close>: keys in paths and filters; \<open>Table_Server\<close>: routing and handlers; \<open>Table_Snapshot\<close>:
    what a restart brings back.
  \<^item> Queue service (\<open>queueserver\<close>, \<open>queuestore\<close>). \<open>Queue_Store\<close>: the operations; \<open>Queue_Spec\<close>: the
    contract and the refinement; \<open>Queue_Lease\<close>: exclusiveness of leases; \<open>Queue_Server\<close>: the front end;
    \<open>Queue_Snapshot\<close>: what a restart brings back.
  \<^item> Blob storage (\<open>blobstore/fsstore\<close>). \<open>Go_Files\<close>: paths, an explicit disk and the calls on it, each of
    which may fail, with \<open>atomicfile.Write\<close>; \<open>Go_Md5\<close>, \<open>Go_Utf8\<close>: digests, and what JSON keeps of a
    string; \<open>Blob_Store\<close>: the operations and the reloading; \<open>Blob_Spec\<close>: the contract, the invariant that
    memory and files agree, the refinement; \<open>Blob_Restart\<close>: durability across restarts and its limits.
    \<open>Blob_Server\<close>: the front end (\<open>blobserver\<close>); \<open>Blob_Http\<close>: ranges, uploads and downloads over HTTP;
    \<open>Blob_Listing\<close>: following the markers of a listing, as a locale with two interpretations.
  \<^item> Event Grid (\<open>egserver\<close>, \<open>egstore\<close>). \<open>Event_Grid\<close>: topics, subscriptions and locks, the
    conservation of events and redelivery; \<open>Event_Server\<close>: the front end.
  \<^item> Key Vault (\<open>kvserver\<close>, \<open>keyvaultstore\<close>). \<open>Key_Vault\<close>: secrets with their versions and the
    refinement; \<open>Key_Server\<close>: the front end; \<open>Key_Snapshot\<close>: what a restart brings back, and dates that
    stop the writing.
  \<^item> \<open>Snapshot\<close>: the JSON files of these three stores: what JSON keeps of maps and times, reading and writing
    the file, and the contract between a store and its file as a locale, interpreted on each store.
  \<^item> Monitor logs (\<open>monitorserver\<close>, \<open>monitorstore\<close>). \<open>Kql\<close>: the query language (\<open>kql.go\<close>,
    \<open>predicate.go\<close>, \<open>comparison.go\<close>, \<open>literal.go\<close>), with \<open>Go_Quote\<close> for \<open>%q\<close> and \<open>strings.Fields\<close>;
    \<open>Kql_Spec\<close>, \<open>Kql_Meaning\<close>: abstract queries, their text, and that evaluating the text is what they
    denote; \<open>Kql_Sort\<close>: sorting by a column; \<open>Monitor\<close>: the store, ingestion and queries over HTTP;
    \<open>Monitor_Spec\<close>: typed answers, uploads seen by queries, and how written times compare.
  \<^item> Resource Manager (\<open>armserver\<close>, \<open>armstore\<close>). \<open>Arm_Store\<close>: resource groups and resources, with their
    contracts; \<open>Arm_Server\<close>: the front end; \<open>Arm_Spec\<close>: resources read back, the bound, panics.
  \<^item> Web PubSub (\<open>wpsserver\<close>). \<open>Pubsub\<close>: hubs, outbound queues, the client protocol, the REST interface;
    \<open>Pubsub_System\<close>: connections, requests and writers as a step relation, and its invariant; \<open>Pubsub_Spec\<close>:
    what a fan-out reaches, when a connection is registered, frames before the greeting, members that are gone.
  \<^item> Entra ID (\<open>aadserver\<close>). \<open>Go_Sha256\<close>: the digest; \<open>Aad\<close>: the signing key and its file, claims, tokens,
    discovery; \<open>Aad_Spec\<close>: what Web PubSub reads from a token, issuers, the key across restarts.
  \<^item> Process (\<open>cmd/localaz\<close>). \<open>Localaz\<close>: flags, addresses, the listeners and their start, the access log,
    the management server and its health check.
  \<^item> \<open>Http\<close>: requests, responses, JSON and XML bodies, Azure errors (\<open>httpx\<close>, \<open>azerr\<close>, \<open>azwire\<close>).

  Correspondence. A struct is a record, a method a definition of the same name on it; where two packages
  use one name for a handler and a store operation the handler is called \<open>handle...\<close>. A returned error
  is the left of a sum, a panic a value of \<open>fault\<close>. The clock, random bytes, and the order in which a Go
  map is ranged over are arguments. A request carries its path, query and headers as parsed by
  \<open>net/http\<close>, and its body as what decoding it yields, with malformed, empty and failing bodies as cases
  of their own.

  Fuel and bounds. Loops over lists recurse on the list. The AMQP reader recurses on elements whose
  number is read from the input; it gets twice the length of the input plus one, and
  \<open>Amqp_Codec.decode_has_fuel\<close> shows that it never runs out. The filter parser gets fuel from the number
  of tokens, and \<open>Odata_Grammar\<close> shows that it never runs out either. Machine integers are words of
  their width in the AMQP code; durations wrap at 64 bits where requests can make them large
  (\<open>Queue_Server\<close>).

  What the lemmas show. Each store: an invariant kept by every operation, and a refinement (tables,
  queues, blobs, secrets) or a conservation law (Service Bus, Event Grid). Each front end: that refused
  requests change nothing, and a round trip or a query seen through HTTP. The codecs and parsers: round
  trips, acceptance of exactly a grammar, bounds. The lemmas on panics, losses, wrap-around and misrouted
  keys state what the code does on inputs it does not guard against.

  Not modelled: the parsing of JSON and XML text, RSA, X.509 and PEM, and the WebSocket handshake, done by
  libraries; inflating \<open>gzip\<close>; making and loading TLS certificates; the text of the log; the wiring in
  \<open>main\<close>. The float parser rounds but does not model the sign of zero.
\<close>

end
